(* ===== verification/Ranex_Prelude.thy ===== *)
theory Ranex_Prelude
  imports Main "HOL-Library.List_Lexorder" "HOL-Library.Char_ord" "HOL-Library.Product_Lexorder"
    "HOL-Library.Multiset"
begin

text \<open>
  Shared vocabulary of the development: the Python values the code exchanges, the exceptions
  it raises, and generic facts about lists, strings and association lists.

  Python strings are represented by the bytes of their UTF-8 encoding, generalised to lone
  surrogates (which \<open>json.loads\<close> accepts and \<open>str.encode\<close> refuses): a HOL \<open>string\<close> is a list of
  bytes. Equality, concatenation, prefix tests and the code-point order that \<open>sorted\<close> uses are
  those of the byte lists. Python bytes objects are the same type, named \<open>bytes\<close>. A JSON value or
  dict is a \<open>pyval\<close>; a dict is an association list in insertion order with distinct keys
  (\<open>wf_val\<close>). A Python float is represented by the text of its \<open>repr\<close>.
\<close>

section \<open>Automation of the development\<close>

named_theorems shape_simps \<open>unfoldings of the type tests on Python values\<close>
named_theorems lookup_simps \<open>rewrite rules for dict lookups and updates\<close>

section \<open>Python values and exceptions\<close>

type_synonym bytes = "char list"

datatype pyval =
    VNone
  | VBool bool
  | VInt int
  | VFloat string
  | VStr string
  | VList "pyval list"
  | VDict "(string \<times> pyval) list"

datatype exn =
    ValueError string
  | TypeError string
  | KeyError string
  | AttributeError string
  | OSError string
  | Refusal string string

type_synonym 'a result = "exn + 'a"

definition bind :: "'a result \<Rightarrow> ('a \<Rightarrow> 'b result) \<Rightarrow> 'b result" where
  "bind m f = (case m of Inl e \<Rightarrow> Inl e | Inr x \<Rightarrow> f x)"

text \<open>A guard that raises: the continuation runs when the guard lets it.\<close>

definition ensure :: "bool \<Rightarrow> exn \<Rightarrow> 'a result \<Rightarrow> 'a result" where
  "ensure b e k = (if b then k else Inl e)"

text \<open>A \<open>for\<close> loop whose body only checks and raises.\<close>

fun for_each :: "('a \<Rightarrow> unit result) \<Rightarrow> 'a list \<Rightarrow> unit result" where
  "for_each f [] = Inr ()"
| "for_each f (x # xs) = (case f x of Inl e \<Rightarrow> Inl e | Inr _ \<Rightarrow> for_each f xs)"

text \<open>A list comprehension whose element expression may raise.\<close>

fun map_result :: "('a \<Rightarrow> 'b result) \<Rightarrow> 'a list \<Rightarrow> 'b list result" where
  "map_result f [] = Inr []"
| "map_result f (x # xs) =
     (case f x of Inl e \<Rightarrow> Inl e
      | Inr y \<Rightarrow> (case map_result f xs of Inl e \<Rightarrow> Inl e | Inr ys \<Rightarrow> Inr (y # ys)))"

definition is_ok :: "'a result \<Rightarrow> bool" where
  "is_ok r = (case r of Inl _ \<Rightarrow> False | Inr _ \<Rightarrow> True)"

subsection \<open>isinstance tests\<close>

fun is_str :: "pyval \<Rightarrow> bool" where
  "is_str (VStr _) = True" | "is_str _ = False"

fun is_bool :: "pyval \<Rightarrow> bool" where
  "is_bool (VBool _) = True" | "is_bool _ = False"

text \<open>\<open>isinstance(v, int) and not isinstance(v, bool)\<close>, which is also \<open>type(v) is int\<close>.\<close>

fun is_int :: "pyval \<Rightarrow> bool" where
  "is_int (VInt _) = True" | "is_int _ = False"

fun is_list :: "pyval \<Rightarrow> bool" where
  "is_list (VList _) = True" | "is_list _ = False"

fun is_dict :: "pyval \<Rightarrow> bool" where
  "is_dict (VDict _) = True" | "is_dict _ = False"

fun str_of :: "pyval \<Rightarrow> string" where
  "str_of (VStr s) = s" | "str_of _ = []"

fun int_of :: "pyval \<Rightarrow> int" where
  "int_of (VInt i) = i" | "int_of _ = 0"

fun bool_of :: "pyval \<Rightarrow> bool" where
  "bool_of (VBool b) = b" | "bool_of _ = False"

fun items_of :: "pyval \<Rightarrow> pyval list" where
  "items_of (VList xs) = xs" | "items_of _ = []"

fun dict_of :: "pyval \<Rightarrow> (string \<times> pyval) list" where
  "dict_of (VDict d) = d" | "dict_of _ = []"

text \<open>A non-empty \<open>str\<close>: \<open>isinstance(v, str) and v\<close>.\<close>

definition is_text :: "pyval \<Rightarrow> bool" where
  "is_text v \<longleftrightarrow> is_str v \<and> str_of v \<noteq> []"

definition opt_str :: "string option \<Rightarrow> pyval" where
  "opt_str o' = (case o' of None \<Rightarrow> VNone | Some s \<Rightarrow> VStr s)"

definition str_list :: "string list \<Rightarrow> pyval" where
  "str_list xs = VList (map VStr xs)"

subsection \<open>Dictionaries\<close>

text \<open>
  \<open>record.get(k)\<close> (absent keys and non-dicts read \<open>None\<close>; the code calls it on dicts), and
  \<open>record[k]\<close> at the places where the key set has been checked before.
\<close>

definition fld :: "pyval \<Rightarrow> string \<Rightarrow> pyval" where
  "fld v k = (case map_of (dict_of v) k of None \<Rightarrow> VNone | Some x \<Rightarrow> x)"

definition keys :: "pyval \<Rightarrow> string list" where
  "keys v = map fst (dict_of v)"

definition has_key :: "pyval \<Rightarrow> string \<Rightarrow> bool" where
  "has_key v k \<longleftrightarrow> k \<in> set (keys v)"

text \<open>\<open>set(value) == {...}\<close> for a dict.\<close>

definition closed_keys :: "pyval \<Rightarrow> string list \<Rightarrow> bool" where
  "closed_keys v ks \<longleftrightarrow> is_dict v \<and> set (keys v) = set ks"

text \<open>\<open>d[k] = v\<close>: an existing key keeps its position.\<close>

fun dict_set :: "('k \<times> 'v) list \<Rightarrow> 'k \<Rightarrow> 'v \<Rightarrow> ('k \<times> 'v) list" where
  "dict_set [] k v = [(k, v)]"
| "dict_set ((k', v') # d) k v = (if k' = k then (k, v) # d else (k', v') # dict_set d k v)"

fun wf_val :: "pyval \<Rightarrow> bool" where
  "wf_val (VList xs) = (\<forall>x \<in> set xs. wf_val x)"
| "wf_val (VDict d) = (distinct (map fst d) \<and> (\<forall>p \<in> set d. wf_val (snd p)))"
| "wf_val _ = True"

subsection \<open>Equality\<close>

text \<open>
  Python's \<open>==\<close>: a bool equals the int it is, a float with an integral value (\<open>repr\<close> text ending in
  \<open>.0\<close>) equals that int, \<open>nan\<close> equals nothing, and dicts are compared without regard to order.
\<close>

fun digit_val :: "char \<Rightarrow> int" where
  "digit_val c = int (of_char c) - 48"

definition is_digit :: "char \<Rightarrow> bool" where
  "is_digit c \<longleftrightarrow> (let n = (of_char c :: nat) in 48 \<le> n \<and> n \<le> 57)"

definition nat_of_digits :: "string \<Rightarrow> int" where
  "nat_of_digits s = foldl (\<lambda>a c. 10 * a + digit_val c) 0 s"

definition float_int :: "string \<Rightarrow> int option" where
  "float_int t =
     (let neg = (take 1 t = ''-''); u = (if neg then drop 1 t else t); n = length u - 2 in
      if 2 < length u \<and> drop n u = ''.0'' \<and> list_all is_digit (take n u)
      then Some (if neg then - nat_of_digits (take n u) else nat_of_digits (take n u)) else None)"

fun num_of :: "pyval \<Rightarrow> int option" where
  "num_of (VBool b) = Some (if b then 1 else 0)"
| "num_of (VInt i) = Some i"
| "num_of (VFloat t) = float_int t"
| "num_of _ = None"

function (sequential) py_eq :: "pyval \<Rightarrow> pyval \<Rightarrow> bool"
  and py_eq_list :: "pyval list \<Rightarrow> pyval list \<Rightarrow> bool"
  and py_eq_items :: "(string \<times> pyval) list \<Rightarrow> (string \<times> pyval) list \<Rightarrow> bool"
where
  "py_eq VNone VNone = True"
| "py_eq (VStr a) (VStr b) = (a = b)"
| "py_eq (VList xs) (VList ys) = py_eq_list xs ys"
| "py_eq (VDict d) (VDict e) = (length d = length e \<and> py_eq_items d e)"
| "py_eq (VFloat s) (VFloat t) = ((s = t \<and> s \<noteq> ''nan'') \<or> (float_int s \<noteq> None \<and> float_int s = float_int t))"
| "py_eq a b = (num_of a \<noteq> None \<and> num_of a = num_of b)"
| "py_eq_list [] [] = True"
| "py_eq_list (x # xs) (y # ys) = (py_eq x y \<and> py_eq_list xs ys)"
| "py_eq_list _ _ = False"
| "py_eq_items [] e = True"
| "py_eq_items ((k, v) # d) e =
     (case map_of e k of None \<Rightarrow> False | Some w \<Rightarrow> py_eq v w \<and> py_eq_items d e)"
  by pat_completeness auto
termination
  by (relation "measure (\<lambda>a. case a of Inl (x, _) \<Rightarrow> size x
        | Inr (Inl (xs, _)) \<Rightarrow> size_list size xs
        | Inr (Inr (d, _)) \<Rightarrow> size_list (size_prod (\<lambda>_. 0) size) d)") auto

section \<open>Strings\<close>

definition starts_with :: "string \<Rightarrow> string \<Rightarrow> bool" where
  "starts_with p s \<longleftrightarrow> take (length p) s = p"

definition ends_with :: "string \<Rightarrow> string \<Rightarrow> bool" where
  "ends_with p s \<longleftrightarrow> length p \<le> length s \<and> drop (length s - length p) s = p"

text \<open>\<open>s.removeprefix(p)\<close>.\<close>

definition remove_prefix :: "string \<Rightarrow> string \<Rightarrow> string" where
  "remove_prefix p s = (if starts_with p s then drop (length p) s else s)"

text \<open>\<open>needle in s\<close>.\<close>

fun contains :: "string \<Rightarrow> string \<Rightarrow> bool" where
  "contains p [] = (p = [])"
| "contains p (c # s) = (starts_with p (c # s) \<or> contains p s)"

text \<open>\<open>sep.join(xs)\<close> and \<open>s.split(c)\<close> for a one-character separator.\<close>

fun join :: "string \<Rightarrow> string list \<Rightarrow> string" where
  "join sep [] = []"
| "join sep [x] = x"
| "join sep (x # y # xs) = x @ sep @ join sep (y # xs)"

fun split_on :: "char \<Rightarrow> string \<Rightarrow> string list" where
  "split_on c [] = [[]]"
| "split_on c (x # xs) =
     (if x = c then [] # split_on c xs
      else (case split_on c xs of [] \<Rightarrow> [[x]] | p # ps \<Rightarrow> (x # p) # ps))"

text \<open>
  White space as \<open>str.strip\<close> and \<open>str.isspace\<close> see it: the ASCII blanks and the UTF-8 forms of the
  other Unicode spaces. \<open>blank s\<close> is \<open>not s.strip()\<close>.
\<close>

definition ascii_space :: "char \<Rightarrow> bool" where
  "ascii_space c \<longleftrightarrow>
     (let n = (of_char c :: nat) in (9 \<le> n \<and> n \<le> 13) \<or> (28 \<le> n \<and> n \<le> 32))"

fun blank :: "string \<Rightarrow> bool" where
  "blank [] = True"
| "blank (c # s) =
     (if ascii_space c then blank s
      else (case s of
          [] \<Rightarrow> False
        | d # s' \<Rightarrow>
            if c = CHR 0xC2 \<and> (d = CHR 0x85 \<or> d = CHR 0xA0) then blank s'
            else (case s' of
                [] \<Rightarrow> False
              | e # s'' \<Rightarrow>
                  if (c = CHR 0xE1 \<and> d = CHR 0x9A \<and> e = CHR 0x80)
                   \<or> (c = CHR 0xE2 \<and> d = CHR 0x80 \<and>
                       ((128 \<le> (of_char e :: nat) \<and> (of_char e :: nat) \<le> 138)
                        \<or> e = CHR 0xA8 \<or> e = CHR 0xA9 \<or> e = CHR 0xAF))
                   \<or> (c = CHR 0xE2 \<and> d = CHR 0x81 \<and> e = CHR 0x9F)
                   \<or> (c = CHR 0xE3 \<and> d = CHR 0x80 \<and> e = CHR 0x80)
                  then blank s'' else False)))"

definition is_lower_hex :: "char \<Rightarrow> bool" where
  "is_lower_hex c \<longleftrightarrow>
     (let n = (of_char c :: nat) in (48 \<le> n \<and> n \<le> 57) \<or> (97 \<le> n \<and> n \<le> 102))"

text \<open>The regular expressions \<open>^sha256:[0-9a-f]{64}$\<close> and \<open>(?:sha256:)?[0-9a-f]{64}\Z\<close>, full match.\<close>

definition is_hex64 :: "string \<Rightarrow> bool" where
  "is_hex64 s \<longleftrightarrow> length s = 64 \<and> list_all is_lower_hex s"

definition is_digest :: "string \<Rightarrow> bool" where
  "is_digest s \<longleftrightarrow> starts_with ''sha256:'' s \<and> is_hex64 (drop 7 s)"

definition is_sha256_text :: "string \<Rightarrow> bool" where
  "is_sha256_text s \<longleftrightarrow> is_hex64 s \<or> is_digest s"

subsection \<open>Numbers and reprs as text\<close>

definition digit_char :: "nat \<Rightarrow> char" where
  "digit_char d = char_of (48 + d)"

fun show_nat :: "nat \<Rightarrow> string" where
  "show_nat n = (if n < 10 then [digit_char n] else show_nat (n div 10) @ [digit_char (n mod 10)])"

declare show_nat.simps [simp del]

definition show_int :: "int \<Rightarrow> string" where
  "show_int i = (if i < 0 then CHR ''-'' # show_nat (nat (- i)) else show_nat (nat i))"

definition hex_char :: "nat \<Rightarrow> char" where
  "hex_char d = (if d < 10 then char_of (48 + d) else char_of (87 + d))"

definition hex2 :: "char \<Rightarrow> string" where
  "hex2 c = (let n = of_char c :: nat in [hex_char (n div 16), hex_char (n mod 16)])"

text \<open>\<open>bytes.hex()\<close>.\<close>

definition hex_bytes :: "bytes \<Rightarrow> string" where
  "hex_bytes b = concat (map hex2 b)"

text \<open>
  \<open>repr\<close>, used in messages only. Bytes from 0x80 on are copied, which is what \<open>repr\<close> prints for the
  printable code points.
\<close>

definition repr_char :: "char \<Rightarrow> char \<Rightarrow> string" where
  "repr_char q c =
     (if c = q \<or> c = CHR 0x5C then [CHR 0x5C, c]
      else if c = CHR 0x0A then [CHR 0x5C, CHR ''n'']
      else if c = CHR 0x0D then [CHR 0x5C, CHR ''r'']
      else if c = CHR 0x09 then [CHR 0x5C, CHR ''t'']
      else if (of_char c :: nat) < 32 \<or> (of_char c :: nat) = 127 then [CHR 0x5C, CHR ''x''] @ hex2 c
      else [c])"

definition repr_str :: "string \<Rightarrow> string" where
  "repr_str s =
     (let q = (if CHR 0x27 \<in> set s \<and> CHR 0x22 \<notin> set s then CHR 0x22 else CHR 0x27)
      in [q] @ concat (map (repr_char q) s) @ [q])"

fun py_repr :: "pyval \<Rightarrow> string" where
  "py_repr VNone = ''None''"
| "py_repr (VBool b) = (if b then ''True'' else ''False'')"
| "py_repr (VInt i) = show_int i"
| "py_repr (VFloat t) = t"
| "py_repr (VStr s) = repr_str s"
| "py_repr (VList xs) = ''['' @ join '', '' (map py_repr xs) @ '']''"
| "py_repr (VDict d) =
     ''{'' @ join '', '' (map (\<lambda>p. repr_str (fst p) @ '': '' @ py_repr (snd p)) d) @ ''}''"

text \<open>\<open>str(exc)\<close>; a \<open>KeyError\<close> prints the representation of its key.\<close>

fun exn_text :: "exn \<Rightarrow> string" where
  "exn_text (ValueError m) = m"
| "exn_text (TypeError m) = m"
| "exn_text (KeyError k) = repr_str k"
| "exn_text (AttributeError m) = m"
| "exn_text (OSError m) = m"
| "exn_text (Refusal c m) = c @ '': '' @ m"

section \<open>Shared lemmas\<close>

subsection \<open>Results\<close>

lemma bind_simps [simp]: "bind (Inl e) f = Inl e" "bind (Inr x) f = f x"
  by (simp_all add: bind_def)

lemma bind_Inr_iff: "bind m f = Inr y \<longleftrightarrow> (\<exists>x. m = Inr x \<and> f x = Inr y)"
  by (cases m) auto

lemma ensure_simps [simp]: "ensure True e k = k" "ensure False e k = Inl e"
  by (simp_all add: ensure_def)

lemma ensure_Inr_iff [simp]: "ensure b e k = Inr y \<longleftrightarrow> b \<and> k = Inr y"
  by (simp add: ensure_def)

lemma is_ok_simps [simp]: "is_ok (Inr x)" "\<not> is_ok (Inl e)"
  by (simp_all add: is_ok_def)

lemma is_ok_iff: "is_ok r \<longleftrightarrow> (\<exists>x. r = Inr x)"
  by (cases r) auto

lemma is_ok_ensure [simp]: "is_ok (ensure b e k) \<longleftrightarrow> b \<and> is_ok k"
  by (simp add: ensure_def)

lemma for_each_Inr_iff: "for_each f xs = Inr u \<longleftrightarrow> (\<forall>x \<in> set xs. f x = Inr ())"
  by (induction xs) (auto split: sum.splits)

lemma map_result_Inr_iff:
  "map_result f xs = Inr ys \<longleftrightarrow> list_all2 (\<lambda>x y. f x = Inr y) xs ys"
proof (induction xs arbitrary: ys)
  case Nil
  then show ?case by auto
next
  case (Cons x xs)
  show ?case
    by (cases ys; cases "f x"; cases "map_result f xs") (auto simp: Cons.IH [symmetric])
qed

declare for_each.simps [simp del] map_result.simps [simp del]

subsection \<open>Strings\<close>

lemma starts_with_simps [simp]:
  "starts_with [] s"
  "\<not> starts_with (a # p) []"
  "starts_with (a # p) (b # s) \<longleftrightarrow> b = a \<and> starts_with p s"
  by (auto simp: starts_with_def)

lemma starts_with_append [simp]: "starts_with p (p @ s)"
  by (simp add: starts_with_def)

lemma starts_withD: "starts_with p s \<Longrightarrow> s = p @ drop (length p) s"
  unfolding starts_with_def by (metis append_take_drop_id)

lemma join_append_single: "xs \<noteq> [] \<Longrightarrow> join sep (x # xs) = x @ sep @ join sep xs"
  by (cases xs) auto

lemma split_on_ne [simp]: "split_on c s \<noteq> []"
  by (induction c s rule: split_on.induct) (auto split: list.splits)

lemma join_split_on [simp]: "join [c] (split_on c s) = s"
proof (induction c s rule: split_on.induct)
  case (2 c x xs)
  then show ?case
    by (cases "split_on c xs"; cases "tl (split_on c xs)") (auto simp: join_append_single)
qed simp

subsection \<open>Dictionaries\<close>

lemma map_of_dict_set [lookup_simps]: "map_of (dict_set d k v) = (map_of d)(k \<mapsto> v)"
  by (induction d k v rule: dict_set.induct) (auto simp: fun_eq_iff)

lemma set_keys_dict_set [lookup_simps]: "fst ` set (dict_set d k v) = insert k (fst ` set d)"
  by (induction d k v rule: dict_set.induct) auto

lemma distinct_dict_set: "distinct (map fst d) \<Longrightarrow> distinct (map fst (dict_set d k v))"
proof (induction d k v rule: dict_set.induct)
  case (2 k' v' d k v)
  then show ?case by (auto simp: set_keys_dict_set)
qed simp

lemma dict_set_fresh: "k \<notin> fst ` set d \<Longrightarrow> dict_set d k v = d @ [(k, v)]"
  by (induction d k v rule: dict_set.induct) auto

lemma closed_keys_has_key: "closed_keys v ks \<Longrightarrow> k \<in> set ks \<Longrightarrow> has_key v k"
  by (simp add: closed_keys_def has_key_def)

lemma closed_keysD: "closed_keys v ks \<Longrightarrow> \<exists>d. v = VDict d \<and> fst ` set d = set ks"
  by (cases v) (auto simp: closed_keys_def keys_def)

lemma fld_VDict [shape_simps]: "fld (VDict d) k = (case map_of d k of None \<Rightarrow> VNone | Some x \<Rightarrow> x)"
  by (simp add: fld_def)

lemma str_list_shape [simp]: "is_list (str_list xs)" "items_of (str_list xs) = map VStr xs"
  by (simp_all add: str_list_def)

lemma str_of_VStr_comp [simp]: "str_of \<circ> VStr = id"
  by auto

lemma fld_in_values: "has_key v k \<Longrightarrow> (k, fld v k) \<in> set (dict_of v)"
  by (auto simp: has_key_def keys_def fld_def map_of_eq_None_iff split: option.splits
      dest: map_of_SomeD)

subsection \<open>Sorted collections\<close>

text \<open>\<open>sorted(set)\<close>: the duplicates go, the order is the one of the type.\<close>

definition sorted_set :: "'a::linorder list \<Rightarrow> 'a list" where
  "sorted_set xs = sort (remdups xs)"

lemma set_sorted_set [simp]: "set (sorted_set xs) = set xs"
  by (simp add: sorted_set_def)

lemma sorted_sorted_set [simp]: "sorted (sorted_set xs)"
  by (simp add: sorted_set_def)

lemma distinct_sorted_set [simp]: "distinct (sorted_set xs)"
  by (simp add: sorted_set_def)

lemma sorted_set_cong: "set xs = set ys \<Longrightarrow> sorted_set xs = sorted_set ys"
  by (rule sorted_distinct_set_unique) simp_all

lemma sorted_set_Nil_iff [simp]: "sorted_set xs = [] \<longleftrightarrow> xs = []"
  by (metis set_empty set_sorted_set)

lemma sort_key_Nil_iff [simp]: "sort_key f xs = [] \<longleftrightarrow> xs = []"
  by (metis length_0_conv length_sort)

lemma no_duplicates_iff: "length xs = length (remdups xs) \<longleftrightarrow> distinct xs"
  by (metis distinct_remdups_id length_remdups_eq distinct_remdups)

lemma two_bools: "1 < length (remdups bs) \<longleftrightarrow> True \<in> set bs \<and> False \<in> set bs"
proof -
  have "set bs = (if True \<in> set bs then {True} else {}) \<union> (if False \<in> set bs then {False} else {})"
  proof (rule set_eqI)
    fix x show "x \<in> set bs \<longleftrightarrow> x \<in> (if True \<in> set bs then {True} else {}) \<union>
        (if False \<in> set bs then {False} else {})"
      by (cases x) auto
  qed
  then have "card (set bs) = card ((if True \<in> set bs then {True} else {}) \<union>
      (if False \<in> set bs then {False} else {}))"
    by (rule arg_cong)
  then show ?thesis by (auto simp: length_remdups_card_conv)
qed

lemma mset_filter_split:
  "mset (filter P xs) + mset (filter (\<lambda>x. (P x \<or> Q x) \<and> \<not> P x) xs) = mset (filter (\<lambda>x. P x \<or> Q x) xs)"
  by (induction xs) auto

lemma sort_mset_cong: "mset xs = mset ys \<Longrightarrow> sort xs = sort ys"
  by (rule properties_for_sort) simp_all

text \<open>\<open>sorted(xs) == xs and len(set(xs)) == len(xs)\<close>: the check the code makes of frozen ID lists.\<close>

definition strictly_sorted :: "'a::linorder list \<Rightarrow> bool" where
  "strictly_sorted xs \<longleftrightarrow> xs = sort xs \<and> length (remdups xs) = length xs"

lemma strictly_sorted_iff: "strictly_sorted xs \<longleftrightarrow> sorted xs \<and> distinct xs"
proof
  assume s: "strictly_sorted xs"
  then have "sorted xs"
    unfolding strictly_sorted_def by (metis sorted_sort)
  moreover have "distinct xs"
    using s unfolding strictly_sorted_def by (metis length_remdups_eq remdups_id_iff_distinct)
  ultimately show "sorted xs \<and> distinct xs" ..
next
  assume "sorted xs \<and> distinct xs"
  then show "strictly_sorted xs"
    unfolding strictly_sorted_def by (simp add: sorted_sort_id distinct_remdups_id)
qed

end
