(* ===== verification/Json.thy ===== *)
theory Json
  imports Ranex_Prelude
begin

text \<open>
  Canonical JSON (\<^verbatim>\<open>src/src/ranex/foundation/canonical.py\<close>) over the part of Python's \<open>json\<close> module the
  code uses: \<open>dumps\<close> with sorted keys, compact separators and raw non-ASCII output, and \<open>loads\<close>.
  The main results: \<open>loads\<close> reads back what \<open>canonical_json\<close> writes, up to the order of dict keys,
  so the canonical text is injective up to that order and canonicalisation is idempotent.
\<close>

section \<open>Writing\<close>

definition json_escape :: "char \<Rightarrow> string" where
  "json_escape c =
     (if c = CHR 0x22 then [CHR 0x5C, CHR 0x22]
      else if c = CHR 0x5C then [CHR 0x5C, CHR 0x5C]
      else if c = CHR 0x0A then [CHR 0x5C, CHR ''n'']
      else if c = CHR 0x0D then [CHR 0x5C, CHR ''r'']
      else if c = CHR 0x09 then [CHR 0x5C, CHR ''t'']
      else if c = CHR 0x0C then [CHR 0x5C, CHR ''f'']
      else if c = CHR 0x08 then [CHR 0x5C, CHR ''b'']
      else if (of_char c :: nat) < 32 then [CHR 0x5C, CHR ''u'', CHR ''0'', CHR ''0''] @ hex2 c
      else [c])"

definition json_str :: "string \<Rightarrow> string" where
  "json_str s = [CHR 0x22] @ concat (map json_escape s) @ [CHR 0x22]"

fun dumps :: "pyval \<Rightarrow> string" where
  "dumps VNone = ''null''"
| "dumps (VBool b) = (if b then ''true'' else ''false'')"
| "dumps (VInt i) = show_int i"
| "dumps (VFloat t) = t"
| "dumps (VStr s) = json_str s"
| "dumps (VList xs) = ''['' @ join '','' (map dumps xs) @ '']''"
| "dumps (VDict d) =
     ''{'' @ join '','' (map (\<lambda>p. json_str (fst p) @ '':'' @ dumps (snd p)) d) @ ''}''"

text \<open>\<open>sort_keys=True\<close>, at every level.\<close>

fun sort_keys :: "pyval \<Rightarrow> pyval" where
  "sort_keys (VList xs) = VList (map sort_keys xs)"
| "sort_keys (VDict d) = VDict (sort_key fst (map (\<lambda>p. (fst p, sort_keys (snd p))) d))"
| "sort_keys v = v"

text \<open>\<open>allow_nan=False\<close>: no \<open>nan\<close> and no infinity anywhere.\<close>

fun finite_val :: "pyval \<Rightarrow> bool" where
  "finite_val (VFloat t) = (t \<notin> {''nan'', ''inf'', ''-inf''})"
| "finite_val (VList xs) = (\<forall>x \<in> set xs. finite_val x)"
| "finite_val (VDict d) = (\<forall>p \<in> set d. finite_val (snd p))"
| "finite_val _ = True"

definition canonical_json :: "pyval \<Rightarrow> string result" where
  "canonical_json v =
     (if finite_val v then Inr (dumps (sort_keys v))
      else Inl (ValueError ''Out of range float values are not JSON compliant''))"

text \<open>\<open>str.encode\<close> refuses a lone surrogate: the bytes 0xED, 0xA0 or above.\<close>

fun has_surrogate :: "string \<Rightarrow> bool" where
  "has_surrogate (c # d # s) =
     ((c = CHR 0xED \<and> 160 \<le> (of_char d :: nat)) \<or> has_surrogate (d # s))"
| "has_surrogate _ = False"

definition canonical_json_bytes :: "pyval \<Rightarrow> bytes result" where
  "canonical_json_bytes v =
     bind (canonical_json v) (\<lambda>s.
     if has_surrogate s then Inl (ValueError ''surrogates not allowed'') else Inr s)"

text \<open>The hash function is an argument: \<open>sha\<close> stands for \<open>hashlib.sha256(data).digest()\<close>.\<close>

definition canonical_sha256 :: "(bytes \<Rightarrow> bytes) \<Rightarrow> pyval \<Rightarrow> string result" where
  "canonical_sha256 sha v = bind (canonical_json_bytes v) (\<lambda>b. Inr (hex_bytes (sha b)))"

definition sha256_text :: "(bytes \<Rightarrow> bytes) \<Rightarrow> pyval \<Rightarrow> string result" where
  "sha256_text sha v = bind (canonical_sha256 sha v) (\<lambda>d. Inr (''sha256:'' @ d))"

definition command_digest :: "(bytes \<Rightarrow> bytes) \<Rightarrow> string list \<Rightarrow> string result" where
  "command_digest sha argv = sha256_text sha (str_list argv)"

section \<open>Reading\<close>

fun skip_ws :: "string \<Rightarrow> string" where
  "skip_ws [] = []"
| "skip_ws (c # s) = (if c \<in> {CHR 0x20, CHR 0x09, CHR 0x0A, CHR 0x0D} then skip_ws s else c # s)"

definition hex_val :: "char \<Rightarrow> nat option" where
  "hex_val c =
     (let n = of_char c :: nat in
      if 48 \<le> n \<and> n \<le> 57 then Some (n - 48)
      else if 97 \<le> n \<and> n \<le> 102 then Some (n - 87)
      else if 65 \<le> n \<and> n \<le> 70 then Some (n - 55) else None)"

fun hex4 :: "string \<Rightarrow> (nat \<times> string) option" where
  "hex4 (a # b # c # d # s) =
     (case (hex_val a, hex_val b, hex_val c, hex_val d) of
        (Some w, Some x, Some y, Some z) \<Rightarrow> Some (4096 * w + 256 * x + 16 * y + z, s)
      | _ \<Rightarrow> None)"
| "hex4 _ = None"

definition utf8_cp :: "nat \<Rightarrow> string" where
  "utf8_cp n =
     (if n < 128 then [char_of n]
      else if n < 2048 then [char_of (192 + n div 64), char_of (128 + n mod 64)]
      else if n < 65536 then
        [char_of (224 + n div 4096), char_of (128 + (n div 64) mod 64), char_of (128 + n mod 64)]
      else [char_of (240 + n div 262144), char_of (128 + (n div 4096) mod 64),
            char_of (128 + (n div 64) mod 64), char_of (128 + n mod 64)])"

text \<open>The code point of a \<open>\u\<close> escape, joining a surrogate pair.\<close>

definition unicode_escape :: "string \<Rightarrow> (string \<times> string) option" where
  "unicode_escape s =
     (case hex4 s of
        None \<Rightarrow> None
      | Some (n, r) \<Rightarrow>
          if 55296 \<le> n \<and> n \<le> 56319 \<and> take 2 r = [CHR 0x5C, CHR ''u''] then
            (case hex4 (drop 2 r) of
               None \<Rightarrow> Some (utf8_cp n, r)
             | Some (m, r') \<Rightarrow>
                 if 56320 \<le> m \<and> m \<le> 57343
                 then Some (utf8_cp (65536 + 1024 * (n - 55296) + (m - 56320)), r')
                 else Some (utf8_cp n, r))
          else Some (utf8_cp n, r))"

definition short_escape :: "char \<Rightarrow> char option" where
  "short_escape c =
     (if c \<in> {CHR 0x22, CHR 0x5C, CHR ''/''} then Some c
      else if c = CHR ''n'' then Some (CHR 0x0A) else if c = CHR ''r'' then Some (CHR 0x0D)
      else if c = CHR ''t'' then Some (CHR 0x09) else if c = CHR ''f'' then Some (CHR 0x0C)
      else if c = CHR ''b'' then Some (CHR 0x08) else None)"

lemma hex4_length: "hex4 s = Some (n, r) \<Longrightarrow> length r < length s"
  by (induction s rule: hex4.induct) (auto split: option.splits)

lemma unicode_escape_length: "unicode_escape s = Some (t, r) \<Longrightarrow> length r < length s"
  unfolding unicode_escape_def
  by (auto split: option.splits if_splits dest!: hex4_length)

text \<open>The body of a string literal, after its opening quote.\<close>

function (sequential) scan_string :: "string \<Rightarrow> (string \<times> string) option" where
  "scan_string [] = None"
| "scan_string (c # s) =
     (if c = CHR 0x22 then Some ([], s)
      else if c = CHR 0x5C then
        (case s of
           [] \<Rightarrow> None
         | e # s' \<Rightarrow>
             if e = CHR ''u'' then
               (case unicode_escape s' of
                  None \<Rightarrow> None
                | Some (t, r) \<Rightarrow> map_option (\<lambda>p. (t @ fst p, snd p)) (scan_string r))
             else
               (case short_escape e of
                  None \<Rightarrow> None
                | Some d \<Rightarrow> map_option (\<lambda>p. (d # fst p, snd p)) (scan_string s')))
      else if (of_char c :: nat) < 32 then None
      else map_option (\<lambda>p. (c # fst p, snd p)) (scan_string s))"
  by pat_completeness auto
termination
  by (relation "measure length") (auto dest: unicode_escape_length)

text \<open>The groups of the number pattern: integer part, fraction and exponent.\<close>

definition int_part :: "string \<Rightarrow> string" where
  "int_part u = (if take 1 u = ''0'' then ''0'' else takeWhile is_digit u)"

definition frac_part :: "string \<Rightarrow> string" where
  "frac_part r =
     (if take 1 r = ''.'' \<and> takeWhile is_digit (drop 1 r) \<noteq> []
      then ''.'' @ takeWhile is_digit (drop 1 r) else [])"

definition exp_part :: "string \<Rightarrow> string" where
  "exp_part r =
     (if take 1 r \<in> {''e'', ''E''} then
        (let sg = (if take 1 (drop 1 r) \<in> {''+'', ''-''} then 2 else 1);
             ed = takeWhile is_digit (drop sg r)
         in if ed = [] then [] else take sg r @ ed)
      else [])"

definition scan_number :: "string \<Rightarrow> (pyval \<times> string) option" where
  "scan_number s =
     (let neg = (take 1 s = ''-''); u = (if neg then drop 1 s else s);
          ip = int_part u; r = drop (length ip) u;
          fp = frac_part r; r2 = drop (length fp) r; ep = exp_part r2
      in if ip = [] then None
         else if fp = [] \<and> ep = []
         then Some (VInt (if neg then - nat_of_digits ip else nat_of_digits ip), r2)
         else Some (VFloat ((if neg then ''-'' else []) @ ip @ fp @ ep), drop (length ep) r2))"

text \<open>
  Values, with fuel: every call consumes a character, so the length of the text is enough
  (\<open>json_loads\<close> supplies more). \<open>scan_array\<close> and \<open>scan_object\<close> start at an element.
\<close>

fun scan_value :: "nat \<Rightarrow> string \<Rightarrow> (pyval \<times> string) option"
  and scan_array :: "nat \<Rightarrow> string \<Rightarrow> (pyval list \<times> string) option"
  and scan_object :: "nat \<Rightarrow> string \<Rightarrow> (string \<times> pyval) list \<Rightarrow> ((string \<times> pyval) list \<times> string) option"
where
  "scan_value 0 s = None"
| "scan_value (Suc n) s =
     (case s of
        [] \<Rightarrow> None
      | c # r \<Rightarrow>
          if c = CHR 0x22 then map_option (\<lambda>p. (VStr (fst p), snd p)) (scan_string r)
          else if c = CHR 0x7B then
            (case skip_ws r of
               [] \<Rightarrow> None
             | d # r' \<Rightarrow> if d = CHR 0x7D then Some (VDict [], r')
                 else map_option (\<lambda>p. (VDict (fst p), snd p)) (scan_object n (d # r') []))
          else if c = CHR 0x5B then
            (case skip_ws r of
               [] \<Rightarrow> None
             | d # r' \<Rightarrow> if d = CHR 0x5D then Some (VList [], r')
                 else map_option (\<lambda>p. (VList (fst p), snd p)) (scan_array n (d # r')))
          else if starts_with ''null'' s then Some (VNone, drop 4 s)
          else if starts_with ''true'' s then Some (VBool True, drop 4 s)
          else if starts_with ''false'' s then Some (VBool False, drop 5 s)
          else if starts_with ''NaN'' s then Some (VFloat ''nan'', drop 3 s)
          else if starts_with ''Infinity'' s then Some (VFloat ''inf'', drop 8 s)
          else if starts_with ''-Infinity'' s then Some (VFloat ''-inf'', drop 9 s)
          else scan_number s)"
| "scan_array 0 s = None"
| "scan_array (Suc n) s =
     (case scan_value n s of
        None \<Rightarrow> None
      | Some (v, r) \<Rightarrow>
          (case skip_ws r of
             [] \<Rightarrow> None
           | c # r' \<Rightarrow>
               if c = CHR 0x5D then Some ([v], r')
               else if c = CHR '','' then
                 map_option (\<lambda>p. (v # fst p, snd p)) (scan_array n (skip_ws r'))
               else None))"
| "scan_object 0 s acc = None"
| "scan_object (Suc n) s acc =
     (case s of
        [] \<Rightarrow> None
      | c # s' \<Rightarrow>
          if c \<noteq> CHR 0x22 then None
          else (case scan_string s' of
             None \<Rightarrow> None
           | Some (k, r) \<Rightarrow>
               (case skip_ws r of
                  [] \<Rightarrow> None
                | d # r' \<Rightarrow>
                    if d \<noteq> CHR '':'' then None
                    else (case scan_value n (skip_ws r') of
                       None \<Rightarrow> None
                     | Some (v, r2) \<Rightarrow>
                         (case skip_ws r2 of
                            [] \<Rightarrow> None
                          | e # r3 \<Rightarrow>
                              if e = CHR 0x7D then Some (dict_set acc k v, r3)
                              else if e = CHR '','' then scan_object n (skip_ws r3) (dict_set acc k v)
                              else None)))))"

definition json_loads :: "string \<Rightarrow> pyval result" where
  "json_loads s =
     (case scan_value (Suc (length s)) (skip_ws s) of
        None \<Rightarrow> Inl (ValueError ''Expecting value'')
      | Some (v, r) \<Rightarrow> if skip_ws r = [] then Inr v else Inl (ValueError ''Extra data''))"

text \<open>
  \<open>json.loads\<close> on bytes decodes first, with \<open>surrogatepass\<close>: the bytes must be well-formed UTF-8
  except that encoded surrogates are let through. (A byte order mark or another encoding is
  outside the model.)
\<close>

definition cont_byte :: "char \<Rightarrow> bool" where
  "cont_byte c \<longleftrightarrow> 128 \<le> (of_char c :: nat) \<and> (of_char c :: nat) < 192"

fun utf8_ok :: "bytes \<Rightarrow> bool" where
  "utf8_ok [] = True"
| "utf8_ok (a # s) =
     (let n = of_char a :: nat in
      if n < 128 then utf8_ok s
      else (case s of
          [] \<Rightarrow> False
        | b # s1 \<Rightarrow>
            cont_byte b \<and>
            (if n < 194 then False
             else if n < 224 then utf8_ok s1
             else (case s1 of
                 [] \<Rightarrow> False
               | c # s2 \<Rightarrow>
                   cont_byte c \<and>
                   (if n < 240 then (n = 224 \<longrightarrow> 160 \<le> (of_char b :: nat)) \<and> utf8_ok s2
                    else (case s2 of
                        [] \<Rightarrow> False
                      | d # s3 \<Rightarrow>
                          cont_byte d \<and> n < 245 \<and> (n = 240 \<longrightarrow> 144 \<le> (of_char b :: nat)) \<and>
                          (n = 244 \<longrightarrow> (of_char b :: nat) < 144) \<and> utf8_ok s3))))))"

definition json_loads_bytes :: "bytes \<Rightarrow> pyval result" where
  "json_loads_bytes raw =
     (if utf8_ok raw then json_loads raw else Inl (ValueError ''invalid UTF-8''))"

section \<open>Reading back what was written\<close>


lemma of_char_less: "(of_char c :: nat) < 256"
  by (metis of_char_mod_256 mod_less_divisor zero_less_numeral)

lemma of_char_div16: "(of_char c :: nat) div 16 < 16"
  using of_char_less [of c] by (simp add: less_mult_imp_div_less)

lemma hex_val_hex_char [simp]: "d < 16 \<Longrightarrow> hex_val (hex_char d) = Some d"
  by (auto simp: hex_char_def hex_val_def Let_def)

lemma unicode_escape_hex2:
  assumes "(of_char c :: nat) < 32"
  shows "unicode_escape (CHR ''0'' # CHR ''0'' # hex2 c @ s) = Some ([c], s)"
proof -
  let ?n = "of_char c :: nat"
  have n: "16 * (?n div 16) + ?n mod 16 = ?n" by simp
  have "?n div 16 < 16" and "?n mod 16 < 16" using assms by auto
  then have "hex4 (CHR ''0'' # CHR ''0'' # hex2 c @ s) = Some (?n, s)"
    using n by (simp add: hex2_def Let_def) (simp add: hex_val_def)
  then show ?thesis using assms by (simp add: unicode_escape_def utf8_cp_def)
qed

lemma scan_json_escape:
  "scan_string (json_escape c @ s) = map_option (\<lambda>p. (c # fst p, snd p)) (scan_string s)"
proof (cases "json_escape c = [c]")
  case True
  then have "c \<noteq> CHR 0x22" "c \<noteq> CHR 0x5C" "\<not> (of_char c :: nat) < 32"
    by (auto simp: json_escape_def split: if_splits)
  with True show ?thesis by simp
next
  case False
  then show ?thesis
    by (auto simp: json_escape_def short_escape_def unicode_escape_hex2 split: if_splits)
qed

lemma scan_json_str: "scan_string (concat (map json_escape s) @ CHR 0x22 # r) = Some (s, r)"
  by (induction s) (auto simp: scan_json_escape)

lemma nat_of_digits_snoc: "nat_of_digits (xs @ [c]) = 10 * nat_of_digits xs + digit_val c"
  by (simp add: nat_of_digits_def)

lemma digit_char_props [simp]:
  assumes "d < 10"
  shows "is_digit (digit_char d)" "digit_val (digit_char d) = int d"
  using assms by (simp_all add: is_digit_def digit_char_def Let_def)

lemma show_nat_digits: "list_all is_digit (show_nat n)"
proof (induction n rule: show_nat.induct)
  case (1 n)
  then show ?case by (subst show_nat.simps) auto
qed

lemma show_nat_value: "nat_of_digits (show_nat n) = int n"
proof (induction n rule: show_nat.induct)
  case (1 n)
  show ?case
  proof (cases "n < 10")
    case True
    then show ?thesis by (subst show_nat.simps) (simp add: nat_of_digits_def del: digit_val.simps)
  next
    case False
    with 1 have "nat_of_digits (show_nat (n div 10)) = int (n div 10)" by simp
    with False show ?thesis
      by (subst show_nat.simps)
        (simp add: nat_of_digits_snoc zdiv_int zmod_int del: digit_val.simps)
  qed
qed

lemma show_nat_ne [simp]: "show_nat n \<noteq> []"
  by (subst show_nat.simps) auto

lemma show_nat_no_zero: "0 < n \<Longrightarrow> take 1 (show_nat n) \<noteq> ''0''"
proof (induction n rule: show_nat.induct)
  case (1 n)
  show ?case
  proof (cases "n < 10")
    case True
    with 1 show ?thesis by (subst show_nat.simps) (simp add: digit_char_def char_of_eq_iff take_bit_eq_mod)
  next
    case False
    with 1 have "take 1 (show_nat (n div 10)) \<noteq> ''0''" by auto
    with False show ?thesis by (subst show_nat.simps) (cases "show_nat (n div 10)"; simp)
  qed
qed

lemma length_show_nat: "0 < k \<Longrightarrow> n < 10 ^ k \<Longrightarrow> length (show_nat n) \<le> k"
proof (induction k arbitrary: n)
  case (Suc k)
  show ?case
  proof (cases "n < 10")
    case True
    then show ?thesis by (simp add: show_nat.simps [of n])
  next
    case False
    then have "0 < k" using Suc.prems by (cases k) auto
    moreover have "n div 10 < 10 ^ k" using Suc.prems by (simp add: div_less_iff_less_mult mult.commute)
    ultimately have "length (show_nat (n div 10)) \<le> k" by (rule Suc.IH)
    then show ?thesis using False by (simp add: show_nat.simps [of n])
  qed
qed simp

lemma show_nat_zero: "show_nat 0 = ''0''"
  by (subst show_nat.simps) (simp add: digit_char_def char_of_eq_iff)

text \<open>What may follow a value in canonical text.\<close>

definition delim :: "string \<Rightarrow> bool" where
  "delim r \<longleftrightarrow> r = [] \<or> hd r \<in> {CHR '','', CHR 0x5D, CHR 0x7D, CHR 0x0A}"

lemma delim_not_number:
  assumes "delim r"
  shows "takeWhile is_digit r = []" "frac_part r = []" "exp_part r = []"
  using assms
  by (cases r; auto simp: delim_def is_digit_def Let_def frac_part_def exp_part_def)+

lemma takeWhile_digits: "list_all is_digit xs \<Longrightarrow> takeWhile is_digit (xs @ r) = xs @ takeWhile is_digit r"
  by (induction xs) auto

lemma int_part_show_nat:
  assumes "delim r"
  shows "int_part (show_nat n @ r) = show_nat n"
proof (cases "n = 0")
  case True
  then show ?thesis by (simp add: show_nat_zero int_part_def)
next
  case False
  then have "take 1 (show_nat n @ r) \<noteq> ''0''"
    using show_nat_no_zero [of n] by (cases "show_nat n") auto
  with assms show ?thesis
    by (simp add: int_part_def takeWhile_digits [OF show_nat_digits] delim_not_number)
qed

lemma show_nat_not_minus: "take 1 (show_nat n @ r) \<noteq> ''-''"
  using show_nat_digits [of n] by (cases "show_nat n") (auto simp: is_digit_def Let_def)

lemma scan_show_int:
  assumes "delim r"
  shows "scan_number (show_int i @ r) = Some (VInt i, r)"
proof (cases "i < 0")
  case True
  then have "show_int i @ r = CHR ''-'' # show_nat (nat (- i)) @ r" by (simp add: show_int_def)
  with True show ?thesis
    by (simp add: scan_number_def Let_def int_part_show_nat [OF assms] delim_not_number [OF assms]
        show_nat_value)
next
  case False
  then have "show_int i @ r = show_nat (nat i) @ r" by (simp add: show_int_def)
  moreover have "(take 1 (show_nat (nat i) @ r) = ''-'') = False"
    using show_nat_not_minus by blast
  ultimately have "scan_number (show_int i @ r) = Some (VInt (nat_of_digits (show_nat (nat i))), r)"
    by (simp only: scan_number_def Let_def if_False int_part_show_nat [OF assms])
      (simp add: delim_not_number [OF assms])
  with False show ?thesis by (simp add: show_nat_value)
qed

text \<open>The values \<open>loads\<close> and \<open>dumps\<close> are inverse on: distinct keys, no floats.\<close>

fun no_float :: "pyval \<Rightarrow> bool" where
  "no_float (VFloat t) = False"
| "no_float (VList xs) = (\<forall>x \<in> set xs. no_float x)"
| "no_float (VDict d) = (\<forall>p \<in> set d. no_float (snd p))"
| "no_float _ = True"

lemma show_nat_Cons: "\<exists>c s. show_nat n = c # s \<and> is_digit c"
  using show_nat_digits [of n] by (cases "show_nat n") auto

lemma is_digit_not:
  "is_digit c \<Longrightarrow> c \<notin> {CHR 0x20, CHR 0x09, CHR 0x0A, CHR 0x0D, CHR 0x5D, CHR ''-'', CHR ''I''}"
  by (auto simp: is_digit_def Let_def)

lemma dumps_Cons:
  assumes "no_float v"
  obtains c s where "dumps v = c # s" "c \<notin> {CHR 0x20, CHR 0x09, CHR 0x0A, CHR 0x0D, CHR 0x5D}"
proof (cases v)
  case (VInt i)
  obtain c s where "show_nat (nat \<bar>i\<bar>) = c # s" "is_digit c" using show_nat_Cons by blast
  with VInt show ?thesis
    using that is_digit_not [of c] by (cases "i < 0") (auto simp: show_int_def)
next
  case (VBool b)
  with that show ?thesis by (cases b) auto
qed (use assms that in \<open>auto simp: json_str_def\<close>)

lemma skip_ws_dumps: "no_float v \<Longrightarrow> skip_ws (dumps v @ r) = dumps v @ r"
  by (erule dumps_Cons) auto

lemma dumps_ne [simp]: "no_float v \<Longrightarrow> dumps v \<noteq> []"
  by (erule dumps_Cons) auto

lemma dumps_int_head:
  assumes "show_int i @ r = c # s"
  shows "is_digit c \<or> c = CHR ''-''"
proof -
  have "show_nat n @ r = c # s \<Longrightarrow> is_digit c" for n
    using show_nat_digits [of n] by (cases "show_nat n") auto
  with assms show ?thesis by (auto simp: show_int_def split: if_splits)
qed

text \<open>An integer is read as a number, not as one of the words.\<close>

lemma int_text_head:
  obtains c s where "show_int i @ r = c # s" "\<not> starts_with ''-Infinity'' (c # s)"
    "c \<notin> {CHR 0x22, CHR 0x7B, CHR 0x5B, CHR ''n'', CHR ''t'', CHR ''f'', CHR ''N'', CHR ''I''}"
proof -
  obtain c s where cs: "show_int i @ r = c # s"
    by (cases "show_int i") (auto simp: show_int_def split: if_splits)
  have c: "is_digit c \<or> c = CHR ''-''" using dumps_int_head [OF cs] .
  have inf: "\<not> starts_with ''-Infinity'' (c # s)"
  proof (cases "i < 0")
    case True
    then have "s = show_nat (nat (- i)) @ r" using cs by (simp add: show_int_def)
    then have "take 1 s \<noteq> ''I''"
      using show_nat_digits [of "nat (- i)"]
      by (cases "show_nat (nat (- i))") (auto simp: is_digit_def Let_def)
    then show ?thesis by (cases s) auto
  next
    case False
    then have "take 1 (c # s) \<noteq> ''-''" using cs show_nat_not_minus by (metis show_int_def)
    then show ?thesis by auto
  qed
  have "c \<notin> {CHR 0x22, CHR 0x7B, CHR 0x5B, CHR ''n'', CHR ''t'', CHR ''f'', CHR ''N'', CHR ''I''}"
    using c by (auto simp: is_digit_def Let_def)
  with cs inf show thesis by (rule that)
qed

lemma scan_value_int:
  assumes "delim r"
  shows "scan_value (Suc n) (show_int i @ r) = Some (VInt i, r)"
proof -
  obtain c s where cs: "show_int i @ r = c # s" "\<not> starts_with ''-Infinity'' (c # s)"
    "c \<notin> {CHR 0x22, CHR 0x7B, CHR 0x5B, CHR ''n'', CHR ''t'', CHR ''f'', CHR ''N'', CHR ''I''}"
    by (rule int_text_head)
  then have "scan_value (Suc n) (c # s) = scan_number (c # s)" by (cases "c = CHR ''-''") simp_all
  then show ?thesis using cs(1) scan_show_int [OF assms] by metis
qed

lemma scan_array_join:
  assumes "xs \<noteq> []"
    and "\<And>x n r. x \<in> set xs \<Longrightarrow> length (dumps x) \<le> n \<Longrightarrow> delim r \<Longrightarrow> scan_value n (dumps x @ r) = Some (x, r)"
    and "\<forall>x \<in> set xs. no_float x"
    and "length (join '','' (map dumps xs)) < n"
  shows "scan_array n (join '','' (map dumps xs) @ CHR 0x5D # r) = Some (xs, r)"
  using assms
proof (induction xs arbitrary: n)
  case Nil
  then show ?case by simp
next
  case (Cons x xs)
  then obtain m where n: "n = Suc m" by (cases n) auto
  show ?case
  proof (cases xs)
    case Nil
    have "scan_value m (dumps x @ CHR 0x5D # r) = Some (x, CHR 0x5D # r)"
      using Cons.prems n Nil by (auto simp: delim_def)
    then show ?thesis using n Nil by simp
  next
    case (Cons y ys)
    let ?rest = "join '','' (map dumps xs) @ CHR 0x5D # r"
    have eq: "join '','' (map dumps (x # xs)) @ CHR 0x5D # r = dumps x @ CHR '','' # ?rest"
      using Cons by simp
    have "scan_value m (dumps x @ CHR '','' # ?rest) = Some (x, CHR '','' # ?rest)"
      using Cons.prems n Cons by (auto simp: delim_def)
    moreover have "skip_ws ?rest = ?rest"
      using Cons Cons.prems(3) skip_ws_dumps [of y] by (cases ys) auto
    moreover have "scan_array m ?rest = Some (xs, r)"
      using Cons Cons.prems n by (intro Cons.IH) auto
    ultimately show ?thesis unfolding eq n by simp
  qed
qed


abbreviation dump_item :: "string \<times> pyval \<Rightarrow> string" where
  "dump_item p \<equiv> json_str (fst p) @ '':'' @ dumps (snd p)"

lemma scan_object_join:
  assumes "d \<noteq> []"
    and "\<And>p n r. p \<in> set d \<Longrightarrow> length (dumps (snd p)) \<le> n \<Longrightarrow> delim r \<Longrightarrow>
           scan_value n (dumps (snd p) @ r) = Some (snd p, r)"
    and "\<forall>p \<in> set d. no_float (snd p)"
    and "distinct (map fst (acc @ d))"
    and "length (join '','' (map dump_item d)) < n"
  shows "scan_object n (join '','' (map dump_item d) @ CHR 0x7D # r) acc = Some (acc @ d, r)"
  using assms
proof (induction d arbitrary: n acc)
  case Nil
  then show ?case by simp
next
  case (Cons p d)
  obtain k v where p: "p = (k, v)" by (cases p)
  from Cons.prems obtain m where n: "n = Suc m" by (cases n) auto
  have fresh: "dict_set acc k v = acc @ [(k, v)]"
    using Cons.prems(4) p by (intro dict_set_fresh) auto
  have nf: "no_float v" using Cons.prems(3) p by simp
  have step: "scan_object n (json_str k @ '':'' @ dumps v @ e # t) acc =
      (if e = CHR 0x7D then Some (acc @ [(k, v)], t)
       else scan_object m (skip_ws t) (acc @ [(k, v)]))"
    if "e \<in> {CHR '','', CHR 0x7D}" "length (dumps v) \<le> m" for e t
  proof -
    have "scan_value m (dumps v @ e # t) = Some (v, e # t)"
      using Cons.prems(2) [of p m "e # t"] that p by (auto simp: delim_def)
    then show ?thesis
      using that nf by (auto simp: n json_str_def scan_json_str skip_ws_dumps fresh)
  qed
  show ?case
  proof (cases d)
    case Nil
    have "length (dumps v) \<le> m" using Cons.prems(5) n p Nil by simp
    from step [OF _ this, of "CHR 0x7D" r] show ?thesis using Nil p by simp
  next
    case (Cons q ds)
    let ?rest = "join '','' (map dump_item d) @ CHR 0x7D # r"
    have eq: "join '','' (map dump_item (p # d)) @ CHR 0x7D # r =
        json_str k @ '':'' @ dumps v @ CHR '','' # ?rest"
      using Cons p by simp
    have len: "length (dumps v) \<le> m" "length (join '','' (map dump_item d)) < m"
      using Cons.prems(5) n p Cons by auto
    have "skip_ws ?rest = ?rest" using Cons by (cases ds) (auto simp: json_str_def)
    moreover have "scan_object m ?rest (acc @ [(k, v)]) = Some ((acc @ [(k, v)]) @ d, r)"
      using Cons.prems Cons p len by (intro Cons.IH) auto
    ultimately show ?thesis unfolding eq using step [OF _ len(1), of "CHR '',''" ?rest] p by simp
  qed
qed

lemma scan_dumps:
  assumes "no_float v" "wf_val v" "length (dumps v) \<le> n" "delim r"
  shows "scan_value n (dumps v @ r) = Some (v, r)"
  using assms
proof (induction v arbitrary: n r rule: pyval.induct)
  case (VList xs)
  then obtain m where n: "n = Suc m" by (cases n) auto
  show ?case
  proof (cases "xs = []")
    case False
    then obtain y ys where xs: "xs = y # ys" by (cases xs) auto
    obtain c s where "dumps y = c # s" "c \<notin> {CHR 0x20, CHR 0x09, CHR 0x0A, CHR 0x0D, CHR 0x5D}"
      using VList.prems(1) xs dumps_Cons [of y] by auto
    then obtain t where head: "join '','' (map dumps xs) = c # t" "c \<noteq> CHR 0x5D"
      "skip_ws (c # t @ CHR 0x5D # r) = c # t @ CHR 0x5D # r"
      using xs by (cases ys) auto
    have "scan_array m (join '','' (map dumps xs) @ CHR 0x5D # r) = Some (xs, r)"
      using VList False n by (intro scan_array_join) auto
    then show ?thesis using n head by simp
  qed (use n in simp)
next
  case (VDict d)
  then obtain m where n: "n = Suc m" by (cases n) auto
  show ?case
  proof (cases d)
    case (Cons q ds)
    have head: "join '','' (map dump_item d) = CHR 0x22 # tl (join '','' (map dump_item d))"
      using Cons by (cases ds) (auto simp: json_str_def)
    have "scan_object m (join '','' (map dump_item d) @ CHR 0x7D # r) [] = Some ([] @ d, r)"
    proof (rule scan_object_join)
      fix p k t
      assume p: "p \<in> set d" and "length (dumps (snd p)) \<le> k" "delim t"
      then show "scan_value k (dumps (snd p) @ t) = Some (snd p, t)"
        using VDict.IH [OF p, of "snd p" k t] VDict.prems(1,2) by (auto simp: prod_set_defs)
    qed (use VDict.prems Cons n in auto)
    then show ?thesis using n head by (cases "join '','' (map dump_item d)") auto
  qed (use n in simp)
next
  case (VInt i)
  obtain m where "n = Suc m"
    using VInt.prems(3) dumps_ne [OF VInt.prems(1)] by (cases n) auto
  then show ?case using scan_value_int [OF VInt.prems(4)] by (metis dumps.simps(3))
next
  case VNone
  then show ?case by (cases n) auto
next
  case (VBool b)
  then show ?case by (cases n; cases b) auto
next
  case (VStr s)
  then show ?case by (cases n) (auto simp: json_str_def scan_json_str)
qed simp


lemma json_loads_dumps:
  assumes "no_float v" "wf_val v"
  shows "json_loads (dumps v) = Inr v"
proof -
  have "scan_value (Suc (length (dumps v))) (dumps v @ []) = Some (v, [])"
    using assms by (intro scan_dumps) (simp_all add: delim_def)
  moreover have "skip_ws (dumps v) = dumps v" using skip_ws_dumps [OF assms(1), of "[]"] by simp
  ultimately show ?thesis by (simp add: json_loads_def del: scan_value.simps)
qed

subsection \<open>Sorting the keys\<close>

lemma no_float_finite: "no_float v \<Longrightarrow> finite_val v"
  by (induction v rule: pyval.induct) (auto simp: prod_set_defs)

lemma no_float_sort_keys: "no_float v \<Longrightarrow> no_float (sort_keys v)"
  by (induction v rule: pyval.induct) (auto simp: prod_set_defs)

lemma finite_val_sort_keys [simp]: "finite_val (sort_keys v) = finite_val v"
proof (induction v rule: pyval.induct)
  case (VDict d)
  then have "\<And>p. p \<in> set d \<Longrightarrow> finite_val (sort_keys (snd p)) = finite_val (snd p)"
    by (auto simp: prod_set_defs)
  then show ?case by auto
qed auto

lemma wf_val_sort_keys: "wf_val v \<Longrightarrow> wf_val (sort_keys v)"
proof (induction v rule: pyval.induct)
  case (VDict d)
  let ?e = "map (\<lambda>p. (fst p, sort_keys (snd p))) d"
  have "distinct (map fst ?e)" using VDict.prems by (simp add: comp_def)
  moreover have "mset (map fst (sort_key fst ?e)) = mset (map fst ?e)"
    by (simp only: mset_map mset_sort)
  ultimately have "distinct (map fst (sort_key fst ?e))"
    using mset_eq_imp_distinct_iff by blast
  then show ?case using VDict by (auto simp: prod_set_defs)
qed auto

lemma sort_key_idem: "sorted (map f xs) \<Longrightarrow> sort_key f xs = xs"
  by (induction xs) (auto simp: insort_is_Cons)

lemma sort_keys_idem [simp]: "sort_keys (sort_keys v) = sort_keys v"
proof (induction v rule: pyval.induct)
  case (VDict d)
  let ?e = "sort_key fst (map (\<lambda>p. (fst p, sort_keys (snd p))) d)"
  have *: "\<And>p. p \<in> set d \<Longrightarrow> sort_keys (sort_keys (snd p)) = sort_keys (snd p)"
    using VDict by (auto simp: prod_set_defs)
  have "map (\<lambda>p. (fst p, sort_keys (snd p))) ?e = ?e"
    by (rule map_idI) (use * in auto)
  then show ?case by (simp add: sort_key_idem)
qed auto

lemma fld_sort_keys:
  assumes "wf_val (VDict d)"
  shows "fld (sort_keys (VDict d)) k = sort_keys (fld (VDict d) k)"
proof -
  let ?e = "map (\<lambda>p. (fst p, sort_keys (snd p))) d"
  have "distinct (map fst ?e)" using assms by (simp add: comp_def)
  moreover then have "distinct (map fst (sort_key fst ?e))"
    unfolding distinct_map by (simp add: distinct_map)
  ultimately have "map_of (sort_key fst ?e) = map_of ?e" by (subst map_of_inject_set) auto
  moreover have "map_of ?e k = map_option sort_keys (map_of d k)" by (induction d) auto
  ultimately show ?thesis by (simp add: fld_def split: option.splits)
qed

lemma canonical_json_sort_keys: "canonical_json (sort_keys v) = canonical_json v"
  by (simp add: canonical_json_def)

lemma json_loads_canonical:
  assumes "canonical_json v = Inr s" "no_float v" "wf_val v"
  shows "json_loads s = Inr (sort_keys v)"
  using assms json_loads_dumps [OF no_float_sort_keys [OF assms(2)] wf_val_sort_keys [OF assms(3)]]
  by (auto simp: canonical_json_def split: if_splits)


text \<open>
  Canonical JSON determines its value up to the order of dict keys: two float-free values with
  the same canonical text are the same value once their keys are sorted. Without this, one digest
  could stand for two records.
\<close>

lemma canonical_json_injective:
  assumes "canonical_json v = Inr s" and "canonical_json w = Inr s"
    and "no_float v" "wf_val v" "no_float w" "wf_val w"
  shows "sort_keys v = sort_keys w"
  using json_loads_canonical [OF assms(1,3,4)] json_loads_canonical [OF assms(2,5,6)] by simp

text \<open>
  What the journal and the evidence file write with \<open>canonical_json\<close>, \<open>json.loads\<close> reads back
  as the same value with sorted keys, and canonicalising that value again gives the same text.
\<close>

lemma canonical_json_roundtrip:
  assumes "no_float v" and "wf_val v"
  shows "\<exists>s. canonical_json v = Inr s \<and> json_loads s = Inr (sort_keys v) \<and>
             canonical_json (sort_keys v) = Inr s"
proof -
  have "canonical_json v = Inr (dumps (sort_keys v))"
    using no_float_finite [OF assms(1)] by (simp add: canonical_json_def)
  then show ?thesis
    using json_loads_canonical [OF _ assms] by (simp add: canonical_json_sort_keys)
qed

lemma hex_char_lower: "d < 16 \<Longrightarrow> is_lower_hex (hex_char d)"
  by (auto simp: is_lower_hex_def hex_char_def Let_def)

lemma hex2_lower: "list_all is_lower_hex (hex2 c)"
proof -
  have "(of_char c :: nat) div 16 < 16" by (rule of_char_div16)
  then show ?thesis by (simp add: hex2_def Let_def hex_char_lower)
qed

lemma hex_bytes_lower: "list_all is_lower_hex (hex_bytes b)"
  by (induction b) (auto simp: hex_bytes_def hex2_lower)

lemma length_hex_bytes [simp]: "length (hex_bytes b) = 2 * length b"
  by (induction b) (auto simp: hex_bytes_def hex2_def Let_def)

lemma hex2_inject: "hex2 a = hex2 b \<longleftrightarrow> a = b"
proof
  assume eq: "hex2 a = hex2 b"
  let ?m = "of_char a :: nat" and ?n = "of_char b :: nat"
  have "?m div 16 < 16" "?n div 16 < 16" by (rule of_char_div16)+
  moreover have "hex_val (hex_char (?m div 16)) = hex_val (hex_char (?n div 16))"
    "hex_val (hex_char (?m mod 16)) = hex_val (hex_char (?n mod 16))"
    using eq by (simp_all add: hex2_def Let_def)
  ultimately have "?m div 16 = ?n div 16" "?m mod 16 = ?n mod 16" by simp_all
  then have "?m = ?n" by (metis div_mult_mod_eq)
  then show "a = b" by simp
qed simp

lemma hex_bytes_inject [simp]: "hex_bytes a = hex_bytes b \<longleftrightarrow> a = b"
proof (induction a arbitrary: b)
  case Nil
  then show ?case by (cases b) (auto simp: hex_bytes_def hex2_def Let_def)
next
  case (Cons x a)
  show ?case
  proof (cases b)
    case Nil
    then show ?thesis by (simp add: hex_bytes_def hex2_def Let_def)
  next
    case (Cons y c)
    have "hex_bytes (x # a) = hex_bytes (y # c) \<longleftrightarrow> hex2 x = hex2 y \<and> hex_bytes a = hex_bytes c"
      by (simp add: hex_bytes_def hex2_def Let_def)
    with Cons Cons.IH show ?thesis by (simp add: hex2_inject)
  qed
qed

lemma sha256_text_Inr:
  "sha256_text sha v = Inr d \<longleftrightarrow>
     (\<exists>b. canonical_json_bytes v = Inr b \<and> d = ''sha256:'' @ hex_bytes (sha b))"
  by (auto simp: sha256_text_def canonical_sha256_def bind_Inr_iff)

lemma sha256_text_digest:
  assumes "sha256_text sha v = Inr d" and "\<And>b. length (sha b) = 32"
  shows "is_digest d"
  using assms by (auto simp: sha256_text_Inr is_digest_def is_hex64_def hex_bytes_lower)

lemma sha256_text_sort_keys: "sha256_text sha (sort_keys v) = sha256_text sha v"
  by (simp add: sha256_text_def canonical_sha256_def canonical_json_bytes_def canonical_json_sort_keys)

lemma canonical_json_bytes_Inr:
  "canonical_json_bytes v = Inr b \<longleftrightarrow> canonical_json v = Inr b \<and> \<not> has_surrogate b"
  by (auto simp: canonical_json_bytes_def bind_Inr_iff)

text \<open>Equal digests of values whose canonical bytes do not collide are digests of one value.\<close>

lemma sha256_text_inject:
  assumes "sha256_text sha v = Inr d" "sha256_text sha w = Inr d"
    and "canonical_json_bytes v = Inr b" "canonical_json_bytes w = Inr c"
    and "inj_on sha {b, c}" and "no_float v" "wf_val v" "no_float w" "wf_val w"
  shows "sort_keys v = sort_keys w"
proof -
  have "d = ''sha256:'' @ hex_bytes (sha b)" "d = ''sha256:'' @ hex_bytes (sha c)"
    using assms(1-4) by (simp_all add: sha256_text_def canonical_sha256_def)
  then have "hex_bytes (sha b) = hex_bytes (sha c)" by (metis same_append_eq)
  then have "sha b = sha c" by simp
  then have bc: "b = c" by (rule inj_onD [OF assms(5)]) simp_all
  have "json_loads b = Inr (sort_keys v)" "json_loads c = Inr (sort_keys w)"
    using assms(3,4,6-9) by (simp_all only: canonical_json_bytes_Inr json_loads_canonical)
  with bc show ?thesis by simp
qed

subsection \<open>Values that always encode\<close>

text \<open>Values without floats all of whose strings are made of characters that satisfy \<open>P\<close>.\<close>

fun chars_val :: "(char \<Rightarrow> bool) \<Rightarrow> pyval \<Rightarrow> bool" where
  "chars_val P (VFloat t) = False"
| "chars_val P (VStr s) = list_all P s"
| "chars_val P (VList xs) = (\<forall>x \<in> set xs. chars_val P x)"
| "chars_val P (VDict d) = (\<forall>p \<in> set d. list_all P (fst p) \<and> chars_val P (snd p))"
| "chars_val P _ = True"

definition is_ascii :: "char \<Rightarrow> bool" where
  "is_ascii c \<longleftrightarrow> (of_char c :: nat) < 128"

text \<open>Values whose strings hold no byte 0xED have no surrogate to refuse; ASCII values are among them.\<close>

abbreviation plain_val :: "pyval \<Rightarrow> bool" where
  "plain_val \<equiv> chars_val (\<lambda>c. c \<noteq> CHR 0xED)"

abbreviation ascii_val :: "pyval \<Rightarrow> bool" where
  "ascii_val \<equiv> chars_val is_ascii"

lemma not_surrogate: "CHR 0xED \<notin> set s \<Longrightarrow> \<not> has_surrogate s"
  by (induction s rule: has_surrogate.induct) auto

lemma join_chars: "list_all P sep \<Longrightarrow> \<forall>x \<in> set xs. list_all P x \<Longrightarrow> list_all P (join sep xs)"
  by (induction sep xs rule: join.induct) auto

lemma hex2_ascii: "list_all is_ascii (hex2 c)"
  using hex2_lower [of c] by (auto simp: list_all_iff is_lower_hex_def Let_def is_ascii_def)

lemma show_nat_ascii: "list_all is_ascii (show_nat n)"
  using show_nat_digits [of n] by (auto simp: list_all_iff is_digit_def Let_def is_ascii_def)

lemma json_str_chars:
  assumes ascii: "\<And>c. is_ascii c \<Longrightarrow> P c" and "list_all P s"
  shows "list_all P (json_str s)"
proof -
  have quote: "P CHR 0x22" by (rule ascii) (simp add: is_ascii_def)
  have "list_all P (json_escape c)" if "P c" for c
  proof (cases "is_ascii c")
    case True
    then have "list_all is_ascii (json_escape c)"
      using hex2_ascii [of c] by (simp add: json_escape_def is_ascii_def)
    then show ?thesis using ascii by (auto simp: list_all_iff)
  next
    case False
    have "c \<noteq> d" if "is_ascii d" for d using False that by blast
    then have "c \<notin> {CHR 0x22, CHR 0x5C, CHR 0x0A, CHR 0x0D, CHR 0x09, CHR 0x0C, CHR 0x08}"
      by (simp add: is_ascii_def)
    then have "json_escape c = [c]" using False by (simp add: json_escape_def is_ascii_def)
    then show ?thesis using that by simp
  qed
  then have "list_all P (concat (map json_escape s))" using assms(2) by (induction s) auto
  then show ?thesis using quote by (simp add: json_str_def)
qed

lemma dumps_chars:
  assumes ascii: "\<And>c. is_ascii c \<Longrightarrow> P c" and "chars_val P v"
  shows "list_all P (dumps v)"
proof -
  have lift: "list_all P s" if "list_all is_ascii s" for s
    using that ascii by (auto simp: list_all_iff)
  show ?thesis
    using assms(2)
  proof (induction v rule: pyval.induct)
    case (VInt i)
    have "list_all is_ascii (show_int i)"
      using show_nat_ascii by (simp add: show_int_def) (simp add: is_ascii_def)
    then show ?case using lift by simp
  next
    case (VStr s)
    then show ?case using json_str_chars [OF ascii] by simp
  next
    case (VList xs)
    have "list_all P (join '','' (map dumps xs))"
      using VList by (intro join_chars lift) (auto simp: is_ascii_def)
    moreover have "list_all P ''[]''" by (rule lift) (simp add: is_ascii_def)
    ultimately show ?case by simp
  next
    case (VDict d)
    have lits: "list_all P ''{}''" "list_all P '':''" "list_all P '',''"
      by (rule lift, simp add: is_ascii_def)+
    have "list_all P (dumps (snd p))" if "p \<in> set d" for p
      using VDict that by (cases p) fastforce
    then have "list_all P (join '','' (map (\<lambda>p. json_str (fst p) @ '':'' @ dumps (snd p)) d))"
      using VDict.prems json_str_chars [OF ascii] lits by (intro join_chars) auto
    then show ?case using lits by simp
  qed (auto intro!: ascii simp: is_ascii_def)
qed

lemma chars_val_sort_keys: "chars_val P v \<Longrightarrow> chars_val P (sort_keys v)"
  by (induction v rule: pyval.induct) (fastforce simp: prod_set_defs)+

lemma chars_val_no_float: "chars_val P v \<Longrightarrow> no_float v"
  by (induction v rule: pyval.induct) (fastforce simp: prod_set_defs)+

lemma chars_val_mono: "chars_val P v \<Longrightarrow> (\<And>c. P c \<Longrightarrow> Q c) \<Longrightarrow> chars_val Q v"
  by (induction v rule: pyval.induct) (fastforce simp: prod_set_defs list_all_iff)+

lemma ascii_val_plain: "ascii_val v \<Longrightarrow> plain_val v"
  by (erule chars_val_mono) (auto simp: is_ascii_def)

lemma canonical_json_bytes_plain:
  assumes "plain_val v"
  shows "\<exists>b. canonical_json_bytes v = Inr b"
proof -
  have "finite_val v" by (rule no_float_finite [OF chars_val_no_float [OF assms]])
  moreover have "list_all (\<lambda>c. c \<noteq> CHR 0xED) (dumps (sort_keys v))"
    by (rule dumps_chars) (auto simp: is_ascii_def chars_val_sort_keys [OF assms])
  then have "\<not> has_surrogate (dumps (sort_keys v))" by (intro not_surrogate) (auto simp: list_all_iff)
  ultimately show ?thesis by (simp add: canonical_json_bytes_def canonical_json_def)
qed

lemma utf8_ok_ascii: "list_all is_ascii s \<Longrightarrow> utf8_ok s"
  by (induction s) (auto simp: is_ascii_def)

lemma canonical_json_bytes_ascii:
  assumes "ascii_val v" "canonical_json_bytes v = Inr b"
  shows "list_all is_ascii b"
proof -
  have "b = dumps (sort_keys v)"
    using assms(2) by (auto simp: canonical_json_bytes_Inr canonical_json_def split: if_splits)
  then show ?thesis using dumps_chars [of is_ascii "sort_keys v"] chars_val_sort_keys [OF assms(1)] by simp
qed

lemma digest_ascii:
  assumes "is_digest h"
  shows "list_all is_ascii h"
proof -
  have "take 7 h = ''sha256:''" "list_all is_lower_hex (drop 7 h)"
    using assms by (simp_all add: is_digest_def is_hex64_def starts_with_def eval_nat_numeral)
  moreover have "is_ascii c" if "is_lower_hex c" for c
    using that by (auto simp: is_lower_hex_def is_ascii_def Let_def)
  ultimately have "list_all is_ascii (take 7 h @ drop 7 h)"
    by (auto simp: list_all_iff is_ascii_def)
  then show ?thesis by simp
qed

text \<open>Reading back what was written with a newline after it.\<close>

lemma json_loads_line:
  assumes "no_float v" "wf_val v" "canonical_json v = Inr s"
  shows "json_loads (s @ [CHR 0x0A]) = Inr (sort_keys v)"
proof -
  have s: "s = dumps (sort_keys v)" using assms(3) by (auto simp: canonical_json_def split: if_splits)
  have v: "no_float (sort_keys v)" "wf_val (sort_keys v)"
    using no_float_sort_keys wf_val_sort_keys assms(1,2) by blast+
  have "scan_value (Suc (length (s @ [CHR 0x0A]))) (dumps (sort_keys v) @ [CHR 0x0A]) = Some (sort_keys v, [CHR 0x0A])"
    using v s by (intro scan_dumps) (simp_all add: delim_def)
  moreover have "skip_ws (s @ [CHR 0x0A]) = dumps (sort_keys v) @ [CHR 0x0A]"
    using skip_ws_dumps [OF v(1)] s by simp
  ultimately show ?thesis by (simp add: json_loads_def del: scan_value.simps)
qed

lemma canonical_json_bytes_cong:
  "sort_keys v = sort_keys w \<Longrightarrow> canonical_json_bytes v = canonical_json_bytes w"
  using canonical_json_sort_keys [of v] canonical_json_sort_keys [of w]
  by (simp add: canonical_json_bytes_def)


subsection \<open>A hash for the witnesses\<close>

text \<open>A total function with 32-byte results in place of SHA-256: the first 32 bytes, padded.\<close>

definition pad_sha :: "bytes \<Rightarrow> bytes" where
  "pad_sha b = take 32 (b @ replicate 32 (CHR 0x00))"

lemma length_pad_sha: "length (pad_sha b) = 32"
  by (simp add: pad_sha_def)

lemma canonical_object_bytes:
  assumes "canonical_json_bytes (VDict d) = Inr b"
  shows "\<exists>s. b = CHR 0x7B # s"
  using assms by (auto simp: canonical_json_bytes_Inr canonical_json_def split: if_splits)

end
