(* ===== verification/Suite_Results.thy ===== *)
theory Suite_Results
  imports Json
begin

text \<open>
  Frozen-suite manifests and junitxml summaries (\<^verbatim>\<open>src/src/ranex/foundation/suite_results.py\<close>).
  The XML parser is an argument: an element is a tag, attributes, text and children, as
  \<open>xml.etree.ElementTree\<close> presents it. Shown: the validators accept exactly closed shapes, and a
  summary computed from a report and a manifest always validates and says which of the
  manifest's tests are missing or did not pass.
\<close>

section \<open>Validators\<close>

definition manifest_keys :: "string list" where
  "manifest_keys = [''suite'', ''expected_skips'']"

definition result_keys :: "string list" where
  "result_keys = [''manifest_digest'', ''counts'', ''non_passed'', ''missing'', ''extra_count'',
     ''outcome_digest'']"

definition count_keys :: "string list" where
  "count_keys = [''passed'', ''skipped'', ''failed'', ''errors'', ''xfailed'', ''xpassed'']"

definition non_passing_kinds :: "string list" where
  "non_passing_kinds = [''skipped'', ''failed'', ''error'', ''xfailed'', ''xpassed'']"

definition is_non_negative_integer :: "pyval \<Rightarrow> bool" where
  "is_non_negative_integer v \<longleftrightarrow> is_int v \<and> 0 \<le> int_of v"

definition validate_manifest :: "pyval \<Rightarrow> pyval result" where
  "validate_manifest value =
     ensure (closed_keys value manifest_keys)
       (ValueError ''suite manifest must contain exactly suite and expected_skips'') (
     let suite = fld value ''suite'' in
     ensure (is_list suite \<and> list_all is_text (items_of suite))
       (ValueError ''suite manifest suite must be a list of non-empty test IDs'') (
     let ids = map str_of (items_of suite) in
     ensure (strictly_sorted ids) (ValueError ''suite manifest test IDs must be sorted and unique'') (
     let skips = fld value ''expected_skips'' in
     ensure (is_dict skips) (ValueError ''suite manifest expected_skips must be an object'') (
     bind (for_each (\<lambda>p.
         ensure (fst p \<in> set ids) (ValueError ''expected-skip IDs must name tests in suite'') (
         ensure (is_str (snd p) \<and> \<not> blank (str_of (snd p)))
           (ValueError ''expected-skip reasons must be non-empty strings'') (Inr ())))
       (dict_of skips)) (\<lambda>_. Inr value)))))"

text \<open>The loop body over \<open>non_passed\<close>; set membership of a list or a dict raises \<open>TypeError\<close>.\<close>

definition check_non_passed_entry :: "pyval \<Rightarrow> unit result" where
  "check_non_passed_entry item =
     (let bad = ValueError ''suite_results non_passed entries must be [test_id, outcome]'';
          kind = items_of item ! 1 in
      ensure (is_list item \<and> length (items_of item) = 2 \<and> is_text (items_of item ! 0)) bad (
      ensure (\<not> is_list kind \<and> \<not> is_dict kind) (TypeError ''unhashable type'') (
      ensure (is_str kind \<and> str_of kind \<in> set non_passing_kinds) bad (Inr ()))))"

text \<open>\<open>[test_id, kind]\<close> lists compare as the pair of their strings.\<close>

definition entry_pair :: "pyval \<Rightarrow> string \<times> string" where
  "entry_pair item = (str_of (items_of item ! 0), str_of (items_of item ! 1))"

definition validate_suite_results :: "pyval \<Rightarrow> pyval result" where
  "validate_suite_results value =
     ensure (closed_keys value result_keys)
       (ValueError ''suite_results must contain exactly the result keys'') (
     bind (for_each (\<lambda>field.
         ensure (is_str (fld value field) \<and> is_digest (str_of (fld value field)))
           (ValueError (''suite_results '' @ field @ '' must be a canonical sha256 digest'')) (Inr ()))
       [''manifest_digest'', ''outcome_digest'']) (\<lambda>_.
     let counts = fld value ''counts'' in
     ensure (closed_keys counts count_keys)
       (ValueError ''suite_results counts must contain exactly the count keys'') (
     ensure (list_all (\<lambda>p. is_non_negative_integer (snd p)) (dict_of counts))
       (ValueError ''suite_results counts must be non-negative integers'') (
     ensure (is_non_negative_integer (fld value ''extra_count''))
       (ValueError ''suite_results extra_count must be a non-negative integer'') (
     let raw = fld value ''non_passed'' in
     ensure (is_list raw) (ValueError ''suite_results non_passed must be a list'') (
     bind (for_each check_non_passed_entry (items_of raw)) (\<lambda>_.
     let entries = map entry_pair (items_of raw) in
     ensure (entries = sort entries \<and> length (remdups (map fst entries)) = length entries)
       (ValueError ''suite_results non_passed entries must be sorted and unique'') (
     let missing = fld value ''missing'' in
     ensure (is_list missing \<and> list_all is_text (items_of missing))
       (ValueError ''suite_results missing must be a list of non-empty test IDs'') (
     ensure (strictly_sorted (map str_of (items_of missing)))
       (ValueError ''suite_results missing IDs must be sorted and unique'')
     (Inr value))))))))))"

text \<open>The fields of a validated summary, as the kernel reads them.\<close>

definition sr_manifest_digest :: "pyval \<Rightarrow> string" where
  "sr_manifest_digest v = str_of (fld v ''manifest_digest'')"

definition sr_missing :: "pyval \<Rightarrow> string list" where
  "sr_missing v = map str_of (items_of (fld v ''missing''))"

definition sr_non_passed :: "pyval \<Rightarrow> (string \<times> string) list" where
  "sr_non_passed v = map entry_pair (items_of (fld v ''non_passed''))"

section \<open>Reading a junitxml report\<close>

datatype elem = Elem (tag: string) (attrs: "(string \<times> string) list") (elem_text: "string option")
  (children: "elem list")

definition attr :: "elem \<Rightarrow> string \<Rightarrow> string option" where
  "attr e k = map_of (attrs e) k"

text \<open>\<open>node.tag.rsplit("}", 1)[-1]\<close>.\<close>

definition local_tag :: "elem \<Rightarrow> string" where
  "local_tag e = rev (takeWhile (\<lambda>c. c \<noteq> CHR 0x7D) (rev (tag e)))"

fun iter :: "elem \<Rightarrow> elem list" where
  "iter (Elem t a x cs) = Elem t a x cs # concat (map iter cs)"

text \<open>\<open>findall("./properties/property")\<close>.\<close>

definition properties_of :: "elem \<Rightarrow> elem list" where
  "properties_of e =
     filter (\<lambda>p. tag p = ''property'')
       (concat (map children (filter (\<lambda>c. tag c = ''properties'') (children e))))"

definition is_collection_skip :: "elem \<Rightarrow> bool" where
  "is_collection_skip testcase \<longleftrightarrow>
     (case children testcase of
        [c] \<Rightarrow> local_tag c = ''skipped'' \<and> attr c ''message'' = Some ''collection skipped''
      | _ \<Rightarrow> False)"

definition ascii_lower :: "string \<Rightarrow> string" where
  "ascii_lower s = map (\<lambda>c. let n = of_char c :: nat in
     if 65 \<le> n \<and> n \<le> 90 then char_of (n + 32) else c) s"

definition opt_text :: "string option \<Rightarrow> string" where
  "opt_text o' = (case o' of None \<Rightarrow> [] | Some s \<Rightarrow> s)"

definition outcome_children :: "elem \<Rightarrow> elem list" where
  "outcome_children testcase =
     filter (\<lambda>c. local_tag c \<in> {''skipped'', ''failure'', ''error''}) (children testcase)"

definition outcome :: "elem \<Rightarrow> string result" where
  "outcome testcase =
     (case outcome_children testcase of
        [] \<Rightarrow> Inr ''passed''
      | [child] \<Rightarrow>
          (let kind = local_tag child;
               marker = ascii_lower (opt_text (attr child ''type'') @ '' '' @ opt_text (attr child ''message''))
           in Inr (if kind = ''error'' then ''error''
                   else if kind = ''failure'' then
                     (if contains ''xpass'' marker then ''xpassed'' else ''failed'')
                   else if contains ''xfail'' marker then ''xfailed''
                   else if contains ''xpass'' marker then ''xpassed''
                   else ''skipped''))
      | cs \<Rightarrow>
          if opt_text (attr testcase ''classname'') = [] \<and> list_all (\<lambda>c. local_tag c = ''error'') cs
          then Inr ''error''
          else Inl (ValueError ''junitxml testcase carries multiple outcome children''))"

text \<open>\<open>address.split("::")\<close>, and \<open>nodeid.partition("[")\<close> as the text before and from the bracket.\<close>

fun split_colons :: "string \<Rightarrow> string list" where
  "split_colons [] = [[]]"
| "split_colons [a] = [[a]]"
| "split_colons (a # b # s) =
     (if a = CHR '':'' \<and> b = CHR '':'' then [] # split_colons s
      else (case split_colons (b # s) of [] \<Rightarrow> [[a]] | p # ps \<Rightarrow> (a # p) # ps))"

definition before_bracket :: "string \<Rightarrow> string" where
  "before_bracket s = takeWhile (\<lambda>c. c \<noteq> CHR 0x5B) s"

definition from_bracket :: "string \<Rightarrow> string" where
  "from_bracket s = dropWhile (\<lambda>c. c \<noteq> CHR 0x5B) s"

definition node_path_ok :: "string list \<Rightarrow> bool" where
  "node_path_ok components \<longleftrightarrow>
     2 \<le> length components \<and> list_all (\<lambda>p. p \<noteq> []) components \<and>
     (let path = hd components in
      ends_with ''.py'' path \<and> CHR 0x5C \<notin> set path \<and>
      list_all (\<lambda>p. p \<notin> {[], ''.'', ''..''}) (split_on (CHR ''/'') path))"

definition expected_classname :: "string list \<Rightarrow> string" where
  "expected_classname components =
     (let path = hd components in
      join ''.'' (map (\<lambda>c. if c = CHR ''/'' then CHR ''.'' else c) (take (length path - 3) path)
                  # butlast (tl components)))"

definition nodeids :: "elem \<Rightarrow> string option list" where
  "nodeids testcase =
     map (\<lambda>p. attr p ''value'')
       (filter (\<lambda>p. attr p ''name'' = Some ''ranex.pytest_nodeid'') (properties_of testcase))"

definition test_id :: "elem \<Rightarrow> string \<Rightarrow> string result" where
  "test_id testcase reporter =
     (let classname = opt_text (attr testcase ''classname''); name = attr testcase ''name'';
          name_text = opt_text name; ids = nodeids testcase in
      if reporter = ''pytest-junit'' \<and> ids \<noteq> [] then
        (case ids of
           [Some nodeid] \<Rightarrow>
             ensure (nodeid \<noteq> []) (ValueError ''junitxml must carry one non-empty pytest nodeid'') (
             let components = split_colons (before_bracket nodeid) in
             ensure (node_path_ok components) (ValueError ''junitxml carries a malformed pytest nodeid'') (
             ensure (name = Some (last components @ from_bracket nodeid) \<and> classname \<noteq> [] \<and>
                     (classname = expected_classname components \<or>
                      ends_with (''.'' @ expected_classname components) classname))
               (ValueError ''junitxml pytest nodeid disagrees with classname or name'')
             (Inr nodeid)))
         | _ \<Rightarrow> Inl (ValueError ''junitxml must carry one non-empty pytest nodeid''))
      else
        bind (if classname = [] \<and> name_text \<noteq> []
              then bind (outcome testcase) (\<lambda>k. Inr (k = ''error'' \<or> is_collection_skip testcase))
              else Inr False) (\<lambda>collector.
        if collector then Inr name_text
        else ensure (classname \<noteq> [] \<and> name_text \<noteq> [])
               (ValueError ''junitxml testcase must carry classname and name'') (
             if reporter = ''vitest-junit'' then Inr (classname @ ''::'' @ name_text)
             else (let parts = split_on (CHR ''.'') classname;
                       rel = (if ''tests'' \<in> set parts then dropWhile (\<lambda>p. p \<noteq> ''tests'') parts else parts)
                   in Inr (join ''/'' rel @ ''.py::'' @ name_text)))))"

text \<open>
  The reporter and observer guards of \<open>_parse_junit\<close>; the decoding and parsing between them is the
  argument \<open>parse_xml\<close>.
\<close>

definition observer_ok :: "elem \<Rightarrow> bool" where
  "observer_ok root =
     (let suites = filter (\<lambda>n. tag n = ''testsuite'') (iter root) in
      suites \<noteq> [] \<and>
      list_all (\<lambda>suite.
        map (\<lambda>p. attr p ''value'')
          (filter (\<lambda>p. attr p ''name'' = Some ''ranex.pytest_observer'') (properties_of suite))
        = [Some ''1'']) suites)"

definition parse_junit ::
  "(bytes \<Rightarrow> elem result) \<Rightarrow> bytes \<Rightarrow> string \<Rightarrow> bool \<Rightarrow> elem result" where
  "parse_junit parse_xml raw reporter require_observer =
     ensure (reporter \<in> {''pytest-junit'', ''vitest-junit''}) (ValueError ''unsupported JUnit reporter'') (
     bind (parse_xml raw) (\<lambda>root.
     ensure (\<not> (require_observer \<and> reporter = ''pytest-junit'') \<or> observer_ok root)
       (ValueError ''E-PYTEST-OBSERVER-ABSENT: JUnit lacks the controller reporter'') (Inr root)))"

fun collect_outcomes :: "string \<Rightarrow> elem list \<Rightarrow> (string \<times> string) list \<Rightarrow> (string \<times> string) list result" where
  "collect_outcomes reporter [] acc = Inr acc"
| "collect_outcomes reporter (e # es) acc =
     (if local_tag e \<noteq> ''testcase'' then collect_outcomes reporter es acc
      else (case test_id e reporter of
          Inl err \<Rightarrow> Inl err
        | Inr tid \<Rightarrow>
            if tid \<in> fst ` set acc then Inl (ValueError (''duplicate test ID in junitxml: '' @ tid))
            else (case outcome e of
                Inl err \<Rightarrow> Inl err
              | Inr k \<Rightarrow> collect_outcomes reporter es (acc @ [(tid, k)]))))"

definition outcomes ::
  "(bytes \<Rightarrow> elem result) \<Rightarrow> bytes \<Rightarrow> string \<Rightarrow> bool \<Rightarrow> (string \<times> string) list result" where
  "outcomes parse_xml raw reporter require_observer =
     bind (parse_junit parse_xml raw reporter require_observer) (\<lambda>root.
     bind (collect_outcomes reporter (iter root) []) (\<lambda>acc. Inr (sort_key fst acc)))"

definition freeze_manifest ::
  "(bytes \<Rightarrow> elem result) \<Rightarrow> bytes \<Rightarrow> (string \<times> string) list \<Rightarrow> string \<Rightarrow> bool \<Rightarrow> pyval result" where
  "freeze_manifest parse_xml raw expected_skips reporter require_observer =
     bind (outcomes parse_xml raw reporter require_observer) (\<lambda>os.
     validate_manifest (VDict
       [(''suite'', str_list (sort (map fst os))),
        (''expected_skips'', VDict (map (\<lambda>p. (fst p, VStr (snd p))) expected_skips))]))"

definition load_manifest_bytes :: "bytes \<Rightarrow> pyval result" where
  "load_manifest_bytes raw =
     bind (case json_loads_bytes raw of
             Inl _ \<Rightarrow> Inl (ValueError ''cannot parse suite manifest'') | Inr v \<Rightarrow> Inr v) (\<lambda>value.
     bind (validate_manifest value) (\<lambda>manifest.
     bind (canonical_json_bytes manifest) (\<lambda>canon.
     ensure (raw = canon) (ValueError ''suite manifest must contain exact canonical JSON bytes'')
       (Inr manifest))))"

definition manifest_digest :: "(bytes \<Rightarrow> bytes) \<Rightarrow> pyval \<Rightarrow> string result" where
  "manifest_digest sha manifest =
     bind (validate_manifest manifest) (\<lambda>validated. sha256_text sha validated)"

definition count_kind :: "string \<Rightarrow> (string \<times> string) list \<Rightarrow> pyval" where
  "count_kind kind os = VInt (int (length (filter (\<lambda>p. snd p = kind) os)))"

definition suite_results_from_junitxml ::
  "(bytes \<Rightarrow> bytes) \<Rightarrow> (bytes \<Rightarrow> elem result) \<Rightarrow> bytes \<Rightarrow> pyval \<Rightarrow> string \<Rightarrow> bool \<Rightarrow> pyval result" where
  "suite_results_from_junitxml sha parse_xml raw manifest reporter require_observer =
     bind (validate_manifest manifest) (\<lambda>validated.
     bind (outcomes parse_xml raw reporter require_observer) (\<lambda>os.
     let expected = map str_of (items_of (fld validated ''suite'')); observed = map fst os in
     bind (manifest_digest sha validated) (\<lambda>mdigest.
     bind (sha256_text sha (VDict (map (\<lambda>p. (fst p, VStr (snd p))) os))) (\<lambda>odigest.
     validate_suite_results (VDict
       [(''manifest_digest'', VStr mdigest),
        (''counts'', VDict
           [(''passed'', count_kind ''passed'' os), (''skipped'', count_kind ''skipped'' os),
            (''failed'', count_kind ''failed'' os), (''errors'', count_kind ''error'' os),
            (''xfailed'', count_kind ''xfailed'' os), (''xpassed'', count_kind ''xpassed'' os)]),
        (''non_passed'', VList (map (\<lambda>p. str_list [fst p, snd p])
           (filter (\<lambda>p. snd p \<noteq> ''passed'') os))),
        (''missing'', str_list (sorted_set (filter (\<lambda>i. i \<notin> set observed) expected))),
        (''extra_count'', VInt (int (length (remdups (filter (\<lambda>i. i \<notin> set expected) observed))))),
        (''outcome_digest'', VStr odigest)])))))"

section \<open>What the validators accept\<close>

lemma validate_manifest_Inr:
  "validate_manifest v = Inr w \<longleftrightarrow>
     w = v \<and> closed_keys v manifest_keys \<and> is_list (fld v ''suite'') \<and>
     list_all is_text (items_of (fld v ''suite'')) \<and>
     strictly_sorted (map str_of (items_of (fld v ''suite''))) \<and> is_dict (fld v ''expected_skips'') \<and>
     (\<forall>p \<in> set (dict_of (fld v ''expected_skips'')).
        fst p \<in> set (map str_of (items_of (fld v ''suite''))) \<and> is_str (snd p) \<and> \<not> blank (str_of (snd p)))"
  by (auto simp: validate_manifest_def Let_def bind_Inr_iff for_each_Inr_iff)

lemma check_non_passed_entry_Inr:
  "check_non_passed_entry item = Inr u \<longleftrightarrow>
     is_list item \<and> length (items_of item) = 2 \<and> is_text (items_of item ! 0) \<and>
     is_str (items_of item ! 1) \<and> str_of (items_of item ! 1) \<in> set non_passing_kinds"
  by (cases "items_of item ! 1") (auto simp: check_non_passed_entry_def Let_def)

lemma validate_suite_results_Inr:
  "validate_suite_results v = Inr w \<longleftrightarrow>
     w = v \<and> closed_keys v result_keys \<and>
     is_str (fld v ''manifest_digest'') \<and> is_digest (sr_manifest_digest v) \<and>
     is_str (fld v ''outcome_digest'') \<and> is_digest (str_of (fld v ''outcome_digest'')) \<and>
     closed_keys (fld v ''counts'') count_keys \<and>
     list_all (\<lambda>p. is_non_negative_integer (snd p)) (dict_of (fld v ''counts'')) \<and>
     is_non_negative_integer (fld v ''extra_count'') \<and>
     is_list (fld v ''non_passed'') \<and>
     (\<forall>item \<in> set (items_of (fld v ''non_passed'')). check_non_passed_entry item = Inr ()) \<and>
     sr_non_passed v = sort (sr_non_passed v) \<and>
     length (remdups (map fst (sr_non_passed v))) = length (sr_non_passed v) \<and>
     is_list (fld v ''missing'') \<and> list_all is_text (items_of (fld v ''missing'')) \<and>
     strictly_sorted (sr_missing v)"
  by (auto simp: validate_suite_results_def Let_def bind_Inr_iff for_each_Inr_iff
      sr_non_passed_def sr_missing_def sr_manifest_digest_def)

lemma outcome_kinds: "outcome e = Inr k \<Longrightarrow> k = ''passed'' \<or> k \<in> set non_passing_kinds"
  by (auto simp: outcome_def non_passing_kinds_def Let_def split: list.splits if_splits)

lemma test_id_ne: "test_id e r = Inr i \<Longrightarrow> i \<noteq> []"
  by (auto simp: test_id_def Let_def bind_Inr_iff split: list.splits option.splits if_splits)

lemma collect_outcomes_Inr:
  assumes "collect_outcomes r es acc = Inr os" and "distinct (map fst acc)"
    and "\<forall>p \<in> set acc. fst p \<noteq> [] \<and> (snd p = ''passed'' \<or> snd p \<in> set non_passing_kinds)"
  shows "distinct (map fst os) \<and>
    (\<forall>p \<in> set os. fst p \<noteq> [] \<and> (snd p = ''passed'' \<or> snd p \<in> set non_passing_kinds))"
  using assms
proof (induction r es acc rule: collect_outcomes.induct)
  case (2 reporter e es acc)
  show ?case
  proof (cases "local_tag e \<noteq> ''testcase''")
    case True
    with 2 show ?thesis by simp
  next
    case False
    then obtain tid k where "test_id e reporter = Inr tid" "tid \<notin> fst ` set acc" "outcome e = Inr k"
      "collect_outcomes reporter es (acc @ [(tid, k)]) = Inr os"
      using "2.prems"(1) by (auto split: sum.splits if_splits)
    moreover have "tid \<noteq> []" "k = ''passed'' \<or> k \<in> set non_passing_kinds"
      using calculation test_id_ne outcome_kinds by blast+
    ultimately show ?thesis using "2.IH"(2) [of tid k] False "2.prems"(2,3) by auto
  qed
qed simp

lemma sorted_by_fst:
  fixes xs :: "('a::linorder \<times> 'b::linorder) list"
  shows "sorted (map fst xs) \<Longrightarrow> distinct (map fst xs) \<Longrightarrow> sorted xs"
proof (induction xs)
  case (Cons x xs)
  then have "fst x < fst y" if "y \<in> set xs" for y using that by force
  with Cons show ?case by (auto simp: less_eq_prod_def)
qed simp

lemma outcomes_Inr:
  assumes "outcomes parse_xml raw r q = Inr os"
  shows "sorted (map fst os)" "distinct (map fst os)"
    "\<forall>p \<in> set os. fst p \<noteq> [] \<and> (snd p = ''passed'' \<or> snd p \<in> set non_passing_kinds)"
proof -
  obtain root acc where acc: "collect_outcomes r (iter root) [] = Inr acc" and os: "os = sort_key fst acc"
    using assms by (auto simp: outcomes_def bind_Inr_iff)
  have d: "distinct (map fst acc)" and
    *: "\<forall>p \<in> set acc. fst p \<noteq> [] \<and> (snd p = ''passed'' \<or> snd p \<in> set non_passing_kinds)"
    using collect_outcomes_Inr [OF acc] by auto
  have "mset (map fst os) = mset (map fst acc)" using os by (simp only: mset_map mset_sort)
  then show "distinct (map fst os)" using d mset_eq_imp_distinct_iff by blast
  show "sorted (map fst os)" using os by simp
  show "\<forall>p \<in> set os. fst p \<noteq> [] \<and> (snd p = ''passed'' \<or> snd p \<in> set non_passing_kinds)"
    using * os by simp
qed

lemma entry_pair_str_list [simp]: "entry_pair (str_list [a, b]) = (a, b)"
  by (simp add: entry_pair_def str_list_def)

lemma check_entry_str_list [simp]:
  "check_non_passed_entry (str_list [a, b]) = Inr () \<longleftrightarrow> a \<noteq> [] \<and> b \<in> set non_passing_kinds"
  by (auto simp: check_non_passed_entry_Inr str_list_def is_text_def)

section \<open>The summary of a report\<close>

text \<open>
  A summary always validates, and says exactly what the kernel needs: it carries the digest of
  the manifest, its \<open>missing\<close> IDs are the manifest's tests the report does not mention, and its
  \<open>non_passed\<close> entries are the observed tests whose outcome is not \<open>passed\<close>, in order.
\<close>

lemma suite_summary:
  assumes man: "validate_manifest m = Inr m'" and os: "outcomes parse_xml raw r q = Inr os"
    and md: "manifest_digest sha m = Inr md"
    and od: "sha256_text sha (VDict (map (\<lambda>p. (fst p, VStr (snd p))) os)) = Inr od"
    and sha: "\<And>b. length (sha b) = 32"
  shows "\<exists>s. suite_results_from_junitxml sha parse_xml raw m r q = Inr s \<and>
    sr_manifest_digest s = md \<and>
    set (sr_missing s) = set (map str_of (items_of (fld m ''suite''))) - set (map fst os) \<and>
    sr_non_passed s = filter (\<lambda>p. snd p \<noteq> ''passed'') os"
proof -
  define ids where "ids = map str_of (items_of (fld m ''suite''))"
  define np where "np = filter (\<lambda>p. snd p \<noteq> ''passed'') os"
  define miss where "miss = sorted_set (filter (\<lambda>i. i \<notin> set (map fst os)) ids)"
  define s where "s = VDict
       [(''manifest_digest'', VStr md),
        (''counts'', VDict
           [(''passed'', count_kind ''passed'' os), (''skipped'', count_kind ''skipped'' os),
            (''failed'', count_kind ''failed'' os), (''errors'', count_kind ''error'' os),
            (''xfailed'', count_kind ''xfailed'' os), (''xpassed'', count_kind ''xpassed'' os)]),
        (''non_passed'', VList (map (\<lambda>p. str_list [fst p, snd p]) np)),
        (''missing'', str_list miss),
        (''extra_count'', VInt (int (length (remdups (filter (\<lambda>i. i \<notin> set ids) (map fst os)))))),
        (''outcome_digest'', VStr od)]"
  have m': "m' = m" using man by (simp add: validate_manifest_Inr)
  have call: "suite_results_from_junitxml sha parse_xml raw m r q = validate_suite_results s"
    using man os md od
    by (simp add: suite_results_from_junitxml_def m' Let_def s_def ids_def np_def miss_def)
  have flds: "sr_missing s = miss" "sr_non_passed s = np" "sr_manifest_digest s = md"
    by (simp_all add: s_def sr_missing_def sr_non_passed_def sr_manifest_digest_def shape_simps
        str_list_def comp_def entry_pair_def)
  have ne: "\<forall>i \<in> set ids. i \<noteq> []"
    using man by (auto simp: validate_manifest_Inr ids_def list_all_iff is_text_def)
  have srt: "sorted (map fst np)" "distinct (map fst np)"
    using outcomes_Inr(1,2) [OF os] by (auto simp: np_def sorted_filter distinct_map_filter)
  have "is_digest md" "is_digest od"
    using md od sha256_text_digest [OF _ sha] by (auto simp: manifest_digest_def bind_Inr_iff)
  moreover have "\<forall>p \<in> set np. fst p \<noteq> [] \<and> snd p \<in> set non_passing_kinds"
    using outcomes_Inr(3) [OF os] by (auto simp: np_def)
  moreover have "sorted np" using sorted_by_fst [OF srt] .
  ultimately have "validate_suite_results s = Inr s"
    unfolding validate_suite_results_Inr flds
    using ne srt
    by (simp add: s_def shape_simps closed_keys_def keys_def result_keys_def count_keys_def
        is_non_negative_integer_def count_kind_def list_all_iff is_text_def
        strictly_sorted_iff miss_def sorted_sort_id distinct_remdups_id)
  then show ?thesis
    unfolding call using flds by (auto simp: miss_def ids_def np_def)
qed


definition demo_manifest :: pyval where
  "demo_manifest = VDict [(''suite'', VList [VStr ''tests/a.py::t'']), (''expected_skips'', VDict [])]"

definition demo_report :: "bytes \<Rightarrow> elem result" where
  "demo_report raw = Inr (Elem ''testsuite'' [] None
     [Elem ''testcase'' [(''classname'', ''pkg.tests.a''), (''name'', ''t'')] None []])"

definition zero_sha :: "bytes \<Rightarrow> bytes" where
  "zero_sha b = replicate 32 CHR 0x00"

lemma length_zero_sha [simp]: "length (zero_sha b) = 32"
  by (simp add: zero_sha_def)

lemma demo_outcomes:
  "outcomes demo_report [] ''pytest-junit'' False = Inr [(''tests/a.py::t'', ''passed'')]"
  by code_simp

end
