(* ===== verification/Gate_Verdict.thy ===== *)
theory Gate_Verdict
  imports Suite_Results
begin

text \<open>
  The kernel (\<^verbatim>\<open>src/src/ranex/governed_execution/domain/verdict.py\<close>): claims, evidence, gates and
  \<open>evaluate\<close>. Shown: the verdict is PASS exactly when nobody approves their own evidence and every
  required claim has satisfying evidence and no addressed record that disagrees; the evaluation
  does not depend on the order of the evidence; and a failing evaluation names every missing claim
  under exactly one cause.
\<close>

section \<open>Records\<close>

datatype verdict = PASS | FAIL

definition verdict_text :: "verdict \<Rightarrow> string" where
  "verdict_text v = (case v of PASS \<Rightarrow> ''PASS'' | FAIL \<Rightarrow> ''FAIL'')"

definition require_text :: "pyval \<Rightarrow> string \<Rightarrow> unit result" where
  "require_text value field =
     ensure (is_str value \<and> \<not> blank (str_of value))
       (ValueError (field @ '' must be a non-empty string'')) (Inr ())"

definition require_digest :: "pyval \<Rightarrow> string \<Rightarrow> unit result" where
  "require_digest value field =
     ensure (is_str value \<and> is_digest (str_of value))
       (ValueError (field @ '' must be a canonical sha256 digest'')) (Inr ())"

record claim =
  c_claim_id :: string
  c_command_digest :: string
  c_results_required :: bool
  c_manifest_digest :: "string option"
  c_expected_ids :: "string list option"
  c_expected_skips :: "(string \<times> string) list option"

definition claim_post_init :: "claim \<Rightarrow> unit result" where
  "claim_post_init c =
     bind (require_text (VStr (c_claim_id c)) ''claim_id'') (\<lambda>_.
     bind (require_digest (VStr (c_command_digest c)) ''command_digest'') (\<lambda>_.
     if \<not> c_results_required c then
       ensure (c_manifest_digest c = None \<and> c_expected_ids c = None \<and> c_expected_skips c = None)
         (ValueError ''exit-code-only claims cannot carry suite manifest fields'') (Inr ())
     else
       bind (require_digest (opt_str (c_manifest_digest c)) ''manifest_digest'') (\<lambda>_.
       case c_expected_ids c of
         None \<Rightarrow> Inl (ValueError ''expected_ids must be a sorted tuple of unique test IDs'')
       | Some ids \<Rightarrow>
           ensure (list_all (\<lambda>i. i \<noteq> []) ids \<and> strictly_sorted ids)
             (ValueError ''expected_ids must be a sorted tuple of unique test IDs'') (
           case c_expected_skips c of
             None \<Rightarrow> Inl (ValueError ''expected_skips must be a mapping'')
           | Some skips \<Rightarrow>
               for_each (\<lambda>p. ensure (fst p \<in> set ids \<and> \<not> blank (snd p))
                 (ValueError ''expected_skips must name expected IDs with non-empty reasons'') (Inr ()))
               skips))))"

record evidence =
  e_claim_id :: string
  e_subject_digest :: string
  e_producer_id :: string
  e_command :: string
  e_command_digest :: string
  e_executable_path :: string
  e_exit_code :: int
  e_suite_results :: "pyval option"

text \<open>\<open>Evidence(...)\<close> on the values of a record; \<open>VNone\<close> is \<open>suite_results=None\<close>.\<close>

definition evidence_new ::
  "pyval \<Rightarrow> pyval \<Rightarrow> pyval \<Rightarrow> pyval \<Rightarrow> pyval \<Rightarrow> pyval \<Rightarrow> pyval \<Rightarrow> pyval \<Rightarrow> evidence result" where
  "evidence_new claim_id subject_digest producer_id command cmd_digest executable_path exit_code suite =
     bind (require_text claim_id ''claim_id'') (\<lambda>_.
     bind (require_text producer_id ''producer_id'') (\<lambda>_.
     bind (require_text command ''command'') (\<lambda>_.
     bind (require_text executable_path ''executable_path'') (\<lambda>_.
     bind (require_digest subject_digest ''subject_digest'') (\<lambda>_.
     bind (require_digest cmd_digest ''command_digest'') (\<lambda>_.
     ensure (is_int exit_code) (ValueError ''exit_code must be an integer'') (
     bind (if suite = VNone then Inr VNone else validate_suite_results suite) (\<lambda>_.
     Inr \<lparr>e_claim_id = str_of claim_id, e_subject_digest = str_of subject_digest,
          e_producer_id = str_of producer_id, e_command = str_of command,
          e_command_digest = str_of cmd_digest, e_executable_path = str_of executable_path,
          e_exit_code = int_of exit_code,
          e_suite_results = (if suite = VNone then None else Some suite)\<rparr>))))))))"

definition addresses :: "evidence \<Rightarrow> claim \<Rightarrow> string \<Rightarrow> bool" where
  "addresses e c subject_digest \<longleftrightarrow>
     e_claim_id e = c_claim_id c \<and> e_subject_digest e = subject_digest \<and>
     e_command_digest e = c_command_digest c"

definition claim_ids :: "claim \<Rightarrow> string list" where
  "claim_ids c = (case c_expected_ids c of None \<Rightarrow> [] | Some ids \<Rightarrow> ids)"

definition claim_skips :: "claim \<Rightarrow> string list" where
  "claim_skips c = (case c_expected_skips c of None \<Rightarrow> [] | Some d \<Rightarrow> map fst d)"

text \<open>The outcomes of a summary that block a claim.\<close>

definition offenders :: "claim \<Rightarrow> pyval \<Rightarrow> (string \<times> string) list" where
  "offenders c sr = filter (\<lambda>p. fst p \<in> set (claim_ids c) \<and>
     \<not> (snd p = ''skipped'' \<and> fst p \<in> set (claim_skips c))) (sr_non_passed sr)"

definition satisfies :: "evidence \<Rightarrow> claim \<Rightarrow> string \<Rightarrow> bool" where
  "satisfies e c subject_digest \<longleftrightarrow>
     addresses e c subject_digest \<and> e_exit_code e = 0 \<and>
     (\<not> c_results_required c \<or>
      (case e_suite_results e of
         None \<Rightarrow> False
       | Some sr \<Rightarrow>
           Some (sr_manifest_digest sr) = c_manifest_digest c \<and>
           list_all (\<lambda>i. i \<notin> set (claim_ids c)) (sr_missing sr) \<and>
           offenders c sr = []))"

definition suite_diagnosis :: "evidence \<Rightarrow> claim \<Rightarrow> string list" where
  "suite_diagnosis e c =
     (if \<not> c_results_required c then []
      else case e_suite_results e of
        None \<Rightarrow> [''suite results artifact was absent'']
      | Some sr \<Rightarrow>
          if Some (sr_manifest_digest sr) \<noteq> c_manifest_digest c
          then [''suite manifest digest did not match the claim'']
          else
            (let missing = sorted_set (filter (\<lambda>i. i \<in> set (claim_ids c)) (sr_missing sr));
                 bad = sort (offenders c sr) in
             (if missing \<noteq> [] then [''missing test ID(s): '' @ join '', '' missing] else []) @
             (if bad \<noteq> [] then
                [''blocking suite outcome(s): '' @
                 join '', '' (map (\<lambda>p. fst p @ '' ('' @ snd p @ '')'') bad)] else [])))"

record gate =
  g_gate_id :: string
  g_rule_id :: string
  g_required_claims :: "claim list"
  g_blocking :: bool

definition gate_post_init :: "gate \<Rightarrow> unit result" where
  "gate_post_init g =
     bind (require_text (VStr (g_gate_id g)) ''gate_id'') (\<lambda>_.
     bind (require_text (VStr (g_rule_id g)) ''rule_id'') (\<lambda>_.
     ensure (g_required_claims g \<noteq> []) (ValueError ''gate must declare required_claims'') (
     let ids = map c_claim_id (g_required_claims g) in
     ensure (length ids = length (remdups ids)) (ValueError ''required_claims must be unique'') (
     ensure (g_blocking g) (ValueError ''gate must be blocking'') (Inr ())))))"

record claim_cause =
  cc_claim_id :: string
  cc_cause :: string
  cc_detail :: "string option"

definition claim_cause_post_init :: "claim_cause \<Rightarrow> unit result" where
  "claim_cause_post_init cc =
     bind (require_text (VStr (cc_claim_id cc)) ''claim_id'') (\<lambda>_.
     require_text (VStr (cc_cause cc)) ''cause'')"

record evaluation =
  ev_verdict :: verdict
  ev_gate_id :: string
  ev_failing_rule :: "string option"
  ev_missing_claims :: "string list"
  ev_reason :: "string option"
  ev_subject_digest :: string
  ev_subject_lane :: string
  ev_catalog_digest :: "string option"
  ev_approver_id :: string
  ev_considered :: "string list"
  ev_causes :: "claim_cause list"
  ev_self_approval :: bool

definition cause_record :: "claim_cause \<Rightarrow> pyval" where
  "cause_record cc = VDict
     ([(''claim_id'', VStr (cc_claim_id cc)), (''cause'', VStr (cc_cause cc))] @
      (case cc_detail cc of None \<Rightarrow> [] | Some d \<Rightarrow> [(''detail'', VStr d)]))"

definition as_record :: "evaluation \<Rightarrow> pyval" where
  "as_record r = VDict
     [(''approver_id'', VStr (ev_approver_id r)),
      (''catalog_digest'', opt_str (ev_catalog_digest r)),
      (''causes'', VList (map cause_record (ev_causes r))),
      (''considered'', str_list (ev_considered r)),
      (''failing_rule'', opt_str (ev_failing_rule r)),
      (''gate_id'', VStr (ev_gate_id r)),
      (''missing_claims'', str_list (ev_missing_claims r)),
      (''reason'', opt_str (ev_reason r)),
      (''self_approval'', VBool (ev_self_approval r)),
      (''subject_digest'', VStr (ev_subject_digest r)),
      (''subject_lane'', VStr (ev_subject_lane r)),
      (''verdict'', VStr (verdict_text (ev_verdict r)))]"

definition record_digest :: "(bytes \<Rightarrow> bytes) \<Rightarrow> evaluation \<Rightarrow> string result" where
  "record_digest sha r = sha256_text sha (as_record r)"

section \<open>Evaluation\<close>

definition contradicted :: "claim \<Rightarrow> evidence list \<Rightarrow> string \<Rightarrow> bool" where
  "contradicted c ev subject_digest \<longleftrightarrow>
     1 < length (remdups (map (\<lambda>e. satisfies e c subject_digest)
                            (filter (\<lambda>e. addresses e c subject_digest) ev)))"

text \<open>Where one unsatisfied, uncontradicted claim is filed.\<close>

datatype diagnosis = Absent | Failed | SuiteFailed string | Mismatched | Stale

definition diagnose :: "claim \<Rightarrow> evidence list \<Rightarrow> string \<Rightarrow> diagnosis" where
  "diagnose c ev subject_digest =
     (let named = filter (\<lambda>e. e_claim_id e = c_claim_id c) ev;
          addressed = filter (\<lambda>e. addresses e c subject_digest) named in
      if named = [] then Absent
      else if addressed \<noteq> [] then
        (let details = sorted_set (concat (map (\<lambda>e. suite_diagnosis e c) addressed))
         in if details \<noteq> [] then SuiteFailed (join '', '' details) else Failed)
      else if list_ex (\<lambda>e. e_subject_digest e = subject_digest) named then Mismatched
      else Stale)"

definition filed :: "gate \<Rightarrow> evidence list \<Rightarrow> string \<Rightarrow> string list \<Rightarrow> string list \<Rightarrow> (string \<times> diagnosis) list" where
  "filed g ev subject_digest contra missing =
     map (\<lambda>c. (c_claim_id c, diagnose c ev subject_digest))
       (filter (\<lambda>c. c_claim_id c \<in> set missing \<and> c_claim_id c \<notin> set contra) (g_required_claims g))"

definition em_dash :: string where
  "em_dash = [CHR 0xE2, CHR 0x80, CHR 0x94]"

definition plain_causes :: "string \<Rightarrow> string list \<Rightarrow> claim_cause list" where
  "plain_causes kind ids = map (\<lambda>i. \<lparr>cc_claim_id = i, cc_cause = kind, cc_detail = None\<rparr>) (sort ids)"

definition diagnosis_of ::
  "gate \<Rightarrow> evidence list \<Rightarrow> string \<Rightarrow> string list \<Rightarrow> string list \<Rightarrow> claim_cause list \<times> string" where
  "diagnosis_of g ev subject_digest contra missing =
     (let fs = filed g ev subject_digest contra missing;
          named = (\<lambda>k. map fst (filter (\<lambda>p. snd p = k) fs));
          suite = concat (map (\<lambda>p. case snd p of SuiteFailed d \<Rightarrow> [(fst p, d)] | _ \<Rightarrow> []) fs);
          clauses =
            [(contra, ''contradictory evidence '' @ em_dash @
                '' the same claim, subject and command reported both success and failure''),
             (named Failed, ''the bound command was observed failing''),
             (named Mismatched, ''evidence describes a command the claim does not bind''),
             (named Stale, ''evidence bound to a different subject digest''),
             (named Absent, ''no evidence for required claim'')];
          standard = map (\<lambda>p. snd p @ '': '' @ join '', '' (sort (fst p)))
                       (filter (\<lambda>p. fst p \<noteq> []) clauses);
          causes = plain_causes ''contradicted'' contra @ plain_causes ''failed'' (named Failed) @
            map (\<lambda>p. \<lparr>cc_claim_id = fst p, cc_cause = ''failed'', cc_detail = Some (snd p)\<rparr>) (sort suite) @
            plain_causes ''mismatched'' (named Mismatched) @ plain_causes ''stale'' (named Stale) @
            plain_causes ''absent'' (named Absent)
      in (causes, join ''; '' (map (\<lambda>p. fst p @ '': '' @ snd p) suite @ standard)))"

definition considered_text :: "evidence \<Rightarrow> string" where
  "considered_text e = e_claim_id e @ ''@'' @ e_subject_digest e @ '':'' @ show_int (e_exit_code e)"

definition contradicted_ids :: "gate \<Rightarrow> evidence list \<Rightarrow> string \<Rightarrow> string list" where
  "contradicted_ids g ev subject_digest =
     sort (map c_claim_id (filter (\<lambda>c. contradicted c ev subject_digest) (g_required_claims g)))"

definition missing_ids :: "gate \<Rightarrow> evidence list \<Rightarrow> string \<Rightarrow> string list" where
  "missing_ids g ev subject_digest =
     sort (map c_claim_id (filter (\<lambda>c.
       c_claim_id c \<in> set (contradicted_ids g ev subject_digest) \<or>
       \<not> list_ex (\<lambda>e. satisfies e c subject_digest) ev) (g_required_claims g)))"

definition evaluate ::
  "gate \<Rightarrow> evidence list \<Rightarrow> string \<Rightarrow> string \<Rightarrow> string option \<Rightarrow> string \<Rightarrow> evaluation result" where
  "evaluate g ev subject_digest subject_lane catalog_digest approver_id =
     bind (require_digest (VStr subject_digest) ''subject_digest'') (\<lambda>_.
     bind (require_text (VStr approver_id) ''approver_id'') (\<lambda>_.
     let considered = sort (map considered_text ev);
         self_approved = sorted_set (map e_producer_id (filter (\<lambda>e. e_producer_id e = approver_id) ev));
         base = \<lparr>ev_verdict = PASS, ev_gate_id = g_gate_id g, ev_failing_rule = None,
                 ev_missing_claims = [], ev_reason = None, ev_subject_digest = subject_digest,
                 ev_subject_lane = subject_lane, ev_catalog_digest = catalog_digest,
                 ev_approver_id = approver_id, ev_considered = considered, ev_causes = [],
                 ev_self_approval = False\<rparr>;
         missing = missing_ids g ev subject_digest
     in
     if self_approved \<noteq> [] then
       Inr (base\<lparr>ev_verdict := FAIL, ev_failing_rule := Some (g_rule_id g),
              ev_reason := Some (''self-approval refused: '' @ join '', '' self_approved @
                '' produced evidence and approved it''),
              ev_self_approval := True\<rparr>)
     else if missing \<noteq> [] then
       (let d = diagnosis_of g ev subject_digest (contradicted_ids g ev subject_digest) missing in
        bind (for_each claim_cause_post_init (fst d)) (\<lambda>_.
        Inr (base\<lparr>ev_verdict := FAIL, ev_failing_rule := Some (g_rule_id g),
               ev_missing_claims := missing, ev_reason := Some (snd d), ev_causes := fst d\<rparr>)))
     else Inr base))"


section \<open>When a claim is cleared\<close>

lemma require_text_Inr [simp]: "require_text v f = Inr u \<longleftrightarrow> is_str v \<and> \<not> blank (str_of v)"
  by (simp add: require_text_def)

lemma require_digest_Inr [simp]: "require_digest v f = Inr u \<longleftrightarrow> is_str v \<and> is_digest (str_of v)"
  by (simp add: require_digest_def)

text \<open>The specification of a claim that does not block: some record satisfies it, and no record
  that addresses it says otherwise.\<close>

definition cleared :: "claim \<Rightarrow> evidence list \<Rightarrow> string \<Rightarrow> bool" where
  "cleared c ev sd \<longleftrightarrow>
     (\<exists>e \<in> set ev. satisfies e c sd) \<and> (\<forall>e \<in> set ev. addresses e c sd \<longrightarrow> satisfies e c sd)"

lemma satisfies_addresses: "satisfies e c sd \<Longrightarrow> addresses e c sd"
  by (simp add: satisfies_def)

lemma contradicted_iff:
  "contradicted c ev sd \<longleftrightarrow>
     (\<exists>e \<in> set ev. satisfies e c sd) \<and> (\<exists>e \<in> set ev. addresses e c sd \<and> \<not> satisfies e c sd)"
  unfolding contradicted_def two_bools by (auto dest: satisfies_addresses)

lemma cleared_iff: "cleared c ev sd \<longleftrightarrow> \<not> contradicted c ev sd \<and> list_ex (\<lambda>e. satisfies e c sd) ev"
  by (auto simp: cleared_def contradicted_iff list_ex_iff)

lemma missing_ids_Nil: "missing_ids g ev sd = [] \<longleftrightarrow> (\<forall>c \<in> set (g_required_claims g). cleared c ev sd)"
  by (auto simp: missing_ids_def contradicted_ids_def cleared_iff filter_empty_conv)

text \<open>A gate built by its constructor from claims built by theirs.\<close>

definition gate_ok :: "gate \<Rightarrow> bool" where
  "gate_ok g \<longleftrightarrow> gate_post_init g = Inr () \<and>
     list_all (\<lambda>c. claim_post_init c = Inr ()) (g_required_claims g)"

lemma claim_post_init_Inr:
  "claim_post_init c = Inr () \<Longrightarrow> \<not> blank (c_claim_id c) \<and> is_digest (c_command_digest c)"
  by (auto simp: claim_post_init_def bind_Inr_iff)

lemma gate_okD:
  assumes "gate_ok g"
  shows "g_required_claims g \<noteq> []" "distinct (map c_claim_id (g_required_claims g))"
    "\<And>c. c \<in> set (g_required_claims g) \<Longrightarrow> \<not> blank (c_claim_id c)"
proof -
  let ?ids = "map c_claim_id (g_required_claims g)"
  have "g_required_claims g \<noteq> [] \<and> length ?ids = length (remdups ?ids)"
    using assms by (simp add: gate_ok_def gate_post_init_def bind_Inr_iff Let_def del: length_map)
  then show "g_required_claims g \<noteq> []" "distinct ?ids"
    unfolding no_duplicates_iff by auto
  show "\<not> blank (c_claim_id c)" if "c \<in> set (g_required_claims g)" for c
    using assms that claim_post_init_Inr by (auto simp: gate_ok_def list_all_iff)
qed

section \<open>Causes\<close>

definition named_as :: "diagnosis \<Rightarrow> (string \<times> diagnosis) list \<Rightarrow> string list" where
  "named_as k fs = map fst (filter (\<lambda>p. snd p = k) fs)"

definition suite_failed :: "(string \<times> diagnosis) list \<Rightarrow> (string \<times> string) list" where
  "suite_failed fs = concat (map (\<lambda>p. case snd p of SuiteFailed d \<Rightarrow> [(fst p, d)] | _ \<Rightarrow> []) fs)"

lemma causes_eq:
  "fst (diagnosis_of g ev sd contra missing) =
     (let fs = filed g ev sd contra missing in
      plain_causes ''contradicted'' contra @ plain_causes ''failed'' (named_as Failed fs) @
      map (\<lambda>p. \<lparr>cc_claim_id = fst p, cc_cause = ''failed'', cc_detail = Some (snd p)\<rparr>) (sort (suite_failed fs)) @
      plain_causes ''mismatched'' (named_as Mismatched fs) @ plain_causes ''stale'' (named_as Stale fs) @
      plain_causes ''absent'' (named_as Absent fs))"
  by (simp add: diagnosis_of_def Let_def named_as_def suite_failed_def)

lemma plain_causes_ids [simp]: "mset (map cc_claim_id (plain_causes k ids)) = mset ids"
  by (simp add: plain_causes_def comp_def)

lemma mset_filed_kinds:
  "mset (named_as Failed fs) + (mset (map fst (suite_failed fs)) + (mset (named_as Mismatched fs) +
     (mset (named_as Stale fs) + mset (named_as Absent fs)))) = mset (map fst fs)"
proof (induction fs)
  case (Cons p fs)
  then show ?case by (cases "snd p") (auto simp: named_as_def suite_failed_def)
qed (simp add: named_as_def suite_failed_def)

lemma causes_ids:
  "mset (map cc_claim_id (fst (diagnosis_of g ev sd contra missing))) =
     mset contra + mset (map fst (filed g ev sd contra missing))"
proof -
  have "mset (map (cc_claim_id \<circ> (\<lambda>p. \<lparr>cc_claim_id = fst p, cc_cause = k, cc_detail = Some (snd p)\<rparr>)) (sort xs))
      = mset (map fst xs)" for k and xs :: "(string \<times> string) list"
    by (simp add: comp_def)
  then show ?thesis
    using mset_filed_kinds [of "filed g ev sd contra missing"]
    by (simp add: causes_eq Let_def del: mset_map)
qed

lemma filed_and_contradicted:
  assumes "distinct (map c_claim_id (g_required_claims g))"
  shows "mset (contradicted_ids g ev sd) +
      mset (map fst (filed g ev sd (contradicted_ids g ev sd) (missing_ids g ev sd))) =
    mset (missing_ids g ev sd)"
proof -
  let ?cs = "g_required_claims g" and ?contra = "contradicted_ids g ev sd"
  let ?P = "\<lambda>c. c_claim_id c \<in> set ?contra" and ?Q = "\<lambda>c. \<not> list_ex (\<lambda>e. satisfies e c sd) ev"
  have contra: "?P c \<longleftrightarrow> contradicted c ev sd" if "c \<in> set ?cs" for c
    using that assms by (auto simp: contradicted_ids_def distinct_map dest: inj_onD)
  have "c_claim_id c \<in> set (missing_ids g ev sd) \<longleftrightarrow> ?P c \<or> ?Q c" if "c \<in> set ?cs" for c
    using that assms by (auto simp: missing_ids_def distinct_map dest: inj_onD)
  then have "map fst (filed g ev sd ?contra (missing_ids g ev sd)) =
      map c_claim_id (filter (\<lambda>c. (?P c \<or> ?Q c) \<and> \<not> ?P c) ?cs)"
    by (auto simp: filed_def comp_def intro!: arg_cong [where f = "map c_claim_id"] filter_cong)
  moreover have "mset ?contra = mset (map c_claim_id (filter ?P ?cs))"
    using contra by (simp add: contradicted_ids_def del: mset_map mset_filter cong: filter_cong)
  moreover have "mset (filter ?P ?cs) + mset (filter (\<lambda>c. (?P c \<or> ?Q c) \<and> \<not> ?P c) ?cs) =
      mset (filter (\<lambda>c. ?P c \<or> ?Q c) ?cs)"
    by (rule mset_filter_split)
  ultimately show ?thesis
    by (simp only: missing_ids_def mset_sort mset_map image_mset_union [symmetric])
qed

lemma filed_claims:
  "(i, k) \<in> set (filed g ev sd contra missing) \<Longrightarrow>
     \<exists>c \<in> set (g_required_claims g). i = c_claim_id c \<and> k = diagnose c ev sd \<and> i \<in> set missing \<and> i \<notin> set contra"
  by (auto simp: filed_def)

lemma causes_named:
  assumes "cc \<in> set (fst (diagnosis_of g ev sd (contradicted_ids g ev sd) missing))"
  shows "\<exists>c \<in> set (g_required_claims g). cc_claim_id cc = c_claim_id c"
proof -
  let ?d = "fst (diagnosis_of g ev sd (contradicted_ids g ev sd) missing)"
  have "cc_claim_id cc \<in># mset (map cc_claim_id ?d)" using assms by simp
  then show ?thesis
    unfolding causes_ids by (auto simp: contradicted_ids_def filed_def)
qed

lemma causes_post_init:
  assumes "gate_ok g"
  shows "for_each claim_cause_post_init (fst (diagnosis_of g ev sd (contradicted_ids g ev sd) missing)) = Inr ()"
  unfolding for_each_Inr_iff
proof
  fix cc assume cc: "cc \<in> set (fst (diagnosis_of g ev sd (contradicted_ids g ev sd) missing))"
  have "\<not> blank (cc_claim_id cc)" using causes_named [OF cc] gate_okD(3) [OF assms] by auto
  moreover have "cc_cause cc \<in> {''contradicted'', ''failed'', ''mismatched'', ''stale'', ''absent''}"
    using cc by (auto simp: causes_eq Let_def plain_causes_def)
  ultimately show "claim_cause_post_init cc = Inr ()"
    by (auto simp: claim_cause_post_init_def bind_Inr_iff ascii_space_def Let_def)
qed

section \<open>The verdict\<close>

lemma self_approved_Nil:
  "sorted_set (map e_producer_id (filter (\<lambda>e. e_producer_id e = a) ev)) = [] \<longleftrightarrow>
     (\<forall>e \<in> set ev. e_producer_id e \<noteq> a)"
  by (auto simp: filter_empty_conv)

text \<open>
  C2: The kernel's contract. For a well-formed gate, a canonical subject digest and a named approver,
  \<open>evaluate\<close> returns, and the verdict is PASS if and only if no evidence was produced by the approver
  and every required claim is cleared: at least one record satisfies it, and every record that
  addresses it (same claim, subject and command) satisfies it. Absence, stale evidence, another
  command and a contradicting report all block.
\<close>

theorem evaluate_pass_iff:
  assumes "gate_ok g" and "is_digest sd" and "\<not> blank approver"
  shows "\<exists>r. evaluate g ev sd lane cat approver = Inr r \<and>
    (ev_verdict r = PASS \<longleftrightarrow>
       (\<forall>e \<in> set ev. e_producer_id e \<noteq> approver) \<and>
       (\<forall>c \<in> set (g_required_claims g). cleared c ev sd))"
  using assms causes_post_init [OF assms(1)]
  by (auto simp: evaluate_def Let_def self_approved_Nil missing_ids_Nil bind_Inr_iff
      simp del: sorted_set_Nil_iff)

text \<open>
  A failing evaluation that is not a refused self-approval names at least one missing claim, and
  its causes list names every missing claim exactly once: nothing is filed twice, nothing is dropped.
\<close>

lemma failing_causes:
  assumes "gate_ok g" and "evaluate g ev sd lane cat approver = Inr r"
    and "ev_verdict r = FAIL" and "\<not> ev_self_approval r"
  shows "ev_missing_claims r \<noteq> [] \<and> mset (map cc_claim_id (ev_causes r)) = mset (ev_missing_claims r)"
proof -
  have "ev_missing_claims r = missing_ids g ev sd" "missing_ids g ev sd \<noteq> []"
    "ev_causes r = fst (diagnosis_of g ev sd (contradicted_ids g ev sd) (missing_ids g ev sd))"
    using assms(2-4) by (auto simp: evaluate_def Let_def bind_Inr_iff split: if_splits)
  then show ?thesis
    using filed_and_contradicted [OF gate_okD(2) [OF assms(1)], of ev sd]
    by (simp only: causes_ids) simp
qed


section \<open>Evidence order\<close>

lemma contradicted_cong: "set ev = set ev' \<Longrightarrow> contradicted c ev sd = contradicted c ev' sd"
  by (simp add: contradicted_iff)

lemma filter_Nil_cong: "set xs = set ys \<Longrightarrow> filter P xs = [] \<longleftrightarrow> filter P ys = []"
  by (simp add: filter_empty_conv)

lemma diagnose_cong:
  assumes "set ev = set ev'"
  shows "diagnose c ev sd = diagnose c ev' sd"
proof -
  let ?n = "\<lambda>ev. filter (\<lambda>e. e_claim_id e = c_claim_id c) ev"
  let ?a = "\<lambda>ev. filter (\<lambda>e. addresses e c sd) (?n ev)"
  have n: "set (?n ev) = set (?n ev')" and a: "set (?a ev) = set (?a ev')" using assms by auto
  have "sorted_set (concat (map (\<lambda>e. suite_diagnosis e c) (?a ev))) =
      sorted_set (concat (map (\<lambda>e. suite_diagnosis e c) (?a ev')))"
    by (rule sorted_set_cong) (use assms in simp)
  moreover have "?n ev = [] \<longleftrightarrow> ?n ev' = []" "?a ev = [] \<longleftrightarrow> ?a ev' = []"
    using n a by (metis set_empty)+
  moreover have "list_ex P (?n ev) = list_ex P (?n ev')" for P using assms by (simp add: list_ex_iff)
  ultimately show ?thesis by (simp only: diagnose_def Let_def)
qed

lemma missing_ids_cong:
  assumes "set ev = set ev'"
  shows "contradicted_ids g ev sd = contradicted_ids g ev' sd" "missing_ids g ev sd = missing_ids g ev' sd"
proof -
  show c: "contradicted_ids g ev sd = contradicted_ids g ev' sd"
    using contradicted_cong [OF assms] by (simp add: contradicted_ids_def)
  have "list_ex P ev = list_ex P ev'" for P using assms by (simp add: list_ex_iff)
  then show "missing_ids g ev sd = missing_ids g ev' sd" by (simp add: missing_ids_def c)
qed

lemma diagnosis_of_cong:
  "set ev = set ev' \<Longrightarrow> diagnosis_of g ev sd contra missing = diagnosis_of g ev' sd contra missing"
  using diagnose_cong [of ev ev'] by (simp add: diagnosis_of_def filed_def)

text \<open>
  The evaluation, with its considered list, causes and reason, does not depend on the order in
  which evidence was recorded.
\<close>

lemma evaluate_permutation:
  assumes "mset ev = mset ev'"
  shows "evaluate g ev sd lane cat approver = evaluate g ev' sd lane cat approver"
proof -
  have s: "set ev = set ev'" using assms by (metis set_mset_mset)
  have "sort (map considered_text ev) = sort (map considered_text ev')"
    using assms by (intro sort_mset_cong) simp
  moreover have "sorted_set (map e_producer_id (filter P ev)) = sorted_set (map e_producer_id (filter P ev'))"
    for P using s by (intro sorted_set_cong) auto
  ultimately show ?thesis
    by (simp only: evaluate_def Let_def missing_ids_cong [OF s] diagnosis_of_cong [OF s])
qed

section \<open>What a cause says\<close>

definition cause_holds :: "string \<Rightarrow> claim \<Rightarrow> evidence list \<Rightarrow> string \<Rightarrow> bool" where
  "cause_holds k c ev sd \<longleftrightarrow>
     (if k = ''absent'' then \<forall>e \<in> set ev. e_claim_id e \<noteq> c_claim_id c
      else if k = ''stale'' then
        (\<exists>e \<in> set ev. e_claim_id e = c_claim_id c) \<and>
        (\<forall>e \<in> set ev. e_claim_id e = c_claim_id c \<longrightarrow> e_subject_digest e \<noteq> sd)
      else if k = ''mismatched'' then
        (\<exists>e \<in> set ev. e_claim_id e = c_claim_id c \<and> e_subject_digest e = sd) \<and>
        (\<forall>e \<in> set ev. e_claim_id e = c_claim_id c \<and> e_subject_digest e = sd \<longrightarrow>
           e_command_digest e \<noteq> c_command_digest c)
      else if k = ''failed'' then
        (\<exists>e \<in> set ev. addresses e c sd) \<and> (\<forall>e \<in> set ev. \<not> satisfies e c sd)
      else k = ''contradicted'' \<and> contradicted c ev sd)"

lemma diagnose_holds:
  assumes "\<not> contradicted c ev sd" and "\<not> cleared c ev sd"
  shows "cause_holds (case diagnose c ev sd of Absent \<Rightarrow> ''absent'' | Failed \<Rightarrow> ''failed''
    | SuiteFailed d \<Rightarrow> ''failed'' | Mismatched \<Rightarrow> ''mismatched'' | Stale \<Rightarrow> ''stale'') c ev sd"
proof -
  have nosat: "\<forall>e \<in> set ev. \<not> satisfies e c sd"
    using assms by (auto simp: cleared_iff list_ex_iff)
  show ?thesis
    using nosat
    by (auto simp: cause_holds_def diagnose_def Let_def filter_empty_conv list_ex_iff addresses_def)
qed

text \<open>
  The cause recorded for a claim is what happened to it: \<open>absent\<close> only when nothing names the
  claim, \<open>stale\<close> when every record is about another subject, \<open>mismatched\<close> when the records for this
  subject ran another command, \<open>failed\<close> when the bound command ran and no record satisfies the claim,
  \<open>contradicted\<close> when addressed records disagree. Absence wording is never spent on an attack or a
  red suite.
\<close>

lemma causes_sound:
  assumes "gate_ok g" and "evaluate g ev sd lane cat approver = Inr r" and "cc \<in> set (ev_causes r)"
  shows "\<exists>c \<in> set (g_required_claims g). c_claim_id c = cc_claim_id cc \<and> cause_holds (cc_cause cc) c ev sd"
proof -
  let ?contra = "contradicted_ids g ev sd" and ?miss = "missing_ids g ev sd"
  let ?fs = "filed g ev sd ?contra ?miss"
  have cc: "cc \<in> set (fst (diagnosis_of g ev sd ?contra ?miss))"
    using assms(2,3) by (auto simp: evaluate_def Let_def bind_Inr_iff split: if_splits)
  have filed: "\<exists>c \<in> set (g_required_claims g). i = c_claim_id c \<and> cause_holds
      (case k of Absent \<Rightarrow> ''absent'' | Failed \<Rightarrow> ''failed'' | SuiteFailed d \<Rightarrow> ''failed''
       | Mismatched \<Rightarrow> ''mismatched'' | Stale \<Rightarrow> ''stale'') c ev sd"
    if fs: "(i, k) \<in> set ?fs" for i k
  proof -
    obtain c where c: "c \<in> set (g_required_claims g)" "i = c_claim_id c" "k = diagnose c ev sd"
      "i \<in> set ?miss" "i \<notin> set ?contra" using filed_claims [OF fs] by blast
    have "\<not> contradicted c ev sd" using c by (auto simp: contradicted_ids_def)
    moreover have "\<not> cleared c ev sd"
      using c gate_okD(2) [OF assms(1)]
      by (auto simp: missing_ids_def cleared_iff distinct_map dest: inj_onD)
    ultimately show ?thesis using diagnose_holds c(1-3) by blast
  qed
  have "cc_claim_id cc \<in> set ?contra \<and> cc_cause cc = ''contradicted'' \<or>
    (\<exists>k. (cc_claim_id cc, k) \<in> set ?fs \<and> cc_cause cc =
      (case k of Absent \<Rightarrow> ''absent'' | Failed \<Rightarrow> ''failed'' | SuiteFailed d \<Rightarrow> ''failed''
       | Mismatched \<Rightarrow> ''mismatched'' | Stale \<Rightarrow> ''stale''))"
    using cc
    by (auto simp: causes_eq Let_def plain_causes_def named_as_def suite_failed_def
        split: diagnosis.splits)
  then show ?thesis
  proof
    assume "cc_claim_id cc \<in> set ?contra \<and> cc_cause cc = ''contradicted''"
    then show ?thesis by (auto simp: contradicted_ids_def cause_holds_def)
  next
    assume "\<exists>k. (cc_claim_id cc, k) \<in> set ?fs \<and> cc_cause cc =
      (case k of Absent \<Rightarrow> ''absent'' | Failed \<Rightarrow> ''failed'' | SuiteFailed d \<Rightarrow> ''failed''
       | Mismatched \<Rightarrow> ''mismatched'' | Stale \<Rightarrow> ''stale'')"
    then show ?thesis using filed by force
  qed
qed

section \<open>Suite claims, from the report to the verdict\<close>

lemma covered_iff:
  assumes "distinct (map fst os)"
  shows "I \<subseteq> fst ` set os \<and> (\<forall>(i, k) \<in> set os. i \<in> I \<longrightarrow> P i k) \<longleftrightarrow> (\<forall>i \<in> I. \<exists>k. (i, k) \<in> set os \<and> P i k)"
  (is "?l \<longleftrightarrow> ?r")
proof
  assume ?l then show ?r by force
next
  assume r: ?r
  have "P i k" if "(i, k) \<in> set os" "i \<in> I" for i k
    using r that eq_key_imp_eq_value [OF assms that(1)] by blast
  then show ?l using r by force
qed

text \<open>
  C6: A suite claim frozen from a manifest is satisfied by a record carrying the summary of a report
  exactly when the command exited 0 and every test of the manifest was observed in the report and
  passed, or was skipped where the manifest declares the skip: a missing test, an undeclared skip,
  an xfail or a failure all block.
\<close>

theorem suite_claim_satisfied_iff:
  assumes sum: "suite_results_from_junitxml sha parse_xml raw m rep q = Inr s"
    and man: "validate_manifest m = Inr m" and md: "manifest_digest sha m = Inr md"
    and os: "outcomes parse_xml raw rep q = Inr os" and sha: "\<And>b. length (sha b) = 32"
    and c: "c_results_required c" "c_manifest_digest c = Some md"
      "c_expected_ids c = Some (map str_of (items_of (fld m ''suite'')))" "c_expected_skips c = Some skips"
    and e: "addresses e c sd" "e_suite_results e = Some s"
  shows "satisfies e c sd \<longleftrightarrow> e_exit_code e = 0 \<and>
    (\<forall>i \<in> set (map str_of (items_of (fld m ''suite''))). \<exists>k. (i, k) \<in> set os \<and>
       (k = ''passed'' \<or> k = ''skipped'' \<and> i \<in> fst ` set skips))"
proof -
  let ?ids = "map str_of (items_of (fld m ''suite''))"
  obtain od where "sha256_text sha (VDict (map (\<lambda>p. (fst p, VStr (snd p))) os)) = Inr od"
    using sum man md os by (auto simp: suite_results_from_junitxml_def bind_Inr_iff Let_def)
  from suite_summary [OF man os md this sha] sum have s: "sr_manifest_digest s = md"
    "set (sr_missing s) = set ?ids - set (map fst os)"
    "sr_non_passed s = filter (\<lambda>p. snd p \<noteq> ''passed'') os" by auto
  have d: "distinct (map fst os)" using outcomes_Inr(2) [OF os] .
  have "list_all (\<lambda>i. i \<notin> set (claim_ids c)) (sr_missing s) \<longleftrightarrow> set ?ids \<subseteq> fst ` set os"
    using s(2) c(3) by (auto simp: list_all_iff claim_ids_def)
  moreover have "offenders c s = [] \<longleftrightarrow>
      (\<forall>(i, k) \<in> set os. i \<in> set ?ids \<longrightarrow> k = ''passed'' \<or> k = ''skipped'' \<and> i \<in> fst ` set skips)"
    unfolding offenders_def claim_ids_def claim_skips_def filter_empty_conv s(3) c(3,4)
      option.case list.set_map set_filter case_prod_unfold by blast
  ultimately have "satisfies e c sd \<longleftrightarrow> e_exit_code e = 0 \<and> set ?ids \<subseteq> fst ` set os \<and>
      (\<forall>(i, k) \<in> set os. i \<in> set ?ids \<longrightarrow> k = ''passed'' \<or> k = ''skipped'' \<and> i \<in> fst ` set skips)"
    using c(1,2) e s(1) by (simp add: satisfies_def)
  also have "\<dots> \<longleftrightarrow> e_exit_code e = 0 \<and> (\<forall>i \<in> set ?ids. \<exists>k. (i, k) \<in> set os \<and>
       (k = ''passed'' \<or> k = ''skipped'' \<and> i \<in> fst ` set skips))"
    using covered_iff [OF d, of "set ?ids"
        "\<lambda>i k. k = ''passed'' \<or> k = ''skipped'' \<and> i \<in> fst ` set skips"] by (simp only:)
  finally show ?thesis .
qed

section \<open>Witnesses\<close>

definition zero_digest :: string where
  "zero_digest = ''sha256:'' @ replicate 64 (CHR ''0'')"

definition demo_claim :: claim where
  "demo_claim = \<lparr>c_claim_id = ''tests'', c_command_digest = zero_digest, c_results_required = False,
     c_manifest_digest = None, c_expected_ids = None, c_expected_skips = None\<rparr>"

definition demo_gate :: gate where
  "demo_gate = \<lparr>g_gate_id = ''gate'', g_rule_id = ''rule'', g_required_claims = [demo_claim], g_blocking = True\<rparr>"

definition demo_evidence :: "string \<Rightarrow> int \<Rightarrow> evidence" where
  "demo_evidence producer code = \<lparr>e_claim_id = ''tests'', e_subject_digest = zero_digest,
     e_producer_id = producer, e_command = ''pytest'', e_command_digest = zero_digest,
     e_executable_path = ''/usr/bin/pytest'', e_exit_code = code, e_suite_results = None\<rparr>"

lemma demo_gate_ok: "gate_ok demo_gate" "is_digest zero_digest" "\<not> blank ''human''"
  by code_simp+

theorem evaluate_pass_iff_witness:
  "\<exists>r. evaluate demo_gate [demo_evidence ''worker'' 0] zero_digest ''lane'' None ''human'' = Inr r \<and>
    (ev_verdict r = PASS \<longleftrightarrow>
       (\<forall>e \<in> set [demo_evidence ''worker'' 0]. e_producer_id e \<noteq> ''human'') \<and>
       (\<forall>c \<in> set (g_required_claims demo_gate). cleared c [demo_evidence ''worker'' 0] zero_digest))"
  by (rule evaluate_pass_iff [OF demo_gate_ok])

definition demo_contradiction :: evaluation where
  "demo_contradiction =
     (case evaluate demo_gate [demo_evidence ''worker'' 0, demo_evidence ''other'' 1] zero_digest
        ''lane'' None ''human'' of Inr r \<Rightarrow> r | Inl _ \<Rightarrow> undefined)"

lemma demo_contradiction_Inr:
  "evaluate demo_gate [demo_evidence ''worker'' 0, demo_evidence ''other'' 1] zero_digest ''lane'' None ''human''
     = Inr demo_contradiction"
  by code_simp

lemma demo_contradiction_fields:
  "ev_verdict demo_contradiction = FAIL" "\<not> ev_self_approval demo_contradiction"
  "ev_causes demo_contradiction =
     [\<lparr>cc_claim_id = ''tests'', cc_cause = ''contradicted'', cc_detail = None\<rparr>]"
  by code_simp+

definition demo_suite_claim :: claim where
  "demo_suite_claim = \<lparr>c_claim_id = ''suite'', c_command_digest = zero_digest, c_results_required = True,
     c_manifest_digest = Some zero_digest, c_expected_ids = Some [''tests/a.py::t''],
     c_expected_skips = Some []\<rparr>"

definition demo_summary :: pyval where
  "demo_summary =
     (case suite_results_from_junitxml zero_sha demo_report [] demo_manifest ''pytest-junit'' False of
        Inr s \<Rightarrow> s | Inl _ \<Rightarrow> VNone)"

lemma demo_summary_Inr:
  "suite_results_from_junitxml zero_sha demo_report [] demo_manifest ''pytest-junit'' False = Inr demo_summary"
  by code_simp

definition demo_suite_evidence :: evidence where
  "demo_suite_evidence = (demo_evidence ''worker'' 0)\<lparr>e_claim_id := ''suite'',
     e_suite_results := Some demo_summary\<rparr>"

theorem suite_claim_satisfied_iff_witness:
  "satisfies demo_suite_evidence demo_suite_claim zero_digest \<longleftrightarrow> e_exit_code demo_suite_evidence = 0 \<and>
    (\<forall>i \<in> set (map str_of (items_of (fld demo_manifest ''suite''))). \<exists>k.
       (i, k) \<in> set [(''tests/a.py::t'', ''passed'')] \<and>
       (k = ''passed'' \<or> k = ''skipped'' \<and> i \<in> fst ` set ([] :: (string \<times> string) list)))"
proof (rule suite_claim_satisfied_iff [OF demo_summary_Inr _ _ demo_outcomes])
  show "validate_manifest demo_manifest = Inr demo_manifest" by code_simp
  show "manifest_digest zero_sha demo_manifest = Inr zero_digest" by code_simp
  show "addresses demo_suite_evidence demo_suite_claim zero_digest" by code_simp
  show "c_expected_ids demo_suite_claim = Some (map str_of (items_of (fld demo_manifest ''suite'')))"
    by code_simp
qed (simp_all add: demo_suite_claim_def demo_suite_evidence_def)

end
