(* ===== verification/Signing.thy ===== *)
theory Signing
  imports Gate_Verdict
begin

text \<open>
  Ed25519 signatures over evidence records (\<^verbatim>\<open>src/src/ranex/foundation/signing.py\<close>) and the base64
  codec of Python's standard library they are spelled in. Shown: a key or signature has exactly
  one accepted spelling, so identity of strings is identity of key material; the signed bytes
  determine the record; a signed record verifies; and verification answers on every input.
\<close>

section \<open>Spellings\<close>

text \<open>
  The contract of a text encoding that names byte strings: what was encoded decodes, and a text that
  decodes is the encoding. The clients need nothing else of base64.
\<close>

locale spelling =
  fixes enc :: "'a \<Rightarrow> string" and dec :: "string \<Rightarrow> 'a option" and good :: "'a \<Rightarrow> bool"
  assumes dec_enc: "good x \<Longrightarrow> dec (enc x) = Some x"
    and enc_dec: "dec s = Some x \<Longrightarrow> s = enc x \<and> good x"
begin

lemma dec_iff: "dec s = Some x \<longleftrightarrow> s = enc x \<and> good x"
  using dec_enc enc_dec by blast

lemma one_spelling: "dec s = Some x \<Longrightarrow> dec t = Some x \<Longrightarrow> s = t"
  using enc_dec by blast

lemma enc_inject: "good x \<Longrightarrow> good y \<Longrightarrow> enc x = enc y \<longleftrightarrow> x = y"
  by (metis dec_enc option.inject)

lemma named_iff: "dec s \<noteq> None \<longleftrightarrow> (\<exists>x. good x \<and> s = enc x)"
  using dec_iff by blast

end

section \<open>base64\<close>

text \<open>\<open>base64.b64encode\<close> and \<open>base64.b64decode(..., validate=True)\<close>, whose last group may carry unread bits.\<close>

definition b64_char :: "nat \<Rightarrow> char" where
  "b64_char n =
     (if n < 26 then char_of (65 + n) else if n < 52 then char_of (71 + n)
      else if n < 62 then char_of (n - 4) else if n = 62 then CHR ''+'' else CHR ''/'')"

definition b64_val :: "char \<Rightarrow> nat option" where
  "b64_val c =
     (let n = of_char c :: nat in
      if 65 \<le> n \<and> n \<le> 90 then Some (n - 65)
      else if 97 \<le> n \<and> n \<le> 122 then Some (n - 71)
      else if 48 \<le> n \<and> n \<le> 57 then Some (n + 4)
      else if c = CHR ''+'' then Some 62 else if c = CHR ''/'' then Some 63 else None)"

fun b64encode :: "bytes \<Rightarrow> string" where
  "b64encode [] = []"
| "b64encode [a] =
     (let x = of_char a :: nat in [b64_char (x div 4), b64_char (x mod 4 * 16), CHR ''='', CHR ''=''])"
| "b64encode [a, b] =
     (let x = of_char a :: nat; y = of_char b in
      [b64_char (x div 4), b64_char (x mod 4 * 16 + y div 16), b64_char (y mod 16 * 4), CHR ''=''])"
| "b64encode (a # b # c # r) =
     (let x = of_char a :: nat; y = of_char b; z = of_char c in
      [b64_char (x div 4), b64_char (x mod 4 * 16 + y div 16),
       b64_char (y mod 16 * 4 + z div 64), b64_char (z mod 64)] @ b64encode r)"

fun b64decode :: "string \<Rightarrow> bytes option" where
  "b64decode [] = Some []"
| "b64decode (a # b # c # d # r) =
     (if d = CHR ''='' then
        (if r \<noteq> [] then None
         else if c = CHR ''='' then
           (case (b64_val a, b64_val b) of
              (Some w, Some x) \<Rightarrow> Some [char_of (w * 4 + x div 16)] | _ \<Rightarrow> None)
         else
           (case (b64_val a, b64_val b, b64_val c) of
              (Some w, Some x, Some y) \<Rightarrow>
                Some [char_of (w * 4 + x div 16), char_of (x mod 16 * 16 + y div 4)]
            | _ \<Rightarrow> None))
      else
        (case (b64_val a, b64_val b, b64_val c, b64_val d, b64decode r) of
           (Some w, Some x, Some y, Some z, Some rest) \<Rightarrow>
             Some ([char_of (w * 4 + x div 16), char_of (x mod 16 * 16 + y div 4),
                    char_of (y mod 4 * 64 + z)] @ rest)
         | _ \<Rightarrow> None))"
| "b64decode _ = None"

lemma b64_val_char [simp]: "n < 64 \<Longrightarrow> b64_val (b64_char n) = Some n"
  by (auto simp: b64_val_def b64_char_def Let_def)

lemma b64_val_pad [simp]: "b64_val CHR ''='' = None"
  by (simp add: b64_val_def)

lemma b64_char_not_pad [simp]: "n < 64 \<Longrightarrow> b64_char n \<noteq> CHR ''=''"
  using b64_val_char [of n] by force

lemma digit_pair:
  fixes r s n :: nat
  assumes "s < n"
  shows "(r * n + s) div n = r" "(r * n + s) mod n = s"
  using assms by simp_all

lemma byte_parts:
  fixes x :: nat
  assumes "x < 256"
  shows "x div 4 < 64" "x div 16 < 16" "x div 64 < 4" "x mod 4 * 16 < 64" "x mod 16 * 4 < 64"
    "x div 4 * 4 + x mod 4 = x" "x div 16 * 16 + x mod 16 = x" "x mod 4 * 16 div 16 = x mod 4"
  using assms by (simp_all add: less_mult_imp_div_less)

lemma byte_pairs:
  fixes x y :: nat
  assumes "y < 256"
  shows "x mod 4 * 16 + y div 16 < 64" "(x mod 4 * 16 + y div 16) div 16 = x mod 4"
    "(x mod 4 * 16 + y div 16) mod 16 = y div 16"
    "x mod 16 * 4 + y div 64 < 64" "(x mod 16 * 4 + y div 64) div 4 = x mod 16"
    "(x mod 16 * 4 + y div 64) mod 4 = y div 64"
    "y div 64 * 64 + y mod 64 = y"
proof -
  have "y div 16 < 16" "y div 64 < 4" using assms by (simp_all add: byte_parts)
  moreover have "x mod 4 < 4" "x mod 16 < 16" by simp_all
  ultimately show "x mod 4 * 16 + y div 16 < 64" "x mod 16 * 4 + y div 64 < 64" by linarith+
qed (use assms in \<open>simp_all add: digit_pair byte_parts\<close>)

lemma b64_round: "b64decode (b64encode b) = Some b"
proof (induction b rule: b64encode.induct)
  case (2 a)
  then show ?case using of_char_less [of a] by (simp add: Let_def byte_parts)
next
  case (3 a b)
  then show ?case
    using of_char_less [of a] of_char_less [of b] by (simp add: Let_def byte_parts byte_pairs)
next
  case (4 a b c r)
  then show ?case
    using of_char_less [of a] of_char_less [of b] of_char_less [of c]
    by (simp add: Let_def byte_parts byte_pairs)
qed simp

lemma b64encode_ne [simp]: "b64encode b = [] \<longleftrightarrow> b = []"
  by (cases b rule: b64encode.cases) (auto simp: Let_def)

lemma b64_char_ascii: "is_ascii (b64_char n)"
  by (auto simp: b64_char_def is_ascii_def)

lemma b64encode_ascii: "list_all is_ascii (b64encode b)"
  by (induction b rule: b64encode.induct) (auto simp: Let_def b64_char_ascii, auto simp: is_ascii_def)

section \<open>Ed25519\<close>

text \<open>
  The \<open>cryptography\<close> package is a parameter: key derivation, signing, the check that 32 bytes are a
  public key, and verification. \<open>ed25519_laws\<close> is what RFC 8032 promises of them.
\<close>

record ed25519 =
  ed_public :: "bytes \<Rightarrow> bytes"
  ed_sign :: "bytes \<Rightarrow> bytes \<Rightarrow> bytes"
  ed_key_ok :: "bytes \<Rightarrow> bool"
  ed_verify :: "bytes \<Rightarrow> bytes \<Rightarrow> bytes \<Rightarrow> bool"

definition ed25519_laws :: "ed25519 \<Rightarrow> bool" where
  "ed25519_laws ed \<longleftrightarrow>
     (\<forall>seed. length seed = 32 \<longrightarrow>
        length (ed_public ed seed) = 32 \<and> ed_key_ok ed (ed_public ed seed) \<and>
        (\<forall>m. length (ed_sign ed seed m) = 64 \<and>
             ed_verify ed (ed_public ed seed) (ed_sign ed seed m) m))"

section \<open>The module\<close>

definition EVIDENCE_DOMAIN :: bytes where
  "EVIDENCE_DOMAIN = ''ranex-evidence-v5'' @ [CHR 0x0A]"

definition ENVELOPE_TYPE :: string where
  "ENVELOPE_TYPE = ''ranex-evidence-envelope-v1''"

definition ENVELOPE_TYPE_V2 :: string where
  "ENVELOPE_TYPE_V2 = ''ranex-evidence-envelope-v2''"

definition SIGNED_FIELDS :: "string list" where
  "SIGNED_FIELDS =
     [''claim_id'', ''command'', ''command_digest'', ''executable_path'', ''exit_code'', ''producer_id'',
      ''subject_digest'', ''suite_results'', ''confinement_result_digest'',
      ''confinement_profile_digest'', ''envelope_type'', ''gate_id'', ''catalog_digest'']"

definition SIGNED_FIELDS_V2 :: "string list" where
  "SIGNED_FIELDS_V2 = SIGNED_FIELDS @ [''settings_digest'', ''settings_schema_version'']"

definition ed_prefix :: string where
  "ed_prefix = ''ed25519:''"

definition encode :: "bytes \<Rightarrow> string" where
  "encode raw = ed_prefix @ b64encode raw"

text \<open>The text of binascii's own message, which the code appends to its refusal, is left out.\<close>

definition decode :: "pyval \<Rightarrow> nat option \<Rightarrow> string \<Rightarrow> bytes result" where
  "decode value expected field =
     ensure (is_str value \<and> starts_with ed_prefix (str_of value))
       (ValueError (field @ '' must be an ed25519:<base64> string'')) (
     let encoded = drop (length ed_prefix) (str_of value) in
     ensure (encoded \<noteq> []) (ValueError (field @ '' carries no key material'')) (
     case b64decode encoded of
       None \<Rightarrow> Inl (ValueError (field @ '' is not valid base64''))
     | Some raw \<Rightarrow>
         ensure (b64encode raw = encoded)
           (ValueError (field @ '' is not canonically encoded; the same bytes have another base64 spelling, and only the canonical one names this key'')) (
         ensure (case expected of None \<Rightarrow> True | Some n \<Rightarrow> length raw = n)
           (ValueError (field @ '' is '' @ show_nat (length raw) @ '' bytes, expected '' @
              show_nat (case expected of None \<Rightarrow> 0 | Some n \<Rightarrow> n) @ '' for Ed25519'')) (
         Inr raw))))"

text \<open>\<open>sorted(a - b)\<close> on key sets.\<close>

definition key_diff :: "string list \<Rightarrow> string list \<Rightarrow> string list" where
  "key_diff a b = sorted_set (filter (\<lambda>k. k \<notin> set b) a)"

definition signed_payload :: "pyval \<Rightarrow> bytes result" where
  "signed_payload content =
     (let envelope_type = fld content ''envelope_type'';
          body = (\<lambda>fields.
            if set (keys content) \<noteq> set fields then
              (let unexpected = key_diff (keys content) fields;
                   missing = key_diff fields (keys content) in
               Inl (ValueError (''evidence content must be exactly '' @ py_repr (str_list fields) @ '': '' @
                 join ''; ''
                   ((if unexpected \<noteq> [] then [''unexpected '' @ join '', '' unexpected] else []) @
                    (if missing \<noteq> [] then [''missing '' @ join '', '' missing] else [])))))
            else if envelope_type = VStr ENVELOPE_TYPE_V2 \<and> \<not> is_text (fld content ''settings_digest'')
            then Inl (ValueError ''settings_digest must be a non-empty str'')
            else if envelope_type = VStr ENVELOPE_TYPE_V2 \<and> \<not> is_int (fld content ''settings_schema_version'')
            then Inl (ValueError ''settings_schema_version must be an int (not bool)'')
            else bind (canonical_json_bytes content) (\<lambda>b. Inr (EVIDENCE_DOMAIN @ b)))
      in
      if envelope_type = VStr ENVELOPE_TYPE then body SIGNED_FIELDS
      else if envelope_type = VStr ENVELOPE_TYPE_V2 then body SIGNED_FIELDS_V2
      else Inl (ValueError (''unknown envelope_type: '' @ py_repr envelope_type)))"

definition public_private_pair :: "ed25519 \<Rightarrow> bytes \<Rightarrow> string \<times> string" where
  "public_private_pair ed seed = (encode seed, encode (ed_public ed seed))"

definition public_key_for :: "ed25519 \<Rightarrow> pyval \<Rightarrow> string result" where
  "public_key_for ed private_key =
     bind (decode private_key (Some 32) ''private key'') (\<lambda>raw. Inr (snd (public_private_pair ed raw)))"

definition sign_evidence :: "ed25519 \<Rightarrow> pyval \<Rightarrow> pyval \<Rightarrow> string result" where
  "sign_evidence ed content private_key =
     bind (decode private_key (Some 32) ''private key'') (\<lambda>raw.
     bind (signed_payload content) (\<lambda>payload.
     Inr (encode (ed_sign ed raw payload))))"

text \<open>Only \<open>ValueError\<close> is caught: any other exception would reach the caller.\<close>

definition verify_evidence :: "ed25519 \<Rightarrow> pyval \<Rightarrow> pyval \<Rightarrow> pyval \<Rightarrow> bool result" where
  "verify_evidence ed content signature public_key =
     (case bind (decode signature (Some 64) ''signature'') (\<lambda>raw_signature.
           bind (decode public_key (Some 32) ''public key'') (\<lambda>raw_public.
           bind (signed_payload content) (\<lambda>payload. Inr (raw_signature, raw_public, payload)))) of
        Inl (ValueError _) \<Rightarrow> Inr False
      | Inl e \<Rightarrow> Inl e
      | Inr (raw_signature, raw_public, payload) \<Rightarrow>
          Inr (ed_key_ok ed raw_public \<and> ed_verify ed raw_public raw_signature payload))"

definition is_public_key :: "ed25519 \<Rightarrow> pyval \<Rightarrow> bool" where
  "is_public_key ed value =
     (case decode value (Some 32) ''public key'' of Inl _ \<Rightarrow> False | Inr raw \<Rightarrow> ed_key_ok ed raw)"

definition is_signature :: "pyval \<Rightarrow> bool" where
  "is_signature value = is_ok (decode value (Some 64) ''signature'')"

section \<open>One spelling per key\<close>

lemma decode_Inr_iff:
  "decode v (Some n) f = Inr raw \<longleftrightarrow> v = VStr (encode raw) \<and> length raw = n \<and> raw \<noteq> []"
proof
  assume d: "decode v (Some n) f = Inr raw"
  then obtain s where v: "v = VStr s" by (cases v) (auto simp: decode_def)
  from d have "b64encode raw = drop (length ed_prefix) s" "length raw = n" "raw \<noteq> []"
    "starts_with ed_prefix s"
    unfolding v by (auto simp: decode_def Let_def split: option.splits)
  then show "v = VStr (encode raw) \<and> length raw = n \<and> raw \<noteq> []"
    using v starts_withD by (simp add: encode_def)
next
  assume "v = VStr (encode raw) \<and> length raw = n \<and> raw \<noteq> []"
  then show "decode v (Some n) f = Inr raw"
    by (auto simp: decode_def encode_def b64_round)
qed

lemma decode_raises: "decode v n f = Inl e \<Longrightarrow> \<exists>m. e = ValueError m"
  by (auto simp: decode_def ensure_def Let_def split: if_splits option.splits)

definition key_material :: "nat \<Rightarrow> string \<Rightarrow> bytes option" where
  "key_material n s = (case decode (VStr s) (Some n) ''key'' of Inl _ \<Rightarrow> None | Inr raw \<Rightarrow> Some raw)"

lemma key_material_Some: "key_material n s = Some raw \<longleftrightarrow> s = encode raw \<and> length raw = n \<and> raw \<noteq> []"
proof -
  have "key_material n s = Some raw \<longleftrightarrow> decode (VStr s) (Some n) ''key'' = Inr raw"
    by (simp add: key_material_def split: sum.splits)
  then show ?thesis by (simp only: decode_Inr_iff pyval.inject)
qed

interpretation public_keys: spelling encode "key_material 32" "\<lambda>raw. length raw = 32"
  by unfold_locales (auto simp: key_material_Some)

interpretation signatures: spelling encode "key_material 64" "\<lambda>raw. length raw = 64"
  by unfold_locales (auto simp: key_material_Some)

lemma is_public_key_iff:
  "is_public_key ed v \<longleftrightarrow> (\<exists>raw. v = VStr (encode raw) \<and> length raw = 32 \<and> ed_key_ok ed raw)"
proof (cases "decode v (Some 32) ''public key''")
  case (Inl e)
  then have "\<nexists>raw. v = VStr (encode raw) \<and> length raw = 32"
    by (metis Inl_Inr_False decode_Inr_iff list.size(3) zero_neq_numeral)
  with Inl show ?thesis by (auto simp: is_public_key_def)
next
  case (Inr raw)
  then have "v = VStr (encode raw)" "length raw = 32" by (simp_all add: decode_Inr_iff)
  then show ?thesis using Inr public_keys.enc_inject by (auto simp: is_public_key_def)
qed

lemma is_signature_iff: "is_signature v \<longleftrightarrow> (\<exists>raw. v = VStr (encode raw) \<and> length raw = 64)"
  by (auto simp: is_signature_def is_ok_iff decode_Inr_iff)

text \<open>
  A key has one accepted spelling. base64 has several texts for the same 32 bytes, but two texts
  that both pass \<open>is_public_key\<close> and carry the same key bytes are the same text, so keying producers
  by the string is keying them by the key.
\<close>

lemma public_key_one_spelling:
  assumes "is_public_key ed (VStr s)" and "is_public_key ed (VStr t)"
    and "b64decode (drop (length ed_prefix) s) = b64decode (drop (length ed_prefix) t)"
  shows "s = t"
proof -
  obtain a b where ab: "s = encode a" "t = encode b" "length a = 32" "length b = 32"
    using assms(1,2) by (auto simp: is_public_key_iff)
  then have "a = b" using assms(3) by (simp add: encode_def b64_round)
  with ab show ?thesis by simp
qed

section \<open>Signed bytes\<close>

lemma canonical_json_bytes_raises: "canonical_json_bytes v = Inl e \<Longrightarrow> \<exists>m. e = ValueError m"
  by (auto simp: canonical_json_bytes_def canonical_json_def split: if_splits)

lemma signed_payload_raises: "signed_payload c = Inl e \<Longrightarrow> \<exists>m. e = ValueError m"
  by (auto simp: signed_payload_def Let_def bind_def split: if_splits sum.splits
      dest: canonical_json_bytes_raises)

lemma signed_payload_Inr:
  assumes "signed_payload c = Inr p"
  shows "\<exists>b. p = EVIDENCE_DOMAIN @ b \<and> canonical_json_bytes c = Inr b"
    and "fld c ''envelope_type'' = VStr ENVELOPE_TYPE \<and> set (keys c) = set SIGNED_FIELDS \<or>
         fld c ''envelope_type'' = VStr ENVELOPE_TYPE_V2 \<and> set (keys c) = set SIGNED_FIELDS_V2"
  using assms by (auto simp: signed_payload_def Let_def bind_Inr_iff split: if_splits)

lemma envelope_types_differ [simp]: "ENVELOPE_TYPE \<noteq> ENVELOPE_TYPE_V2" "ENVELOPE_TYPE_V2 \<noteq> ENVELOPE_TYPE"
  by (simp_all add: ENVELOPE_TYPE_def ENVELOPE_TYPE_V2_def)

lemma signed_payload_v1:
  "fld c ''envelope_type'' = VStr ENVELOPE_TYPE \<Longrightarrow> set (keys c) = set SIGNED_FIELDS \<Longrightarrow>
   canonical_json_bytes c = Inr b \<Longrightarrow> signed_payload c = Inr (EVIDENCE_DOMAIN @ b)"
  by (simp add: signed_payload_def)

lemma signed_payload_determines:
  assumes "signed_payload c = Inr p" "signed_payload d = Inr p"
    and "no_float c" "wf_val c" "no_float d" "wf_val d"
  shows "sort_keys c = sort_keys d"
proof -
  obtain b where "canonical_json_bytes c = Inr b" "canonical_json_bytes d = Inr b"
    using signed_payload_Inr(1) [OF assms(1)] signed_payload_Inr(1) [OF assms(2)] by auto
  then have "canonical_json c = Inr b" "canonical_json d = Inr b"
    by (auto simp: canonical_json_bytes_def bind_Inr_iff split: if_splits)
  then have "json_loads b = Inr (sort_keys c)" "json_loads b = Inr (sort_keys d)"
    using json_loads_canonical assms(3-6) by blast+
  then show ?thesis by simp
qed

text \<open>What the payload of a record is, with its field set spelled out.\<close>

definition exact_fields :: "pyval \<Rightarrow> bool" where
  "exact_fields content \<longleftrightarrow>
     (let base = {''claim_id'', ''command'', ''command_digest'', ''executable_path'', ''exit_code'', ''producer_id'', ''subject_digest'',
            ''suite_results'', ''confinement_result_digest'', ''confinement_profile_digest'', ''envelope_type'', ''gate_id'', ''catalog_digest''} in
      fld content ''envelope_type'' = VStr ''ranex-evidence-envelope-v1'' \<and> set (keys content) = base \<or>
      fld content ''envelope_type'' = VStr ''ranex-evidence-envelope-v2'' \<and>
        set (keys content) = base \<union> {''settings_digest'', ''settings_schema_version''} \<and>
        is_text (fld content ''settings_digest'') \<and> is_int (fld content ''settings_schema_version''))"

lemma exact_fields_iff:
  "exact_fields content \<longleftrightarrow>
     fld content ''envelope_type'' = VStr ENVELOPE_TYPE \<and> set (keys content) = set SIGNED_FIELDS \<or>
     fld content ''envelope_type'' = VStr ENVELOPE_TYPE_V2 \<and> set (keys content) = set SIGNED_FIELDS_V2 \<and>
       is_text (fld content ''settings_digest'') \<and> is_int (fld content ''settings_schema_version'')"
  by (simp only: exact_fields_def Let_def ENVELOPE_TYPE_def ENVELOPE_TYPE_V2_def SIGNED_FIELDS_V2_def SIGNED_FIELDS_def
      set_append list.set Un_insert_right Un_insert_left Un_empty_left Un_empty_right insert_commute)

lemma signed_payload_iff:
  "signed_payload content = Inr p \<longleftrightarrow>
     exact_fields content \<and> (\<exists>json. canonical_json_bytes content = Inr json \<and> p = ''ranex-evidence-v5'' @ [CHR 0x0A] @ json)"
  unfolding exact_fields_iff EVIDENCE_DOMAIN_def [symmetric, unfolded append_assoc [symmetric]]
  by (auto simp: signed_payload_def Let_def bind_Inr_iff EVIDENCE_DOMAIN_def)

text \<open>
  C17: Verification is a total question with a closed answer: it never raises, and it says yes exactly
  when the signature and the key are canonical spellings of 64 and 32 bytes, the record has exactly
  the thirteen fields of a v1 envelope, or these and the two settings fields (a text and an integer) of a
  v2 envelope, the record has an encoding, and Ed25519 accepts the signature over the domain prefix
  followed by that encoding.
\<close>

theorem verify_evidence_iff:
  "\<exists>b. verify_evidence ed content signature public_key = Inr b \<and>
     (b \<longleftrightarrow> (\<exists>raw_sig raw_pub json.
        signature = VStr (encode raw_sig) \<and> length raw_sig = 64 \<and>
        public_key = VStr (encode raw_pub) \<and> length raw_pub = 32 \<and> ed_key_ok ed raw_pub \<and>
        exact_fields content \<and> canonical_json_bytes content = Inr json \<and>
        ed_verify ed raw_pub raw_sig (''ranex-evidence-v5'' @ [CHR 0x0A] @ json)))"
proof (cases "decode signature (Some 64) ''signature''")
  case (Inl e)
  then have "\<not> is_signature signature" by (simp add: is_signature_def)
  then show ?thesis using decode_raises [OF Inl] Inl
    by (auto simp: verify_evidence_def is_signature_iff)
next
  case s: (Inr raw_sig)
  show ?thesis
  proof (cases "decode public_key (Some 32) ''public key''")
    case (Inl e)
    have "\<nexists>raw. public_key = VStr (encode raw) \<and> length raw = 32"
      using Inl by (metis Inl_Inr_False decode_Inr_iff list.size(3) zero_neq_numeral)
    then show ?thesis using decode_raises [OF Inl] Inl s by (auto simp: verify_evidence_def)
  next
    case k: (Inr raw_pub)
    from s k have sk: "signature = VStr (encode raw_sig)" "length raw_sig = 64"
      "public_key = VStr (encode raw_pub)" "length raw_pub = 32" by (simp_all add: decode_Inr_iff)
    show ?thesis
    proof (cases "signed_payload content")
      case (Inl e)
      then have "\<not> (exact_fields content \<and> (\<exists>json. canonical_json_bytes content = Inr json))"
        using signed_payload_iff [of content] by auto
      then show ?thesis using signed_payload_raises [OF Inl] Inl s k by (auto simp: verify_evidence_def)
    next
      case (Inr p)
      then obtain json where "exact_fields content" "canonical_json_bytes content = Inr json"
        "p = ''ranex-evidence-v5'' @ [CHR 0x0A] @ json"
        using signed_payload_iff by blast
      then show ?thesis
        using s k sk Inr public_keys.enc_inject signatures.enc_inject
        by (auto simp: verify_evidence_def)
    qed
  qed
qed

lemma verify_evidence_True:
  "verify_evidence ed content signature public_key = Inr True \<Longrightarrow>
   \<exists>raw_sig raw_pub p. signature = VStr (encode raw_sig) \<and> public_key = VStr (encode raw_pub) \<and>
     signed_payload content = Inr p \<and> ed_key_ok ed raw_pub \<and> ed_verify ed raw_pub raw_sig p"
  by (auto simp: verify_evidence_def bind_def decode_Inr_iff split: sum.splits exn.splits)

lemma verify_evidence_total: "\<exists>b. verify_evidence ed content signature public_key = Inr b"
  by (auto simp: verify_evidence_def bind_def split: sum.splits exn.splits
      dest: decode_raises signed_payload_raises)

text \<open>
  A signature made with a private key verifies, over the same record, under the public key that
  \<open>public_key_for\<close> derives from it.
\<close>

lemma sign_then_verify:
  assumes "ed25519_laws ed" and "sign_evidence ed content priv = Inr sig"
    and "public_key_for ed priv = Inr pub"
  shows "verify_evidence ed content (VStr sig) (VStr pub) = Inr True"
proof -
  from assms(2,3) obtain seed p where s: "decode priv (Some 32) ''private key'' = Inr seed"
    "signed_payload content = Inr p" "sig = encode (ed_sign ed seed p)"
    "pub = encode (ed_public ed seed)"
    by (auto simp: sign_evidence_def public_key_for_def public_private_pair_def bind_Inr_iff)
  have "length seed = 32" using s(1) by (simp add: decode_Inr_iff)
  with assms(1) have l: "length (ed_public ed seed) = 32" "ed_key_ok ed (ed_public ed seed)"
    "length (ed_sign ed seed p) = 64" "ed_verify ed (ed_public ed seed) (ed_sign ed seed p) p"
    by (simp_all add: ed25519_laws_def)
  then have "decode (VStr sig) (Some 64) ''signature'' = Inr (ed_sign ed seed p)"
    "decode (VStr pub) (Some 32) ''public key'' = Inr (ed_public ed seed)"
    by (auto simp: decode_Inr_iff s)
  then show ?thesis using l s(2) by (simp add: verify_evidence_def)
qed

text \<open>
  A signature covers one record: two records with the same signed bytes are the same record up
  to the order of their keys, so no signature can be moved to other content.
\<close>

lemma signed_payload_injective:
  assumes "signed_payload c = Inr p" and "signed_payload d = Inr p"
    and "no_float c" "wf_val c" "no_float d" "wf_val d"
  shows "sort_keys c = sort_keys d \<and> set (keys c) = set (keys d)"
proof -
  have s: "sort_keys c = sort_keys d" by (rule signed_payload_determines [OF assms])
  have "set (keys (sort_keys v)) = set (keys v)" for v
    by (cases v) (simp_all add: keys_def image_image)
  then show ?thesis using s by metis
qed

section \<open>Witnesses\<close>

text \<open>A scheme that satisfies the laws, for the witnesses: the signature repeats the key.\<close>

definition toy_ed :: ed25519 where
  "toy_ed = \<lparr>ed_public = (\<lambda>seed. seed), ed_sign = (\<lambda>seed m. seed @ seed), ed_key_ok = (\<lambda>k. True),
     ed_verify = (\<lambda>pub sig m. sig = pub @ pub)\<rparr>"

definition toy_key :: bytes where
  "toy_key = replicate 32 (CHR ''k'')"

definition demo_content :: pyval where
  "demo_content = VDict
     [(''claim_id'', VStr ''tests''), (''command'', VStr ''pytest''),
      (''command_digest'', VStr zero_digest), (''executable_path'', VStr ''/usr/bin/pytest''),
      (''exit_code'', VInt 0), (''producer_id'', VStr ''worker''), (''subject_digest'', VStr zero_digest),
      (''suite_results'', VNone), (''confinement_result_digest'', VNone),
      (''confinement_profile_digest'', VNone), (''envelope_type'', VStr ENVELOPE_TYPE),
      (''gate_id'', VStr ''gate''), (''catalog_digest'', VStr zero_digest)]"

lemma toy_laws: "ed25519_laws toy_ed"
  by (simp add: ed25519_laws_def toy_ed_def)

lemma demo_payload: "\<exists>p. signed_payload demo_content = Inr p"
proof -
  have "plain_val demo_content" by code_simp
  then obtain b where "canonical_json_bytes demo_content = Inr b"
    using canonical_json_bytes_plain by blast
  moreover have "fld demo_content ''envelope_type'' = VStr ENVELOPE_TYPE"
    "set (keys demo_content) = set SIGNED_FIELDS"
    by (simp_all add: demo_content_def shape_simps keys_def SIGNED_FIELDS_def)
  ultimately show ?thesis using signed_payload_v1 by blast
qed

end
