(* ===== verification/Dsse.thy ===== *)
theory Dsse
  imports Signing
begin

text \<open>
  DSSE envelopes (\<^verbatim>\<open>src/src/ranex/foundation/dsse.py\<close>): the pre-authentication encoding is injective,
  a signed envelope verifies to its payload, and an envelope that verifies carries an Ed25519
  signature over the encoding of its own type and payload.
\<close>

section \<open>The module\<close>

definition pae :: "string \<Rightarrow> bytes \<Rightarrow> bytes result" where
  "pae payload_type payload =
     (if has_surrogate payload_type then Inl (ValueError ''surrogates not allowed'')
      else Inr (''DSSEv1 '' @ show_nat (length payload_type) @ '' '' @ payload_type @ '' '' @
                show_nat (length payload) @ '' '' @ payload))"

definition dsse_b64decode :: "string \<Rightarrow> bytes result" where
  "dsse_b64decode t =
     (case b64decode t of None \<Rightarrow> Inl (ValueError ''malformed base64 in DSSE envelope'') | Some b \<Rightarrow> Inr b)"

definition sign_envelope :: "ed25519 \<Rightarrow> string \<Rightarrow> bytes \<Rightarrow> pyval \<Rightarrow> pyval result" where
  "sign_envelope ed payload_type payload private_key =
     bind (decode private_key (Some 32) ''private key'') (\<lambda>key.
     bind (pae payload_type payload) (\<lambda>message.
     Inr (VDict [(''payload'', VStr (b64encode payload)), (''payloadType'', VStr payload_type),
       (''signatures'', VList [VDict [(''sig'', VStr (b64encode (ed_sign ed key message)))]])])))"

text \<open>
  The loop over the signatures: an entry that is not an object with a text \<open>sig\<close> or does not verify
  is passed over, a \<open>sig\<close> that is not base64 leaves the loop with an exception.
\<close>

fun any_signature :: "ed25519 \<Rightarrow> bytes \<Rightarrow> string \<Rightarrow> bytes \<Rightarrow> pyval list \<Rightarrow> bool result" where
  "any_signature ed pub payload_type payload [] = Inr False"
| "any_signature ed pub payload_type payload (item # rest) =
     (if \<not> (is_dict item \<and> is_str (fld item ''sig'')) then any_signature ed pub payload_type payload rest
      else
        bind (dsse_b64decode (str_of (fld item ''sig''))) (\<lambda>sig.
        case pae payload_type payload of
          Inl (ValueError _) \<Rightarrow> any_signature ed pub payload_type payload rest
        | Inl e \<Rightarrow> Inl e
        | Inr message \<Rightarrow>
            if ed_verify ed pub sig message then Inr True
            else any_signature ed pub payload_type payload rest))"

definition verify_envelope :: "ed25519 \<Rightarrow> pyval \<Rightarrow> pyval \<Rightarrow> string option \<Rightarrow> bytes option" where
  "verify_envelope ed envelope public_key expected_payload_type =
     (let payload_b64 = fld envelope ''payload''; payload_type = fld envelope ''payloadType'';
          signatures = fld envelope ''signatures'' in
      if \<not> is_dict envelope \<or> \<not> is_str payload_b64 \<or> \<not> is_str payload_type \<or> \<not> is_list signatures \<or>
         items_of signatures = [] then None
      else if expected_payload_type \<noteq> None \<and> expected_payload_type \<noteq> Some (str_of payload_type) then None
      else
        (case bind (dsse_b64decode (str_of payload_b64)) (\<lambda>payload.
              bind (decode public_key (Some 32) ''public key'') (\<lambda>pub.
              ensure (ed_key_ok ed pub) (ValueError ''public key'') (
              bind (any_signature ed pub (str_of payload_type) payload (items_of signatures)) (\<lambda>ok.
              Inr (payload, ok))))) of
           Inl _ \<Rightarrow> None
         | Inr (payload, ok) \<Rightarrow> if ok then Some payload else None))"

section \<open>Pre-authentication encoding\<close>

lemma show_nat_inject: "show_nat a = show_nat b \<Longrightarrow> a = b"
  by (metis of_nat_eq_iff show_nat_value)

lemma counted_prefix:
  assumes "show_nat a @ '' '' @ r = show_nat b @ '' '' @ s"
  shows "a = b \<and> r = s"
proof -
  have "takeWhile is_digit (show_nat n @ '' '' @ t) = show_nat n" for n t
    using show_nat_digits [of n] by (simp add: takeWhile_digits is_digit_def)
  then have "show_nat a = show_nat b" using assms by metis
  then show ?thesis using assms show_nat_inject by auto
qed

lemma pae_inject:
  assumes "pae t p = Inr m" "pae t' p' = Inr m"
  shows "t = t' \<and> p = p'"
proof -
  have "show_nat (length t) @ '' '' @ t @ '' '' @ show_nat (length p) @ '' '' @ p =
        show_nat (length t') @ '' '' @ t' @ '' '' @ show_nat (length p') @ '' '' @ p'"
    using assms by (auto simp: pae_def split: if_splits)
  from counted_prefix [OF this] have "length t = length t'"
    "t @ '' '' @ show_nat (length p) @ '' '' @ p = t' @ '' '' @ show_nat (length p') @ '' '' @ p'"
    by auto
  then have "t = t'" "show_nat (length p) @ '' '' @ p = show_nat (length p') @ '' '' @ p'"
    by simp_all
  then show ?thesis using counted_prefix by blast
qed

text \<open>
  The pre-authentication encoding is injective: the bytes a DSSE signature covers determine the
  payload type and the payload, so a signature over a verdict cannot be read as one over another
  type or another payload.
\<close>

lemma pae_injective:
  assumes "pae payload_type payload = Inr m" and "pae payload_type' payload' = Inr m"
  shows "payload_type = payload_type' \<and> payload = payload'"
  by (rule pae_inject [OF assms])

section \<open>Envelopes\<close>

lemma any_signature_True:
  "any_signature ed pub pt payload items = Inr True \<Longrightarrow>
   \<exists>item \<in> set items. \<exists>sig m. fld item ''sig'' = VStr sig \<and> pae pt payload = Inr m \<and>
     (\<exists>raw. b64decode sig = Some raw \<and> ed_verify ed pub raw m)"
proof (induction ed pub pt payload items rule: any_signature.induct)
  case (2 ed pub pt payload item rest)
  show ?case
  proof (cases "is_dict item \<and> is_str (fld item ''sig'')")
    case True
    then obtain s where s: "fld item ''sig'' = VStr s" by (cases "fld item ''sig''") auto
    then show ?thesis
      using True 2
      by (auto simp: bind_Inr_iff dsse_b64decode_def split: option.splits sum.splits exn.splits if_splits)
  next
    case False
    then show ?thesis using 2 by auto
  qed
qed simp

text \<open>
  What \<open>verify_envelope\<close> returns is the decoded payload of that envelope, of the payload type the
  caller expects, and one of the listed signatures verifies, under the given public key, over the
  pre-authentication encoding of exactly that type and payload.
\<close>

lemma verify_envelope_sound:
  assumes "verify_envelope ed envelope public_key expected = Some payload"
  shows "\<exists>pub sig raw_sig payload_type m.
     public_key = VStr (encode pub) \<and> ed_key_ok ed pub \<and>
     fld envelope ''payloadType'' = VStr payload_type \<and> (\<forall>t. expected = Some t \<longrightarrow> payload_type = t) \<and>
     b64decode (str_of (fld envelope ''payload'')) = Some payload \<and>
     (\<exists>item \<in> set (items_of (fld envelope ''signatures'')). fld item ''sig'' = VStr sig) \<and>
     b64decode sig = Some raw_sig \<and> pae payload_type payload = Inr m \<and> ed_verify ed pub raw_sig m"
proof -
  let ?pt = "fld envelope ''payloadType''"
  from assms obtain pub where p: "decode public_key (Some 32) ''public key'' = Inr pub"
    "ed_key_ok ed pub" "is_str ?pt" "\<forall>t. expected = Some t \<longrightarrow> str_of ?pt = t"
    "dsse_b64decode (str_of (fld envelope ''payload'')) = Inr payload"
    "any_signature ed pub (str_of ?pt) payload (items_of (fld envelope ''signatures'')) = Inr True"
    by (auto simp: verify_envelope_def Let_def bind_Inr_iff split: if_splits sum.splits)
  then obtain pt where "?pt = VStr pt" by (cases ?pt) auto
  moreover have "b64decode (str_of (fld envelope ''payload'')) = Some payload"
    using p(5) by (auto simp: dsse_b64decode_def split: option.splits)
  ultimately show ?thesis
    using p(1,2,4) any_signature_True [OF p(6)] unfolding decode_Inr_iff by fastforce
qed

lemma signed_envelope:
  assumes "ed25519_laws ed" and "sign_envelope ed payload_type payload priv = Inr envelope"
    and "public_key_for ed priv = Inr pub" and "expected \<in> {None, Some payload_type}"
  shows "verify_envelope ed envelope (VStr pub) expected = Some payload"
proof -
  from assms(2,3) obtain seed m where s: "decode priv (Some 32) ''private key'' = Inr seed"
    "pae payload_type payload = Inr m" "pub = encode (ed_public ed seed)"
    "envelope = VDict [(''payload'', VStr (b64encode payload)), (''payloadType'', VStr payload_type),
       (''signatures'', VList [VDict [(''sig'', VStr (b64encode (ed_sign ed seed m)))]])]"
    by (auto simp: sign_envelope_def public_key_for_def public_private_pair_def bind_Inr_iff)
  have "length seed = 32" using s(1) by (simp add: decode_Inr_iff)
  with assms(1) have l: "length (ed_public ed seed) = 32" "ed_key_ok ed (ed_public ed seed)"
    "ed_verify ed (ed_public ed seed) (ed_sign ed seed m) m"
    by (simp_all add: ed25519_laws_def)
  then have "decode (VStr pub) (Some 32) ''public key'' = Inr (ed_public ed seed)"
    by (auto simp: decode_Inr_iff s)
  then show ?thesis
    using s(2) l(2,3) assms(4)
    by (auto simp: verify_envelope_def s(4) shape_simps dsse_b64decode_def b64_round)
qed

text \<open>
  An envelope signed with a private key verifies under the key derived from it and gives the
  payload back, with or without a pinned payload type.
\<close>

lemma sign_envelope_verifies:
  assumes "ed25519_laws ed" and "sign_envelope ed payload_type payload priv = Inr envelope"
    and "public_key_for ed priv = Inr pub" and "expected \<in> {None, Some payload_type}"
  shows "verify_envelope ed envelope (VStr pub) expected = Some payload"
  by (rule signed_envelope [OF assms])

section \<open>Witnesses\<close>

definition PAYLOAD_TYPE_VERDICT_V2 :: string where
  "PAYLOAD_TYPE_VERDICT_V2 = ''application/vnd.ranex.verdict.v2+json''"

definition demo_envelope :: pyval where
  "demo_envelope = VDict [(''payload'', VStr (b64encode ''body'')), (''payloadType'', VStr PAYLOAD_TYPE_VERDICT_V2),
     (''signatures'', VList [VDict [(''sig'', VStr (b64encode (toy_key @ toy_key)))]])]"

lemma demo_envelope_signed:
  "sign_envelope toy_ed PAYLOAD_TYPE_VERDICT_V2 ''body'' (VStr (encode toy_key)) = Inr demo_envelope"
  "public_key_for toy_ed (VStr (encode toy_key)) = Inr (encode toy_key)"
proof -
  have d: "decode (VStr (encode toy_key)) (Some 32) f = Inr toy_key" for f
    by (simp add: decode_Inr_iff toy_key_def)
  show "public_key_for toy_ed (VStr (encode toy_key)) = Inr (encode toy_key)"
    by (simp add: public_key_for_def public_private_pair_def d) (simp add: toy_ed_def)
  have "\<not> has_surrogate PAYLOAD_TYPE_VERDICT_V2" by code_simp
  then show "sign_envelope toy_ed PAYLOAD_TYPE_VERDICT_V2 ''body'' (VStr (encode toy_key)) = Inr demo_envelope"
    by (simp add: sign_envelope_def d pae_def demo_envelope_def) (simp add: toy_ed_def)
qed

lemma demo_envelope_verifies: "verify_envelope toy_ed demo_envelope (VStr (encode toy_key)) None = Some ''body''"
proof -
  have "decode (VStr (encode toy_key)) (Some 32) ''public key'' = Inr toy_key"
    by (simp add: decode_Inr_iff toy_key_def)
  moreover have "\<not> has_surrogate PAYLOAD_TYPE_VERDICT_V2" by code_simp
  ultimately show ?thesis
    by (simp add: verify_envelope_def demo_envelope_def shape_simps dsse_b64decode_def b64_round pae_def
        toy_ed_def del: b64encode.simps b64decode.simps)
qed

end
