(* ===== verification/Merkle.thy ===== *)
theory Merkle
  imports Json
begin

text \<open>
  Transparency-log inclusion proofs (\<^verbatim>\<open>src/src/ranex/foundation/merkle.py\<close>), against the Merkle tree
  of RFC 6962: every audit path of the tree is accepted, and an accepted proof shows that the
  entry is in the tree when the hash is collision-free on the inputs that were hashed. What an
  accepted proof does not show, because the final test reads \<open>fn\<close> and not \<open>sn\<close>, is recorded as well.
\<close>

section \<open>The module\<close>

definition leaf_hash :: "(bytes \<Rightarrow> bytes) \<Rightarrow> bytes \<Rightarrow> bytes" where
  "leaf_hash sha d = sha (CHR 0x00 # d)"

definition node_hash :: "(bytes \<Rightarrow> bytes) \<Rightarrow> bytes \<Rightarrow> bytes \<Rightarrow> bytes" where
  "node_hash sha l r = sha (CHR 0x01 # l @ r)"

text \<open>The inner \<open>while\<close> loop.\<close>

function strip_zeros :: "nat \<Rightarrow> nat \<Rightarrow> nat \<times> nat" where
  "strip_zeros fn sn =
     (if even fn \<and> fn \<noteq> 0 then strip_zeros (fn div 2) (sn div 2) else (fn, sn))"
  by pat_completeness auto
termination by (relation "measure fst") auto

declare strip_zeros.simps [simp del]

text \<open>One iteration of the loop over the siblings, and the loop.\<close>

definition climb :: "(bytes \<Rightarrow> bytes) \<Rightarrow> bytes \<Rightarrow> nat \<times> nat \<times> bytes \<Rightarrow> nat \<times> nat \<times> bytes" where
  "climb sha sibling st =
     (case st of (fn, sn, r) \<Rightarrow>
        if odd fn \<or> fn = sn
        then (case strip_zeros fn sn of (fn', sn') \<Rightarrow> (fn' div 2, sn' div 2, node_hash sha sibling r))
        else (fn div 2, sn div 2, node_hash sha r sibling))"

definition walk :: "(bytes \<Rightarrow> bytes) \<Rightarrow> bytes list \<Rightarrow> nat \<times> nat \<times> bytes \<Rightarrow> nat \<times> nat \<times> bytes" where
  "walk sha hashes st = fold (climb sha) hashes st"

definition verify_inclusion :: "(bytes \<Rightarrow> bytes) \<Rightarrow> int \<Rightarrow> int \<Rightarrow> bytes \<Rightarrow> bytes list \<Rightarrow> bytes \<Rightarrow> bool" where
  "verify_inclusion sha index n leaf hashes root =
     (if index < 0 \<or> n \<le> 0 \<or> n \<le> index \<or> length leaf \<noteq> 32 \<or> length root \<noteq> 32 \<or>
         list_ex (\<lambda>item. length item \<noteq> 32) hashes then False
      else (case walk sha hashes (nat index, nat (n - 1), leaf) of (fn, sn, r) \<Rightarrow> r = root \<and> fn = 0))"

section \<open>The tree of RFC 6962\<close>

text \<open>The largest power of two below \<open>n\<close>, for \<open>n\<close> at least 2.\<close>

fun split_point :: "nat \<Rightarrow> nat" where
  "split_point n = (if n \<le> 2 then 1 else 2 * split_point ((n + 1) div 2))"

declare split_point.simps [simp del]

lemma split_point_power: "2 \<le> n \<Longrightarrow> \<exists>j. split_point n = 2 ^ j \<and> 2 ^ j < n \<and> n \<le> 2 * 2 ^ j"
proof (induction n rule: split_point.induct)
  case (1 n)
  show ?case
  proof (cases "n \<le> 2")
    case True
    then show ?thesis using 1(2) by (intro exI [of _ 0]) (simp add: split_point.simps)
  next
    case False
    then obtain j where "split_point ((n + 1) div 2) = 2 ^ j" "2 ^ j < (n + 1) div 2"
      "(n + 1) div 2 \<le> 2 * 2 ^ j" using 1(1) by fastforce
    moreover from this have "2 * 2 ^ j < n" "n \<le> 2 * (2 * 2 ^ j)" by linarith+
    ultimately show ?thesis using False
      by (intro exI [of _ "Suc j"]) (simp add: split_point.simps [of n])
  qed
qed

lemma split_point_bounds: "2 \<le> n \<Longrightarrow> 0 < split_point n \<and> split_point n < n"
  using split_point_power by fastforce

lemma split_point_power2: "split_point (2 * 2 ^ j) = 2 ^ j"
proof (induction j)
  case (Suc j)
  have "(2 * (2 * 2 ^ j) + 1) div 2 = (2 :: nat) * 2 ^ j" by simp
  moreover have "\<not> 2 * (2 * 2 ^ j) \<le> (2 :: nat)"
  proof -
    have "(1 :: nat) \<le> 2 ^ j" by simp
    then show ?thesis by linarith
  qed
  ultimately show ?case
    using Suc by (subst split_point.simps) (simp only: if_False power_Suc)
qed (simp add: split_point.simps)

function mth :: "(bytes \<Rightarrow> bytes) \<Rightarrow> bytes list \<Rightarrow> bytes" where
  "mth sha leaves =
     (if leaves = [] then sha [] else if length leaves = 1 then hd leaves
      else let k = split_point (length leaves) in
        node_hash sha (mth sha (take k leaves)) (mth sha (drop k leaves)))"
  by pat_completeness auto
termination
proof (relation "measure (\<lambda>(sha, leaves). length leaves)", goal_cases)
  case (2 sha leaves k)
  then have "2 \<le> length leaves" by (cases leaves; cases "tl leaves") auto
  then show ?case using 2 split_point_bounds by simp
next
  case (3 sha leaves k)
  then have "2 \<le> length leaves" by (cases leaves; cases "tl leaves") auto
  then show ?case using 3 split_point_bounds [of "length leaves"] by simp
qed simp

declare mth.simps [simp del]

text \<open>The audit path of leaf \<open>m\<close>, bottom-up.\<close>

function audit_path :: "(bytes \<Rightarrow> bytes) \<Rightarrow> nat \<Rightarrow> bytes list \<Rightarrow> bytes list" where
  "audit_path sha m leaves =
     (if length leaves \<le> 1 then []
      else let k = split_point (length leaves) in
        if m < k then audit_path sha m (take k leaves) @ [mth sha (drop k leaves)]
        else audit_path sha (m - k) (drop k leaves) @ [mth sha (take k leaves)])"
  by pat_completeness auto
termination
proof (relation "measure (\<lambda>(sha, m, leaves). length leaves)", goal_cases)
  case (2 sha m leaves k)
  then show ?case using split_point_bounds [of "length leaves"] by simp
next
  case (3 sha m leaves k)
  then show ?case using split_point_bounds [of "length leaves"] by simp linarith
qed simp

declare audit_path.simps [simp del]

lemma mth_single: "length leaves = 1 \<Longrightarrow> mth sha leaves = hd leaves"
  by (cases leaves) (simp_all add: mth.simps)

lemma mth_split: "2 \<le> length leaves \<Longrightarrow> mth sha leaves =
    node_hash sha (mth sha (take (split_point (length leaves)) leaves))
      (mth sha (drop (split_point (length leaves)) leaves))"
  by (subst mth.simps) (auto simp: Let_def)

lemma audit_path_left: "2 \<le> length leaves \<Longrightarrow> split_point (length leaves) = k \<Longrightarrow> m < k \<Longrightarrow>
    audit_path sha m leaves = audit_path sha m (take k leaves) @ [mth sha (drop k leaves)]"
  by (subst audit_path.simps) (simp add: Let_def)

lemma audit_path_right: "2 \<le> length leaves \<Longrightarrow> split_point (length leaves) = k \<Longrightarrow> \<not> m < k \<Longrightarrow>
    audit_path sha m leaves = audit_path sha (m - k) (drop k leaves) @ [mth sha (take k leaves)]"
  by (subst audit_path.simps) (simp add: Let_def)

section \<open>Completeness\<close>

lemma walk_simps [simp]:
  "walk sha [] st = st" "walk sha (hs @ [h]) st = climb sha h (walk sha hs st)"
  by (simp_all add: walk_def)

lemma strip_zeros_power: "odd a \<Longrightarrow> strip_zeros (a * 2 ^ u) (a * 2 ^ u) = (a, a)"
proof (induction u)
  case 0
  then show ?case by (subst strip_zeros.simps) simp
next
  case (Suc u)
  then have "a * 2 ^ Suc u \<noteq> 0" by (cases a) auto
  then show ?case using Suc by (subst strip_zeros.simps) simp
qed

text \<open>Inside a complete subtree that is not on the right edge the loop climbs one level a step.\<close>

lemma walk_complete:
  assumes "length leaves = 2 ^ j" "m < 2 ^ j" "a < b" "w < 2 ^ j"
  shows "walk sha (audit_path sha m leaves) (a * 2 ^ j + m, b * 2 ^ j + w, leaves ! m) =
    (a, b, mth sha leaves)"
  using assms
proof (induction j arbitrary: leaves m a b w)
  case 0
  then show ?case by (cases leaves) (simp_all add: audit_path.simps mth_single)
next
  case (Suc j)
  let ?l = "take (2 ^ j) leaves" and ?r = "drop (2 ^ j) leaves"
  have len: "length leaves = 2 * 2 ^ j" "split_point (length leaves) = 2 ^ j" "2 \<le> length leaves"
    using Suc.prems(1) by (simp_all add: split_point_power2)
  obtain q v where w: "w = q * 2 ^ j + v" "v < 2 ^ j" "q < 2"
  proof
    show "w = w div 2 ^ j * 2 ^ j + w mod 2 ^ j" by (rule div_mult_mod_eq [symmetric])
    show "w mod 2 ^ j < 2 ^ j" by simp
    show "w div 2 ^ j < 2" using Suc.prems(4) by (simp add: less_mult_imp_div_less)
  qed
  have sn: "b * 2 ^ Suc j + w = (2 * b + q) * 2 ^ j + v" using w by (simp add: algebra_simps)
  have q: "(2 * b + q) div 2 = b" "2 * a \<noteq> 2 * b + q" using w(3) Suc.prems(3) by simp_all
  show ?case
  proof (cases "m < 2 ^ j")
    case True
    have "walk sha (audit_path sha m ?l) ((2 * a) * 2 ^ j + m, (2 * b + q) * 2 ^ j + v, ?l ! m) =
        (2 * a, 2 * b + q, mth sha ?l)"
      using True Suc.prems len w by (intro Suc.IH) auto
    moreover have "(2 * a) * 2 ^ j + m = a * 2 ^ Suc j + m" "?l ! m = leaves ! m" using True by simp_all
    ultimately show ?thesis
      unfolding sn audit_path_left [OF len(3,2) True] mth_split [OF len(3)] len(2) walk_simps
      by (simp only:) (simp add: climb_def q)
  next
    case False
    have "walk sha (audit_path sha (m - 2 ^ j) ?r)
        ((2 * a + 1) * 2 ^ j + (m - 2 ^ j), (2 * b + q) * 2 ^ j + v, ?r ! (m - 2 ^ j)) =
        (2 * a + 1, 2 * b + q, mth sha ?r)"
      using False Suc.prems len w by (intro Suc.IH) auto
    moreover have "(2 * a + 1) * 2 ^ j + (m - 2 ^ j) = a * 2 ^ Suc j + m" "?r ! (m - 2 ^ j) = leaves ! m"
      "strip_zeros (2 * a + 1) (2 * b + q) = (2 * a + 1, 2 * b + q)"
      using False len by (simp_all add: algebra_simps strip_zeros.simps)
    ultimately show ?thesis
      unfolding sn audit_path_right [OF len(3,2) False] mth_split [OF len(3)] len(2) walk_simps
      by (simp only:) (simp add: climb_def q)
  qed
qed

text \<open>On the right edge \<open>fn\<close> and \<open>sn\<close> meet, and the loop ends with both at the same power of two.\<close>

lemma walk_edge:
  assumes "length leaves = n" "n \<le> 2 ^ t" "m < n"
  shows "\<exists>u. walk sha (audit_path sha m leaves) (a * 2 ^ t + m, a * 2 ^ t + (n - 1), leaves ! m) =
    (a * 2 ^ u, a * 2 ^ u, mth sha leaves)"
  using assms
proof (induction n arbitrary: leaves t m a rule: less_induct)
  case (less n)
  show ?case
  proof (cases "n = 1")
    case True
    with less.prems show ?thesis
      by (intro exI [of _ t]) (simp add: audit_path.simps mth_single, cases leaves, simp_all)
  next
    case False
    then have n2: "2 \<le> length leaves" using less.prems by simp
    obtain j where j: "split_point (length leaves) = 2 ^ j" "2 ^ j < n" "n \<le> 2 * 2 ^ j"
      using split_point_power [OF n2] less.prems by auto
    have "(2 :: nat) ^ j < 2 ^ t" using j(2) less.prems(2) by linarith
    then have "j < t" by simp
    then obtain d where t: "t = Suc (j + d)" using less_iff_Suc_add by auto
    let ?A = "a * 2 ^ Suc d" and ?l = "take (2 ^ j) leaves" and ?r = "drop (2 ^ j) leaves"
    have sn: "a * 2 ^ t + (n - 1) = (?A + 1) * 2 ^ j + (n - 1 - 2 ^ j)"
      using j(2) by (simp add: t power_add algebra_simps)
    show ?thesis
    proof (cases "m < 2 ^ j")
      case True
      have "walk sha (audit_path sha m ?l) (?A * 2 ^ j + m, (?A + 1) * 2 ^ j + (n - 1 - 2 ^ j), ?l ! m)
          = (?A, ?A + 1, mth sha ?l)"
        using True j less.prems by (intro walk_complete) auto
      moreover have "?A * 2 ^ j + m = a * 2 ^ t + m" "?l ! m = leaves ! m"
        using True by (simp_all add: t power_add algebra_simps)
      ultimately have "walk sha (audit_path sha m leaves) (a * 2 ^ t + m, a * 2 ^ t + (n - 1), leaves ! m)
          = (a * 2 ^ d, a * 2 ^ d, mth sha leaves)"
        unfolding sn audit_path_left [OF n2 j(1) True] mth_split [OF n2] j(1) walk_simps
        by (simp only:) (simp add: climb_def)
      then show ?thesis by blast
    next
      case False
      have h: "length ?r = n - 2 ^ j" "n - 2 ^ j < n" "n - 2 ^ j \<le> 2 ^ j" "m - 2 ^ j < n - 2 ^ j"
        using False j less.prems by auto
      obtain u where "walk sha (audit_path sha (m - 2 ^ j) ?r)
          ((?A + 1) * 2 ^ j + (m - 2 ^ j), (?A + 1) * 2 ^ j + (n - 2 ^ j - 1), ?r ! (m - 2 ^ j)) =
          ((?A + 1) * 2 ^ u, (?A + 1) * 2 ^ u, mth sha ?r)"
        using less.IH [OF h(2,1,3,4), of "?A + 1"] by blast
      moreover have "(?A + 1) * 2 ^ j + (m - 2 ^ j) = a * 2 ^ t + m" "?r ! (m - 2 ^ j) = leaves ! m"
        "n - 2 ^ j - 1 = n - 1 - 2 ^ j"
        using False less.prems by (simp_all add: t power_add algebra_simps)
      ultimately have "walk sha (audit_path sha m leaves) (a * 2 ^ t + m, a * 2 ^ t + (n - 1), leaves ! m)
          = climb sha (mth sha ?l) ((?A + 1) * 2 ^ u, (?A + 1) * 2 ^ u, mth sha ?r)"
        unfolding sn audit_path_right [OF n2 j(1) False] walk_simps by (simp only:)
      also have "\<dots> = (a * 2 ^ d, a * 2 ^ d, mth sha leaves)"
        using strip_zeros_power [of "?A + 1" u] unfolding mth_split [OF n2] j(1)
        by (simp add: climb_def)
      finally show ?thesis by blast
    qed
  qed
qed

lemma length_mth:
  assumes "\<And>b. length (sha b) = 32" "\<forall>x \<in> set leaves. length x = 32"
  shows "length (mth sha leaves) = 32"
  using assms(2)
proof (cases "length leaves = 1")
  case True
  then show ?thesis using assms(2) by (cases leaves) (auto simp: mth_single)
next
  case False
  then show ?thesis using assms(1) by (subst mth.simps) (simp add: Let_def node_hash_def)
qed

lemma length_audit_path:
  assumes "\<And>b. length (sha b) = 32" "\<forall>x \<in> set leaves. length x = 32"
  shows "\<forall>h \<in> set (audit_path sha m leaves). length h = 32"
  using assms(2)
proof (induction "length leaves" arbitrary: m leaves rule: less_induct)
  case less
  show ?case
  proof (cases "2 \<le> length leaves")
    case True
    define k where "k = split_point (length leaves)"
    have k: "0 < k" "k < length leaves" using split_point_bounds [OF True] by (simp_all add: k_def)
    have all: "\<forall>x \<in> set (take k leaves). length x = 32" "\<forall>x \<in> set (drop k leaves). length x = 32"
      using less.prems by (auto dest: in_set_takeD in_set_dropD)
    note sub = less.hyps [OF _ all(1), of m] less.hyps [OF _ all(2), of "m - k"]
    show ?thesis
    proof (cases "m < k")
      case l: True
      then show ?thesis
        using sub(1) k length_mth [OF assms(1) all(2)]
        by (simp add: audit_path_left [OF True k_def [symmetric] l])
    next
      case r: False
      then show ?thesis
        using sub(2) k length_mth [OF assms(1) all(1)]
        by (simp add: audit_path_right [OF True k_def [symmetric] r])
    qed
  qed (simp add: audit_path.simps)
qed

text \<open>
  Every honest inclusion proof is accepted: for every entry of a log, the audit path of RFC 6962
  for its index verifies against the tree's root, at any tree size.
\<close>

lemma verify_inclusion_complete:
  assumes "\<And>b. length (sha b) = 32" and "m < length entries"
  shows "verify_inclusion sha (int m) (int (length entries)) (leaf_hash sha (entries ! m))
    (audit_path sha m (map (leaf_hash sha) entries)) (mth sha (map (leaf_hash sha) entries))"
proof -
  let ?ls = "map (leaf_hash sha) entries"
  have all: "\<forall>x \<in> set ?ls. length x = 32" using assms(1) by (auto simp: leaf_hash_def)
  obtain u where "walk sha (audit_path sha m ?ls) (0 * 2 ^ length ?ls + m, 0 * 2 ^ length ?ls + (length ?ls - 1), ?ls ! m)
      = (0 * 2 ^ u, 0 * 2 ^ u, mth sha ?ls)"
    using walk_edge [where leaves = ?ls and t = "length ?ls" and m = m and sha = sha and a = 0, OF refl]
      assms(2) less_imp_le [OF less_exp] by auto
  then have "walk sha (audit_path sha m ?ls) (m, length entries - 1, leaf_hash sha (entries ! m)) =
      (0, 0, mth sha ?ls)" using assms(2) by simp
  then show ?thesis
    using assms(2) length_mth [OF assms(1) all] length_audit_path [where m = m, OF assms(1) all]
    by (auto simp: verify_inclusion_def list_ex_iff assms(1) leaf_hash_def nat_diff_distrib')
qed

section \<open>Soundness\<close>

text \<open>The inputs the tree hashes, and those a walk hashes.\<close>

function tree_inputs :: "(bytes \<Rightarrow> bytes) \<Rightarrow> bytes list \<Rightarrow> bytes set" where
  "tree_inputs sha entries =
     (if length entries \<le> 1 then (\<lambda>d. CHR 0x00 # d) ` set entries
      else let k = split_point (length entries) in
        insert (CHR 0x01 # mth sha (map (leaf_hash sha) (take k entries)) @
                 mth sha (map (leaf_hash sha) (drop k entries)))
          (tree_inputs sha (take k entries) \<union> tree_inputs sha (drop k entries)))"
  by pat_completeness auto
termination
proof (relation "measure (\<lambda>(sha, leaves). length leaves)", goal_cases)
  case (2 sha leaves k)
  then show ?case using split_point_bounds [of "length leaves"] by simp
next
  case (3 sha leaves k)
  then show ?case using split_point_bounds [of "length leaves"] by simp linarith
qed simp

declare tree_inputs.simps [simp del]

definition climb_input :: "bytes \<Rightarrow> nat \<times> nat \<times> bytes \<Rightarrow> bytes" where
  "climb_input sibling st =
     (case st of (fn, sn, r) \<Rightarrow>
        if odd fn \<or> fn = sn then CHR 0x01 # sibling @ r else CHR 0x01 # r @ sibling)"

fun walk_inputs :: "(bytes \<Rightarrow> bytes) \<Rightarrow> bytes list \<Rightarrow> nat \<times> nat \<times> bytes \<Rightarrow> bytes list" where
  "walk_inputs sha [] st = []"
| "walk_inputs sha (h # hs) st = climb_input h st # walk_inputs sha hs (climb sha h st)"

lemma walk_inputs_snoc: "walk_inputs sha (hs @ [h]) st = walk_inputs sha hs st @ [climb_input h (walk sha hs st)]"
  by (induction hs arbitrary: st) (simp_all add: walk_def)

lemma climb_hash: "snd (snd (climb sha h st)) = sha (climb_input h st)"
  by (simp add: climb_def climb_input_def node_hash_def split: prod.splits)

lemma climb_input_cases:
  "climb_input h (fn, sn, r) = CHR 0x01 # h @ r \<or> climb_input h (fn, sn, r) = CHR 0x01 # r @ h"
  by (simp add: climb_input_def)

lemma length_walk:
  assumes "\<And>b. length (sha b) = 32" "length (snd (snd st)) = 32"
  shows "length (snd (snd (walk sha hs st))) = 32"
  by (cases hs rule: rev_cases) (use assms in \<open>simp_all add: climb_hash\<close>)

lemma tree_inputs_split:
  assumes "2 \<le> length entries" "split_point (length entries) = k"
  shows "tree_inputs sha entries =
    insert (CHR 0x01 # mth sha (map (leaf_hash sha) (take k entries)) @
              mth sha (map (leaf_hash sha) (drop k entries)))
      (tree_inputs sha (take k entries) \<union> tree_inputs sha (drop k entries))"
    "mth sha (map (leaf_hash sha) entries) =
       sha (CHR 0x01 # mth sha (map (leaf_hash sha) (take k entries)) @
              mth sha (map (leaf_hash sha) (drop k entries)))"
proof -
  show "tree_inputs sha entries =
    insert (CHR 0x01 # mth sha (map (leaf_hash sha) (take k entries)) @
              mth sha (map (leaf_hash sha) (drop k entries)))
      (tree_inputs sha (take k entries) \<union> tree_inputs sha (drop k entries))"
    using assms by (subst tree_inputs.simps) (simp add: Let_def)
  show "mth sha (map (leaf_hash sha) entries) =
       sha (CHR 0x01 # mth sha (map (leaf_hash sha) (take k entries)) @
              mth sha (map (leaf_hash sha) (drop k entries)))"
    using assms mth_split [of "map (leaf_hash sha) entries" sha]
    by (simp add: node_hash_def take_map drop_map)
qed

lemma walk_sound:
  assumes sha: "\<And>b. length (sha b) = 32"
    and "inj_on sha (insert (CHR 0x00 # d) (set (walk_inputs sha hs (fn, sn, leaf_hash sha d)) \<union> tree_inputs sha entries))"
    and "entries \<noteq> []" "\<forall>h \<in> set hs. length h = 32"
    and "snd (snd (walk sha hs (fn, sn, leaf_hash sha d))) = mth sha (map (leaf_hash sha) entries)"
  shows "d \<in> set entries"
  using assms(2-)
proof (induction hs arbitrary: entries rule: rev_induct)
  case Nil
  show ?case
  proof (cases "2 \<le> length entries")
    case True
    note t = tree_inputs_split [OF True refl, of sha]
    have top: "sha (CHR 0x00 # d) = mth sha (map (leaf_hash sha) entries)"
      using Nil.prems(4) by (simp add: leaf_hash_def [of sha d])
    have "CHR 0x00 # d = CHR 0x01 # mth sha (map (leaf_hash sha) (take (split_point (length entries)) entries)) @
            mth sha (map (leaf_hash sha) (drop (split_point (length entries)) entries))"
      by (rule inj_onD [OF Nil.prems(1)])
        (simp_all only: top t insert_iff Un_iff simp_thms)
    then show ?thesis by simp
  next
    case False
    then obtain e where e: "entries = [e]" using Nil.prems(2) by (cases entries; cases "tl entries") auto
    have "CHR 0x00 # d = CHR 0x00 # e"
      by (rule inj_onD [OF Nil.prems(1)])
        (use Nil.prems(4) e in \<open>simp_all add: leaf_hash_def mth_single tree_inputs.simps\<close>)
    then show ?thesis using e by simp
  qed
next
  case (snoc h hs)
  let ?st = "walk sha hs (fn, sn, leaf_hash sha d)"
  obtain f s r where st: "?st = (f, s, r)" by (cases ?st) auto
  have r32: "length r = 32" using length_walk [where sha = sha and st = "(fn, sn, leaf_hash sha d)" and hs = hs, OF sha] st
    by (simp add: leaf_hash_def sha)
  have top: "sha (climb_input h ?st) = mth sha (map (leaf_hash sha) entries)"
    using snoc.prems(4) by (simp add: climb_hash)
  show ?case
  proof (cases "2 \<le> length entries")
    case True
    define k where "k = split_point (length entries)"
    let ?l = "take k entries" and ?r = "drop k entries"
    have k: "0 < k" "k < length entries" using split_point_bounds [OF True] by (simp_all add: k_def)
    note t = tree_inputs_split [OF True k_def [symmetric], of sha]
    have "climb_input h ?st = CHR 0x01 # mth sha (map (leaf_hash sha) ?l) @ mth sha (map (leaf_hash sha) ?r)"
      by (rule inj_onD [OF snoc.prems(1)]) (use top t in \<open>simp_all add: walk_inputs_snoc\<close>)
    moreover have "length (mth sha (map (leaf_hash sha) ?l)) = 32" "length h = 32"
      using snoc.prems(3) by (simp_all add: length_mth sha leaf_hash_def)
    ultimately have r: "r = mth sha (map (leaf_hash sha) ?l) \<or> r = mth sha (map (leaf_hash sha) ?r)"
      using climb_input_cases [of h f s r] r32 st by auto
    have inj: "inj_on sha (insert (CHR 0x00 # d) (set (walk_inputs sha hs (fn, sn, leaf_hash sha d)) \<union>
        tree_inputs sha e))" if "e \<in> {?l, ?r}" for e
      using that t(1) by (intro inj_on_subset [OF snoc.prems(1)]) (auto simp: walk_inputs_snoc)
    have ne: "?l \<noteq> []" "?r \<noteq> []" "\<forall>h \<in> set hs. length h = 32" "entries \<noteq> []"
      using k snoc.prems(3) by auto
    have "d \<in> set ?l \<or> d \<in> set ?r"
      using r snoc.IH [OF inj ne(1,3)] snoc.IH [OF inj ne(2,3)] st by auto
    then show ?thesis by (auto dest: in_set_takeD in_set_dropD)
  next
    case False
    then obtain e where e: "entries = [e]" using snoc.prems(2) by (cases entries; cases "tl entries") auto
    have "climb_input h ?st = CHR 0x00 # e"
      by (rule inj_onD [OF snoc.prems(1)])
        (use top e in \<open>simp_all add: leaf_hash_def mth_single tree_inputs.simps walk_inputs_snoc\<close>)
    then show ?thesis using climb_input_cases [of h f s r] st by auto
  qed
qed

text \<open>
  C15: An accepted proof shows membership: if \<open>verify_inclusion\<close> accepts the leaf hash of some data
  against the root of a log, the data is an entry of that log, as long as the hash function does
  not collide on the inputs hashed in the tree and along the proof. The leaf and node prefixes
  keep an interior node from passing for an entry.
\<close>

theorem verify_inclusion_sound:
  assumes "\<And>b. length (sha b) = 32" and "entries \<noteq> []"
    and "inj_on sha (insert (CHR 0x00 # d)
      (set (walk_inputs sha hashes (nat index, nat (n - 1), leaf_hash sha d)) \<union> tree_inputs sha entries))"
    and "verify_inclusion sha index n (leaf_hash sha d) hashes (mth sha (map (leaf_hash sha) entries))"
  shows "d \<in> set entries"
proof (rule walk_sound [OF assms(1,3,2)])
  show "\<forall>h \<in> set hashes. length h = 32"
    using assms(4) by (auto simp: verify_inclusion_def list_ex_iff split: if_splits)
  show "snd (snd (walk sha hashes (nat index, nat (n - 1), leaf_hash sha d))) = mth sha (map (leaf_hash sha) entries)"
    using assms(4) by (auto simp: verify_inclusion_def split: if_splits prod.splits)
qed

text \<open>
  C16: The index and the size in a proof are not established. The walk ends by testing \<open>fn\<close>, where
  RFC 9162 section 2.1.3.2 stops at and finally tests \<open>sn\<close>: an empty path is accepted for index 0 of
  a tree of any size, and every path of left siblings is accepted for index 0 of a tree of size 1.
\<close>

theorem verify_inclusion_position_unbound:
  assumes "length leaf = 32" and "0 < n" and "\<And>b. length (sha b) = 32" and "\<forall>h \<in> set hashes. length h = 32"
  shows "verify_inclusion sha 0 n leaf [] leaf \<and>
    verify_inclusion sha 0 1 leaf hashes (fold (\<lambda>h r. node_hash sha h r) hashes leaf)"
proof
  show "verify_inclusion sha 0 n leaf [] leaf"
    using assms(1,2) by (simp add: verify_inclusion_def)
  have "walk sha hashes (0, 0, leaf) = (0, 0, fold (\<lambda>h r. node_hash sha h r) hashes leaf)"
    by (induction hashes arbitrary: leaf) (simp_all add: walk_def climb_def strip_zeros.simps)
  moreover have "length (fold (\<lambda>h r. node_hash sha h r) hashes leaf) = 32"
    using assms(1,3) by (cases hashes rule: rev_cases) (simp_all add: node_hash_def)
  ultimately show "verify_inclusion sha 0 1 leaf hashes (fold (\<lambda>h r. node_hash sha h r) hashes leaf)"
    using assms(1,4) by (auto simp: verify_inclusion_def list_ex_iff)
qed

section \<open>Witnesses\<close>

definition demo_log :: "bytes list" where
  "demo_log = [''a'', ''b'', ''c'', ''d'', ''e'']"

lemma demo_root:
  "mth pad_sha (map (leaf_hash pad_sha) [''a'', ''b'']) =
     node_hash pad_sha (leaf_hash pad_sha ''a'') (leaf_hash pad_sha ''b'')"
  "tree_inputs pad_sha [''a'', ''b''] =
     {CHR 0x01 # leaf_hash pad_sha ''a'' @ leaf_hash pad_sha ''b'', CHR 0x00 # ''a'', CHR 0x00 # ''b''}"
proof -
  have k: "split_point (length [''a'', ''b'']) = 1" by (simp add: split_point.simps)
  show "mth pad_sha (map (leaf_hash pad_sha) [''a'', ''b'']) =
     node_hash pad_sha (leaf_hash pad_sha ''a'') (leaf_hash pad_sha ''b'')"
    using tree_inputs_split(2) [OF _ k, of pad_sha] by (simp add: node_hash_def mth_single)
  show "tree_inputs pad_sha [''a'', ''b''] =
     {CHR 0x01 # leaf_hash pad_sha ''a'' @ leaf_hash pad_sha ''b'', CHR 0x00 # ''a'', CHR 0x00 # ''b''}"
    using tree_inputs_split(1) [OF _ k, of pad_sha] by (auto simp: mth_single tree_inputs.simps)
qed

theorem verify_inclusion_sound_witness: "''b'' \<in> set [''a'', ''b'']"
proof (rule verify_inclusion_sound [where sha = pad_sha and index = 1 and n = 2 and
      hashes = "[leaf_hash pad_sha ''a'']"])
  let ?w = "walk_inputs pad_sha [leaf_hash pad_sha ''a''] (nat 1, nat (2 - 1), leaf_hash pad_sha ''b'')"
  have w: "?w = [CHR 0x01 # leaf_hash pad_sha ''a'' @ leaf_hash pad_sha ''b'']"
    by (simp add: climb_input_def)
  show "inj_on pad_sha (insert (CHR 0x00 # ''b'') (set ?w \<union> tree_inputs pad_sha [''a'', ''b'']))"
    unfolding w demo_root by (auto simp: inj_on_def pad_sha_def)
  show "verify_inclusion pad_sha 1 2 (leaf_hash pad_sha ''b'') [leaf_hash pad_sha ''a'']
      (mth pad_sha (map (leaf_hash pad_sha) [''a'', ''b'']))"
    unfolding demo_root
    by (simp add: verify_inclusion_def walk_def climb_def strip_zeros.simps length_pad_sha
        leaf_hash_def node_hash_def)
qed (simp_all add: length_pad_sha)

theorem verify_inclusion_position_unbound_witness:
  "verify_inclusion pad_sha 0 8 (pad_sha []) [] (pad_sha []) \<and>
    verify_inclusion pad_sha 0 1 (pad_sha []) [pad_sha ''x'', pad_sha ''y'']
      (fold (\<lambda>h r. node_hash pad_sha h r) [pad_sha ''x'', pad_sha ''y''] (pad_sha []))"
  by (rule verify_inclusion_position_unbound) (simp_all add: length_pad_sha)

end
