(* ===== verification/Admission.thy ===== *)
theory Admission
  imports Signing
begin

text \<open>
  Admission (\<^verbatim>\<open>src/src/ranex/governed_execution/domain/admission.py\<close>): which raw records become
  evidence, and why the rest did not. The live host state that \<open>_read_live_durable_host_state\<close> reads
  from \<^verbatim>\<open>/proc\<close> and \<^verbatim>\<open>/sys\<close> is the argument \<open>live\<close>. Shown: admission never raises, files every record
  exactly once, admits only records whose signature verifies under the key registered for the
  producer they name, and says \<open>bad-signature\<close> only after a real verification failed.
\<close>

section \<open>Records\<close>

datatype rejection_reason =
    MALFORMED_RECORD | MISSING_SIGNATURE | MALFORMED_SIGNATURE | UNKNOWN_PRODUCER | BAD_SIGNATURE
  | STALE_HOST_STATE | EXECUTABLE_INSIDE_SUBJECT | POLICY_CONTEXT_MISMATCH | UNSUPPORTED_ENVELOPE
  | SETTINGS_BINDING_MISMATCH

record rejection =
  rj_index :: nat
  rj_reason :: rejection_reason
  rj_detail :: string
  rj_producer_id :: "string option"
  rj_claim_id :: "string option"

text \<open>
  Record positions are natural numbers: the two checks of \<open>__post_init__\<close> that positions are
  integers and not negative hold by type.
\<close>

record admission =
  ad_evidence :: "evidence list"
  ad_rejections :: "rejection list"
  ad_indices :: "nat list"
  ad_checkpoint :: "(string \<times> string \<times> nat) option"
  ad_history_verified :: bool
  ad_removed :: "pyval list"

definition admission_post_init :: "admission \<Rightarrow> admission result" where
  "admission_post_init a =
     ensure (length (ad_indices a) = length (ad_evidence a))
       (ValueError ''each admitted evidence item must carry its record index'') (
     ensure (length (remdups (ad_indices a)) = length (ad_indices a))
       (ValueError ''admitted record indices must be unique'') (
     ensure (list_all (\<lambda>i. i \<notin> set (map rj_index (ad_rejections a))) (ad_indices a))
       (ValueError ''a record cannot be both admitted and rejected'') (
     Inr a)))"

section \<open>The host-qualification report\<close>

definition QUALIFICATION_CLAIM :: string where
  "QUALIFICATION_CLAIM = ''host-qualification''"

definition QUALIFICATION_SCHEMA :: string where
  "QUALIFICATION_SCHEMA = ''ranex-strict-local-qualification-v1''"

definition mapping_with_keys :: "pyval \<Rightarrow> string list \<Rightarrow> string \<Rightarrow> pyval result" where
  "mapping_with_keys value ks field =
     ensure (closed_keys value ks) (ValueError (field @ '' does not match its closed schema'')) (Inr value)"

definition required_text :: "pyval \<Rightarrow> string \<Rightarrow> unit result" where
  "required_text value field =
     ensure (is_text value) (ValueError (field @ '' is not a non-empty string'')) (Inr ())"

definition required_integer :: "pyval \<Rightarrow> string \<Rightarrow> unit result" where
  "required_integer value field =
     ensure (is_int value) (ValueError (field @ '' is not an integer'')) (Inr ())"

definition required_boolean :: "pyval \<Rightarrow> string \<Rightarrow> unit result" where
  "required_boolean value field =
     ensure (is_bool value) (ValueError (field @ '' is not a boolean'')) (Inr ())"

definition required_sha256 :: "pyval \<Rightarrow> string \<Rightarrow> unit result" where
  "required_sha256 value field =
     ensure (is_str value \<and> is_sha256_text (str_of value))
       (ValueError (field @ '' is not a sha256 digest'')) (Inr ())"

definition required_text_list :: "pyval \<Rightarrow> string \<Rightarrow> unit result" where
  "required_text_list value field =
     ensure (is_list value \<and> items_of value \<noteq> [] \<and> list_all is_text (items_of value))
       (ValueError (field @ '' is not a non-empty list of non-empty strings'')) (Inr ())"

definition validate_open_object :: "pyval \<Rightarrow> string \<Rightarrow> unit result" where
  "validate_open_object value field =
     bind (mapping_with_keys value
       [''path'', ''realpath'', ''sha256'', ''device'', ''inode'', ''uid'', ''gid'', ''mode'', ''mount_id'',
        ''security_capability'', ''filesystem''] field) (\<lambda>opened.
     bind (for_each (\<lambda>name. required_text (fld opened name) (field @ ''.'' @ name))
       [''path'', ''realpath'']) (\<lambda>_.
     bind (required_sha256 (fld opened ''sha256'') (field @ ''.sha256'')) (\<lambda>_.
     bind (for_each (\<lambda>name. required_integer (fld opened name) (field @ ''.'' @ name))
       [''device'', ''inode'', ''uid'', ''gid'', ''mode'', ''mount_id'']) (\<lambda>_.
     bind (required_boolean (fld opened ''security_capability'') (field @ ''.security_capability'')) (\<lambda>_.
     bind (mapping_with_keys (fld opened ''filesystem'')
       [''device'', ''filesystem'', ''mount_id'', ''mount_point'', ''options'', ''source'']
       (field @ ''.filesystem'')) (\<lambda>filesystem.
     bind (for_each (\<lambda>name. required_text (fld filesystem name) (field @ ''.filesystem.'' @ name))
       [''device'', ''filesystem'', ''mount_point'', ''source'']) (\<lambda>_.
     bind (required_integer (fld filesystem ''mount_id'') (field @ ''.filesystem.mount_id'')) (\<lambda>_.
     required_text_list (fld filesystem ''options'') (field @ ''.filesystem.options'')))))))))"

definition qualification_keys :: "string list" where
  "qualification_keys = [''schema'', ''qualified'', ''refusal'', ''kernel'', ''primitives'', ''cgroup'',
     ''open_objects'', ''digests'', ''delegation'', ''host_state'']"

definition isolation_passed :: pyval where
  "isolation_passed = VDict [(''fork'', VStr ''EPERM''), (''output_write'', VStr ''ENOENT''),
     (''scratch_write'', VStr ''ENOENT''), (''worker_released'', VBool False),
     (''verifier_cgroup_populated_after_drain'', VInt 0)]"

text \<open>The report's sections, in the order the validator reads them.\<close>

definition check_isolation :: "pyval \<Rightarrow> unit result" where
  "check_isolation report =
     (if \<not> has_key report ''runtime_v3_verifier_isolation'' then Inr ()
      else
        bind (mapping_with_keys (fld report ''runtime_v3_verifier_isolation'')
          [''fork'', ''output_write'', ''scratch_write'', ''worker_released'',
           ''verifier_cgroup_populated_after_drain''] ''runtime-v3 verifier isolation'') (\<lambda>isolation.
        ensure (py_eq isolation isolation_passed)
          (ValueError ''runtime-v3 verifier isolation probe did not pass'') (Inr ())))"

definition check_primitives :: "pyval \<Rightarrow> unit result" where
  "check_primitives report =
     bind (mapping_with_keys (fld report ''primitives'')
       [''landlock'', ''seccomp_filter'', ''no_new_privs'', ''namespaces'', ''openat2''] ''primitives'') (\<lambda>primitives.
     bind (mapping_with_keys (fld primitives ''landlock'') [''available'', ''abi''] ''primitives.landlock'') (\<lambda>landlock.
     bind (required_boolean (fld landlock ''available'') ''primitives.landlock.available'') (\<lambda>_.
     bind (required_integer (fld landlock ''abi'') ''primitives.landlock.abi'') (\<lambda>_.
     bind (for_each (\<lambda>name. required_boolean (fld primitives name) (''primitives.'' @ name))
       [''seccomp_filter'', ''no_new_privs'', ''openat2'']) (\<lambda>_.
     bind (mapping_with_keys (fld primitives ''namespaces'')
       [''user'', ''mount'', ''pid'', ''ipc'', ''network''] ''primitives.namespaces'') (\<lambda>namespaces.
     for_each (\<lambda>p. required_boolean (snd p) (''primitives.namespaces.'' @ fst p)) (dict_of namespaces)))))))"

definition check_cgroup :: "pyval \<Rightarrow> unit result" where
  "check_cgroup report =
     bind (mapping_with_keys (fld report ''cgroup'')
       [''cgroup_kill'', ''mount'', ''root'', ''relative_path'', ''controllers'', ''probe_transcript''] ''cgroup'') (\<lambda>cgroup.
     bind (required_boolean (fld cgroup ''cgroup_kill'') ''cgroup.cgroup_kill'') (\<lambda>_.
     bind (mapping_with_keys (fld cgroup ''mount'') [''path'', ''filesystem''] ''cgroup.mount'') (\<lambda>mount.
     bind (required_text (fld mount ''path'') ''cgroup.mount.path'') (\<lambda>_.
     bind (required_text (fld mount ''filesystem'') ''cgroup.mount.filesystem'') (\<lambda>_.
     bind (required_text (fld cgroup ''root'') ''cgroup.root'') (\<lambda>_.
     bind (required_text (fld cgroup ''relative_path'') ''cgroup.relative_path'') (\<lambda>_.
     bind (required_text_list (fld cgroup ''controllers'') ''cgroup.controllers'') (\<lambda>_.
     ensure (is_dict (fld cgroup ''probe_transcript'') \<and> dict_of (fld cgroup ''probe_transcript'') \<noteq> [])
       (ValueError ''cgroup.probe_transcript is not a non-empty object'') (Inr ())))))))))"

definition check_host_state :: "pyval \<Rightarrow> unit result" where
  "check_host_state report =
     bind (mapping_with_keys (fld report ''host_state'')
       [''lsm'', ''unprivileged_userns_sysctls'', ''boot_id'', ''machine_id'', ''delegation_identity''] ''host_state'') (\<lambda>host_state.
     bind (mapping_with_keys (fld host_state ''lsm'')
       [''securityfs_lsm'', ''apparmor_policy_identity'', ''selinux_policy_identity''] ''host_state.lsm'') (\<lambda>_.
     let sysctls = fld host_state ''unprivileged_userns_sysctls'' in
     ensure (closed_keys sysctls [''user.max_user_namespaces''] \<or>
             closed_keys sysctls [''kernel.unprivileged_userns_clone'', ''user.max_user_namespaces''])
       (ValueError ''host_state.unprivileged_userns_sysctls does not match its closed schema'') (
     bind (mapping_with_keys (fld host_state ''delegation_identity'')
       [''uid'', ''gid'', ''cgroup_root'', ''cgroup_relative_path'', ''source'', ''userns_state_source'']
       ''host_state.delegation_identity'') (\<lambda>identity.
     for_each (\<lambda>name. required_integer (fld identity name) (''host_state.delegation_identity.'' @ name))
       [''uid'', ''gid'']))))"

definition validate_qualification_report :: "pyval \<Rightarrow> pyval result" where
  "validate_qualification_report report =
     ensure (closed_keys report qualification_keys \<or>
             closed_keys report (qualification_keys @ [''runtime_v3_verifier_isolation'']))
       (ValueError ''host-qualification report does not match its closed schema'') (
     ensure (fld report ''schema'' = VStr QUALIFICATION_SCHEMA)
       (ValueError (''unknown host-qualification schema: '' @ py_repr (fld report ''schema''))) (
     ensure (fld report ''qualified'' = VBool True \<and> fld report ''refusal'' = VNone)
       (ValueError ''host-qualification report is not a successful qualification'') (
     bind (check_isolation report) (\<lambda>_.
     bind (mapping_with_keys (fld report ''kernel'') [''release'', ''architecture''] ''kernel'') (\<lambda>kernel.
     bind (required_text (fld kernel ''release'') ''kernel.release'') (\<lambda>_.
     bind (required_text (fld kernel ''architecture'') ''kernel.architecture'') (\<lambda>_.
     bind (check_primitives report) (\<lambda>_.
     bind (check_cgroup report) (\<lambda>_.
     bind (mapping_with_keys (fld report ''open_objects'') [''bubblewrap'', ''launcher''] ''open_objects'') (\<lambda>open_objects.
     bind (for_each (\<lambda>p. validate_open_object (snd p) (''open_objects.'' @ fst p)) (dict_of open_objects)) (\<lambda>_.
     bind (mapping_with_keys (fld report ''digests'') [''profile'', ''build_manifest'', ''artifact''] ''digests'') (\<lambda>digests.
     bind (for_each (\<lambda>p. required_sha256 (snd p) (''digests.'' @ fst p)) (dict_of digests)) (\<lambda>_.
     bind (mapping_with_keys (fld report ''delegation'') [''broker'', ''existing_root'', ''source''] ''delegation'') (\<lambda>_.
     bind (check_host_state report) (\<lambda>_.
     Inr report)))))))))))))))"

section \<open>Freshness of a qualification\<close>

fun normalized_anchor :: "pyval \<Rightarrow> pyval" where
  "normalized_anchor (VStr s) = VStr (if is_sha256_text s then remove_prefix ''sha256:'' s else s)"
| "normalized_anchor (VDict d) = VDict (map (\<lambda>p. (fst p, normalized_anchor (snd p))) d)"
| "normalized_anchor (VList xs) = VList (map normalized_anchor xs)"
| "normalized_anchor v = v"

text \<open>\<open>value[key]\<close>, which raises \<open>KeyError\<close> on a dict and \<open>TypeError\<close> on anything else.\<close>

definition item :: "pyval \<Rightarrow> string \<Rightarrow> pyval result" where
  "item v k =
     (if \<not> is_dict v then Inl (TypeError ''value is not subscriptable by a string'')
      else case map_of (dict_of v) k of None \<Rightarrow> Inl (KeyError k) | Some x \<Rightarrow> Inr x)"

fun first_difference :: "(pyval \<Rightarrow> pyval) \<Rightarrow> pyval \<Rightarrow> pyval \<Rightarrow> string list \<Rightarrow> string option result" where
  "first_difference f a b [] = Inr None"
| "first_difference f a b (k # ks) =
     bind (item a k) (\<lambda>x. bind (item b k) (\<lambda>y.
       if \<not> py_eq (f x) (f y) then Inr (Some k) else first_difference f a b ks))"

definition stale_anchor :: "pyval \<Rightarrow> pyval \<Rightarrow> string option result" where
  "stale_anchor report_state live_state =
     bind (first_difference normalized_anchor report_state live_state
       [''boot_id'', ''machine_id'', ''lsm'', ''unprivileged_userns_sysctls'']) (\<lambda>d.
     if d \<noteq> None then Inr d
     else
       bind (item report_state ''delegation_identity'') (\<lambda>report_identity.
       bind (item live_state ''delegation_identity'') (\<lambda>live_identity.
       first_difference (\<lambda>v. v) report_identity live_identity [''uid'', ''gid''])))"

section \<open>admit\<close>

definition text_or_none :: "pyval \<Rightarrow> string \<Rightarrow> string option" where
  "text_or_none record field = (case fld record field of VStr s \<Rightarrow> Some s | _ \<Rightarrow> None)"

text \<open>\<open>except (ValueError, TypeError)\<close>.\<close>

fun shape_error :: "exn \<Rightarrow> bool" where
  "shape_error (ValueError _) = True"
| "shape_error (TypeError _) = True"
| "shape_error _ = False"

definition record_content :: "pyval \<Rightarrow> pyval" where
  "record_content record = VDict (filter (\<lambda>p. fst p \<noteq> ''signature'') (dict_of record))"

definition content_fields :: "pyval \<Rightarrow> string list" where
  "content_fields content =
     (if fld content ''envelope_type'' = VStr ENVELOPE_TYPE_V2 then SIGNED_FIELDS_V2 else SIGNED_FIELDS)"

text \<open>What the body of the loop decides for one record.\<close>

datatype disposition =
    Rejected rejection_reason string
  | Admitted evidence
  | Qualification evidence pyval

text \<open>Run \<open>m\<close> under the handler of the loop body: a shape error files the record as malformed.\<close>

definition guarded :: "'a result \<Rightarrow> string \<Rightarrow> ('a \<Rightarrow> disposition result) \<Rightarrow> disposition result" where
  "guarded m prefix k =
     (case m of
        Inr x \<Rightarrow> k x
      | Inl e \<Rightarrow> if shape_error e then Inr (Rejected MALFORMED_RECORD (prefix @ exn_text e)) else Inl e)"

definition field_complaint :: "pyval \<Rightarrow> string list \<Rightarrow> string" where
  "field_complaint content expected =
     (let unexpected = key_diff (keys content) expected; missing = key_diff expected (keys content) in
      join ''; ''
        ((if unexpected \<noteq> [] then [''unexpected field(s): '' @ join '', '' unexpected] else []) @
         (if missing \<noteq> [] then [''missing field(s): '' @ join '', '' missing] else [])))"

definition checked_results :: "string option \<Rightarrow> pyval \<Rightarrow> pyval option result" where
  "checked_results claim_id results =
     (if claim_id = Some QUALIFICATION_CLAIM then bind (validate_qualification_report results) (\<lambda>r. Inr (Some r))
      else if results \<noteq> VNone then bind (validate_suite_results results) (\<lambda>_. Inr None)
      else Inr None)"

definition build_evidence :: "pyval \<Rightarrow> string option \<Rightarrow> evidence result" where
  "build_evidence content claim_id =
     evidence_new (fld content ''claim_id'') (fld content ''subject_digest'') (fld content ''producer_id'')
       (fld content ''command'') (fld content ''command_digest'') (fld content ''executable_path'')
       (fld content ''exit_code'')
       (if claim_id = Some QUALIFICATION_CLAIM then VNone else fld content ''suite_results'')"

definition judge :: "ed25519 \<Rightarrow> (string \<times> string) list \<Rightarrow> pyval \<Rightarrow> disposition result" where
  "judge ed keyring record =
     (let producer_id = text_or_none record ''producer_id'';
          claim_id = text_or_none record ''claim_id'';
          content = record_content record;
          expected = content_fields content;
          envelope_type = fld content ''envelope_type'' in
      if \<not> is_dict record then Inr (Rejected MALFORMED_RECORD ''record is not a JSON object'')
      else if set (keys content) \<noteq> set expected
      then Inr (Rejected MALFORMED_RECORD (field_complaint content expected))
      else if envelope_type \<notin> {VStr ENVELOPE_TYPE, VStr ENVELOPE_TYPE_V2}
      then Inr (Rejected MALFORMED_RECORD (''unknown envelope_type: '' @ py_repr envelope_type))
      else
        guarded (checked_results claim_id (fld content ''suite_results'')) [] (\<lambda>qualification_report.
        guarded (signed_payload content)
          ''record cannot be canonically encoded, so no signature over it could be checked: '' (\<lambda>_.
        if \<not> has_key record ''signature'' then
          Inr (Rejected MISSING_SIGNATURE ''record carries no signature; unsigned records are not evidence'')
        else (case producer_id of
            None \<Rightarrow> Inr (Rejected MALFORMED_RECORD ''producer_id is not a string'')
          | Some producer \<Rightarrow>
              (case map_of keyring producer of
                 None \<Rightarrow> Inr (Rejected UNKNOWN_PRODUCER
                   (''no public key registered for producer '' @ repr_str producer))
               | Some public_key \<Rightarrow>
                   (let signature = fld record ''signature'' in
                    if \<not> is_signature signature then
                      Inr (Rejected MALFORMED_SIGNATURE
                        ''signature is not an ed25519:<base64> value of the right length'')
                    else
                      bind (verify_evidence ed content signature (VStr public_key)) (\<lambda>ok.
                      if \<not> ok then
                        Inr (Rejected BAD_SIGNATURE
                          (''signature does not verify against the registered key for '' @ repr_str producer @
                           ''; the record was altered or signed by another key''))
                      else
                        guarded (build_evidence content claim_id) [] (\<lambda>admitted.
                        case qualification_report of
                          None \<Rightarrow> Inr (Admitted admitted)
                        | Some report \<Rightarrow> Inr (Qualification admitted (fld report ''host_state'')))))))))) "

record admit_state =
  as_evidence :: "(nat \<times> evidence) list"
  as_rejections :: "rejection list"
  as_qualifications :: "(nat \<times> evidence \<times> pyval \<times> pyval) list"

definition reject :: "nat \<Rightarrow> pyval \<Rightarrow> rejection_reason \<Rightarrow> string \<Rightarrow> rejection" where
  "reject index record reason detail =
     \<lparr>rj_index = index, rj_reason = reason, rj_detail = detail,
      rj_producer_id = text_or_none record ''producer_id'', rj_claim_id = text_or_none record ''claim_id''\<rparr>"

text \<open>The qualifications carry their record, which is what their \<open>reject\<close> closure captured.\<close>

fun admit_loop ::
  "ed25519 \<Rightarrow> (string \<times> string) list \<Rightarrow> nat \<Rightarrow> pyval list \<Rightarrow> admit_state \<Rightarrow> admit_state result" where
  "admit_loop ed keyring index [] st = Inr st"
| "admit_loop ed keyring index (record # records) st =
     bind (judge ed keyring record) (\<lambda>d.
     admit_loop ed keyring (Suc index) records
       (case d of
          Rejected reason detail \<Rightarrow>
            st\<lparr>as_rejections := as_rejections st @ [reject index record reason detail]\<rparr>
        | Admitted e \<Rightarrow> st\<lparr>as_evidence := as_evidence st @ [(index, e)]\<rparr>
        | Qualification e host_state \<Rightarrow>
            st\<lparr>as_qualifications := as_qualifications st @ [(index, e, host_state, record)]\<rparr>))"

text \<open>The exceptions the freshness check catches: \<open>(KeyError, TypeError, ValueError, OSError, UnicodeError)\<close>.\<close>

fun host_error :: "exn \<Rightarrow> bool" where
  "host_error (KeyError _) = True"
| "host_error (TypeError _) = True"
| "host_error (ValueError _) = True"
| "host_error (OSError _) = True"
| "host_error _ = False"

definition reject_qualifications :: "rejection_reason \<Rightarrow> string \<Rightarrow> admit_state \<Rightarrow> admit_state" where
  "reject_qualifications reason detail st =
     st\<lparr>as_rejections := as_rejections st @
       map (\<lambda>q. case q of (i, e, h, record) \<Rightarrow> reject i record reason detail) (as_qualifications st)\<rparr>"

definition settle_qualifications :: "pyval result \<Rightarrow> admit_state \<Rightarrow> admit_state result" where
  "settle_qualifications live st =
     (case map (\<lambda>q. fst (snd (snd q))) (as_qualifications st) of
        [] \<Rightarrow> Inr st
      | h # hs \<Rightarrow>
          if list_ex (\<lambda>h'. \<not> py_eq h' h) hs then
            Inr (reject_qualifications STALE_HOST_STATE
              ''ambiguous host-qualification records disagree on host_state'' st)
          else
            (case bind live (\<lambda>live_state. stale_anchor h live_state) of
               Inl e \<Rightarrow>
                 if host_error e then
                   Inr (reject_qualifications MALFORMED_RECORD
                     (''cannot read live durable host state: '' @ exn_text e) st)
                 else Inl e
             | Inr (Some stale) \<Rightarrow>
                 Inr (reject_qualifications STALE_HOST_STATE
                   (''live durable host-state anchor differs: '' @ stale) st)
             | Inr None \<Rightarrow>
                 Inr (st\<lparr>as_evidence := as_evidence st @
                   map (\<lambda>q. (fst q, fst (snd q))) (as_qualifications st)\<rparr>)))"

definition admit :: "ed25519 \<Rightarrow> pyval result \<Rightarrow> pyval list \<Rightarrow> (string \<times> string) list \<Rightarrow> admission result" where
  "admit ed live records keyring =
     bind (admit_loop ed keyring 0 records
       \<lparr>as_evidence = [], as_rejections = [], as_qualifications = []\<rparr>) (\<lambda>st.
     bind (settle_qualifications live st) (\<lambda>st.
     let ordered = sort_key fst (as_evidence st) in
     admission_post_init
       \<lparr>ad_evidence = map snd ordered, ad_rejections = sort_key rj_index (as_rejections st),
        ad_indices = map fst ordered, ad_checkpoint = None, ad_history_verified = False, ad_removed = []\<rparr>))"

section \<open>What the body of the loop decides\<close>

lemma guarded_Inr_iff:
  "guarded m prefix k = Inr d \<longleftrightarrow>
     (\<exists>x. m = Inr x \<and> k x = Inr d) \<or>
     (\<exists>e. m = Inl e \<and> shape_error e \<and> d = Rejected MALFORMED_RECORD (prefix @ exn_text e))"
  by (cases m) (auto simp: guarded_def)

lemma for_each_raises: "for_each f xs = Inl e \<Longrightarrow> \<exists>x \<in> set xs. f x = Inl e"
  by (induction xs) (auto simp: for_each.simps split: sum.splits)

text \<open>A result whose exception, if any, is a shape error.\<close>

definition shaped :: "'a result \<Rightarrow> bool" where
  "shaped m \<longleftrightarrow> (\<forall>e. m = Inl e \<longrightarrow> shape_error e)"

lemma shaped_simps [simp]: "shaped (Inr x)" "shaped (Inl e) \<longleftrightarrow> shape_error e"
  by (simp_all add: shaped_def)

lemma shaped_bind: "shaped m \<Longrightarrow> (\<And>x. shaped (f x)) \<Longrightarrow> shaped (bind m f)"
  by (cases m) auto

lemma shaped_ensure: "shape_error e \<Longrightarrow> shaped k \<Longrightarrow> shaped (ensure b e k)"
  by (cases b) auto

lemma shaped_for_each: "(\<And>x. shaped (f x)) \<Longrightarrow> shaped (for_each f xs)"
  unfolding shaped_def using for_each_raises by blast

lemma shaped_checks:
  "shaped (mapping_with_keys v ks f)" "shaped (required_text v f)" "shaped (required_integer v f)"
  "shaped (required_boolean v f)" "shaped (required_sha256 v f)" "shaped (required_text_list v f)"
  "shaped (require_text v f)" "shaped (require_digest v f)"
  by (simp_all add: mapping_with_keys_def required_text_def required_integer_def required_boolean_def
      required_sha256_def required_text_list_def require_text_def require_digest_def ensure_def)

lemmas shaped_intros = shaped_bind shaped_ensure shaped_for_each shaped_checks

lemma shaped_open_object: "shaped (validate_open_object v f)"
  unfolding validate_open_object_def by (intro shaped_intros)

lemma shaped_sections:
  "shaped (check_isolation r)" "shaped (check_primitives r)" "shaped (check_cgroup r)"
  "shaped (check_host_state r)"
  unfolding check_isolation_def check_primitives_def check_cgroup_def check_host_state_def Let_def
  by (auto intro!: shaped_intros)

lemma shaped_qualification_report: "shaped (validate_qualification_report r)"
  unfolding validate_qualification_report_def
  by (intro shaped_intros shaped_sections shaped_open_object) simp_all

lemma shaped_suite_results: "shaped (validate_suite_results v)"
  unfolding validate_suite_results_def check_non_passed_entry_def Let_def
  by (intro shaped_intros) simp_all

lemma shaped_results: "shaped (checked_results c v)"
  unfolding checked_results_def
  by (auto intro!: shaped_bind shaped_qualification_report shaped_suite_results)

lemma shaped_build_evidence: "shaped (build_evidence c i)"
  unfolding build_evidence_def evidence_new_def
  by (intro shaped_intros) (auto intro: shaped_suite_results)

lemma guarded_total: "shaped m \<Longrightarrow> (\<And>x. \<exists>d. k x = Inr d) \<Longrightarrow> \<exists>d. guarded m p k = Inr d"
  by (cases m) (auto simp: guarded_def)

lemma judge_total: "\<exists>d. judge ed keyring record = Inr d"
proof -
  have payload: "shaped (signed_payload c)" for c
    unfolding shaped_def using signed_payload_raises by fastforce
  have tail: "\<exists>d. bind (verify_evidence ed c s k) (\<lambda>ok. if \<not> ok then Inr r else
      guarded (build_evidence c i) [] (\<lambda>admitted.
        case q of None \<Rightarrow> Inr (Admitted admitted)
        | Some report \<Rightarrow> Inr (Qualification admitted (fld report ''host_state'')))) = Inr d" for c s k r i q
  proof -
    obtain b where "verify_evidence ed c s k = Inr b" using verify_evidence_total by blast
    then show ?thesis
      by (cases b) (auto intro!: guarded_total shaped_build_evidence split: option.splits)
  qed
  show ?thesis
    unfolding judge_def Let_def
    by (auto intro!: guarded_total shaped_results payload tail split: option.splits)
qed

lemma fld_content: "k \<noteq> ''signature'' \<Longrightarrow> is_dict record \<Longrightarrow> fld (record_content record) k = fld record k"
proof -
  assume k: "k \<noteq> ''signature''"
  have "map_of (filter (\<lambda>p. fst p \<noteq> ''signature'') d) k = map_of d k" for d :: "(string \<times> pyval) list"
    using k by (induction d) auto
  then show "is_dict record \<Longrightarrow> fld (record_content record) k = fld record k"
    by (simp add: record_content_def fld_def)
qed

text \<open>The fields of admitted evidence are those of the record it came from.\<close>

definition carries :: "pyval \<Rightarrow> evidence \<Rightarrow> bool" where
  "carries record e \<longleftrightarrow>
     fld record ''claim_id'' = VStr (e_claim_id e) \<and> fld record ''subject_digest'' = VStr (e_subject_digest e) \<and>
     fld record ''producer_id'' = VStr (e_producer_id e) \<and> fld record ''command'' = VStr (e_command e) \<and>
     fld record ''command_digest'' = VStr (e_command_digest e) \<and>
     fld record ''executable_path'' = VStr (e_executable_path e) \<and> fld record ''exit_code'' = VInt (e_exit_code e) \<and>
     e_suite_results e =
       (if e_claim_id e = QUALIFICATION_CLAIM \<or> fld record ''suite_results'' = VNone then None
        else Some (fld record ''suite_results''))"

text \<open>
  The record verifies: it has the exact signed fields of its envelope, its producer has a registered
  key, and that key verifies the record's signature over the record's signed bytes.
\<close>

definition authentic :: "ed25519 \<Rightarrow> (string \<times> string) list \<Rightarrow> pyval \<Rightarrow> bool" where
  "authentic ed keyring record \<longleftrightarrow>
     (\<exists>producer raw_pub raw_sig payload.
        is_dict record \<and> set (keys (record_content record)) = set (content_fields (record_content record)) \<and>
        fld record ''producer_id'' = VStr producer \<and> map_of keyring producer = Some (encode raw_pub) \<and>
        ed_key_ok ed raw_pub \<and> fld record ''signature'' = VStr (encode raw_sig) \<and>
        signed_payload (record_content record) = Inr payload \<and> ed_verify ed raw_pub raw_sig payload)"

lemma is_text_cases: "is_str v \<Longrightarrow> v = VStr (str_of v)"
  by (cases v) auto

lemma is_int_cases: "is_int v \<Longrightarrow> v = VInt (int_of v)"
  by (cases v) auto

lemma text_or_none_VStr: "text_or_none r k = Some s \<longleftrightarrow> fld r k = VStr s"
  by (cases "fld r k") (simp_all add: text_or_none_def)

lemma build_evidence_carries:
  assumes "is_dict record" "build_evidence (record_content record) (text_or_none record ''claim_id'') = Inr e"
  shows "carries record e"
proof -
  have f: "fld (record_content record) k = fld record k" if "k \<noteq> ''signature''" for k
    using fld_content that assms(1) by blast
  show ?thesis
    using assms(2)
    by (auto simp: build_evidence_def evidence_new_def bind_Inr_iff require_text_Inr require_digest_Inr f
        carries_def text_or_none_VStr dest!: is_text_cases is_int_cases split: if_splits)
qed

lemma judge_accepts:
  assumes "judge ed keyring record = Inr d" "d = Admitted e \<or> d = Qualification e h"
  shows "authentic ed keyring record \<and> carries record e"
proof -
  let ?c = "record_content record"
  from assms obtain producer k payload where j: "is_dict record"
    "set (keys ?c) = set (content_fields ?c)" "signed_payload ?c = Inr payload"
    "text_or_none record ''producer_id'' = Some producer" "map_of keyring producer = Some k"
    "verify_evidence ed ?c (fld record ''signature'') (VStr k) = Inr True"
    "build_evidence ?c (text_or_none record ''claim_id'') = Inr e"
    by (auto simp: judge_def Let_def guarded_Inr_iff bind_Inr_iff split: if_splits option.splits)
  obtain raw_sig raw_pub where "fld record ''signature'' = VStr (encode raw_sig)" "k = encode raw_pub"
    "ed_key_ok ed raw_pub" "ed_verify ed raw_pub raw_sig payload"
    using verify_evidence_True [OF j(6)] j(3) by auto
  then show ?thesis
    using j build_evidence_carries [OF j(1,7)] unfolding authentic_def text_or_none_VStr by blast
qed

section \<open>The loop\<close>

definition state_indices :: "admit_state \<Rightarrow> nat list" where
  "state_indices st = map fst (as_evidence st) @ map rj_index (as_rejections st) @ map fst (as_qualifications st)"

definition loop_inv :: "ed25519 \<Rightarrow> (string \<times> string) list \<Rightarrow> pyval list \<Rightarrow> nat \<Rightarrow> admit_state \<Rightarrow> bool" where
  "loop_inv ed keyring records n st \<longleftrightarrow>
     mset (state_indices st) = mset [0..<n] \<and>
     (\<forall>(i, e) \<in> set (as_evidence st). judge ed keyring (records ! i) = Inr (Admitted e)) \<and>
     (\<forall>(i, e, h, r) \<in> set (as_qualifications st).
        r = records ! i \<and> judge ed keyring r = Inr (Qualification e h)) \<and>
     (\<forall>rj \<in> set (as_rejections st). \<exists>reason detail.
        judge ed keyring (records ! rj_index rj) = Inr (Rejected reason detail) \<and>
        rj = reject (rj_index rj) (records ! rj_index rj) reason detail)"

lemma loop_inv_step:
  assumes "loop_inv ed keyring records n st" "judge ed keyring (records ! n) = Inr d"
  shows "loop_inv ed keyring records (Suc n)
    (case d of
       Rejected reason detail \<Rightarrow>
         st\<lparr>as_rejections := as_rejections st @ [reject n (records ! n) reason detail]\<rparr>
     | Admitted e \<Rightarrow> st\<lparr>as_evidence := as_evidence st @ [(n, e)]\<rparr>
     | Qualification e host_state \<Rightarrow>
         st\<lparr>as_qualifications := as_qualifications st @ [(n, e, host_state, records ! n)]\<rparr>)"
  using assms by (cases d) (auto simp: loop_inv_def state_indices_def reject_def)

lemma admit_loop_inv:
  assumes "loop_inv ed keyring records n st" "n \<le> length records"
  shows "\<exists>st'. admit_loop ed keyring n (drop n records) st = Inr st' \<and>
    loop_inv ed keyring records (length records) st'"
  using assms
proof (induction "length records - n" arbitrary: n st)
  case 0
  then show ?case by simp
next
  case (Suc m)
  then have n: "n < length records" by simp
  obtain d where d: "judge ed keyring (records ! n) = Inr d" using judge_total by blast
  show ?case
    using Suc.hyps(1) [OF _ loop_inv_step [OF Suc.prems(1) d]] Suc.hyps(2) n
    unfolding Cons_nth_drop_Suc [OF n, symmetric] by (simp add: d)
qed

text \<open>What holds of a settled state: everything is filed once and every admitted pair is authentic.\<close>

definition settled :: "ed25519 \<Rightarrow> (string \<times> string) list \<Rightarrow> pyval list \<Rightarrow> admit_state \<Rightarrow> bool" where
  "settled ed keyring records st \<longleftrightarrow>
     mset (map fst (as_evidence st) @ map rj_index (as_rejections st)) = mset [0..<length records] \<and>
     (\<forall>(i, e) \<in> set (as_evidence st). authentic ed keyring (records ! i) \<and> carries (records ! i) e) \<and>
     (\<forall>rj \<in> set (as_rejections st). rj_reason rj \<in> {MALFORMED_RECORD, STALE_HOST_STATE} \<or>
        (\<exists>detail. judge ed keyring (records ! rj_index rj) = Inr (Rejected (rj_reason rj) detail)))"

lemma settle_inv:
  assumes "loop_inv ed keyring records (length records) st" "settle_qualifications live st = Inr st'"
  shows "settled ed keyring records st'"
proof -
  have m: "mset (map fst (as_evidence st) @ map rj_index (as_rejections st) @ map fst (as_qualifications st))
      = mset [0..<length records]"
    using assms(1) by (simp add: loop_inv_def state_indices_def)
  have ev: "\<forall>(i, e) \<in> set (as_evidence st). authentic ed keyring (records ! i) \<and> carries (records ! i) e"
    using assms(1) judge_accepts unfolding loop_inv_def by blast
  have qu: "\<forall>q \<in> set (as_qualifications st). authentic ed keyring (records ! fst q) \<and>
      carries (records ! fst q) (fst (snd q))"
    using assms(1) judge_accepts unfolding loop_inv_def by fastforce
  have re: "\<forall>rj \<in> set (as_rejections st). \<exists>detail.
      judge ed keyring (records ! rj_index rj) = Inr (Rejected (rj_reason rj) detail)"
  proof
    fix rj assume "rj \<in> set (as_rejections st)"
    then obtain reason detail where
      "judge ed keyring (records ! rj_index rj) = Inr (Rejected reason detail)"
      "rj = reject (rj_index rj) (records ! rj_index rj) reason detail"
      using assms(1) unfolding loop_inv_def by blast
    moreover from this(2) have "rj_reason rj = reason" by (metis reject_def rejection.select_convs(2))
    ultimately show "\<exists>detail. judge ed keyring (records ! rj_index rj) = Inr (Rejected (rj_reason rj) detail)"
      by blast
  qed
  have fin: "settled ed keyring records st" if "as_qualifications st = []"
    using m ev re that by (simp add: settled_def)
  have rej: "settled ed keyring records (reject_qualifications r d st)"
    if "r \<in> {MALFORMED_RECORD, STALE_HOST_STATE}" for r d
  proof -
    define new where
      "new = map (\<lambda>q. case q of (i, e, h, record) \<Rightarrow> reject i record r d) (as_qualifications st)"
    have "map rj_index new = map fst (as_qualifications st)" "\<forall>rj \<in> set new. rj_reason rj = r"
      by (auto simp: reject_def new_def)
    then show ?thesis
      using m ev re that unfolding settled_def reject_qualifications_def new_def [symmetric] by auto
  qed
  have ext: "settled ed keyring records
      (st\<lparr>as_evidence := as_evidence st @ map (\<lambda>q. (fst q, fst (snd q))) (as_qualifications st)\<rparr>)"
    using m ev qu re by (auto simp: settled_def comp_def ac_simps)
  show ?thesis
  proof (cases "as_qualifications st")
    case Nil
    then show ?thesis using fin assms(2) by (simp add: settle_qualifications_def)
  next
    case (Cons q qs)
    then show ?thesis
      using rej ext assms(2)
      by (auto simp: settle_qualifications_def split: sum.splits option.splits if_splits)
  qed
qed

lemma stale_anchor_raises: "stale_anchor h l = Inl e \<Longrightarrow> host_error e"
proof -
  have item: "item v k = Inl e \<Longrightarrow> host_error e" for v k e
    by (auto simp: item_def split: if_splits option.splits)
  have "first_difference f a b ks = Inl e \<Longrightarrow> host_error e" for f a b ks e
    by (induction f a b ks rule: first_difference.induct)
      (auto simp: bind_def item split: sum.splits if_splits)
  then show "stale_anchor h l = Inl e \<Longrightarrow> host_error e"
    by (auto simp: stale_anchor_def bind_def item split: sum.splits if_splits)
qed

lemma settle_total:
  assumes "\<And>e. live = Inl e \<Longrightarrow> host_error e"
  shows "\<exists>st'. settle_qualifications live st = Inr st'"
proof -
  have "bind live (stale_anchor h) = Inl e \<Longrightarrow> host_error e" for h e
    using assms stale_anchor_raises by (cases live) auto
  then show ?thesis
    by (auto simp: settle_qualifications_def split: list.splits sum.splits option.splits)
qed

lemma loop_total:
  "\<exists>st. admit_loop ed keyring 0 records \<lparr>as_evidence = [], as_rejections = [], as_qualifications = []\<rparr> = Inr st \<and>
     loop_inv ed keyring records (length records) st"
  using admit_loop_inv [of ed keyring records 0 "\<lparr>as_evidence = [], as_rejections = [], as_qualifications = []\<rparr>"]
  by (auto simp: loop_inv_def state_indices_def)

definition admission_of :: "admit_state \<Rightarrow> admission" where
  "admission_of st =
     \<lparr>ad_evidence = map snd (sort_key fst (as_evidence st)), ad_rejections = sort_key rj_index (as_rejections st),
      ad_indices = map fst (sort_key fst (as_evidence st)), ad_checkpoint = None,
      ad_history_verified = False, ad_removed = []\<rparr>"

lemma post_init_settled:
  assumes "settled ed keyring records st"
  shows "admission_post_init (admission_of st) = Inr (admission_of st)"
proof -
  have "distinct (map fst (as_evidence st) @ map rj_index (as_rejections st))"
    using assms unfolding settled_def by (metis distinct_upt mset_eq_imp_distinct_iff)
  then have d: "distinct (map fst (as_evidence st))"
    "set (map fst (as_evidence st)) \<inter> set (map rj_index (as_rejections st)) = {}" by simp_all
  have "distinct (map fst (sort_key fst (as_evidence st)))"
    using d(1) by (metis mset_eq_imp_distinct_iff mset_map mset_sort)
  then show ?thesis
    using d(2) by (auto simp: admission_of_def admission_post_init_def distinct_remdups_id list_all_iff)
qed

lemma admit_cases:
  assumes "admit ed live records keyring = Inr a"
  obtains st st' where "loop_inv ed keyring records (length records) st"
    "settle_qualifications live st = Inr st'" "settled ed keyring records st'" "a = admission_of st'"
proof -
  obtain st where st: "admit_loop ed keyring 0 records
      \<lparr>as_evidence = [], as_rejections = [], as_qualifications = []\<rparr> = Inr st"
    "loop_inv ed keyring records (length records) st" using loop_total by blast
  from assms st(1) obtain st' where "settle_qualifications live st = Inr st'"
    "admission_post_init (admission_of st') = Inr a"
    by (auto simp: admit_def bind_Inr_iff Let_def admission_of_def)
  moreover from this st(2) have "settled ed keyring records st'" by (blast intro: settle_inv)
  ultimately show thesis using that st(2) post_init_settled by (metis sum.inject(2))
qed

lemma admit_total:
  assumes "\<And>e. live = Inl e \<Longrightarrow> host_error e"
  shows "\<exists>a. admit ed live records keyring = Inr a"
proof -
  obtain st where st: "admit_loop ed keyring 0 records
      \<lparr>as_evidence = [], as_rejections = [], as_qualifications = []\<rparr> = Inr st"
    "loop_inv ed keyring records (length records) st" using loop_total by blast
  obtain st' where "settle_qualifications live st = Inr st'" using settle_total assms by blast
  with st post_init_settled [OF settle_inv [OF st(2)]] show ?thesis
    by (auto simp: admit_def admission_of_def Let_def)
qed

text \<open>Evidence paired with the position of its record; every position filed exactly once.\<close>

definition admitted_pairs :: "admission \<Rightarrow> (nat \<times> evidence) list" where
  "admitted_pairs a = zip (ad_indices a) (ad_evidence a)"

definition accounts_for :: "nat \<Rightarrow> admission \<Rightarrow> bool" where
  "accounts_for n a \<longleftrightarrow> length (ad_indices a) = length (ad_evidence a) \<and>
     mset (ad_indices a @ map rj_index (ad_rejections a)) = mset [0..<n]"

lemma admission_of_pairs [simp]: "set (admitted_pairs (admission_of st)) = set (as_evidence st)"
  by (simp add: admitted_pairs_def admission_of_def zip_map_fst_snd)

lemma settled_accounts: "settled ed keyring records st \<Longrightarrow> accounts_for (length records) (admission_of st)"
  by (simp add: accounts_for_def admission_of_def settled_def)

text \<open>
  C4: Admission never raises on its records, and it files each of them exactly once: the positions of
  the admitted evidence and of the rejections, each in record order, are together the positions of
  all records. Nothing is dropped silently and nothing is both admitted and rejected.
\<close>

theorem admit_files_every_record:
  assumes "\<And>e. live = Inl e \<Longrightarrow> host_error e"
  shows "\<exists>a. admit ed live records keyring = Inr a \<and> accounts_for (length records) a \<and>
     sorted (ad_indices a) \<and> sorted (map rj_index (ad_rejections a))"
proof -
  obtain a where a: "admit ed live records keyring = Inr a" using admit_total assms by blast
  then obtain st where "settled ed keyring records st" "a = admission_of st" by (rule admit_cases)
  then show ?thesis using a settled_accounts by (auto simp: admission_of_def)
qed

text \<open>
  C3: Admitted evidence is authentic: it has the fields of the record at its position, and that
  record's signature verifies, over exactly its signed fields, under the key the keyring registers
  for the producer the record names. No unsigned, foreign-signed or altered record reaches the kernel.
\<close>

theorem admitted_evidence_authentic:
  assumes "admit ed live records keyring = Inr a" and "(i, e) \<in> set (admitted_pairs a)"
  shows "i < length records \<and> authentic ed keyring (records ! i) \<and> carries (records ! i) e"
proof -
  from assms(1) obtain st where st: "settled ed keyring records st" "a = admission_of st" by (rule admit_cases)
  then have ie: "(i, e) \<in> set (as_evidence st)" using assms(2) by simp
  have "set (map fst (as_evidence st) @ map rj_index (as_rejections st)) = set [0..<length records]"
    using st(1) unfolding settled_def by (metis mset_eq_setD)
  with ie have "i < length records" by (force simp: image_iff)
  with ie st(1) show ?thesis by (auto simp: settled_def)
qed

text \<open>
  \<open>bad-signature\<close> is never a false accusation: a record is refused for it only when its signed
  fields encode, its producer is registered, its signature is well formed, and verification under
  the registered key was performed and failed.
\<close>

lemma bad_signature_was_verified:
  assumes "admit ed live records keyring = Inr a" and "rj \<in> set (ad_rejections a)"
    and "rj_reason rj = BAD_SIGNATURE"
  shows "\<exists>producer key payload. fld (records ! rj_index rj) ''producer_id'' = VStr producer \<and>
     map_of keyring producer = Some key \<and> is_signature (fld (records ! rj_index rj) ''signature'') \<and>
     signed_payload (record_content (records ! rj_index rj)) = Inr payload \<and>
     verify_evidence ed (record_content (records ! rj_index rj))
       (fld (records ! rj_index rj) ''signature'') (VStr key) = Inr False"
proof -
  from assms(1) obtain st where st: "settled ed keyring records st" "a = admission_of st" by (rule admit_cases)
  then have "rj \<in> set (as_rejections st)" using assms(2) by (simp add: admission_of_def)
  then obtain detail where j: "judge ed keyring (records ! rj_index rj) = Inr (Rejected BAD_SIGNATURE detail)"
    using st(1) assms(3) by (auto simp: settled_def)
  show ?thesis
    using j by (auto simp: judge_def Let_def guarded_Inr_iff bind_Inr_iff text_or_none_VStr
        split: if_splits option.splits)
qed

section \<open>Host qualifications\<close>

definition report_of :: "pyval \<Rightarrow> pyval" where
  "report_of record = fld record ''suite_results''"

definition host_state_of :: "pyval \<Rightarrow> pyval" where
  "host_state_of record = fld (report_of record) ''host_state''"

lemma qualification_report_Inr: "validate_qualification_report v = Inr r \<Longrightarrow> r = v"
  by (auto simp: validate_qualification_report_def bind_Inr_iff)

lemma judge_Qualification:
  assumes "judge ed keyring record = Inr (Qualification e h)"
  shows "h = host_state_of record \<and> is_ok (validate_qualification_report (report_of record))"
proof -
  have f: "is_dict record \<Longrightarrow> fld (record_content record) ''suite_results'' = report_of record"
    using fld_content [of "''suite_results''" "record"] by (simp add: report_of_def)
  show ?thesis
    using assms f
    by (auto simp: judge_def Let_def guarded_Inr_iff bind_Inr_iff checked_results_def host_state_of_def
        dest: qualification_report_Inr split: if_splits option.splits)
qed

lemma judge_Admitted_claim:
  assumes "judge ed keyring record = Inr (Admitted e)"
  shows "e_claim_id e \<noteq> QUALIFICATION_CLAIM"
proof
  assume c: "e_claim_id e = QUALIFICATION_CLAIM"
  have "carries record e" using judge_accepts [OF assms] by blast
  then have "text_or_none record ''claim_id'' = Some QUALIFICATION_CLAIM"
    using c by (simp add: carries_def text_or_none_VStr)
  then show False
    using assms by (auto simp: judge_def Let_def guarded_Inr_iff bind_Inr_iff checked_results_def
        split: if_splits option.splits)
qed

text \<open>Equality of anchors: that of the values, where a SHA-256 text may carry its tag or not.\<close>

definition same_digest_text :: "string \<Rightarrow> string \<Rightarrow> bool" where
  "same_digest_text a b \<longleftrightarrow> a = b \<or> is_hex64 a \<and> b = ''sha256:'' @ a \<or> is_hex64 b \<and> a = ''sha256:'' @ b"

function (sequential) same_anchor :: "pyval \<Rightarrow> pyval \<Rightarrow> bool" where
  "same_anchor (VStr a) (VStr b) \<longleftrightarrow> same_digest_text a b"
| "same_anchor (VList xs) (VList ys) \<longleftrightarrow> length xs = length ys \<and> (\<forall>(x, y) \<in> set (zip xs ys). same_anchor x y)"
| "same_anchor (VDict d) (VDict e) \<longleftrightarrow> length d = length e \<and> (\<forall>(k, v) \<in> set d. \<exists>w. map_of e k = Some w \<and> same_anchor v w)"
| "same_anchor v w \<longleftrightarrow> py_eq v w"
  by pat_completeness auto
termination
proof (relation "measure (\<lambda>p. size (fst p))")
  show "((x, y), VList xs, VList ys) \<in> measure (\<lambda>p. size (fst p))" if "p \<in> set (zip xs ys)" "(x, y) = p" for xs ys p x y
    using that size_list_estimation' [of x xs "size x" size] by (auto dest: set_zip_leftD)
  show "((v, w), VDict d, VDict e) \<in> measure (\<lambda>p. size (fst p))" if "p \<in> set d" "(k, v) = p" for d p k v w e
    using that size_list_estimation' [of p d "size v" "size_prod (\<lambda>_. 0) size"] by auto
qed simp

lemma digest_tagged: "is_digest s \<Longrightarrow> s = ''sha256:'' @ drop 7 s \<and> is_hex64 (drop 7 s)"
proof -
  have "length ''sha256:'' = 7" by simp
  then show "is_digest s \<Longrightarrow> s = ''sha256:'' @ drop 7 s \<and> is_hex64 (drop 7 s)"
    using starts_withD [of "''sha256:''" s] unfolding is_digest_def by metis
qed

lemma normalized_text: "normalized_anchor (VStr a) = VStr (if is_digest a then drop 7 a else a)"
proof -
  have "\<not> starts_with ''sha256:'' a" if "is_hex64 a"
  proof
    assume "starts_with ''sha256:'' a"
    then obtain t where "a = ''sha256:'' @ t" using starts_withD by blast
    then show False using that by (simp add: is_hex64_def is_lower_hex_def)
  qed
  moreover have "length ''sha256:'' = 7" by simp
  ultimately show ?thesis by (auto simp: is_sha256_text_def remove_prefix_def is_digest_def simp del: list.size)
qed

lemma same_digest_textI: "normalized_anchor (VStr a) = normalized_anchor (VStr b) \<Longrightarrow> same_digest_text a b"
  using digest_tagged [of a] digest_tagged [of b]
  by (auto simp: normalized_text same_digest_text_def simp del: normalized_anchor.simps split: if_split_asm)

lemma py_eq_itemsD: "py_eq_items d e \<Longrightarrow> (k, v) \<in> set d \<Longrightarrow> \<exists>w. map_of e k = Some w \<and> py_eq v w"
  by (induction d) (auto split: option.split_asm)

lemma py_eq_listD: "py_eq_list xs ys \<Longrightarrow> length xs = length ys \<and> (\<forall>(x, y) \<in> set (zip xs ys). py_eq x y)"
  by (induction xs ys rule: list_induct2') auto

lemma normalized_scalar [simp]:
  "num_of (normalized_anchor w) = num_of w" "py_eq VNone (normalized_anchor w) = py_eq VNone w"
  "py_eq (normalized_anchor w) VNone = py_eq w VNone" "py_eq (VFloat t) (normalized_anchor w) = py_eq (VFloat t) w"
  "py_eq (normalized_anchor w) (VFloat t) = py_eq w (VFloat t)"
  by (cases w; simp)+

lemma normalized_same: "py_eq (normalized_anchor v) (normalized_anchor w) \<Longrightarrow> same_anchor v w"
proof (induction v w rule: same_anchor.induct)
  case (2 xs ys)
  then show ?case using py_eq_listD [of "map normalized_anchor xs" "map normalized_anchor ys"]
    by (fastforce simp: zip_map_map)
next
  case (3 d e)
  let ?n = "map (\<lambda>p. (fst p, normalized_anchor (snd p)))"
  have "\<exists>w. map_of e k = Some w \<and> same_anchor v w" if kv: "(k, v) \<in> set d" for k v
  proof -
    have "(k, normalized_anchor v) \<in> set (?n d)" using kv by force
    then obtain w where "map_of (?n e) k = Some w" "py_eq (normalized_anchor v) w" using 3(2) py_eq_itemsD [of "?n d" "?n e"]
      by (simp del: set_map) blast
    moreover have "map_of (?n e) k = map_option normalized_anchor (map_of e k)"
      by (induction e) auto
    ultimately show ?thesis using 3(1) [OF kv refl] by auto
  qed
  then show ?case using 3(2) by auto
qed (auto intro: same_digest_textI simp: eq_commute [of "Some _" "num_of _"])

text \<open>The host state of a report is that of the live host, on the anchors that a change of host moves.\<close>

definition same_host :: "pyval \<Rightarrow> pyval \<Rightarrow> bool" where
  "same_host report live \<longleftrightarrow>
     (\<forall>k \<in> {''boot_id'', ''machine_id'', ''lsm'', ''unprivileged_userns_sysctls''}. has_key report k \<and> has_key live k \<and>
        same_anchor (fld report k) (fld live k)) \<and>
     (\<forall>k \<in> {''uid'', ''gid''}. has_key (fld report ''delegation_identity'') k \<and> has_key (fld live ''delegation_identity'') k \<and>
        py_eq (fld (fld report ''delegation_identity'') k) (fld (fld live ''delegation_identity'') k))"

lemma item_Inr: "item v k = Inr x \<Longrightarrow> has_key v k \<and> fld v k = x"
  by (cases v) (auto simp: item_def has_key_def keys_def fld_def split: option.split_asm dest: map_of_SomeD intro: rev_image_eqI)

lemma first_difference_None:
  "first_difference f a b ks = Inr None \<Longrightarrow> k \<in> set ks \<Longrightarrow> has_key a k \<and> has_key b k \<and> py_eq (f (fld a k)) (f (fld b k))"
  by (induction ks) (auto simp: bind_Inr_iff dest!: item_Inr split: if_split_asm)

lemma stale_anchor_None:
  assumes "stale_anchor report live = Inr None"
  shows "same_host report live"
proof -
  have a: "first_difference normalized_anchor report live [''boot_id'', ''machine_id'', ''lsm'', ''unprivileged_userns_sysctls''] = Inr None"
    using assms by (auto simp: stale_anchor_def bind_Inr_iff simp del: first_difference.simps split: if_split_asm)
  then obtain x y where "item report ''delegation_identity'' = Inr x" "item live ''delegation_identity'' = Inr y"
    "first_difference (\<lambda>v. v) x y [''uid'', ''gid''] = Inr None"
    using assms by (auto simp: stale_anchor_def bind_Inr_iff simp del: first_difference.simps)
  moreover from this(1,2) have "x = fld report ''delegation_identity''" "y = fld live ''delegation_identity''"
    by (auto dest: item_Inr)
  ultimately show ?thesis
    unfolding same_host_def using first_difference_None [OF a] normalized_same first_difference_None [of "\<lambda>v. v" x y "[''uid'', ''gid'']"] by auto
qed

text \<open>
  C29: A host qualification is admitted only when it is fresh: its report has the closed schema of a
  successful qualification, the live host state was read, and the report's host state is equal to
  that of a record whose boot ID, machine ID, LSM and user-namespace sysctls (up to the tag of a digest) and whose
  delegated uid and gid equal those of the live host.
\<close>

theorem admitted_qualification_fresh:
  assumes "admit ed live records keyring = Inr a" and "(i, e) \<in> set (admitted_pairs a)"
    and "e_claim_id e = QUALIFICATION_CLAIM"
  shows "is_ok (validate_qualification_report (report_of (records ! i))) \<and>
    (\<exists>live_state j. live = Inr live_state \<and> j < length records \<and>
       same_host (host_state_of (records ! j)) live_state \<and>
       (i = j \<or> py_eq (host_state_of (records ! i)) (host_state_of (records ! j))))"
proof -
  from assms(1) obtain st st' where st: "loop_inv ed keyring records (length records) st"
    "settle_qualifications live st = Inr st'" "a = admission_of st'" by (rule admit_cases)
  let ?qs = "as_qualifications st"
  have ie: "(i, e) \<in> set (as_evidence st')" using assms(2) st(3) by simp
  have "(i, e) \<notin> set (as_evidence st)"
    using st(1) judge_Admitted_claim assms(3) unfolding loop_inv_def by blast
  with ie st(2) obtain q qs live_state where q: "?qs = q # qs" "live = Inr live_state"
    "stale_anchor (fst (snd (snd q))) live_state = Inr None"
    "\<forall>q' \<in> set qs. py_eq (fst (snd (snd q'))) (fst (snd (snd q)))"
    "(i, e) \<in> (\<lambda>q. (fst q, fst (snd q))) ` set ?qs"
    by (cases ?qs; cases live) (auto simp: settle_qualifications_def reject_qualifications_def list_ex_iff
        split: sum.splits option.splits if_splits)
  have inv: "fst (snd (snd p)) = host_state_of (records ! fst p) \<and>
      is_ok (validate_qualification_report (report_of (records ! fst p)))" if "p \<in> set ?qs" for p
    using st(1) that judge_Qualification unfolding loop_inv_def by fastforce
  have "set (state_indices st) = set [0..<length records]"
    using st(1) unfolding loop_inv_def by (metis mset_eq_setD)
  then have lt: "fst p < length records" if "p \<in> set ?qs" for p
    using that by (force simp: state_indices_def)
  from q(5) obtain p where p: "p \<in> set ?qs" "i = fst p" by auto
  have "i = fst q \<or> py_eq (host_state_of (records ! i)) (host_state_of (records ! fst q))"
    using p q(1,4) inv [of p] inv [of q] by auto
  then show ?thesis
    using p inv [of p] inv [of q] lt [of q] q(1,2) stale_anchor_None [OF q(3)] by auto
qed

section \<open>Witnesses\<close>

definition sealed :: "pyval \<Rightarrow> bytes \<Rightarrow> pyval" where
  "sealed content raw = VDict (dict_of content @ [(''signature'', VStr (encode raw))])"

definition demo_keyring :: "(string \<times> string) list" where
  "demo_keyring = [(''worker'', encode toy_key)]"

definition demo_record :: pyval where
  "demo_record = sealed demo_content (toy_key @ toy_key)"

definition forged_record :: pyval where
  "forged_record = sealed demo_content (replicate 64 (CHR ''x''))"

text \<open>A well-formed content signed by a registered producer, judged.\<close>

lemma judge_sealed:
  assumes c: "c = VDict d" "''signature'' \<notin> fst ` set d" "set (keys c) = set SIGNED_FIELDS"
      "fld c ''envelope_type'' = VStr ENVELOPE_TYPE" "plain_val c"
    and r: "checked_results (text_or_none c ''claim_id'') (fld c ''suite_results'') = Inr q"
      "fld c ''producer_id'' = VStr ''worker''" "build_evidence c (text_or_none c ''claim_id'') = Inr e"
    and raw: "length raw = 64"
  shows "judge toy_ed demo_keyring (sealed c raw) =
    (if raw = toy_key @ toy_key
     then Inr (case q of None \<Rightarrow> Admitted e | Some report \<Rightarrow> Qualification e (fld report ''host_state''))
     else Inr (Rejected BAD_SIGNATURE
         (''signature does not verify against the registered key for '' @ repr_str ''worker'' @
          ''; the record was altered or signed by another key'')))"
proof -
  have other: "map_of (d @ [(''signature'', v)]) k = (if k = ''signature'' then Some v else map_of d k)" for v k
    using c(2) by (induction d) auto
  have s: "fld (sealed c raw) ''signature'' = VStr (encode raw)" "is_dict (sealed c raw)"
    "has_key (sealed c raw) ''signature''" "record_content (sealed c raw) = c"
    "text_or_none (sealed c raw) ''producer_id'' = Some ''worker''"
    "text_or_none (sealed c raw) ''claim_id'' = text_or_none c ''claim_id''"
    using c(1,2) r(2) other
    by (auto simp: sealed_def shape_simps has_key_def keys_def record_content_def text_or_none_def
        filter_id_conv intro: rev_image_eqI)
  obtain b where "canonical_json_bytes c = Inr b" using canonical_json_bytes_plain [OF c(5)] by blast
  then have p: "signed_payload c = Inr (EVIDENCE_DOMAIN @ b)" using signed_payload_v1 [OF c(4,3)] by blast
  have "decode (VStr (encode raw)) (Some 64) ''signature'' = Inr raw"
    "decode (VStr (encode toy_key)) (Some 32) ''public key'' = Inr toy_key"
    using raw by (auto simp: decode_Inr_iff toy_key_def)
  then have v: "verify_evidence toy_ed c (VStr (encode raw)) (VStr (encode toy_key)) = Inr (raw = toy_key @ toy_key)"
    using p by (auto simp: verify_evidence_def toy_ed_def)
  have "content_fields c = SIGNED_FIELDS" using c(4) by (simp add: content_fields_def)
  then show ?thesis
    using c(3,4) r raw p v is_signature_iff
    by (auto simp: judge_def s Let_def guarded_def demo_keyring_def split: option.splits)
qed

lemma demo_content_shape:
  "''signature'' \<notin> fst ` set (dict_of demo_content)" "set (keys demo_content) = set SIGNED_FIELDS"
  "fld demo_content ''envelope_type'' = VStr ENVELOPE_TYPE" "fld demo_content ''producer_id'' = VStr ''worker''"
  "text_or_none demo_content ''claim_id'' = Some ''tests''" "fld demo_content ''suite_results'' = VNone"
  "demo_content = VDict (dict_of demo_content)"
  by (simp_all add: demo_content_def shape_simps keys_def SIGNED_FIELDS_def text_or_none_def)

lemma demo_evidence_built: "build_evidence demo_content (Some ''tests'') = Inr (demo_evidence ''worker'' 0)"
  using demo_gate_ok(2)
  by (simp add: build_evidence_def evidence_new_def demo_content_def shape_simps require_text_def
      require_digest_def QUALIFICATION_CLAIM_def demo_evidence_def ascii_space_def)

lemma judge_demo:
  "judge toy_ed demo_keyring demo_record = Inr (Admitted (demo_evidence ''worker'' 0))"
  "\<exists>detail. judge toy_ed demo_keyring forged_record = Inr (Rejected BAD_SIGNATURE detail)"
proof -
  have "plain_val demo_content" by code_simp
  moreover have "checked_results (Some ''tests'') VNone = Inr None"
    by (simp add: checked_results_def QUALIFICATION_CLAIM_def)
  ultimately have j: "judge toy_ed demo_keyring (sealed demo_content raw) =
    (if raw = toy_key @ toy_key then Inr (Admitted (demo_evidence ''worker'' 0))
     else Inr (Rejected BAD_SIGNATURE
         (''signature does not verify against the registered key for '' @ repr_str ''worker'' @
          ''; the record was altered or signed by another key'')))" if "length raw = 64" for raw
    using judge_sealed [OF demo_content_shape(7,1,2,3), of None "demo_evidence ''worker'' 0" raw]
      demo_content_shape demo_evidence_built that by simp
  show "judge toy_ed demo_keyring demo_record = Inr (Admitted (demo_evidence ''worker'' 0))"
    unfolding demo_record_def by (subst j) (simp_all add: toy_key_def)
  have "replicate 64 (CHR ''x'') \<noteq> toy_key @ toy_key" by (simp add: toy_key_def numeral_eq_Suc)
  then show "\<exists>detail. judge toy_ed demo_keyring forged_record = Inr (Rejected BAD_SIGNATURE detail)"
    unfolding forged_record_def by (subst j) simp_all
qed

lemma demo_admission:
  "\<exists>a detail. admit toy_ed live [demo_record, forged_record] demo_keyring = Inr a \<and>
     admitted_pairs a = [(0, demo_evidence ''worker'' 0)] \<and>
     ad_rejections a = [reject 1 forged_record BAD_SIGNATURE detail]"
  using judge_demo
  by (auto simp: admit_def settle_qualifications_def admission_post_init_def admitted_pairs_def reject_def)

theorem admit_files_every_record_witness:
  "\<exists>a. admit toy_ed (Inl (OSError ''no such file'')) [demo_record, forged_record, VInt 3] demo_keyring = Inr a \<and>
     accounts_for (length [demo_record, forged_record, VInt 3]) a \<and>
     sorted (ad_indices a) \<and> sorted (map rj_index (ad_rejections a))"
  by (rule admit_files_every_record) auto

theorem admitted_evidence_authentic_witness:
  "0 < length [demo_record, forged_record] \<and> authentic toy_ed demo_keyring ([demo_record, forged_record] ! 0) \<and>
   carries ([demo_record, forged_record] ! 0) (demo_evidence ''worker'' 0)"
proof -
  obtain a where a: "admit toy_ed (Inr VNone) [demo_record, forged_record] demo_keyring = Inr a"
    "admitted_pairs a = [(0, demo_evidence ''worker'' 0)]" using demo_admission by blast
  show ?thesis by (rule admitted_evidence_authentic [OF a(1)]) (simp add: a(2))
qed

definition demo_host_state :: "(string \<times> pyval) list \<Rightarrow> pyval" where
  "demo_host_state extra = VDict
     [(''lsm'', VDict [(''securityfs_lsm'', VStr ''landlock''), (''apparmor_policy_identity'', VNone),
        (''selinux_policy_identity'', VNone)]),
      (''unprivileged_userns_sysctls'', VDict [(''user.max_user_namespaces'', VStr ''100'')]),
      (''boot_id'', VStr ''b''), (''machine_id'', VStr ''m''),
      (''delegation_identity'', VDict ([(''uid'', VInt 0), (''gid'', VInt 0)] @ extra))]"

definition demo_opened :: pyval where
  "demo_opened = VDict [(''path'', VStr ''/b''), (''realpath'', VStr ''/b''), (''sha256'', VStr zero_digest),
     (''device'', VInt 1), (''inode'', VInt 1), (''uid'', VInt 0), (''gid'', VInt 0), (''mode'', VInt 1),
     (''mount_id'', VInt 1), (''security_capability'', VBool False),
     (''filesystem'', VDict [(''device'', VStr ''d''), (''filesystem'', VStr ''ext4''), (''mount_id'', VInt 1),
        (''mount_point'', VStr ''/''), (''options'', str_list [''rw'']), (''source'', VStr ''s'')])]"

definition demo_qualification :: pyval where
  "demo_qualification = VDict
     [(''schema'', VStr QUALIFICATION_SCHEMA), (''qualified'', VBool True), (''refusal'', VNone),
      (''kernel'', VDict [(''release'', VStr ''6''), (''architecture'', VStr ''x86_64'')]),
      (''primitives'', VDict [(''landlock'', VDict [(''available'', VBool True), (''abi'', VInt 4)]),
         (''seccomp_filter'', VBool True), (''no_new_privs'', VBool True),
         (''namespaces'', VDict (map (\<lambda>n. (n, VBool True)) [''user'', ''mount'', ''pid'', ''ipc'', ''network''])),
         (''openat2'', VBool True)]),
      (''cgroup'', VDict [(''cgroup_kill'', VBool True),
         (''mount'', VDict [(''path'', VStr ''/sys''), (''filesystem'', VStr ''cgroup2'')]),
         (''root'', VStr ''/''), (''relative_path'', VStr ''r''), (''controllers'', str_list [''pids'']),
         (''probe_transcript'', VDict [(''ok'', VBool True)])]),
      (''open_objects'', VDict [(''bubblewrap'', demo_opened), (''launcher'', demo_opened)]),
      (''digests'', VDict (map (\<lambda>n. (n, VStr zero_digest)) [''profile'', ''build_manifest'', ''artifact''])),
      (''delegation'', VDict [(''broker'', VNone), (''existing_root'', VNone), (''source'', VNone)]),
      (''host_state'', demo_host_state [(''cgroup_root'', VNone), (''cgroup_relative_path'', VNone),
         (''source'', VNone), (''userns_state_source'', VNone)])]"

definition demo_qualified_content :: pyval where
  "demo_qualified_content =
     VDict (dict_set (dict_set (dict_of demo_content) ''claim_id'' (VStr QUALIFICATION_CLAIM))
       ''suite_results'' demo_qualification)"

definition demo_qualified_evidence :: evidence where
  "demo_qualified_evidence = (demo_evidence ''worker'' 0)\<lparr>e_claim_id := QUALIFICATION_CLAIM\<rparr>"

lemma demo_qualification_ok: "validate_qualification_report demo_qualification = Inr demo_qualification"
  by code_simp

lemma demo_qualified_shape:
  "''signature'' \<notin> fst ` set (dict_of demo_qualified_content)"
  "set (keys demo_qualified_content) = set SIGNED_FIELDS"
  "fld demo_qualified_content ''envelope_type'' = VStr ENVELOPE_TYPE"
  "fld demo_qualified_content ''producer_id'' = VStr ''worker''"
  "text_or_none demo_qualified_content ''claim_id'' = Some QUALIFICATION_CLAIM"
  "fld demo_qualified_content ''suite_results'' = demo_qualification"
  "demo_qualified_content = VDict (dict_of demo_qualified_content)"
  "build_evidence demo_qualified_content (Some QUALIFICATION_CLAIM) = Inr demo_qualified_evidence"
  using demo_gate_ok(2)
  by (simp_all add: demo_qualified_content_def demo_content_def shape_simps keys_def SIGNED_FIELDS_def
      text_or_none_def build_evidence_def evidence_new_def require_text_def require_digest_def
      demo_qualified_evidence_def demo_evidence_def ascii_space_def)
    (simp_all add: QUALIFICATION_CLAIM_def ascii_space_def)

definition demo_qualified_record :: pyval where
  "demo_qualified_record = sealed demo_qualified_content (toy_key @ toy_key)"

theorem admitted_qualification_fresh_witness:
  "is_ok (validate_qualification_report (report_of ([demo_qualified_record] ! 0))) \<and>
    (\<exists>live_state j. Inr (demo_host_state []) = (Inr live_state :: pyval result) \<and> j < length [demo_qualified_record] \<and>
       same_host (host_state_of ([demo_qualified_record] ! j)) live_state \<and>
       (0 = j \<or> py_eq (host_state_of ([demo_qualified_record] ! 0)) (host_state_of ([demo_qualified_record] ! j))))"
proof -
  have "plain_val demo_qualified_content" by code_simp
  moreover have "checked_results (Some QUALIFICATION_CLAIM) demo_qualification = Inr (Some demo_qualification)"
    by (simp add: checked_results_def demo_qualification_ok)
  moreover have "length (toy_key @ toy_key) = 64" by (simp add: toy_key_def)
  ultimately have j: "judge toy_ed demo_keyring demo_qualified_record =
      Inr (Qualification demo_qualified_evidence (fld demo_qualification ''host_state''))"
    using judge_sealed [OF demo_qualified_shape(7,1,2,3), of "Some demo_qualification"] demo_qualified_shape
    by (simp add: demo_qualified_record_def)
  have "stale_anchor (fld demo_qualification ''host_state'') (demo_host_state []) = Inr None" by code_simp
  with j obtain a where a: "admit toy_ed (Inr (demo_host_state [])) [demo_qualified_record] demo_keyring = Inr a"
    "admitted_pairs a = [(0, demo_qualified_evidence)]"
    by (auto simp: admit_def settle_qualifications_def admission_post_init_def admitted_pairs_def)
  show ?thesis
    by (rule admitted_qualification_fresh [OF a(1), of 0 demo_qualified_evidence])
      (simp_all add: a(2) demo_qualified_evidence_def)
qed

end
