(* ===== verification/Admission_Filters.thy ===== *)
theory Admission_Filters
  imports Admission
begin

text \<open>
  The filters the CLI puts between admission and the kernel: \<open>refuse_executables_inside\<close>,
  \<open>refuse_foreign_policy_context\<close> and \<open>_checked_record_pairs\<close> of \<^verbatim>\<open>src/src/ranex/cli/main.py\<close>, and
  \<open>apply_settings_binding\<close> of \<^verbatim>\<open>admission.py\<close>, composed as \<open>admit_records\<close> composes them. Their common
  contract is the locale \<open>admission_filter\<close>: a filter only takes evidence away, files what it takes
  away as a rejection, and keeps every earlier rejection. Where an executable leads on disk is the
  argument \<open>committable\<close>, which stands for \<open>committable_into(path, repository_root)\<close>.
\<close>

section \<open>Pairing evidence with its records\<close>

definition evidence_field :: "evidence \<Rightarrow> string \<Rightarrow> pyval" where
  "evidence_field e f =
     (if f = ''claim_id'' then VStr (e_claim_id e)
      else if f = ''subject_digest'' then VStr (e_subject_digest e)
      else if f = ''producer_id'' then VStr (e_producer_id e)
      else if f = ''command'' then VStr (e_command e)
      else if f = ''command_digest'' then VStr (e_command_digest e)
      else if f = ''executable_path'' then VStr (e_executable_path e)
      else if f = ''exit_code'' then VInt (e_exit_code e)
      else case e_suite_results e of None \<Rightarrow> VNone | Some v \<Rightarrow> v)"

definition kernel_fields :: "string list" where
  "kernel_fields = [''claim_id'', ''subject_digest'', ''producer_id'', ''command'', ''command_digest'',
     ''executable_path'', ''exit_code'', ''suite_results'']"

definition fields_match :: "pyval \<Rightarrow> evidence \<Rightarrow> bool" where
  "fields_match r e =
     list_all (\<lambda>f. case map_of (dict_of r) f of
         None \<Rightarrow> False
       | Some source \<Rightarrow>
           py_eq (if f = ''suite_results'' \<and> fld r ''claim_id'' = VStr QUALIFICATION_CLAIM then VNone else source)
             (evidence_field e f)) kernel_fields"

text \<open>The identity loop; every exception in it, an index out of range included, makes the answer False.\<close>

fun identities_ok :: "(bytes \<Rightarrow> bytes) \<Rightarrow> pyval list \<Rightarrow> (nat \<times> evidence) list \<Rightarrow> string list \<Rightarrow> bool" where
  "identities_ok sha records [] identities = True"
| "identities_ok sha records ((index, e) # pairs) identities =
     (index < length records \<and> is_dict (records ! index) \<and>
      (case canonical_sha256 sha (records ! index) of
         Inl _ \<Rightarrow> False
       | Inr identity \<Rightarrow>
           identity \<notin> set identities \<and> fields_match (records ! index) e \<and>
           identities_ok sha records pairs (identity # identities)))"

definition open_positions :: "admission \<Rightarrow> pyval list \<Rightarrow> nat list" where
  "open_positions a records =
     filter (\<lambda>i. i \<notin> set (map rj_index (ad_rejections a))) [0..<length records]"

definition pairs_valid :: "(bytes \<Rightarrow> bytes) \<Rightarrow> admission \<Rightarrow> pyval list \<Rightarrow> bool" where
  "pairs_valid sha a records \<longleftrightarrow>
     (let refused = remdups (map rj_index (ad_rejections a)); positions = open_positions a records;
          indices = ad_indices a in
      length positions = length (ad_evidence a) \<and> length (ad_evidence a) = length indices \<and>
      length (remdups indices) = length indices \<and> set indices = set positions \<and>
      list_all (\<lambda>i. i < length records) indices \<and> length refused = length (ad_rejections a) \<and>
      list_all (\<lambda>i. i < length records) refused \<and>
      identities_ok sha records (zip indices (ad_evidence a)) [])"

definition broken_rejection :: "pyval list \<Rightarrow> nat \<Rightarrow> rejection" where
  "broken_rejection records i =
     reject i (records ! i) MALFORMED_RECORD ''evidence/record identity is missing, duplicate, or mismatched''"

text \<open>\<open>Inl\<close>: the admission that refuses everything; \<open>Inr\<close>: the pairs.\<close>

definition checked_record_pairs ::
  "(bytes \<Rightarrow> bytes) \<Rightarrow> admission \<Rightarrow> pyval list \<Rightarrow> (admission + (nat \<times> evidence) list) result" where
  "checked_record_pairs sha a records =
     (if pairs_valid sha a records then Inr (Inr (zip (ad_indices a) (ad_evidence a)))
      else
        bind (admission_post_init
          \<lparr>ad_evidence = [],
           ad_rejections = sort_key rj_index
             (ad_rejections a @ map (broken_rejection records) (open_positions a records)),
           ad_indices = [], ad_checkpoint = None, ad_history_verified = False, ad_removed = []\<rparr>)
        (\<lambda>b. Inr (Inl b)))"

section \<open>The filters\<close>

text \<open>\<open>replace(admission, ...)\<close> with the kept pairs and the added rejections.\<close>

definition refile :: "admission \<Rightarrow> (nat \<times> evidence) list \<Rightarrow> rejection list \<Rightarrow> admission result" where
  "refile a kept rejections =
     admission_post_init (a\<lparr>ad_evidence := map snd kept, ad_indices := map fst kept, ad_rejections := rejections\<rparr>)"

definition item_rejection :: "nat \<times> evidence \<Rightarrow> rejection_reason \<times> string \<Rightarrow> rejection" where
  "item_rejection p why =
     \<lparr>rj_index = fst p, rj_reason = fst why, rj_detail = snd why,
      rj_producer_id = Some (e_producer_id (snd p)), rj_claim_id = Some (e_claim_id (snd p))\<rparr>"

text \<open>The loop both checked filters share: a pair is kept or filed under the reason it is given.\<close>

definition refuse_pairs ::
  "(bytes \<Rightarrow> bytes) \<Rightarrow> (nat \<times> evidence \<Rightarrow> (rejection_reason \<times> string) option) \<Rightarrow>
   admission \<Rightarrow> pyval list \<Rightarrow> admission result" where
  "refuse_pairs sha why a records =
     bind (checked_record_pairs sha a records) (\<lambda>checked.
     case checked of
       Inl refused \<Rightarrow> Inr refused
     | Inr pairs \<Rightarrow>
         refile a (filter (\<lambda>p. why p = None) pairs)
           (sort_key rj_index (ad_rejections a @
              concat (map (\<lambda>p. case why p of None \<Rightarrow> [] | Some w \<Rightarrow> [item_rejection p w]) pairs))))"

definition CATALOG_ABSENT :: string where
  "CATALOG_ABSENT = ''catalog-absent''"

text \<open>\<open>str\<close> of a value, in an f-string.\<close>

definition py_str :: "pyval \<Rightarrow> string" where
  "py_str v = (case v of VStr s \<Rightarrow> s | _ \<Rightarrow> py_repr v)"

definition policy_refusal :: "pyval \<Rightarrow> string \<Rightarrow> string \<Rightarrow> (rejection_reason \<times> string) option" where
  "policy_refusal r gate_id catalog_digest =
     (let record_gate = fld r ''gate_id''; record_catalog = fld r ''catalog_digest'' in
      if record_gate = VNone \<or> record_catalog = VNone then
        Some (UNSUPPORTED_ENVELOPE, ''record carries no policy context; it predates the evidence envelope that binds the gate and catalog a run was performed under, and cannot be checked against either'')
      else if record_catalog = VStr CATALOG_ABSENT then
        Some (POLICY_CONTEXT_MISMATCH, ''record was produced with no committed gate catalog, so it names no rulebook; evidence that names none could satisfy any of them, and this gate is defined by '' @ catalog_digest)
      else if record_gate \<noteq> VStr gate_id then
        Some (POLICY_CONTEXT_MISMATCH, ''record was produced for gate '' @ py_repr record_gate @ '', not '' @
          repr_str gate_id @ ''; one catalog defines many gates and evidence for one does not satisfy another'')
      else if record_catalog \<noteq> VStr catalog_digest then
        Some (POLICY_CONTEXT_MISMATCH, ''record was produced under catalog '' @ py_str record_catalog @
          '', and this gate is defined by '' @ catalog_digest @
          ''; the rulebook changed after the work was done, so the work must be done again'')
      else None)"

definition refuse_foreign_policy_context ::
  "(bytes \<Rightarrow> bytes) \<Rightarrow> string \<Rightarrow> string \<Rightarrow> admission \<Rightarrow> pyval list \<Rightarrow> admission result" where
  "refuse_foreign_policy_context sha gate_id catalog_digest a records =
     refuse_pairs sha (\<lambda>p. policy_refusal (records ! fst p) gate_id catalog_digest) a records"

definition executable_refusal :: "(string \<Rightarrow> bool) \<Rightarrow> evidence \<Rightarrow> (rejection_reason \<times> string) option" where
  "executable_refusal committable e =
     (if \<not> starts_with ''/'' (e_executable_path e) then
        Some (EXECUTABLE_INSIDE_SUBJECT, ''executable_path '' @ repr_str (e_executable_path e) @
          '' is not absolute, so where the command actually came from cannot be decided'')
      else if committable (e_executable_path e) then
        Some (EXECUTABLE_INSIDE_SUBJECT, ''executable_path '' @ e_executable_path e @
          '' is inside the repository under observation, so the party being judged chose the binary that satisfied the claim'')
      else None)"

definition refuse_executables_inside ::
  "(bytes \<Rightarrow> bytes) \<Rightarrow> (string \<Rightarrow> bool) \<Rightarrow> admission \<Rightarrow> pyval list \<Rightarrow> admission result" where
  "refuse_executables_inside sha committable a records =
     refuse_pairs sha (\<lambda>p. executable_refusal committable (snd p)) a records"

definition settings_match :: "string \<Rightarrow> int \<Rightarrow> pyval list \<Rightarrow> nat \<Rightarrow> bool" where
  "settings_match expected_digest expected_schema_version records index \<longleftrightarrow>
     (let r = (if index < length records then records ! index else VNone) in
      is_dict r \<and> fld r ''envelope_type'' = VStr ENVELOPE_TYPE_V2 \<and>
      fld r ''settings_digest'' = VStr expected_digest \<and>
      fld r ''settings_schema_version'' = VInt expected_schema_version)"

definition apply_settings_binding :: "string \<Rightarrow> int \<Rightarrow> admission \<Rightarrow> pyval list \<Rightarrow> admission result" where
  "apply_settings_binding expected_digest expected_schema_version a records =
     (let pairs = zip (ad_indices a) (ad_evidence a);
          ok = (\<lambda>p. settings_match expected_digest expected_schema_version records (fst p)) in
      refile a (filter ok pairs)
        (ad_rejections a @
         map (\<lambda>p. item_rejection p (SETTINGS_BINDING_MISMATCH,
             ''record '' @ show_nat (fst p) @ '': settings binding does not match the evaluated ref''))
           (filter (\<lambda>p. \<not> ok p) pairs)))"

text \<open>The tail of \<open>admit_records\<close>: each check runs when its arguments are given.\<close>

definition filter_admission ::
  "(bytes \<Rightarrow> bytes) \<Rightarrow> (string \<Rightarrow> bool) option \<Rightarrow> string option \<Rightarrow> string option \<Rightarrow> (string \<times> int) option \<Rightarrow>
   admission \<Rightarrow> pyval list \<Rightarrow> admission result" where
  "filter_admission sha repository gate_id catalog_digest settings_binding a records =
     bind (case repository of None \<Rightarrow> Inr a
           | Some committable \<Rightarrow> refuse_executables_inside sha committable a records) (\<lambda>a.
     bind (case (gate_id, catalog_digest) of
             (Some gate, Some catalog) \<Rightarrow> refuse_foreign_policy_context sha gate catalog a records
           | _ \<Rightarrow> Inr a) (\<lambda>a.
     case settings_binding of None \<Rightarrow> Inr a
     | Some (digest, version) \<Rightarrow> apply_settings_binding digest version a records))"

section \<open>The contract of a filter\<close>

lemma accounts_forD:
  assumes "accounts_for n a"
  shows "length (ad_indices a) = length (ad_evidence a)" "distinct (ad_indices a)"
    "distinct (map rj_index (ad_rejections a))"
    "set (ad_indices a) \<inter> rj_index ` set (ad_rejections a) = {}"
    "set (ad_indices a) \<union> rj_index ` set (ad_rejections a) = {0..<n}"
proof -
  have m: "mset (ad_indices a @ map rj_index (ad_rejections a)) = mset [0..<n]"
    using assms by (simp add: accounts_for_def)
  have "distinct (ad_indices a @ map rj_index (ad_rejections a))"
    using mset_eq_imp_distinct_iff [OF m] by simp
  then show "distinct (ad_indices a)" "distinct (map rj_index (ad_rejections a))"
    "set (ad_indices a) \<inter> rj_index ` set (ad_rejections a) = {}" by auto
  show "set (ad_indices a) \<union> rj_index ` set (ad_rejections a) = {0..<n}"
    using mset_eq_setD [OF m] by simp
  show "length (ad_indices a) = length (ad_evidence a)" using assms by (simp add: accounts_for_def)
qed

locale admission_filter =
  fixes filt :: "admission \<Rightarrow> pyval list \<Rightarrow> admission result"
  assumes total: "accounts_for (length records) a \<Longrightarrow> \<exists>b. filt a records = Inr b"
    and files: "accounts_for (length records) a \<Longrightarrow> filt a records = Inr b \<Longrightarrow> accounts_for (length records) b"
    and shrinks: "accounts_for (length records) a \<Longrightarrow> filt a records = Inr b \<Longrightarrow>
      set (admitted_pairs b) \<subseteq> set (admitted_pairs a)"
    and keeps: "accounts_for (length records) a \<Longrightarrow> filt a records = Inr b \<Longrightarrow>
      set (ad_rejections a) \<subseteq> set (ad_rejections b)"
begin

lemma preserves:
  "accounts_for (length records) a \<Longrightarrow> filt a records = Inr b \<Longrightarrow>
   \<forall>p \<in> set (admitted_pairs a). P p \<Longrightarrow> \<forall>p \<in> set (admitted_pairs b). P p"
  using shrinks by blast

lemma refused_is_filed:
  assumes "accounts_for (length records) a" "filt a records = Inr b"
    and "(i, e) \<in> set (admitted_pairs a)" "(i, e) \<notin> set (admitted_pairs b)"
  shows "\<exists>rj \<in> set (ad_rejections b). rj_index rj = i"
proof -
  have a: "length (ad_indices a) = length (ad_evidence a)" "distinct (ad_indices a)"
    "i \<in> set [0..<length records]"
    using accounts_forD [OF assms(1)] assms(3) by (auto simp: admitted_pairs_def dest!: set_zip_leftD)
  have b: "length (ad_indices b) = length (ad_evidence b)"
    "set (ad_indices b) \<union> rj_index ` set (ad_rejections b) = set [0..<length records]"
    using accounts_forD [OF files [OF assms(1,2)]] by simp_all
  have "i \<notin> set (ad_indices b)"
  proof
    assume "i \<in> set (ad_indices b)"
    then obtain e' where e': "(i, e') \<in> set (admitted_pairs b)"
      using b(1) by (metis admitted_pairs_def in_set_impl_in_set_zip1)
    then have "(i, e') \<in> set (admitted_pairs a)" using shrinks [OF assms(1,2)] by blast
    then have "e' = e"
      using assms(3) a(1,2) eq_key_imp_eq_value [of "admitted_pairs a" i e e'] by (simp add: admitted_pairs_def)
    then show False using e' assms(4) by simp
  qed
  then show ?thesis using a(3) b(2) by blast
qed

end

text \<open>Two filters in sequence are a filter.\<close>

locale filter_chain = first: admission_filter f + second: admission_filter g
  for f :: "admission \<Rightarrow> pyval list \<Rightarrow> admission result"
    and g :: "admission \<Rightarrow> pyval list \<Rightarrow> admission result"

sublocale filter_chain \<subseteq> both: admission_filter "\<lambda>a records. bind (f a records) (\<lambda>b. g b records)"
proof
  fix records :: "pyval list" and a b :: admission
  assume acc: "accounts_for (length records) a"
  obtain c where c: "f a records = Inr c" "accounts_for (length records) c"
    using first.total [OF acc] first.files [OF acc] by blast
  show "\<exists>b. bind (f a records) (\<lambda>b. g b records) = Inr b" using c second.total by simp
  assume "bind (f a records) (\<lambda>b. g b records) = Inr b"
  then have g: "g c records = Inr b" using c by simp
  show "accounts_for (length records) b" by (rule second.files [OF c(2) g])
  show "set (admitted_pairs b) \<subseteq> set (admitted_pairs a)"
    using first.shrinks [OF acc c(1)] second.shrinks [OF c(2) g] by blast
  show "set (ad_rejections a) \<subseteq> set (ad_rejections b)"
    using first.keeps [OF acc c(1)] second.keeps [OF c(2) g] by blast
qed

context filter_chain
begin

lemma chain_is_filter: "admission_filter (\<lambda>a records. bind (f a records) (\<lambda>b. g b records))"
  by (rule both.admission_filter_axioms)

end

section \<open>The filters satisfy it\<close>

lemma refile_pairs:
  assumes acc: "accounts_for n a"
    and new: "map rj_index new = map fst (filter (\<lambda>p. \<not> P p) (admitted_pairs a))"
    and rej: "mset rejections = mset (ad_rejections a @ new)"
  shows "\<exists>b. refile a (filter P (admitted_pairs a)) rejections = Inr b \<and> accounts_for n b \<and>
    admitted_pairs b = filter P (admitted_pairs a) \<and> ad_rejections b = rejections"
proof -
  note a = accounts_forD [OF acc]
  let ?ps = "admitted_pairs a"
  let ?b = "a\<lparr>ad_evidence := map snd (filter P ?ps), ad_indices := map fst (filter P ?ps), ad_rejections := rejections\<rparr>"
  have fst: "map fst ?ps = ad_indices a" using a(1) by (simp add: admitted_pairs_def)
  have "mset (map fst (filter P ?ps)) + mset (map fst (filter (\<lambda>p. \<not> P p) ?ps)) = mset (ad_indices a)"
    unfolding fst [symmetric] mset_map image_mset_union [symmetric] mset_filter
    by (simp add: multiset_partition [symmetric])
  moreover have "image_mset rj_index (mset rejections) =
      image_mset rj_index (mset (ad_rejections a)) + mset (map fst (filter (\<lambda>p. \<not> P p) ?ps))"
    using new by (simp add: rej flip: new)
  ultimately have acc': "accounts_for n ?b"
    using acc by (simp add: accounts_for_def ac_simps)
  have "admission_post_init ?b = Inr ?b"
    using accounts_forD [OF acc'] by (auto simp: admission_post_init_def distinct_remdups_id list_all_iff)
  then show ?thesis
    using acc' by (auto simp: refile_def admitted_pairs_def zip_map_fst_snd)
qed

lemma open_positions_mset:
  assumes "accounts_for (length records) a"
  shows "mset (open_positions a records) = mset (ad_indices a)"
proof -
  note a = accounts_forD [OF assms]
  have "set (open_positions a records) = set (ad_indices a)"
    using a(4,5) by (auto simp: open_positions_def)
  moreover have "distinct (open_positions a records)" by (simp add: open_positions_def)
  ultimately show ?thesis using a(2) by (simp add: set_eq_iff_mset_eq_distinct)
qed

lemma checked_record_pairs_cases:
  assumes "accounts_for (length records) a"
  shows "checked_record_pairs sha a records = Inr (Inr (admitted_pairs a)) \<or>
    (\<exists>b. checked_record_pairs sha a records = Inr (Inl b) \<and> accounts_for (length records) b \<and>
       admitted_pairs b = [] \<and> set (ad_rejections a) \<subseteq> set (ad_rejections b))"
proof (cases "pairs_valid sha a records")
  case True
  then show ?thesis by (simp add: checked_record_pairs_def admitted_pairs_def)
next
  case False
  define new where "new = map (broken_rejection records) (open_positions a records)"
  define b where "b = \<lparr>ad_evidence = [], ad_rejections = sort_key rj_index (ad_rejections a @ new),
    ad_indices = [], ad_checkpoint = None, ad_history_verified = False, ad_removed = []\<rparr>"
  have "map rj_index new = open_positions a records"
    by (simp add: new_def broken_rejection_def reject_def comp_def)
  then have "image_mset rj_index (mset new) = mset (ad_indices a)"
    using open_positions_mset [OF assms] by (metis mset_map)
  then have "accounts_for (length records) b" using assms by (simp add: b_def accounts_for_def ac_simps)
  moreover have "checked_record_pairs sha a records = Inr (Inl b)"
    using False by (simp add: checked_record_pairs_def new_def b_def admission_post_init_def)
  moreover have "admitted_pairs b = []" "set (ad_rejections a) \<subseteq> set (ad_rejections b)"
    by (simp_all add: b_def admitted_pairs_def)
  ultimately show ?thesis by blast
qed

lemma filed_pairs:
  "map rj_index (concat (map (\<lambda>p. case why p of None \<Rightarrow> [] | Some w \<Rightarrow> [item_rejection p w]) ps)) =
   map fst (filter (\<lambda>p. \<not> why p = None) ps)"
  by (induction ps) (auto simp: item_rejection_def split: option.splits)

lemma refuse_pairs_spec:
  assumes "accounts_for (length records) a"
  shows "\<exists>b. refuse_pairs sha why a records = Inr b \<and> accounts_for (length records) b \<and>
    set (admitted_pairs b) \<subseteq> {p \<in> set (admitted_pairs a). why p = None} \<and>
    set (ad_rejections a) \<subseteq> set (ad_rejections b)"
proof -
  consider "checked_record_pairs sha a records = Inr (Inr (admitted_pairs a))"
    | b where "checked_record_pairs sha a records = Inr (Inl b)" "accounts_for (length records) b"
        "admitted_pairs b = []" "set (ad_rejections a) \<subseteq> set (ad_rejections b)"
    using checked_record_pairs_cases [OF assms] by blast
  then show ?thesis
  proof cases
    case 1
    let ?new = "concat (map (\<lambda>p. case why p of None \<Rightarrow> [] | Some w \<Rightarrow> [item_rejection p w]) (admitted_pairs a))"
    have "mset (sort_key rj_index (ad_rejections a @ ?new)) = mset (ad_rejections a @ ?new)" by simp
    from refile_pairs [OF assms filed_pairs this] show ?thesis
      using 1 by (auto simp: refuse_pairs_def)
  next
    case 2
    then show ?thesis by (auto simp: refuse_pairs_def)
  qed
qed

lemma refuse_pairs_filter: "admission_filter (refuse_pairs sha why)"
proof
  fix records :: "pyval list" and a b
  assume acc: "accounts_for (length records) a"
  show "\<exists>b. refuse_pairs sha why a records = Inr b" using refuse_pairs_spec [OF acc] by blast
  assume b: "refuse_pairs sha why a records = Inr b"
  show "accounts_for (length records) b" "set (admitted_pairs b) \<subseteq> set (admitted_pairs a)"
    "set (ad_rejections a) \<subseteq> set (ad_rejections b)"
    using refuse_pairs_spec [OF acc, of sha why] b by auto
qed

interpretation containment: admission_filter "refuse_executables_inside sha committable" for sha committable
  unfolding refuse_executables_inside_def [abs_def] by (rule refuse_pairs_filter)

interpretation policy: admission_filter "refuse_foreign_policy_context sha gate_id catalog_digest"
  for sha gate_id catalog_digest
proof
  fix records :: "pyval list" and a b
  assume acc: "accounts_for (length records) a"
  note spec = refuse_pairs_spec [OF acc, of sha "\<lambda>p. policy_refusal (records ! fst p) gate_id catalog_digest"]
  show "\<exists>b. refuse_foreign_policy_context sha gate_id catalog_digest a records = Inr b"
    using spec by (auto simp: refuse_foreign_policy_context_def)
  assume b: "refuse_foreign_policy_context sha gate_id catalog_digest a records = Inr b"
  show "accounts_for (length records) b" "set (admitted_pairs b) \<subseteq> set (admitted_pairs a)"
    "set (ad_rejections a) \<subseteq> set (ad_rejections b)"
    using spec b by (auto simp: refuse_foreign_policy_context_def)
qed

lemma apply_settings_binding_spec:
  assumes "accounts_for (length records) a"
  shows "\<exists>b. apply_settings_binding d v a records = Inr b \<and> accounts_for (length records) b \<and>
    admitted_pairs b = filter (\<lambda>p. settings_match d v records (fst p)) (admitted_pairs a) \<and>
    set (ad_rejections a) \<subseteq> set (ad_rejections b)"
proof -
  let ?ok = "\<lambda>p. settings_match d v records (fst p)"
  let ?new = "map (\<lambda>p. item_rejection p (SETTINGS_BINDING_MISMATCH,
             ''record '' @ show_nat (fst p) @ '': settings binding does not match the evaluated ref''))
           (filter (\<lambda>p. \<not> ?ok p) (admitted_pairs a))"
  have "map rj_index ?new = map fst (filter (\<lambda>p. \<not> ?ok p) (admitted_pairs a))"
    by (simp add: item_rejection_def)
  from refile_pairs [OF assms this refl] show ?thesis
    by (auto simp: apply_settings_binding_def Let_def admitted_pairs_def)
qed

interpretation settings: admission_filter "apply_settings_binding d v" for d v
proof
  fix records :: "pyval list" and a b
  assume acc: "accounts_for (length records) a"
  note spec = apply_settings_binding_spec [OF acc, of d v]
  show "\<exists>b. apply_settings_binding d v a records = Inr b" using spec by blast
  assume b: "apply_settings_binding d v a records = Inr b"
  show "accounts_for (length records) b" "set (admitted_pairs b) \<subseteq> set (admitted_pairs a)"
    "set (ad_rejections a) \<subseteq> set (ad_rejections b)"
    using spec b by auto
qed

interpretation policed: filter_chain "refuse_executables_inside sha committable"
  "refuse_foreign_policy_context sha gate_id catalog_digest" for sha committable gate_id catalog_digest
  by unfold_locales

interpretation gated: filter_chain
  "\<lambda>a records. bind (refuse_executables_inside sha committable a records)
     (\<lambda>b. refuse_foreign_policy_context sha gate_id catalog_digest b records)"
  "apply_settings_binding d v" for sha committable gate_id catalog_digest d v
  by unfold_locales

section \<open>What reaches the kernel\<close>

lemma filter_admission_contract: "admission_filter (filter_admission sha repository gate_id catalog_digest settings_binding)"
proof -
  have none: "admission_filter (\<lambda>a records. Inr a)" by unfold_locales auto
  have repo: "admission_filter (\<lambda>a records. case repository of None \<Rightarrow> Inr a
      | Some committable \<Rightarrow> refuse_executables_inside sha committable a records)"
    using none containment.admission_filter_axioms by (cases repository) simp_all
  have pol: "admission_filter (\<lambda>a records. case (gate_id, catalog_digest) of
      (Some gate, Some catalog) \<Rightarrow> refuse_foreign_policy_context sha gate catalog a records | _ \<Rightarrow> Inr a)"
    using none policy.admission_filter_axioms by (cases gate_id; cases catalog_digest) simp_all
  have set: "admission_filter (\<lambda>a records. case settings_binding of None \<Rightarrow> Inr a
      | Some (digest, version) \<Rightarrow> apply_settings_binding digest version a records)"
    using none settings.admission_filter_axioms by (cases settings_binding) auto
  have chain: "admission_filter (\<lambda>a records. bind (f a records) (\<lambda>b. g b records))"
    if "admission_filter f" "admission_filter g" for f g
    using filter_chain.chain_is_filter [OF filter_chain.intro [OF that]] .
  show ?thesis
    using chain [OF repo chain [OF pol set]] by (simp add: filter_admission_def [abs_def])
qed

interpretation filtered: admission_filter "filter_admission sha repository gate_id catalog_digest settings_binding"
  for sha repository gate_id catalog_digest settings_binding
  by (rule filter_admission_contract)

text \<open>
  C30: The checks between admission and the kernel lose nothing and invent nothing: on an admission
  that files every record they never raise, the result still files every record exactly once, its
  evidence is among the evidence admitted before, every earlier rejection stands, and evidence that
  was taken away is named by a rejection at its position.
\<close>

theorem filters_keep_the_books:
  assumes "accounts_for (length records) a"
  shows "\<exists>b. filter_admission sha repository gate_id catalog_digest settings_binding a records = Inr b \<and>
    accounts_for (length records) b \<and> set (admitted_pairs b) \<subseteq> set (admitted_pairs a) \<and>
    set (ad_rejections a) \<subseteq> set (ad_rejections b) \<and>
    (\<forall>(i, e) \<in> set (admitted_pairs a) - set (admitted_pairs b). \<exists>rj \<in> set (ad_rejections b). rj_index rj = i)"
proof -
  obtain b where b: "filter_admission sha repository gate_id catalog_digest settings_binding a records = Inr b"
    using filtered.total [OF assms] by blast
  then show ?thesis
    using filtered.files [OF assms b] filtered.shrinks [OF assms b] filtered.keeps [OF assms b]
      filtered.refused_is_filed [OF assms b] by blast
qed

lemma policy_refusal_None:
  "policy_refusal r gate catalog = None \<Longrightarrow>
   fld r ''gate_id'' = VStr gate \<and> fld r ''catalog_digest'' = VStr catalog \<and> catalog \<noteq> CATALOG_ABSENT"
  by (auto simp: policy_refusal_def Let_def split: if_splits)

lemma executable_refusal_None:
  "executable_refusal committable e = None \<Longrightarrow>
   starts_with ''/'' (e_executable_path e) \<and> \<not> committable (e_executable_path e)"
  by (auto simp: executable_refusal_def split: if_splits)

lemma filter_admission_checks:
  assumes acc: "accounts_for (length records) a"
    and f: "filter_admission sha repository gate_id catalog_digest settings_binding a records = Inr d"
    and p: "p \<in> set (admitted_pairs d)"
  shows "p \<in> set (admitted_pairs a)"
    "\<And>c. repository = Some c \<Longrightarrow> executable_refusal c (snd p) = None"
    "\<And>gate catalog. gate_id = Some gate \<Longrightarrow> catalog_digest = Some catalog \<Longrightarrow>
       policy_refusal (records ! fst p) gate catalog = None"
    "\<And>digest version. settings_binding = Some (digest, version) \<Longrightarrow>
       settings_match digest version records (fst p)"
proof -
  obtain b c where b: "(case repository of None \<Rightarrow> Inr a
      | Some committable \<Rightarrow> refuse_executables_inside sha committable a records) = Inr b"
    and c: "(case (gate_id, catalog_digest) of
        (Some gate, Some catalog) \<Rightarrow> refuse_foreign_policy_context sha gate catalog b records
      | _ \<Rightarrow> Inr b) = Inr c"
    and d: "(case settings_binding of None \<Rightarrow> Inr c
      | Some (digest, version) \<Rightarrow> apply_settings_binding digest version c records) = Inr d"
    using f by (auto simp: filter_admission_def bind_Inr_iff)
  have accb: "accounts_for (length records) b" and ab: "set (admitted_pairs b) \<subseteq> set (admitted_pairs a)"
    using b acc containment.files containment.shrinks by (auto split: option.splits)
  have accc: "accounts_for (length records) c" and bc: "set (admitted_pairs c) \<subseteq> set (admitted_pairs b)"
    using c accb policy.files policy.shrinks by (auto split: option.splits)
  have cd: "set (admitted_pairs d) \<subseteq> set (admitted_pairs c)"
  proof (cases settings_binding)
    case (Some b)
    then show ?thesis using d settings.shrinks [OF accc] by (cases b) simp
  qed (use d in simp)
  show "p \<in> set (admitted_pairs a)" using p ab bc cd by blast
  show "executable_refusal k (snd p) = None" if "repository = Some k" for k
    using refuse_pairs_spec [OF acc, of sha "\<lambda>p. executable_refusal k (snd p)"] that b p bc cd
    by (auto simp: refuse_executables_inside_def)
  show "policy_refusal (records ! fst p) gate catalog = None"
    if "gate_id = Some gate" "catalog_digest = Some catalog" for gate catalog
    using refuse_pairs_spec [OF accb, of sha "\<lambda>p. policy_refusal (records ! fst p) gate catalog"] that c p cd
    by (auto simp: refuse_foreign_policy_context_def)
  show "settings_match digest version records (fst p)" if "settings_binding = Some (digest, version)" for digest version
    using apply_settings_binding_spec [OF accc, of digest version] that d p by auto
qed

text \<open>
  C5: Evidence that reaches the kernel is bound to the rules it is judged by: it is authentic and
  unaltered, its executable is absolute and outside the repository, it names the gate and the
  catalog being evaluated (never the absent catalog), and its settings binding is the expected one,
  each check whenever its arguments are given.
\<close>

theorem kernel_evidence_bound:
  assumes "admit ed live records keyring = Inr a"
    and "filter_admission sha repository gate_id catalog_digest settings_binding a records = Inr b"
    and "(i, e) \<in> set (admitted_pairs b)"
  shows "i < length records \<and> authentic ed keyring (records ! i) \<and> carries (records ! i) e \<and>
    (\<forall>c. repository = Some c \<longrightarrow> starts_with ''/'' (e_executable_path e) \<and> \<not> c (e_executable_path e)) \<and>
    (\<forall>gate catalog. gate_id = Some gate \<longrightarrow> catalog_digest = Some catalog \<longrightarrow>
       fld (records ! i) ''gate_id'' = VStr gate \<and> fld (records ! i) ''catalog_digest'' = VStr catalog \<and>
       catalog \<noteq> CATALOG_ABSENT) \<and>
    (\<forall>digest version. settings_binding = Some (digest, version) \<longrightarrow>
       fld (records ! i) ''settings_digest'' = VStr digest \<and>
       fld (records ! i) ''settings_schema_version'' = VInt version)"
proof -
  obtain st where st: "settled ed keyring records st" "a = admission_of st"
    using assms(1) by (rule admit_cases)
  have acc: "accounts_for (length records) a" using settled_accounts [OF st(1)] st(2) by simp
  note c = filter_admission_checks [OF acc assms(2,3)]
  have ie: "(i, e) \<in> set (as_evidence st)" using c(1) st(2) by simp
  then have "authentic ed keyring (records ! i)" "carries (records ! i) e"
    using st(1) by (auto simp: settled_def)
  moreover have "i < length records"
    using accounts_forD(5) [OF acc] ie by (force simp: st(2) admission_of_def)
  moreover have "\<forall>c. repository = Some c \<longrightarrow> starts_with ''/'' (e_executable_path e) \<and> \<not> c (e_executable_path e)"
    using executable_refusal_None [OF c(2)] by (cases repository) simp_all
  moreover have "\<forall>gate catalog. gate_id = Some gate \<longrightarrow> catalog_digest = Some catalog \<longrightarrow>
       fld (records ! i) ''gate_id'' = VStr gate \<and> fld (records ! i) ''catalog_digest'' = VStr catalog \<and>
       catalog \<noteq> CATALOG_ABSENT"
    using policy_refusal_None [OF c(3)] by simp
  moreover have "\<forall>digest version. settings_binding = Some (digest, version) \<longrightarrow>
       fld (records ! i) ''settings_digest'' = VStr digest \<and>
       fld (records ! i) ''settings_schema_version'' = VInt version"
    using c(4) \<open>i < length records\<close> by (auto simp: settings_match_def Let_def)
  ultimately show ?thesis by blast
qed

section \<open>Witnesses\<close>

theorem filters_keep_the_books_witness:
  "\<exists>b. filter_admission zero_sha None (Some ''gate'') (Some zero_digest) (Some (zero_digest, 1))
      \<lparr>ad_evidence = [], ad_rejections = [reject 0 VNone MALFORMED_RECORD []], ad_indices = [],
       ad_checkpoint = None, ad_history_verified = False, ad_removed = []\<rparr> [VNone] = Inr b \<and>
    accounts_for (length [VNone]) b \<and>
    set (admitted_pairs b) \<subseteq> set (admitted_pairs \<lparr>ad_evidence = [], ad_rejections = [reject 0 VNone MALFORMED_RECORD []],
       ad_indices = [], ad_checkpoint = None, ad_history_verified = False, ad_removed = []\<rparr>) \<and>
    set (ad_rejections \<lparr>ad_evidence = [], ad_rejections = [reject 0 VNone MALFORMED_RECORD []],
       ad_indices = [], ad_checkpoint = None, ad_history_verified = False, ad_removed = []\<rparr>) \<subseteq> set (ad_rejections b) \<and>
    (\<forall>(i, e) \<in> set (admitted_pairs \<lparr>ad_evidence = [], ad_rejections = [reject 0 VNone MALFORMED_RECORD []],
       ad_indices = [], ad_checkpoint = None, ad_history_verified = False, ad_removed = []\<rparr>) - set (admitted_pairs b).
       \<exists>rj \<in> set (ad_rejections b). rj_index rj = i)"
  by (rule filters_keep_the_books) (simp add: accounts_for_def reject_def)

lemma demo_survives:
  "\<exists>a b. admit toy_ed (Inr VNone) [demo_record] demo_keyring = Inr a \<and>
     filter_admission zero_sha (Some (\<lambda>path. False)) (Some ''gate'') (Some zero_digest) None a [demo_record] = Inr b \<and>
     (0, demo_evidence ''worker'' 0) \<in> set (admitted_pairs b)"
proof -
  let ?e = "demo_evidence ''worker'' 0"
  let ?a = "\<lparr>ad_evidence = [?e], ad_rejections = [], ad_indices = [0], ad_checkpoint = None,
    ad_history_verified = False, ad_removed = []\<rparr>"
  have a: "admit toy_ed (Inr VNone) [demo_record] demo_keyring = Inr ?a"
    using judge_demo(1) by (simp add: admit_def settle_qualifications_def admission_post_init_def)
  have "plain_val demo_record" by code_simp
  then obtain h where h: "canonical_sha256 zero_sha demo_record = Inr h"
    using canonical_json_bytes_plain [of demo_record] by (auto simp: canonical_sha256_def)
  have m: "fields_match demo_record ?e" "is_dict demo_record"
    by (simp_all add: fields_match_def kernel_fields_def demo_record_def sealed_def demo_content_def
        evidence_field_def demo_evidence_def shape_simps QUALIFICATION_CLAIM_def)
  have v: "pairs_valid zero_sha ?a [demo_record]"
    using h m by (simp add: pairs_valid_def open_positions_def Let_def)
  have w: "executable_refusal (\<lambda>path. False) ?e = None" "policy_refusal demo_record ''gate'' zero_digest = None"
    by (simp_all add: executable_refusal_def policy_refusal_def demo_evidence_def demo_record_def sealed_def
        demo_content_def shape_simps CATALOG_ABSENT_def zero_digest_def)
  have "filter_admission zero_sha (Some (\<lambda>path. False)) (Some ''gate'') (Some zero_digest) None ?a [demo_record] = Inr ?a"
    using v w by (simp add: filter_admission_def refuse_executables_inside_def refuse_foreign_policy_context_def
        refuse_pairs_def checked_record_pairs_def refile_def admission_post_init_def)
  with a show ?thesis by (auto simp: admitted_pairs_def)
qed

theorem kernel_evidence_bound_witness:
  "authentic toy_ed demo_keyring demo_record \<and> carries demo_record (demo_evidence ''worker'' 0) \<and>
   starts_with ''/'' (e_executable_path (demo_evidence ''worker'' 0)) \<and>
   fld demo_record ''gate_id'' = VStr ''gate'' \<and> fld demo_record ''catalog_digest'' = VStr zero_digest"
proof -
  obtain a b where ab: "admit toy_ed (Inr VNone) [demo_record] demo_keyring = Inr a"
    "filter_admission zero_sha (Some (\<lambda>path. False)) (Some ''gate'') (Some zero_digest) None a [demo_record] = Inr b"
    "(0, demo_evidence ''worker'' 0) \<in> set (admitted_pairs b)" using demo_survives by blast
  show ?thesis using kernel_evidence_bound [OF ab] by simp
qed

end
