(* ===== verification/Hash_Chain.thy ===== *)
theory Hash_Chain
  imports Json
begin

text \<open>
  Hash chains: each link is the tagged digest of an encoding of the previous link and a record. The
  locale \<open>digest_chain\<close> states what a chain's encoding has to promise, and its lemmas say what a head
  then certifies. The journal, the observation log and the specification lifecycle are such chains.
  The hash function is only assumed not to collide on the inputs that occur.
\<close>

type_synonym 'r encoding = "string \<Rightarrow> 'r \<Rightarrow> bytes result"

definition tagged :: "(bytes \<Rightarrow> bytes) \<Rightarrow> bytes \<Rightarrow> string" where
  "tagged sha b = ''sha256:'' @ hex_bytes (sha b)"

definition chain_link :: "(bytes \<Rightarrow> bytes) \<Rightarrow> 'r encoding \<Rightarrow> string \<Rightarrow> 'r \<Rightarrow> string result" where
  "chain_link sha enc h r = bind (enc h r) (\<lambda>b. Inr (tagged sha b))"

fun chain_head :: "(bytes \<Rightarrow> bytes) \<Rightarrow> 'r encoding \<Rightarrow> string \<Rightarrow> 'r list \<Rightarrow> string result" where
  "chain_head sha enc h [] = Inr h"
| "chain_head sha enc h (r # rs) = bind (chain_link sha enc h r) (\<lambda>l. chain_head sha enc l rs)"

text \<open>The byte strings a chain hashes.\<close>

fun chain_inputs :: "(bytes \<Rightarrow> bytes) \<Rightarrow> 'r encoding \<Rightarrow> string \<Rightarrow> 'r list \<Rightarrow> bytes list" where
  "chain_inputs sha enc h [] = []"
| "chain_inputs sha enc h (r # rs) =
     (case enc h r of Inl _ \<Rightarrow> [] | Inr b \<Rightarrow> b # chain_inputs sha enc (tagged sha b) rs)"

text \<open>No collision among the inputs, and no input whose digest is the chain's start.\<close>

definition collision_free :: "(bytes \<Rightarrow> bytes) \<Rightarrow> string \<Rightarrow> bytes set \<Rightarrow> bool" where
  "collision_free sha g B \<longleftrightarrow> inj_on sha B \<and> (\<forall>b \<in> B. tagged sha b \<noteq> g)"

lemma tagged_inject [simp]: "tagged sha a = tagged sha b \<longleftrightarrow> sha a = sha b"
  by (simp add: tagged_def)

lemma chain_head_append:
  "chain_head sha enc h (rs @ [r]) = bind (chain_head sha enc h rs) (\<lambda>l. chain_link sha enc l r)"
  by (induction rs arbitrary: h) (auto simp: bind_def split: sum.splits)

lemma chain_inputs_append:
  "chain_head sha enc h rs = Inr l \<Longrightarrow> chain_inputs sha enc h (rs @ ss) =
     chain_inputs sha enc h rs @ chain_inputs sha enc l ss"
  by (induction rs arbitrary: h) (auto simp: chain_link_def bind_Inr_iff split: sum.splits)

lemma chain_inputs_snoc:
  "chain_head sha enc h rs = Inr l \<Longrightarrow> enc l r = Inr b \<Longrightarrow>
   chain_inputs sha enc h (rs @ [r]) = chain_inputs sha enc h rs @ [b]"
  by (simp add: chain_inputs_append)

lemma collision_free_subset: "collision_free sha g B \<Longrightarrow> A \<subseteq> B \<Longrightarrow> collision_free sha g A"
  unfolding collision_free_def by (blast intro: inj_on_subset)

lemma collision_freeD:
  "collision_free sha g B \<Longrightarrow> b \<in> B \<Longrightarrow> tagged sha b \<noteq> g"
  "collision_free sha g B \<Longrightarrow> b \<in> B \<Longrightarrow> c \<in> B \<Longrightarrow> sha b = sha c \<Longrightarrow> b = c"
  unfolding collision_free_def by (blast dest: inj_onD)+

lemma chain_head_take:
  assumes "chain_head sha enc h rs = Inr l"
  shows "\<exists>m. chain_head sha enc h (take k rs) = Inr m"
  using assms
proof (induction rs arbitrary: h k)
  case (Cons r rs)
  then show ?case by (cases k) (auto simp: bind_Inr_iff)
qed simp

locale digest_chain =
  fixes enc :: "'r encoding" and norm :: "'r \<Rightarrow> 'r" and good :: "'r \<Rightarrow> bool"
  assumes enc_inject: "good r \<Longrightarrow> good s \<Longrightarrow> enc h r = Inr b \<Longrightarrow> enc k s = Inr b \<Longrightarrow> h = k \<and> norm r = norm s"
begin

text \<open>A head certifies the whole chain behind it.\<close>

lemma head_determines:
  assumes "chain_head sha enc g rs = Inr h" "chain_head sha enc g ss = Inr h"
    and "collision_free sha g (set (chain_inputs sha enc g rs) \<union> set (chain_inputs sha enc g ss))"
    and "list_all good rs" "list_all good ss"
  shows "map norm rs = map norm ss"
  using assms
proof (induction rs arbitrary: ss h rule: rev_induct)
  case Nil
  show ?case
  proof (cases ss rule: rev_cases)
    case (snoc ys y)
    then obtain l b where "chain_head sha enc g ys = Inr l" "enc l y = Inr b" "tagged sha b = g"
      using Nil.prems by (auto simp: chain_head_append bind_Inr_iff chain_link_def)
    then show ?thesis
      using collision_freeD(1) [OF Nil.prems(3), of b] by (simp add: snoc chain_inputs_snoc)
  qed simp
next
  case (snoc x xs)
  obtain l b where x: "chain_head sha enc g xs = Inr l" "enc l x = Inr b" "h = tagged sha b"
    using snoc.prems(1) by (auto simp: chain_head_append bind_Inr_iff chain_link_def)
  show ?case
  proof (cases ss rule: rev_cases)
    case Nil
    then show ?thesis
      using collision_freeD(1) [OF snoc.prems(3), of b] snoc.prems(2) x(3)
      by (simp add: chain_inputs_snoc [OF x(1,2)])
  next
    case ss: (snoc ys y)
    obtain m c where y: "chain_head sha enc g ys = Inr m" "enc m y = Inr c" "h = tagged sha c"
      using snoc.prems(2) by (auto simp: ss chain_head_append bind_Inr_iff chain_link_def)
    note inputs = chain_inputs_snoc [OF x(1,2)] chain_inputs_snoc [OF y(1,2)]
    have cf: "collision_free sha g (set (chain_inputs sha enc g xs) \<union> set (chain_inputs sha enc g ys))"
      by (rule collision_free_subset [OF snoc.prems(3)]) (auto simp: ss inputs)
    have "sha b = sha c" using x(3) y(3) by simp
    then have "b = c" using collision_freeD(2) [OF snoc.prems(3), of b c] by (simp add: ss inputs)
    with x y have "l = m \<and> norm x = norm y"
      using enc_inject [of x y l b m] snoc.prems(4,5) by (simp add: ss)
    then show ?thesis
      using snoc.IH [of l ys] x(1) y(1) cf snoc.prems(4,5) by (simp add: ss)
  qed
qed

text \<open>A head met on the way certifies the chain up to there: a later chain extends the earlier one.\<close>

lemma retained_head_prefix:
  assumes "chain_head sha enc g rs = Inr h" "chain_head sha enc g ss = Inr m"
    and "chain_head sha enc g (take k ss) = Inr h"
    and "collision_free sha g (set (chain_inputs sha enc g rs) \<union> set (chain_inputs sha enc g ss))"
    and "list_all good rs" "list_all good ss"
  shows "map norm rs = take (length rs) (map norm ss)"
proof -
  have "set (chain_inputs sha enc g (take k ss)) \<subseteq> set (chain_inputs sha enc g ss)"
    using chain_inputs_append [OF assms(3), of "drop k ss"] by auto
  then have "collision_free sha g (set (chain_inputs sha enc g rs) \<union> set (chain_inputs sha enc g (take k ss)))"
    by (intro collision_free_subset [OF assms(4)]) auto
  moreover have "list_all good (take k ss)" using assms(6) by (auto simp: list_all_iff dest: in_set_takeD)
  ultimately have eq: "map norm rs = map norm (take k ss)"
    using head_determines assms(1,3,5) by blast
  then have "length rs = min (length ss) k" by (metis length_map length_take)
  then have "take (length rs) (map norm ss) = take k (map norm ss)" by (simp add: min_def)
  then show ?thesis using eq by (simp add: take_map)
qed

end

section \<open>Linking JSON records\<close>

text \<open>The object \<open>{"prev_link": ..., "record": ...}\<close> both logs hash.\<close>

definition linked :: "string \<Rightarrow> pyval \<Rightarrow> pyval" where
  "linked prev_link r = VDict [(''prev_link'', VStr prev_link), (''record'', r)]"

definition record_encoding :: "pyval encoding" where
  "record_encoding prev_link r = canonical_json_bytes (linked prev_link r)"

definition plain_record :: "pyval \<Rightarrow> bool" where
  "plain_record r \<longleftrightarrow> no_float r \<and> wf_val r"

lemma record_encoding_inject:
  assumes "plain_record r" "plain_record s" "record_encoding h r = Inr b" "record_encoding k s = Inr b"
  shows "h = k \<and> sort_keys r = sort_keys s"
proof -
  have "canonical_json (linked h r) = Inr b" "canonical_json (linked k s) = Inr b"
    using assms(3,4) by (simp_all add: record_encoding_def canonical_json_bytes_Inr)
  moreover have "no_float (linked h r)" "wf_val (linked h r)" "no_float (linked k s)" "wf_val (linked k s)"
    using assms(1,2) by (simp_all add: linked_def plain_record_def)
  ultimately have "sort_keys (linked h r) = sort_keys (linked k s)"
    by (metis json_loads_canonical sum.inject(2))
  then show ?thesis by (simp add: linked_def)
qed

interpretation records: digest_chain record_encoding sort_keys plain_record
  by unfold_locales (rule record_encoding_inject)

lemma record_link: "chain_link sha record_encoding h r = sha256_text sha (linked h r)"
  by (simp add: chain_link_def record_encoding_def sha256_text_def canonical_sha256_def tagged_def bind_def
      split: sum.splits)

lemma linked_sort_keys: "sha256_text sha (linked h (sort_keys r)) = sha256_text sha (linked h r)"
proof -
  have "sort_keys (linked h (sort_keys r)) = sort_keys (linked h r)" by (simp add: linked_def)
  then show ?thesis by (metis sha256_text_sort_keys)
qed

lemma chain_head_sort_keys:
  "chain_head sha record_encoding h (map sort_keys rs) = chain_head sha record_encoding h rs"
  by (induction rs arbitrary: h) (simp_all add: record_link linked_sort_keys)

lemma pad_sha_not_zero:
  assumes "record_encoding h r = Inr b"
  shows "tagged pad_sha b \<noteq> ''sha256:'' @ replicate 64 (CHR ''0'')"
proof -
  obtain s where "b = CHR 0x7B # s"
    using canonical_object_bytes assms by (auto simp: record_encoding_def linked_def)
  then have "\<exists>t. pad_sha b = CHR 0x7B # t" by (simp add: pad_sha_def)
  then have "hd (hex_bytes (pad_sha b)) = char_of (55 :: nat)"
    by (auto simp: hex_bytes_def hex2_def hex_char_def Let_def)
  moreover have "hd (replicate 64 (CHR ''0'')) = CHR ''0''" "char_of (55 :: nat) \<noteq> CHR ''0''"
    by (simp_all add: char_of_def)
  ultimately show ?thesis unfolding tagged_def by auto
qed

end
