(* ===== verification/Journal.thy ===== *)
theory Journal
  imports Hash_Chain Gate_Verdict
begin

text \<open>
  The append-only evaluation journal (\<^verbatim>\<open>src/src/ranex/governed_execution/adapters/persistence/sqlite/journal.py\<close>).
  The SQLite table is the list of its rows in \<open>seq\<close> order together with the AUTOINCREMENT counter;
  each method is one transaction on it. Shown: appending keeps a verified chain verified and keeps
  every earlier row, and two journals that verify against the same retained head hold the same records.
  That interleaved calls behave like these transactions is shown in \<open>Journal_Writers\<close>.
\<close>

section \<open>The module\<close>

definition GENESIS :: string where
  "GENESIS = ''sha256:'' @ replicate 64 (CHR ''0'')"

record row =
  rw_seq :: nat
  rw_record :: string
  rw_prev_link :: string
  rw_link :: string

record journal =
  jn_rows :: "row list"
  jn_counter :: nat

record journal_append =
  ja_position :: nat
  ja_previous_head :: string
  ja_head :: string

definition empty_journal :: journal where
  "empty_journal = \<lparr>jn_rows = [], jn_counter = 0\<rparr>"

text \<open>\<open>SELECT link ... ORDER BY seq DESC LIMIT 1\<close>.\<close>

definition head :: "journal \<Rightarrow> string option" where
  "head j = (if jn_rows j = [] then None else Some (rw_link (last (jn_rows j))))"

definition head_or_genesis :: "journal \<Rightarrow> string" where
  "head_or_genesis j = (case head j of None \<Rightarrow> GENESIS | Some l \<Rightarrow> l)"

definition insert_row :: "journal \<Rightarrow> string \<Rightarrow> string \<Rightarrow> string \<Rightarrow> journal" where
  "insert_row j payload prev_link link =
     \<lparr>jn_rows = jn_rows j @ [\<lparr>rw_seq = Suc (jn_counter j), rw_record = payload, rw_prev_link = prev_link,
        rw_link = link\<rparr>], jn_counter = Suc (jn_counter j)\<rparr>"

definition append_record :: "(bytes \<Rightarrow> bytes) \<Rightarrow> journal \<Rightarrow> pyval \<Rightarrow> (string \<times> journal) result" where
  "append_record sha j r =
     bind (canonical_json r) (\<lambda>payload.
     let prev_link = head_or_genesis j in
     bind (sha256_text sha (linked prev_link r)) (\<lambda>link.
     Inr (link, insert_row j payload prev_link link)))"

definition journal_append_evaluation :: "(bytes \<Rightarrow> bytes) \<Rightarrow> journal \<Rightarrow> evaluation \<Rightarrow> (string \<times> journal) result" where
  "journal_append_evaluation sha j e = append_record sha j (as_record e)"

definition append_record_if_head ::
  "(bytes \<Rightarrow> bytes) \<Rightarrow> journal \<Rightarrow> string option \<Rightarrow> pyval \<Rightarrow> (journal_append \<times> journal) result" where
  "append_record_if_head sha j expected_head r =
     bind (canonical_json r) (\<lambda>payload.
     let actual_head = head j in
     ensure (actual_head = expected_head)
       (ValueError (''E-BATCH-STALE-BASE: journal head changed (expected '' @ py_repr (opt_str expected_head) @
          '', observed '' @ py_repr (opt_str actual_head) @ '')'')) (
     let prev_link = head_or_genesis j in
     bind (sha256_text sha (linked prev_link r)) (\<lambda>link.
     let j' = insert_row j payload prev_link link in
     Inr (\<lparr>ja_position = jn_counter j', ja_previous_head = prev_link, ja_head = link\<rparr>, j'))))"

definition entries :: "journal \<Rightarrow> pyval list result" where
  "entries j = map_result (\<lambda>w. json_loads (rw_record w)) (jn_rows j)"

text \<open>The loop of \<open>verify\<close>: the link after the rows, or nothing when one of them is inconsistent.\<close>

fun verify_rows :: "(bytes \<Rightarrow> bytes) \<Rightarrow> string \<Rightarrow> row list \<Rightarrow> string option" where
  "verify_rows sha prev_link [] = Some prev_link"
| "verify_rows sha prev_link (w # ws) =
     (if rw_prev_link w \<noteq> prev_link then None
      else
        (case bind (json_loads (rw_record w)) (\<lambda>r. sha256_text sha (linked prev_link r)) of
           Inl _ \<Rightarrow> None
         | Inr expected \<Rightarrow> if expected \<noteq> rw_link w then None else verify_rows sha (rw_link w) ws))"

definition verify :: "(bytes \<Rightarrow> bytes) \<Rightarrow> journal \<Rightarrow> string option \<Rightarrow> bool" where
  "verify sha j expected_head =
     (case verify_rows sha GENESIS (jn_rows j) of
        None \<Rightarrow> False
      | Some l \<Rightarrow> expected_head = None \<or> expected_head = Some l)"

section \<open>What verification means\<close>

lemma verify_rows_append:
  "verify_rows sha h (ws @ vs) = (case verify_rows sha h ws of None \<Rightarrow> None | Some l \<Rightarrow> verify_rows sha l vs)"
  by (induction ws arbitrary: h) (auto split: sum.splits)

lemma verify_rows_link: "verify_rows sha h ws = Some l \<Longrightarrow> ws \<noteq> [] \<Longrightarrow> l = rw_link (last ws)"
proof (induction ws arbitrary: h)
  case (Cons w ws)
  from Cons.prems(1) have v: "verify_rows sha (rw_link w) ws = Some l"
    by (simp split: sum.splits if_splits)
  show ?case
  proof (cases "ws = []")
    case True
    with v show ?thesis by simp
  next
    case False
    with Cons.IH [OF v] show ?thesis by simp
  qed
qed simp

lemma verify_rows_chain:
  "verify_rows sha h ws = Some l \<Longrightarrow>
   \<exists>rs. map_result (\<lambda>w. json_loads (rw_record w)) ws = Inr rs \<and> chain_head sha record_encoding h rs = Inr l"
proof (induction ws arbitrary: h)
  case (Cons w ws)
  then obtain r where r: "json_loads (rw_record w) = Inr r" "sha256_text sha (linked h r) = Inr (rw_link w)"
    "verify_rows sha (rw_link w) ws = Some l"
    by (auto simp: bind_Inr_iff split: sum.splits if_splits)
  from Cons.IH [OF r(3)] show ?case using r by (auto simp: map_result.simps record_link)
qed (simp add: map_result.simps)

lemma verify_head: "verify sha j e \<Longrightarrow> verify_rows sha GENESIS (jn_rows j) = Some (head_or_genesis j)"
  using verify_rows_link by (auto simp: verify_def head_or_genesis_def head_def split: option.splits if_splits)

lemma verify_chain:
  assumes "verify sha j e"
  shows "\<exists>rs. entries j = Inr rs \<and> chain_head sha record_encoding GENESIS rs = Inr (head_or_genesis j)"
  using verify_rows_chain [OF verify_head [OF assms]] by (auto simp: entries_def)

lemma verify_expected: "verify sha j e \<longleftrightarrow> verify sha j None \<and> (e = None \<or> e = Some (head_or_genesis j))"
proof (cases "verify_rows sha GENESIS (jn_rows j)")
  case None
  then show ?thesis by (simp add: verify_def)
next
  case (Some l)
  then have "verify sha j None" by (simp add: verify_def)
  with Some have "l = head_or_genesis j" using verify_head by fastforce
  with Some show ?thesis by (simp add: verify_def)
qed

section \<open>Appending\<close>

lemma appended_row_verifies:
  assumes "plain_record r" "canonical_json r = Inr payload"
    and "sha256_text sha (linked prev_link r) = Inr link"
  shows "verify_rows sha prev_link
    [\<lparr>rw_seq = n, rw_record = payload, rw_prev_link = prev_link, rw_link = link\<rparr>] = Some link"
proof -
  have "json_loads payload = Inr (sort_keys r)"
    using assms(1,2) json_loads_canonical by (simp add: plain_record_def)
  then show ?thesis using assms(3) by (simp add: linked_sort_keys)
qed

lemma insert_row_verifies:
  assumes "verify sha j None" "plain_record r" "canonical_json r = Inr payload"
    and "sha256_text sha (linked (head_or_genesis j) r) = Inr link"
  shows "verify sha (insert_row j payload (head_or_genesis j) link) None"
  using appended_row_verifies [OF assms(2-4)] verify_head [OF assms(1)]
  by (simp add: verify_def insert_row_def verify_rows_append del: verify_rows.simps)

lemma head_insert_row [simp]: "head (insert_row j payload prev_link link) = Some link"
  by (simp add: insert_row_def head_def)

lemma append_record_Inr:
  "append_record sha j r = Inr (link, j') \<longleftrightarrow>
     (\<exists>payload. canonical_json r = Inr payload \<and> sha256_text sha (linked (head_or_genesis j) r) = Inr link \<and>
        j' = insert_row j payload (head_or_genesis j) link)"
  by (auto simp: append_record_def Let_def bind_Inr_iff)

lemma append_record_if_head_Inr:
  "append_record_if_head sha j e r = Inr (a, j') \<longleftrightarrow>
     e = head j \<and> append_record sha j r = Inr (ja_head a, j') \<and>
     a = \<lparr>ja_position = Suc (jn_counter j), ja_previous_head = head_or_genesis j, ja_head = ja_head a\<rparr>"
  by (auto simp: append_record_if_head_def append_record_def Let_def bind_Inr_iff insert_row_def)

lemma entries_append:
  assumes "append_record sha j r = Inr (link, j')" "entries j = Inr rs" "plain_record r"
  shows "entries j' = Inr (rs @ [sort_keys r])"
proof -
  obtain payload where p: "canonical_json r = Inr payload" "j' = insert_row j payload (head_or_genesis j) link"
    using assms(1) append_record_Inr by blast
  have "json_loads payload = Inr (sort_keys r)"
    using p(1) assms(3) json_loads_canonical by (simp add: plain_record_def)
  then show ?thesis
    using assms(2) p(2) unfolding entries_def map_result_Inr_iff insert_row_def
    by (simp add: list_all2_appendI)
qed

text \<open>
  Appending a record to a journal that verifies gives a journal that verifies against the link
  that was returned, whose earlier rows are untouched and whose entries are the earlier entries
  followed by the record, its keys sorted.
\<close>

lemma append_extends_verified_journal:
  assumes "verify sha j None" and "plain_record r" and "append_record sha j r = Inr (link, j')"
  shows "verify sha j' (Some link) \<and> head j' = Some link \<and>
    (\<exists>w. jn_rows j' = jn_rows j @ [w] \<and> rw_seq w = Suc (jn_counter j)) \<and>
    (\<forall>rs. entries j = Inr rs \<longrightarrow> entries j' = Inr (rs @ [sort_keys r]))"
proof -
  obtain payload where p: "canonical_json r = Inr payload"
    "sha256_text sha (linked (head_or_genesis j) r) = Inr link"
    "j' = insert_row j payload (head_or_genesis j) link"
    using assms(3) append_record_Inr by blast
  have "verify sha j' None" unfolding p(3) by (rule insert_row_verifies [OF assms(1,2) p(1,2)])
  moreover have "head j' = Some link" by (simp add: p(3))
  ultimately have "verify sha j' (Some link)"
    by (subst verify_expected) (simp add: head_or_genesis_def)
  then show ?thesis
    using \<open>head j' = Some link\<close> entries_append [OF assms(3) _ assms(2)] by (auto simp: p(3) insert_row_def)
qed

section \<open>Journals that the code can reach\<close>

text \<open>One completed transaction; a transaction that raises leaves the table alone.\<close>

inductive journal_step :: "(bytes \<Rightarrow> bytes) \<Rightarrow> journal \<Rightarrow> journal \<Rightarrow> bool" for sha where
  step_append: "plain_record r \<Longrightarrow> append_record sha j r = Inr (link, j') \<Longrightarrow> journal_step sha j j'"
| step_cas: "plain_record r \<Longrightarrow> append_record_if_head sha j e r = Inr (a, j') \<Longrightarrow> journal_step sha j j'"

inductive_cases journal_stepE: "journal_step sha j j'"

inductive reachable_journal :: "(bytes \<Rightarrow> bytes) \<Rightarrow> journal \<Rightarrow> bool" for sha where
  reach_empty: "reachable_journal sha empty_journal"
| reach_step: "reachable_journal sha j \<Longrightarrow> journal_step sha j j' \<Longrightarrow> reachable_journal sha j'"

lemma journal_step_append:
  "journal_step sha j j' \<Longrightarrow> \<exists>r link. plain_record r \<and> append_record sha j r = Inr (link, j')"
  by (auto elim!: journal_stepE simp: append_record_if_head_Inr)

lemma step_verifies: "journal_step sha j j' \<Longrightarrow> verify sha j None \<Longrightarrow> verify sha j' None"
  by (drule journal_step_append) (auto simp: append_record_Inr insert_row_verifies)

definition journal_inv :: "(bytes \<Rightarrow> bytes) \<Rightarrow> journal \<Rightarrow> bool" where
  "journal_inv sha j \<longleftrightarrow> verify sha j None \<and> map rw_seq (jn_rows j) = [1..<Suc (length (jn_rows j))] \<and>
     jn_counter j = length (jn_rows j)"

lemma journal_inv_step: "journal_inv sha j \<Longrightarrow> journal_step sha j j' \<Longrightarrow> journal_inv sha j'"
  using step_verifies [of sha j j'] journal_step_append [of sha j j']
  by (auto simp: journal_inv_def append_record_Inr insert_row_def)

text \<open>
  C13: Every journal the code can produce, by any sequence of appends and compare-and-swap appends,
  verifies; its rows are numbered 1, 2, 3, ... without a gap; and a further transaction keeps all
  rows it had.
\<close>

theorem reachable_journal_verifies:
  assumes "reachable_journal sha j"
  shows "verify sha j None \<and> map rw_seq (jn_rows j) = [1..<Suc (length (jn_rows j))] \<and>
    (\<forall>j'. journal_step sha j j' \<longrightarrow> (\<exists>w. jn_rows j' = jn_rows j @ [w]))"
proof -
  have "journal_inv sha j"
    using assms
  proof induction
    case reach_empty
    then show ?case by (simp add: journal_inv_def empty_journal_def verify_def)
  next
    case (reach_step j j')
    then show ?case by (blast intro: journal_inv_step)
  qed
  moreover have "\<exists>w. jn_rows j' = jn_rows j @ [w]" if "journal_step sha j j'" for j'
    using journal_step_append [OF that] by (auto simp: append_record_Inr insert_row_def)
  ultimately show ?thesis by (simp add: journal_inv_def)
qed

section \<open>Tamper evidence\<close>

text \<open>
  C12: A retained head certifies the journal: two journals that verify against the same head hold the
  same records, up to key order, whatever happened to the database file in between, as long as the
  hash does not collide on the bytes that were linked.
\<close>

theorem retained_head_certifies:
  assumes "verify sha j (Some h)" and "verify sha k (Some h)"
    and "entries j = Inr rs" and "entries k = Inr ss"
    and "collision_free sha GENESIS (set (chain_inputs sha record_encoding GENESIS rs) \<union>
           set (chain_inputs sha record_encoding GENESIS ss))"
    and "list_all plain_record rs" and "list_all plain_record ss"
  shows "map sort_keys rs = map sort_keys ss"
proof (rule records.head_determines [OF _ _ assms(5-7)])
  have "head_or_genesis j = h" "head_or_genesis k = h"
    using verify_expected [of sha j "Some h"] verify_expected [of sha k "Some h"] assms(1,2) by simp_all
  then show "chain_head sha record_encoding GENESIS rs = Inr h" "chain_head sha record_encoding GENESIS ss = Inr h"
    using verify_chain [OF assms(1)] verify_chain [OF assms(2)] assms(3,4) by simp_all
qed

section \<open>Witnesses\<close>

definition demo_entry :: pyval where
  "demo_entry = VDict [(''b'', VInt 1), (''a'', VNone)]"

lemma demo_entry_plain: "plain_record demo_entry" "plain_record (sort_keys demo_entry)"
  by (simp_all add: demo_entry_def plain_record_def)

lemma demo_appends:
  assumes "head_or_genesis j = GENESIS" "r = demo_entry \<or> r = sort_keys demo_entry"
  shows "\<exists>link j'. append_record pad_sha j r = Inr (link, j')"
proof -
  have "plain_val (linked (head_or_genesis j) r)"
    using assms by (auto simp: linked_def demo_entry_def GENESIS_def list_all_iff)
  then obtain b where "canonical_json_bytes (linked (head_or_genesis j) r) = Inr b"
    using canonical_json_bytes_plain by blast
  moreover have "finite_val r" using assms(2) by (auto simp: demo_entry_def)
  ultimately show ?thesis
    by (auto simp: append_record_def Let_def sha256_text_def canonical_sha256_def canonical_json_def)
qed

lemma demo_journal:
  obtains link j where "append_record pad_sha empty_journal demo_entry = Inr (link, j)"
    "verify pad_sha j (Some link)" "entries j = Inr [sort_keys demo_entry]"
proof -
  have e: "head_or_genesis empty_journal = GENESIS" "verify pad_sha empty_journal None" "entries empty_journal = Inr []"
    by (simp_all add: head_or_genesis_def head_def empty_journal_def verify_def entries_def map_result.simps)
  obtain link j where a: "append_record pad_sha empty_journal demo_entry = Inr (link, j)"
    using demo_appends [OF e(1)] by blast
  moreover have "verify pad_sha j None"
    using step_verifies [OF step_append [OF demo_entry_plain(1) a] e(2)] .
  then have "verify pad_sha j (Some link)"
    using a by (subst verify_expected) (auto simp: append_record_Inr head_or_genesis_def)
  moreover have "entries j = Inr [sort_keys demo_entry]"
    using entries_append [OF a e(3) demo_entry_plain(1)] by simp
  ultimately show thesis by (rule that)
qed

theorem reachable_journal_verifies_witness:
  "\<exists>link j. append_record pad_sha empty_journal demo_entry = Inr (link, j) \<and>
    (verify pad_sha j None \<and> map rw_seq (jn_rows j) = [1..<Suc (length (jn_rows j))] \<and>
     (\<forall>j'. journal_step pad_sha j j' \<longrightarrow> (\<exists>w. jn_rows j' = jn_rows j @ [w])))"
proof -
  obtain link j where a: "append_record pad_sha empty_journal demo_entry = Inr (link, j)" by (rule demo_journal)
  have "reachable_journal pad_sha j"
    by (rule reach_step [OF reach_empty step_append [OF demo_entry_plain(1) a]])
  from reachable_journal_verifies [OF this] a show ?thesis by blast
qed

lemma demo_inputs_free:
  "collision_free pad_sha GENESIS (set (chain_inputs pad_sha record_encoding GENESIS [r]))"
proof (cases "record_encoding GENESIS r")
  case (Inr b)
  then show ?thesis
    using pad_sha_not_zero [OF Inr] unfolding GENESIS_def [symmetric] by (simp add: collision_free_def)
qed (simp add: collision_free_def)

theorem retained_head_certifies_witness:
  "\<exists>h j. verify pad_sha j (Some h) \<and> entries j = Inr [sort_keys demo_entry] \<and>
     map sort_keys [sort_keys demo_entry] = map sort_keys [sort_keys demo_entry]"
proof -
  obtain h j where j: "verify pad_sha j (Some h)" "entries j = Inr [sort_keys demo_entry]"
    by (rule demo_journal)
  have "map sort_keys [sort_keys demo_entry] = map sort_keys [sort_keys demo_entry]"
    by (rule retained_head_certifies [OF j(1,1,2,2)])
      (use demo_inputs_free demo_entry_plain in \<open>simp_all del: chain_inputs.simps\<close>)
  with j show ?thesis by blast
qed

end
