(* ===== verification/Journal_Writers.thy ===== *)
theory Journal_Writers
  imports Journal
begin

text \<open>
  Concurrent writers of one journal file: the bodies of \<open>append_record\<close> and \<open>append_record_if_head\<close> of
  \<^verbatim>\<open>src/src/ranex/governed_execution/adapters/persistence/sqlite/journal.py\<close>, one SQL statement per step.
  The database is the committed table and the write transaction that is open, with its working copy;
  writers are numbered, and a step of the system is a step of any of them, a lock timeout, or a process
  that dies. Shown: every interleaving has the effect of whole transactions, one after the other, and of the
  writers that expect the same head at most one succeeds.
\<close>

section \<open>The database\<close>

record database =
  db_table :: journal
  db_writer :: "(nat \<times> journal) option"

text \<open>What a connection reads: its own uncommitted rows, otherwise the committed table.\<close>

definition sql_view :: "nat \<Rightarrow> database \<Rightarrow> journal" where
  "sql_view w db =
     (case db_writer db of None \<Rightarrow> db_table db | Some (v, j) \<Rightarrow> if v = w then j else db_table db)"

text \<open>\<^verbatim>\<open>BEGIN IMMEDIATE\<close>; without a result the caller waits for the write lock.\<close>

definition begin_immediate :: "nat \<Rightarrow> database \<Rightarrow> database option" where
  "begin_immediate w db = (if db_writer db = None then Some (db\<lparr>db_writer := Some (w, db_table db)\<rparr>) else None)"

text \<open>\<^verbatim>\<open>SELECT link ... ORDER BY seq DESC LIMIT 1\<close>.\<close>

definition select_link :: "nat \<Rightarrow> database \<Rightarrow> string option" where
  "select_link w db = head (sql_view w db)"

text \<open>\<^verbatim>\<open>INSERT\<close> with the row ID it reports; outside a transaction it commits by itself.\<close>

definition insert_values :: "nat \<Rightarrow> string \<Rightarrow> string \<Rightarrow> string \<Rightarrow> database \<Rightarrow> (nat \<times> database) option" where
  "insert_values w payload prev_link link db =
     (let j = insert_row (sql_view w db) payload prev_link link in
      case db_writer db of
        None \<Rightarrow> Some (jn_counter j, db\<lparr>db_table := j\<rparr>)
      | Some (v, _) \<Rightarrow> if v = w then Some (jn_counter j, db\<lparr>db_writer := Some (w, j)\<rparr>) else None)"

definition commit :: "nat \<Rightarrow> database \<Rightarrow> database" where
  "commit w db =
     (case db_writer db of
        None \<Rightarrow> db
      | Some (v, j) \<Rightarrow> if v = w then \<lparr>db_table = j, db_writer = None\<rparr> else db)"

definition rollback :: "nat \<Rightarrow> database \<Rightarrow> database" where
  "rollback w db =
     (case db_writer db of
        None \<Rightarrow> db
      | Some (v, _) \<Rightarrow> if v = w then db\<lparr>db_writer := None\<rparr> else db)"

section \<open>The writers\<close>

datatype job = Append_Record pyval | Append_If_Head "string option" pyval

fun job_record :: "job \<Rightarrow> pyval" where
  "job_record (Append_Record r) = r"
| "job_record (Append_If_Head _ r) = r"

datatype answer = Link string | Appended journal_append

fun answer_of :: "job \<Rightarrow> nat \<Rightarrow> string \<Rightarrow> string \<Rightarrow> answer" where
  "answer_of (Append_Record _) rowid prev_link link = Link link"
| "answer_of (Append_If_Head _ _) rowid prev_link link =
     Appended \<lparr>ja_position = rowid, ja_previous_head = prev_link, ja_head = link\<rparr>"

text \<open>The comparison, which only \<open>append_record_if_head\<close> makes.\<close>

fun head_check :: "job \<Rightarrow> string option \<Rightarrow> exn option" where
  "head_check (Append_Record _) actual_head = None"
| "head_check (Append_If_Head expected_head _) actual_head =
     (if actual_head \<noteq> expected_head
      then Some (ValueError (''E-BATCH-STALE-BASE: journal head changed (expected '' @ py_repr (opt_str expected_head) @
          '', observed '' @ py_repr (opt_str actual_head) @ '')''))
      else None)"

text \<open>
  Where a call stands: the record is encoded, the transaction is open, the last link has been read, the row
  is inserted, the transaction is committed, the caller has its answer. An exception rolls back.
\<close>

datatype writer_phase =
    Called
  | Encoded string
  | Begun string
  | Selected string "string option"
  | Inserted answer
  | Committed answer
  | Returned answer
  | Raised exn
  | Timed_Out
  | Killed

definition insert_statement ::
  "(bytes \<Rightarrow> bytes) \<Rightarrow> job \<Rightarrow> nat \<Rightarrow> string \<Rightarrow> string option \<Rightarrow> database \<Rightarrow> (writer_phase \<times> database) option" where
  "insert_statement sha jb w payload actual_head db =
     (let prev_link = (case actual_head of None \<Rightarrow> GENESIS | Some l \<Rightarrow> l) in
      case sha256_text sha (linked prev_link (job_record jb)) of
        Inl e \<Rightarrow> Some (Raised e, rollback w db)
      | Inr link \<Rightarrow>
          (case insert_values w payload prev_link link db of
             None \<Rightarrow> None
           | Some (rowid, db') \<Rightarrow> Some (Inserted (answer_of jb rowid prev_link link), db')))"

fun writer_step ::
  "(bytes \<Rightarrow> bytes) \<Rightarrow> job \<Rightarrow> nat \<Rightarrow> writer_phase \<Rightarrow> database \<Rightarrow> (writer_phase \<times> database) option" where
  "writer_step sha jb w Called db =
     Some (case canonical_json (job_record jb) of Inl e \<Rightarrow> Raised e | Inr payload \<Rightarrow> Encoded payload, db)"
| "writer_step sha jb w (Encoded payload) db =
     (case begin_immediate w db of None \<Rightarrow> None | Some db' \<Rightarrow> Some (Begun payload, db'))"
| "writer_step sha jb w (Begun payload) db = Some (Selected payload (select_link w db), db)"
| "writer_step sha jb w (Selected payload actual_head) db =
     (case head_check jb actual_head of
        Some e \<Rightarrow> Some (Raised e, rollback w db)
      | None \<Rightarrow> insert_statement sha jb w payload actual_head db)"
| "writer_step sha jb w (Inserted a) db = Some (Committed a, commit w db)"
| "writer_step sha jb w (Committed a) db = Some (Returned a, db)"
| "writer_step sha jb w _ db = None"

record system =
  sy_db :: database
  sy_phase :: "nat \<Rightarrow> writer_phase"

definition over :: "writer_phase \<Rightarrow> bool" where
  "over p \<longleftrightarrow> (case p of Returned _ \<Rightarrow> True | Raised _ \<Rightarrow> True | Timed_Out \<Rightarrow> True | Killed \<Rightarrow> True | _ \<Rightarrow> False)"

inductive system_step :: "(bytes \<Rightarrow> bytes) \<Rightarrow> (nat \<Rightarrow> job) \<Rightarrow> system \<Rightarrow> system \<Rightarrow> bool" for sha jobs where
  writer_runs: "system_step sha jobs s \<lparr>sy_db = db, sy_phase = (sy_phase s)(w := p)\<rparr>"
    if "writer_step sha (jobs w) w (sy_phase s w) (sy_db s) = Some (p, db)"
| lock_times_out: "system_step sha jobs s \<lparr>sy_db = sy_db s, sy_phase = (sy_phase s)(w := Timed_Out)\<rparr>"
    if "sy_phase s w = Encoded payload" "begin_immediate w (sy_db s) = None"
| writer_dies: "system_step sha jobs s \<lparr>sy_db = rollback w (sy_db s), sy_phase = (sy_phase s)(w := Killed)\<rparr>"
    if "\<not> over (sy_phase s w)"

inductive reachable_system :: "(bytes \<Rightarrow> bytes) \<Rightarrow> (nat \<Rightarrow> job) \<Rightarrow> journal \<Rightarrow> system \<Rightarrow> bool" for sha jobs j where
  all_called: "reachable_system sha jobs j \<lparr>sy_db = \<lparr>db_table = j, db_writer = None\<rparr>, sy_phase = (\<lambda>_. Called)\<rparr>"
| one_step: "reachable_system sha jobs j s \<Longrightarrow> system_step sha jobs s s' \<Longrightarrow> reachable_system sha jobs j s'"

section \<open>Whole transactions\<close>

text \<open>The specification: the operations of the journal, one after the other.\<close>

fun transaction :: "(bytes \<Rightarrow> bytes) \<Rightarrow> job \<Rightarrow> journal \<Rightarrow> (answer \<times> journal) result" where
  "transaction sha (Append_Record r) j = bind (append_record sha j r) (\<lambda>(l, j'). Inr (Link l, j'))"
| "transaction sha (Append_If_Head e r) j = bind (append_record_if_head sha j e r) (\<lambda>(a, j'). Inr (Appended a, j'))"

inductive serial :: "(bytes \<Rightarrow> bytes) \<Rightarrow> (nat \<Rightarrow> job) \<Rightarrow> journal \<Rightarrow> (nat \<times> answer) list \<Rightarrow> journal \<Rightarrow> bool" for sha jobs j where
  serial_none: "serial sha jobs j [] j"
| serial_next: "serial sha jobs j log k \<Longrightarrow> transaction sha (jobs w) k = Inr (a, k') \<Longrightarrow> serial sha jobs j (log @ [(w, a)]) k'"

inductive_cases serial_snocE: "serial sha jobs j (log @ [x]) k"

lemma transaction_Inr:
  "transaction sha jb j = Inr (a, j') \<longleftrightarrow>
     head_check jb (head j) = None \<and>
     (\<exists>payload link. canonical_json (job_record jb) = Inr payload \<and>
        sha256_text sha (linked (head_or_genesis j) (job_record jb)) = Inr link \<and>
        j' = insert_row j payload (head_or_genesis j) link \<and> a = answer_of jb (jn_counter j') (head_or_genesis j) link)"
  by (cases jb) (auto simp: append_record_def append_record_if_head_def Let_def bind_Inr_iff)

section \<open>The invariant\<close>

fun in_transaction :: "writer_phase \<Rightarrow> bool" where
  "in_transaction (Begun _) = True"
| "in_transaction (Selected _ _) = True"
| "in_transaction (Inserted _) = True"
| "in_transaction _ = False"

text \<open>What a phase says of the committed table and of the writer's view of it.\<close>

fun phase_ok :: "(bytes \<Rightarrow> bytes) \<Rightarrow> job \<Rightarrow> journal \<Rightarrow> journal \<Rightarrow> writer_phase \<Rightarrow> bool" where
  "phase_ok sha jb t v (Encoded payload) \<longleftrightarrow> canonical_json (job_record jb) = Inr payload"
| "phase_ok sha jb t v (Begun payload) \<longleftrightarrow> canonical_json (job_record jb) = Inr payload \<and> v = t"
| "phase_ok sha jb t v (Selected payload h) \<longleftrightarrow> canonical_json (job_record jb) = Inr payload \<and> v = t \<and> h = head t"
| "phase_ok sha jb t v (Inserted a) \<longleftrightarrow> transaction sha jb t = Inr (a, v)"
| "phase_ok sha jb t v _ \<longleftrightarrow> True"

definition writer_ok :: "(bytes \<Rightarrow> bytes) \<Rightarrow> job \<Rightarrow> (nat \<times> answer) list \<Rightarrow> database \<Rightarrow> nat \<Rightarrow> writer_phase \<Rightarrow> bool" where
  "writer_ok sha jb log db w p \<longleftrightarrow>
     (\<forall>a. (w, a) \<in> set log \<longrightarrow> p \<in> {Committed a, Returned a, Killed}) \<and>
     (\<forall>a. p \<in> {Committed a, Returned a} \<longrightarrow> (w, a) \<in> set log) \<and>
     (in_transaction p \<longleftrightarrow> (\<exists>v. db_writer db = Some (w, v))) \<and>
     phase_ok sha jb (db_table db) (sql_view w db) p"

definition writers_inv :: "(bytes \<Rightarrow> bytes) \<Rightarrow> (nat \<Rightarrow> job) \<Rightarrow> journal \<Rightarrow> (nat \<times> answer) list \<Rightarrow> system \<Rightarrow> bool" where
  "writers_inv sha jobs j log s \<longleftrightarrow>
     serial sha jobs j log (db_table (sy_db s)) \<and> distinct (map fst log) \<and>
     (\<forall>w. writer_ok sha (jobs w) log (sy_db s) w (sy_phase s w))"

text \<open>A step that leaves the committed table alone and that another writer does not notice.\<close>

definition unnoticed :: "nat \<Rightarrow> database \<Rightarrow> database \<Rightarrow> bool" where
  "unnoticed v db db' \<longleftrightarrow> db_table db' = db_table db \<and>
     ((\<exists>x. db_writer db' = Some (v, x)) \<longleftrightarrow> (\<exists>x. db_writer db = Some (v, x))) \<and> sql_view v db' = sql_view v db"

lemma unnoticed_refl [simp]: "unnoticed v db db"
  by (simp add: unnoticed_def)

lemma unnoticed_rollback [simp]: "v \<noteq> w \<Longrightarrow> unnoticed v db (rollback w db)"
  by (auto simp: unnoticed_def rollback_def sql_view_def split: option.splits)

lemma unnoticed_begin: "begin_immediate w db = Some db' \<Longrightarrow> v \<noteq> w \<Longrightarrow> unnoticed v db db'"
  by (auto simp: unnoticed_def begin_immediate_def sql_view_def split: if_split_asm)

lemma unnoticed_insert:
  "db_writer db = Some (w, x) \<Longrightarrow> insert_values w payload prev link db = Some (n, db') \<Longrightarrow> v \<noteq> w \<Longrightarrow> unnoticed v db db'"
  by (auto simp: unnoticed_def insert_values_def sql_view_def Let_def)

lemma rollback_simps [simp]: "db_writer (rollback w db) \<noteq> Some (w, v)" "db_table (rollback w db) = db_table db"
  by (auto simp: rollback_def split: option.splits)

lemma writer_ok_unnoticed: "writer_ok sha jb log db v p \<Longrightarrow> unnoticed v db db' \<Longrightarrow> writer_ok sha jb log db' v p"
  by (simp add: writer_ok_def unnoticed_def)

lemma writers_inv_local:
  assumes "writers_inv sha jobs j log s" and "db_table db = db_table (sy_db s)" "\<And>v. v \<noteq> w \<Longrightarrow> unnoticed v (sy_db s) db"
    and "writer_ok sha (jobs w) log db w p"
  shows "writers_inv sha jobs j log \<lparr>sy_db = db, sy_phase = (sy_phase s)(w := p)\<rparr>"
  using assms writer_ok_unnoticed unfolding writers_inv_def by fastforce

text \<open>Outside a transaction a writer does not depend on the table, nor on what others committed.\<close>

lemma writer_ok_quiet:
  assumes "writer_ok sha jb log db v p" "db_writer db = Some (w, x)" "v \<noteq> w"
  shows "writer_ok sha jb (log @ [(w, a)]) \<lparr>db_table = t, db_writer = None\<rparr> v p"
  using assms by (cases p) (auto simp: writer_ok_def)

lemma writers_inv_commit:
  assumes inv: "writers_inv sha jobs j log s" and p: "sy_phase s w = Inserted a"
  shows "writers_inv sha jobs j (log @ [(w, a)]) \<lparr>sy_db = commit w (sy_db s), sy_phase = (sy_phase s)(w := Committed a)\<rparr>"
proof -
  have w: "writer_ok sha (jobs w) log (sy_db s) w (Inserted a)" using inv p unfolding writers_inv_def by metis
  then obtain v where v: "db_writer (sy_db s) = Some (w, v)" by (auto simp: writer_ok_def)
  then have t: "transaction sha (jobs w) (db_table (sy_db s)) = Inr (a, v)" using w by (simp add: writer_ok_def sql_view_def)
  have c: "commit w (sy_db s) = \<lparr>db_table = v, db_writer = None\<rparr>" by (simp add: commit_def v)
  have new: "w \<notin> fst ` set log" using w by (auto simp: writer_ok_def)
  have "serial sha jobs j (log @ [(w, a)]) v" using inv t by (auto simp: writers_inv_def intro: serial_next)
  moreover have "writer_ok sha (jobs w) (log @ [(w, a)]) \<lparr>db_table = v, db_writer = None\<rparr> w (Committed a)"
    using new by (force simp: writer_ok_def)
  moreover have "writer_ok sha (jobs u) (log @ [(w, a)]) \<lparr>db_table = v, db_writer = None\<rparr> u (sy_phase s u)" if "u \<noteq> w" for u
    using inv writer_ok_quiet [OF _ v that] by (simp add: writers_inv_def)
  ultimately show ?thesis using inv new by (simp add: writers_inv_def c)
qed

text \<open>The steps of one writer that do not commit.\<close>

lemma writer_step_ok:
  assumes ok: "writer_ok sha jb log db w p" and step: "writer_step sha jb w p db = Some (p', db')" and "\<forall>a. p \<noteq> Inserted a"
  shows "db_table db' = db_table db \<and> (\<forall>v. v \<noteq> w \<longrightarrow> unnoticed v db db') \<and> writer_ok sha jb log db' w p'"
proof (cases p)
  case Called
  then show ?thesis using ok step by (auto simp: writer_ok_def split: sum.splits)
next
  case (Encoded payload)
  then have b: "begin_immediate w db = Some db'" "p' = Begun payload" using step by (auto split: option.splits)
  then have "db' = db\<lparr>db_writer := Some (w, db_table db)\<rparr>" by (simp add: begin_immediate_def split: if_split_asm)
  then show ?thesis using ok Encoded b unnoticed_begin [OF b(1)] by (auto simp: writer_ok_def sql_view_def)
next
  case (Begun payload)
  then show ?thesis using ok step by (auto simp: writer_ok_def select_link_def)
next
  case (Selected payload h)
  obtain v where v: "db_writer db = Some (w, v)" using ok Selected by (auto simp: writer_ok_def)
  have h: "canonical_json (job_record jb) = Inr payload" "v = db_table db" "h = head (db_table db)"
    using ok Selected v by (auto simp: writer_ok_def sql_view_def)
  have raised: ?thesis if "p' = Raised e" "db' = rollback w db" for e
    using ok Selected that by (auto simp: writer_ok_def)
  show ?thesis
  proof (cases "\<exists>e. p' = Raised e")
    case True
    then show ?thesis using step Selected raised
      by (auto simp: insert_statement_def Let_def split: option.splits sum.splits)
  next
    case False
    obtain link where l: "head_check jb h = None" "sha256_text sha (linked (head_or_genesis v) (job_record jb)) = Inr link"
      "db' = db\<lparr>db_writer := Some (w, insert_row v payload (head_or_genesis v) link)\<rparr>"
      "p' = Inserted (answer_of jb (jn_counter (insert_row v payload (head_or_genesis v) link)) (head_or_genesis v) link)"
      using step Selected False v h
      by (auto simp: insert_statement_def insert_values_def Let_def sql_view_def head_or_genesis_def split: option.splits sum.splits)
    then have "transaction sha jb (db_table db) =
        Inr (answer_of jb (jn_counter (insert_row v payload (head_or_genesis v) link)) (head_or_genesis v) link,
          insert_row v payload (head_or_genesis v) link)"
      using h by (auto simp: transaction_Inr)
    then show ?thesis using ok Selected l(3,4) v by (auto simp: writer_ok_def unnoticed_def sql_view_def)
  qed
next
  case (Inserted a)
  then show ?thesis using assms(3) by simp
next
  case (Committed a)
  then have "db' = db" "p' = Returned a" using step by simp_all
  then show ?thesis using ok Committed by (simp add: writer_ok_def)
qed (use step in simp_all)

lemma writers_inv_step:
  assumes inv: "writers_inv sha jobs j log s" and "system_step sha jobs s s'"
  shows "\<exists>log'. writers_inv sha jobs j log' s'"
  using assms(2)
proof cases
  case (writer_runs w p db)
  have ok: "writer_ok sha (jobs w) log (sy_db s) w (sy_phase s w)" using inv by (simp add: writers_inv_def)
  show ?thesis
  proof (cases "\<exists>a. sy_phase s w = Inserted a")
    case True
    then obtain a where a: "sy_phase s w = Inserted a" by blast
    then show ?thesis using writer_runs writers_inv_commit [OF inv a] by (intro exI [of _ "log @ [(w, a)]"]) simp
  next
    case False
    then show ?thesis using writers_inv_local [OF inv] writer_step_ok [OF ok writer_runs(2)] writer_runs(1) by blast
  qed
next
  case (lock_times_out w payload)
  then have "writer_ok sha (jobs w) log (sy_db s) w (Encoded payload)" using inv unfolding writers_inv_def by metis
  then have "writer_ok sha (jobs w) log (sy_db s) w Timed_Out" by (auto simp: writer_ok_def)
  then have "writers_inv sha jobs j log \<lparr>sy_db = sy_db s, sy_phase = (sy_phase s)(w := Timed_Out)\<rparr>"
    by (intro writers_inv_local [OF inv]) auto
  then show ?thesis using lock_times_out(1) by blast
next
  case (writer_dies w)
  have "writer_ok sha (jobs w) log (sy_db s) w (sy_phase s w)" using inv by (simp add: writers_inv_def)
  then have "writer_ok sha (jobs w) log (rollback w (sy_db s)) w Killed" by (auto simp: writer_ok_def)
  then show ?thesis using writers_inv_local [OF inv, of "rollback w (sy_db s)" w Killed] writer_dies(1) by auto
qed

lemma reachable_inv:
  assumes "reachable_system sha jobs j s"
  shows "\<exists>log. writers_inv sha jobs j log s"
  using assms
proof induction
  case all_called
  have "writers_inv sha jobs j [] \<lparr>sy_db = \<lparr>db_table = j, db_writer = None\<rparr>, sy_phase = (\<lambda>_. Called)\<rparr>"
    by (auto simp: writers_inv_def writer_ok_def intro: serial_none)
  then show ?case ..
next
  case (one_step s s')
  then show ?case using writers_inv_step by blast
qed

section \<open>One of them succeeds\<close>

text \<open>A transaction in the middle of a serial run: the table it found is an initial part of the final one.\<close>

lemma transaction_grows: "transaction sha jb j = Inr (a, j') \<Longrightarrow> \<exists>x. jn_rows j' = jn_rows j @ [x]"
  by (auto simp: transaction_Inr insert_row_def)

lemma serial_grows: "serial sha jobs j log k \<Longrightarrow> \<exists>ws. jn_rows k = jn_rows j @ ws \<and> length ws = length log"
proof (induction rule: serial.induct)
  case (serial_next log k w a k')
  then obtain ws x where "jn_rows k = jn_rows j @ ws" "length ws = length log" "jn_rows k' = jn_rows k @ [x]"
    using transaction_grows by blast
  then show ?case by (intro exI [of _ "ws @ [x]"]) simp
qed simp

lemma serial_found:
  "serial sha jobs j log k \<Longrightarrow> n < length log \<Longrightarrow> log ! n = (w, a) \<Longrightarrow>
    \<exists>i i'. transaction sha (jobs w) i = Inr (a, i') \<and> jn_rows i = take (length (jn_rows j) + n) (jn_rows k)"
proof (induction rule: serial.induct)
  case (serial_next log k v b k')
  obtain ws where ws: "jn_rows k = jn_rows j @ ws" "length ws = length log" using serial_grows [OF serial_next(1)] by blast
  obtain x where x: "jn_rows k' = jn_rows k @ [x]" using transaction_grows [OF serial_next(2)] by blast
  show ?case
  proof (cases "n < length log")
    case True
    then show ?thesis using serial_next.IH serial_next.prems x ws by (simp add: nth_append)
  next
    case False
    then have "n = length log" "v = w" "b = a" using serial_next.prems by (auto simp: nth_append)
    then show ?thesis using serial_next(2) x ws by (intro exI [of _ k] exI [of _ k']) simp
  qed
qed simp

lemma serial_verifies:
  "serial sha jobs j log k \<Longrightarrow> verify sha j None \<Longrightarrow> (\<And>w. plain_record (job_record (jobs w))) \<Longrightarrow> verify sha k None"
proof (induction rule: serial.induct)
  case (serial_next log k w a k')
  then show ?case by (auto simp: transaction_Inr intro: insert_row_verifies)
qed

text \<open>The head of an initial part of a verified journal is the chain head of its records.\<close>

lemma initial_chain:
  assumes "verify sha k None" "entries k = Inr rs" "jn_rows i = take m (jn_rows k)" "head i = Some h"
  shows "chain_head sha record_encoding GENESIS (take m rs) = Inr h"
proof -
  have "verify_rows sha GENESIS (take m (jn_rows k) @ drop m (jn_rows k)) \<noteq> None" using assms(1) by (auto simp: verify_def split: option.splits)
  then obtain l where "verify_rows sha GENESIS (take m (jn_rows k)) = Some l"
    unfolding verify_rows_append by (auto split: option.splits)
  then have v: "verify sha i None" using assms(3) by (simp add: verify_def)
  have "entries i = Inr (take m rs)"
    using assms(2,3) unfolding entries_def map_result_Inr_iff by (simp add: list_all2_takeI)
  then show ?thesis using verify_chain [OF v] assms(4) by (simp add: head_or_genesis_def)
qed

lemma heads_differ:
  assumes "verify sha k None" "entries k = Inr rs" "list_all plain_record rs"
    and "collision_free sha GENESIS (set (chain_inputs sha record_encoding GENESIS rs))"
    and "jn_rows i = take m (jn_rows k)" "jn_rows i' = take n (jn_rows k)" "m < n" "n \<le> length (jn_rows k)"
  shows "head i \<noteq> head i'"
proof
  assume same: "head i = head i'"
  have "jn_rows i' \<noteq> []" using assms(6-8) by auto
  then obtain h where h: "head i' = Some h" by (simp add: head_def)
  note c = initial_chain [OF assms(1,2,5) h [folded same]] initial_chain [OF assms(1,2,6) h]
  have "set (chain_inputs sha record_encoding GENESIS (take p rs)) \<subseteq> set (chain_inputs sha record_encoding GENESIS rs)"
    if "chain_head sha record_encoding GENESIS (take p rs) = Inr h" for p
    using chain_inputs_append [OF that, of "drop p rs"] by auto
  then have "collision_free sha GENESIS (set (chain_inputs sha record_encoding GENESIS (take m rs)) \<union>
      set (chain_inputs sha record_encoding GENESIS (take n rs)))"
    using c by (intro collision_free_subset [OF assms(4)]) blast
  moreover have "list_all plain_record (take p rs)" for p using assms(3) by (auto simp: list_all_iff dest: in_set_takeD)
  ultimately have "map sort_keys (take m rs) = map sort_keys (take n rs)" using records.head_determines [OF c] by blast
  then have "min (length rs) m = min (length rs) n" by (metis length_map length_take)
  moreover have "length rs = length (jn_rows k)"
    using assms(2) unfolding entries_def map_result_Inr_iff by (simp add: list_all2_lengthD)
  ultimately show False using assms(7,8) by simp
qed

lemma cas_head: "transaction sha (Append_If_Head e r) i = Inr x \<Longrightarrow> head i = e"
  by (auto simp: bind_Inr_iff append_record_if_head_Inr)

lemma serial_heads:
  assumes "serial sha jobs j log k" "verify sha k None" "entries k = Inr rs" "list_all plain_record rs"
    and "collision_free sha GENESIS (set (chain_inputs sha record_encoding GENESIS rs))"
    and "m < n" "n < length log" "log ! m = (v, a)" "log ! n = (w, b)"
  shows "\<not> (\<exists>e r r'. jobs v = Append_If_Head e r \<and> jobs w = Append_If_Head e r')"
proof -
  let ?len = "length (jn_rows j)"
  obtain i i' where i: "transaction sha (jobs v) i = Inr (a, i')" "jn_rows i = take (?len + m) (jn_rows k)"
    using serial_found [OF assms(1) _ assms(8)] assms(6,7) by auto
  obtain l l' where l: "transaction sha (jobs w) l = Inr (b, l')" "jn_rows l = take (?len + n) (jn_rows k)"
    using serial_found [OF assms(1,7,9)] by auto
  have "?len + n \<le> length (jn_rows k)" using serial_grows [OF assms(1)] assms(7) by auto
  from heads_differ [OF assms(2-5) i(2) l(2) _ this] have "head i \<noteq> head l" using assms(6) by simp
  then show ?thesis using i(1) l(1) by (metis cas_head)
qed

text \<open>
  C14: Writers may interleave their statements in any order, wait for the lock, time out, raise or die.
  The committed table is always the one that some of them would have left by running whole, one after the
  other: each at most once, every writer that returned with the answer it returned, and none that raised
  or timed out. And of the compare-and-swap writers that expect the same head at most one returns, as
  long as the hash does not collide on the bytes that were linked.
\<close>

theorem concurrent_appends_serialise:
  assumes "reachable_system sha jobs j s"
  shows "(\<exists>log. serial sha jobs j log (db_table (sy_db s)) \<and> distinct (map fst log) \<and>
      (\<forall>w a. sy_phase s w = Returned a \<longrightarrow> (w, a) \<in> set log) \<and>
      (\<forall>w. (\<exists>e. sy_phase s w = Raised e) \<or> sy_phase s w = Timed_Out \<longrightarrow> w \<notin> fst ` set log)) \<and>
    (\<forall>rs v w e r r' a b. verify sha j None \<and> (\<forall>u. plain_record (job_record (jobs u))) \<and>
       entries (db_table (sy_db s)) = Inr rs \<and> list_all plain_record rs \<and>
       collision_free sha GENESIS (set (chain_inputs sha record_encoding GENESIS rs)) \<and>
       jobs v = Append_If_Head e r \<and> jobs w = Append_If_Head e r' \<and>
       sy_phase s v = Returned a \<and> sy_phase s w = Returned b \<longrightarrow> v = w)"
proof -
  obtain log where inv: "writers_inv sha jobs j log s" using reachable_inv [OF assms] by blast
  then have log: "serial sha jobs j log (db_table (sy_db s))" "distinct (map fst log)"
    "\<And>w. writer_ok sha (jobs w) log (sy_db s) w (sy_phase s w)"
    by (simp_all add: writers_inv_def)
  have ret: "(w, a) \<in> set log" if "sy_phase s w = Returned a" for w a
    using log(3) [of w] that by (simp add: writer_ok_def)
  have out: "w \<notin> fst ` set log" if "(\<exists>e. sy_phase s w = Raised e) \<or> sy_phase s w = Timed_Out" for w
    using log(3) [of w] that by (auto simp: writer_ok_def)
  have "v = w" if asm: "verify sha j None" "\<forall>u. plain_record (job_record (jobs u))" "entries (db_table (sy_db s)) = Inr rs"
    "list_all plain_record rs" "collision_free sha GENESIS (set (chain_inputs sha record_encoding GENESIS rs))"
    "jobs v = Append_If_Head e r" "jobs w = Append_If_Head e r'" "sy_phase s v = Returned a" "sy_phase s w = Returned b"
    for rs v w e r r' a b
  proof -
    obtain m n where mn: "m < length log" "log ! m = (v, a)" "n < length log" "log ! n = (w, b)"
      using ret [OF asm(8)] ret [OF asm(9)] by (auto simp: in_set_conv_nth)
    have "verify sha (db_table (sy_db s)) None" using serial_verifies [OF log(1) asm(1)] asm(2) by simp
    note heads = serial_heads [OF log(1) this asm(3-5)]
    have "\<not> m < n" using heads [OF _ mn(3,2,4)] asm(6,7) by blast
    moreover have "\<not> n < m" using heads [OF _ mn(1,4,2)] asm(6,7) by blast
    ultimately have "m = n" by simp
    then show "v = w" using mn by simp
  qed
  then show ?thesis using log(1,2) ret out by blast
qed

section \<open>Example\<close>

text \<open>Two writers that saw the same empty journal: the second waits, and is then told that its base is stale.\<close>

fun run_writers :: "(bytes \<Rightarrow> bytes) \<Rightarrow> (nat \<Rightarrow> job) \<Rightarrow> nat list \<Rightarrow> system \<Rightarrow> system option" where
  "run_writers sha jobs [] s = Some s"
| "run_writers sha jobs (w # ws) s =
     (case writer_step sha (jobs w) w (sy_phase s w) (sy_db s) of
        None \<Rightarrow> None
      | Some (p, db) \<Rightarrow> run_writers sha jobs ws \<lparr>sy_db = db, sy_phase = (sy_phase s)(w := p)\<rparr>)"

lemma run_writers_reachable:
  "run_writers sha jobs ws s = Some s' \<Longrightarrow> reachable_system sha jobs j s \<Longrightarrow> reachable_system sha jobs j s'"
proof (induction ws arbitrary: s)
  case (Cons w ws)
  then show ?case by (auto split: option.split_asm intro: one_step writer_runs)
qed simp

definition two_jobs :: "nat \<Rightarrow> job" where
  "two_jobs w = Append_If_Head None demo_entry"

definition two_called :: system where
  "two_called = \<lparr>sy_db = \<lparr>db_table = empty_journal, db_writer = None\<rparr>, sy_phase = (\<lambda>_. Called)\<rparr>"

lemma two_writers_run:
  obtains s a e where "run_writers pad_sha two_jobs [0, 1, 0, 0, 0, 0, 1, 1, 0, 1] two_called = Some s"
    "sy_phase s 0 = Returned a" "sy_phase s 1 = Raised e"
proof -
  obtain link j where "append_record pad_sha empty_journal demo_entry = Inr (link, j)" by (rule demo_journal)
  then obtain payload where p: "canonical_json demo_entry = Inr payload" "sha256_text pad_sha (linked GENESIS demo_entry) = Inr link"
    by (auto simp: append_record_Inr head_or_genesis_def head_def empty_journal_def)
  have "\<exists>s a e. run_writers pad_sha two_jobs [0, 1, 0, 0, 0, 0, 1, 1, 0, 1] two_called = Some s \<and>
      sy_phase s 0 = Returned a \<and> sy_phase s 1 = Raised e"
    using p by (simp add: two_called_def two_jobs_def begin_immediate_def select_link_def sql_view_def insert_statement_def
        insert_values_def commit_def rollback_def insert_row_def empty_journal_def head_def Let_def)
  then show thesis using that by blast
qed

theorem concurrent_appends_serialise_witness:
  "\<exists>s a e log. reachable_system pad_sha two_jobs empty_journal s \<and> sy_phase s 0 = Returned a \<and> sy_phase s 1 = Raised e \<and>
     serial pad_sha two_jobs empty_journal log (db_table (sy_db s)) \<and> (0, a) \<in> set log \<and> 1 \<notin> fst ` set log"
proof -
  obtain s a e where s: "run_writers pad_sha two_jobs [0, 1, 0, 0, 0, 0, 1, 1, 0, 1] two_called = Some s"
    "sy_phase s 0 = Returned a" "sy_phase s 1 = Raised e"
    by (rule two_writers_run)
  have r: "reachable_system pad_sha two_jobs empty_journal s"
    using run_writers_reachable [OF s(1)] all_called by (simp add: two_called_def)
  from concurrent_appends_serialise [OF r] s(2,3) r show ?thesis by blast
qed

end
