(* ===== verification/Observations.thy ===== *)
theory Observations
  imports Journal
begin

text \<open>
  The append-only observation log (\<^verbatim>\<open>src/src/ranex/governed_execution/adapters/persistence/sqlite/observations.py\<close>):
  the verified snapshot of its rows, and \<open>reconcile\<close>, which projects the chain onto the evidence file.
  Shown: a snapshot is a verified chain that still holds the retained head, so history can only be
  extended; and the records to judge hold the latest observation of every claim and producer and no
  superseded one.
\<close>

section \<open>Snapshots\<close>

record snapshot =
  sn_records :: "(nat \<times> pyval) list"
  sn_head :: string
  sn_position :: nat

definition CHAIN_ERROR :: string where
  "CHAIN_ERROR = ''E-OBSERVATION-CHAIN''"

fun snapshot_rows ::
  "(bytes \<Rightarrow> bytes) \<Rightarrow> string option \<Rightarrow> row list \<Rightarrow> bool \<Rightarrow> snapshot \<Rightarrow> snapshot result" where
  "snapshot_rows sha expected [] retained s =
     ensure retained (ValueError ''E-OBSERVATION-ANCHOR: retained history head is absent'') (Inr s)"
| "snapshot_rows sha expected (w # ws) retained s =
     (case bind (json_loads (rw_record w)) (\<lambda>r.
           bind (sha256_text sha (linked (sn_head s) r)) (\<lambda>link.
           ensure (rw_prev_link w = sn_head s \<and> rw_link w = link) (ValueError ''inconsistent link'') (
           ensure (is_dict r \<and> sn_position s < rw_seq w) (ValueError ''invalid observation row'') (
           Inr (r, link))))) of
        Inl _ \<Rightarrow> Inl (ValueError (CHAIN_ERROR @ '': invalid observation chain''))
      | Inr (r, link) \<Rightarrow>
          snapshot_rows sha expected ws (retained \<or> expected = Some link)
            \<lparr>sn_records = sn_records s @ [(rw_seq w, r)], sn_head = link, sn_position = rw_seq w\<rparr>)"

definition empty_snapshot :: snapshot where
  "empty_snapshot = \<lparr>sn_records = [], sn_head = GENESIS, sn_position = 0\<rparr>"

definition verified_snapshot :: "(bytes \<Rightarrow> bytes) \<Rightarrow> row list \<Rightarrow> string option \<Rightarrow> snapshot result" where
  "verified_snapshot sha rows expected_head =
     snapshot_rows sha expected_head rows (expected_head = None \<or> expected_head = Some GENESIS) empty_snapshot"

text \<open>\<open>ObservationLog.snapshot\<close>; \<open>None\<close> is a log file that does not exist.\<close>

definition log_snapshot :: "(bytes \<Rightarrow> bytes) \<Rightarrow> journal option \<Rightarrow> string option \<Rightarrow> snapshot result" where
  "log_snapshot sha log expected_head =
     (case log of
        None \<Rightarrow>
          ensure (expected_head = None) (ValueError ''E-OBSERVATION-ANCHOR: anchored observation log is missing'')
            (Inr empty_snapshot)
      | Some j \<Rightarrow> verified_snapshot sha (jn_rows j) expected_head)"

text \<open>\<open>ObservationLog.records\<close>.\<close>

definition log_records :: "journal option \<Rightarrow> (nat \<times> pyval) list result" where
  "log_records log =
     (case log of None \<Rightarrow> Inr []
      | Some j \<Rightarrow> map_result (\<lambda>w. bind (json_loads (rw_record w)) (\<lambda>r. Inr (rw_seq w, r))) (jn_rows j))"

section \<open>Reconciliation\<close>

record removed_observation =
  ro_seq :: nat
  ro_claim_id :: string
  ro_producer_id :: string

definition describe :: "removed_observation \<Rightarrow> string" where
  "describe o' = ''removed-observation claim='' @ ro_claim_id o' @ '' producer='' @ ro_producer_id o' @
     '' seq='' @ show_nat (ro_seq o')"

record reconciliation =
  rc_records :: "pyval list"
  rc_removed :: "removed_observation list"
  rc_chained :: "string list"
  rc_head :: string
  rc_position :: nat

definition identity :: "pyval \<Rightarrow> string" where
  "identity r = (case canonical_json r of Inl _ \<Rightarrow> [] | Inr s \<Rightarrow> s)"

definition in_chain :: "reconciliation \<Rightarrow> pyval \<Rightarrow> bool" where
  "in_chain rc r \<longleftrightarrow> identity r \<in> set (rc_chained rc)"

definition record_key :: "pyval \<Rightarrow> (string \<times> string) option" where
  "record_key r =
     (case (fld r ''claim_id'', fld r ''producer_id'') of
        (VStr claim, VStr producer) \<Rightarrow> if is_dict r then Some (claim, producer) else None
      | _ \<Rightarrow> None)"

type_synonym latest = "((string \<times> string) \<times> (nat \<times> pyval)) list"

fun project :: "(nat \<times> pyval) list \<Rightarrow> latest \<Rightarrow> latest result" where
  "project [] latest = Inr latest"
| "project ((seq, r) # rs) latest =
     (case record_key r of
        None \<Rightarrow> Inl (ValueError (CHAIN_ERROR @ '': observation log row seq='' @ show_nat seq @
          '' names no claim_id/producer_id''))
      | Some key \<Rightarrow> project rs (dict_set latest key (seq, r)))"

definition reconcile :: "snapshot \<Rightarrow> pyval list \<Rightarrow> reconciliation result" where
  "reconcile s evidence =
     bind (project (sn_records s) []) (\<lambda>latest.
     let chained = map (\<lambda>p. identity (snd p)) (sn_records s);
         latest_identities = map (\<lambda>p. identity (snd (snd p))) latest;
         present = map identity evidence;
         kept = filter (\<lambda>r. identity r \<notin> set chained \<or> identity r \<in> set latest_identities) evidence;
         gone = filter (\<lambda>p. identity (snd (snd p)) \<notin> set present) (sort_key (\<lambda>p. fst (snd p)) latest) in
     Inr \<lparr>rc_records = kept @ map (\<lambda>p. snd (snd p)) gone,
          rc_removed = map (\<lambda>p. \<lparr>ro_seq = fst (snd p), ro_claim_id = fst (fst p),
            ro_producer_id = snd (fst p)\<rparr>) gone,
          rc_chained = chained, rc_head = sn_head s, rc_position = sn_position s\<rparr>)"

section \<open>A snapshot is a verified chain\<close>

lemma snapshot_rows_chain:
  assumes "snapshot_rows sha expected ws retained s = Inr s'"
  shows "\<exists>rs. sn_records s' = sn_records s @ zip (map rw_seq ws) rs \<and> length rs = length ws \<and>
    map_result (\<lambda>w. json_loads (rw_record w)) ws = Inr rs \<and> (\<forall>r \<in> set rs. is_dict r) \<and>
    verify_rows sha (sn_head s) ws = Some (sn_head s') \<and>
    chain_head sha record_encoding (sn_head s) rs = Inr (sn_head s') \<and>
    (retained \<or> (\<exists>k > 0. \<exists>h. expected = Some h \<and> chain_head sha record_encoding (sn_head s) (take k rs) = Inr h)) \<and>
    sorted_wrt (<) (sn_position s # map rw_seq ws) \<and> sn_position s' = last (sn_position s # map rw_seq ws)"
  using assms
proof (induction ws arbitrary: retained s)
  case Nil
  then show ?case by (auto simp: map_result.simps)
next
  case (Cons w ws)
  then obtain r where r: "json_loads (rw_record w) = Inr r" "sha256_text sha (linked (sn_head s) r) = Inr (rw_link w)"
    "rw_prev_link w = sn_head s" "is_dict r" "sn_position s < rw_seq w"
    and rest: "snapshot_rows sha expected ws (retained \<or> expected = Some (rw_link w))
      \<lparr>sn_records = sn_records s @ [(rw_seq w, r)], sn_head = rw_link w, sn_position = rw_seq w\<rparr> = Inr s'"
    by (auto simp: bind_Inr_iff split: sum.splits)
  from Cons.IH [OF rest] obtain rs where rs:
    "sn_records s' = sn_records s @ [(rw_seq w, r)] @ zip (map rw_seq ws) rs" "length rs = length ws"
    "map_result (\<lambda>w. json_loads (rw_record w)) ws = Inr rs" "\<forall>r \<in> set rs. is_dict r"
    "verify_rows sha (rw_link w) ws = Some (sn_head s')"
    "chain_head sha record_encoding (rw_link w) rs = Inr (sn_head s')"
    "(retained \<or> expected = Some (rw_link w)) \<or>
      (\<exists>k > 0. \<exists>h. expected = Some h \<and> chain_head sha record_encoding (rw_link w) (take k rs) = Inr h)"
    "sorted_wrt (<) (rw_seq w # map rw_seq ws)" "sn_position s' = last (rw_seq w # map rw_seq ws)"
    by auto
  have step: "chain_link sha record_encoding (sn_head s) r = Inr (rw_link w)" using r(2) by (simp add: record_link)
  have "retained \<or> (\<exists>k > 0. \<exists>h. expected = Some h \<and>
      chain_head sha record_encoding (sn_head s) (take k (r # rs)) = Inr h)"
  proof (cases "retained \<or> expected = Some (rw_link w)")
    case True
    then show ?thesis using step by (auto intro!: exI [of _ "Suc 0"])
  next
    case False
    then obtain k h where "expected = Some h" "chain_head sha record_encoding (rw_link w) (take k rs) = Inr h"
      using rs(7) by blast
    then show ?thesis using step by (auto intro!: exI [of _ "Suc k"])
  qed
  moreover have "sorted_wrt (<) (sn_position s # map rw_seq (w # ws))"
    using rs(8) r(5) by fastforce
  ultimately show ?case
    using r rs step by (intro exI [of _ "r # rs"]) (simp add: map_result.simps)
qed

lemma verified_snapshot_Inr:
  assumes "verified_snapshot sha ws expected = Inr s"
  shows "verify_rows sha GENESIS ws = Some (sn_head s)"
    "chain_head sha record_encoding GENESIS (map snd (sn_records s)) = Inr (sn_head s)"
    "map fst (sn_records s) = map rw_seq ws" "sorted_wrt (<) (map rw_seq ws)"
    "sn_position s = (if ws = [] then 0 else rw_seq (last ws))"
    "\<forall>p \<in> set (sn_records s). is_dict (snd p)" "\<forall>w \<in> set ws. 0 < rw_seq w"
    "\<And>h. expected = Some h \<Longrightarrow> \<exists>k. chain_head sha record_encoding GENESIS (take k (map snd (sn_records s))) = Inr h"
proof -
  obtain rs where rs: "sn_records s = zip (map rw_seq ws) rs" "length rs = length ws" "\<forall>r \<in> set rs. is_dict r"
    "verify_rows sha GENESIS ws = Some (sn_head s)"
    "chain_head sha record_encoding GENESIS rs = Inr (sn_head s)"
    "(expected = None \<or> expected = Some GENESIS) \<or>
      (\<exists>k > 0. \<exists>h. expected = Some h \<and> chain_head sha record_encoding GENESIS (take k rs) = Inr h)"
    "sorted_wrt (<) (0 # map rw_seq ws)" "sn_position s = last (0 # map rw_seq ws)"
    using snapshot_rows_chain [OF assms [unfolded verified_snapshot_def]]
    by (auto simp: empty_snapshot_def)
  have snd: "map snd (sn_records s) = rs" using rs(1,2) by simp
  show "verify_rows sha GENESIS ws = Some (sn_head s)" by (rule rs(4))
  show "chain_head sha record_encoding GENESIS (map snd (sn_records s)) = Inr (sn_head s)"
    using rs(5) by (simp add: snd)
  show "map fst (sn_records s) = map rw_seq ws" using rs(1,2) by simp
  show "sorted_wrt (<) (map rw_seq ws)" "\<forall>w \<in> set ws. 0 < rw_seq w" using rs(7) by simp_all
  show "sn_position s = (if ws = [] then 0 else rw_seq (last ws))" using rs(8) by (simp add: last_map)
  show "\<forall>p \<in> set (sn_records s). is_dict (snd p)"
    using rs(3) snd by (metis image_eqI list.set_map)
  show "\<exists>k. chain_head sha record_encoding GENESIS (take k (map snd (sn_records s))) = Inr h"
    if "expected = Some h" for h
    using rs(6) that unfolding snd by (auto intro: exI [of _ 0])
qed

text \<open>
  Retained history cannot be rewritten: a snapshot of the log that was opened against the head of
  an earlier snapshot holds the earlier records as its first records, up to key order. Deleting,
  reordering or replacing an observation is refused, whatever was done to the database file, as
  long as the hash does not collide on the bytes that were linked.
\<close>

lemma retained_history_extends:
  assumes "verified_snapshot sha rows0 expected0 = Inr s0"
    and "verified_snapshot sha rows (Some (sn_head s0)) = Inr s"
    and "collision_free sha GENESIS
      (set (chain_inputs sha record_encoding GENESIS (map snd (sn_records s0))) \<union>
       set (chain_inputs sha record_encoding GENESIS (map snd (sn_records s))))"
    and "\<forall>p \<in> set (sn_records s0 @ sn_records s). plain_record (snd p)"
  shows "map (sort_keys \<circ> snd) (sn_records s0) =
    take (length (sn_records s0)) (map (sort_keys \<circ> snd) (sn_records s))"
proof -
  obtain k where k: "chain_head sha record_encoding GENESIS (take k (map snd (sn_records s))) = Inr (sn_head s0)"
    using verified_snapshot_Inr(8) [OF assms(2)] by blast
  have "list_all plain_record (map snd (sn_records s0))" "list_all plain_record (map snd (sn_records s))"
    using assms(4) by (auto simp: list_all_iff)
  from records.retained_head_prefix [OF verified_snapshot_Inr(2) [OF assms(1)]
      verified_snapshot_Inr(2) [OF assms(2)] k assms(3) this]
  show ?thesis by (simp add: comp_def)
qed

section \<open>What is judged\<close>

text \<open>The last record of the chain with a given key.\<close>

definition latest_of :: "(nat \<times> pyval) list \<Rightarrow> string \<times> string \<Rightarrow> (nat \<times> pyval) option" where
  "latest_of rs key = map_of (rev (map (\<lambda>p. (the (record_key (snd p)), p)) rs)) key"

lemma project_keys:
  "project rs latest = Inr l \<Longrightarrow> \<forall>p \<in> set rs. record_key (snd p) \<noteq> None"
  by (induction rs latest rule: project.induct) (auto split: option.splits)

lemma project_map:
  "project rs latest = Inr l \<Longrightarrow>
   map_of l = map_of latest ++ map_of (rev (map (\<lambda>p. (the (record_key (snd p)), p)) rs))"
proof (induction rs latest rule: project.induct)
  case (2 seq r rs latest)
  then obtain key where "record_key r = Some key" "project rs (dict_set latest key (seq, r)) = Inr l"
    by (auto split: option.splits)
  then have "map_of l = map_of (dict_set latest key (seq, r)) ++
      map_of (rev (map (\<lambda>p. (the (record_key (snd p)), p)) rs))"
    using 2 by blast
  moreover have "map_of (dict_set latest key (seq, r)) = (map_of latest)(key \<mapsto> (seq, r))"
    by (auto simp: map_of_dict_set)
  ultimately show ?case using \<open>record_key r = Some key\<close>
    by (simp add: fun_eq_iff map_add_def split: option.splits)
qed simp

lemma project_distinct: "project rs latest = Inr l \<Longrightarrow> distinct (map fst latest) \<Longrightarrow> distinct (map fst l)"
  by (induction rs latest rule: project.induct) (auto simp: distinct_dict_set split: option.splits)

lemma project_latest:
  assumes "project rs [] = Inr l"
  shows "set l = {(key, p). latest_of rs key = Some p}"
proof -
  have d: "distinct (map fst l)" using project_distinct [OF assms] by simp
  have "map_of l = latest_of rs" using project_map [OF assms] by (simp add: latest_of_def fun_eq_iff)
  then show ?thesis using d by (auto simp: map_of_eq_Some_iff [symmetric])
qed

lemma reconcile_view:
  assumes "reconcile s evidence = Inr rc"
  shows "(\<forall>key p. latest_of (sn_records s) key = Some p \<longrightarrow> identity (snd p) \<in> identity ` set (rc_records rc)) \<and>
    (\<forall>r \<in> set (rc_records rc). in_chain rc r \<longrightarrow>
       (\<exists>key p. latest_of (sn_records s) key = Some p \<and> identity r = identity (snd p))) \<and>
    set (rc_removed rc) =
      {\<lparr>ro_seq = seq, ro_claim_id = claim, ro_producer_id = producer\<rparr> | seq claim producer.
         \<exists>r. latest_of (sn_records s) (claim, producer) = Some (seq, r) \<and> identity r \<notin> identity ` set evidence}"
proof -
  obtain l where l: "project (sn_records s) [] = Inr l" using assms by (auto simp: reconcile_def bind_Inr_iff)
  let ?gone = "{q \<in> set l. identity (snd (snd q)) \<notin> identity ` set evidence}"
  have rc: "set (rc_records rc) =
      {r \<in> set evidence. identity r \<notin> set (rc_chained rc) \<or> identity r \<in> (\<lambda>q. identity (snd (snd q))) ` set l} \<union>
      (\<lambda>q. snd (snd q)) ` ?gone"
    "set (rc_removed rc) = (\<lambda>q. \<lparr>ro_seq = fst (snd q), ro_claim_id = fst (fst q), ro_producer_id = snd (fst q)\<rparr>) ` ?gone"
    using assms by (auto simp only: reconcile_def l bind_simps Let_def sum.inject reconciliation.simps
      set_append set_map set_filter set_sort)
  note L = project_latest [OF l]
  have "identity (snd p) \<in> identity ` set (rc_records rc)" if "latest_of (sn_records s) key = Some p" for key p
  proof (cases "identity (snd p) \<in> identity ` set evidence")
    case True
    then obtain r where "r \<in> set evidence" "identity r = identity (snd p)" by force
    moreover have "(key, p) \<in> set l" using that L by simp
    ultimately show ?thesis unfolding rc by (intro image_eqI [of _ _ r]) (auto intro: rev_image_eqI)
  next
    case False
    moreover have "(key, p) \<in> set l" using that L by simp
    ultimately show ?thesis unfolding rc by (intro image_eqI [of _ _ "snd p"]) (auto intro: rev_image_eqI)
  qed
  moreover have "\<exists>key p. latest_of (sn_records s) key = Some p \<and> identity r = identity (snd p)"
    if "r \<in> set (rc_records rc)" "in_chain rc r" for r
    using that unfolding rc L in_chain_def by force
  moreover have "set (rc_removed rc) =
      {\<lparr>ro_seq = seq, ro_claim_id = claim, ro_producer_id = producer\<rparr> | seq claim producer.
         \<exists>r. latest_of (sn_records s) (claim, producer) = Some (seq, r) \<and> identity r \<notin> identity ` set evidence}"
    unfolding rc(2) L by (auto simp: image_def)
  ultimately show ?thesis by blast
qed

text \<open>
  The records to judge are the chain's current view: for every claim and producer the chain
  mentions, its latest observation is among them; every record among them that the chain holds is
  such a latest one, so no superseded observation is judged; and the removed observations are
  exactly the latest ones that the evidence file lacked.
\<close>

lemma reconcile_projects_chain:
  assumes "reconcile s evidence = Inr rc"
  shows "(\<forall>key p. latest_of (sn_records s) key = Some p \<longrightarrow> identity (snd p) \<in> identity ` set (rc_records rc)) \<and>
    (\<forall>r \<in> set (rc_records rc). in_chain rc r \<longrightarrow>
       (\<exists>key p. latest_of (sn_records s) key = Some p \<and> identity r = identity (snd p))) \<and>
    set (rc_removed rc) =
      {\<lparr>ro_seq = seq, ro_claim_id = claim, ro_producer_id = producer\<rparr> | seq claim producer.
         \<exists>r. latest_of (sn_records s) (claim, producer) = Some (seq, r) \<and> identity r \<notin> identity ` set evidence}"
  by (rule reconcile_view [OF assms])

text \<open>Further facts the history operations use.\<close>

lemma reconcile_Inr:
  assumes "reconcile s evidence = Inr rc"
  shows "rc_head rc = sn_head s" "rc_position rc = sn_position s"
    "\<And>r. in_chain rc r \<longleftrightarrow> identity r \<in> (\<lambda>p. identity (snd p)) ` set (sn_records s)"
    "\<forall>p \<in> set (sn_records s). record_key (snd p) \<noteq> None"
    "set (rc_records rc) \<subseteq> set evidence \<union> snd ` set (sn_records s)"
proof -
  obtain l where l: "project (sn_records s) [] = Inr l" using assms by (auto simp: reconcile_def bind_Inr_iff)
  have "x \<in> snd ` set (sn_records s)" if "((a, b), n, x) \<in> set l" for a b n x
    using that project_latest [OF l] by (auto simp: latest_of_def dest!: map_of_SomeD intro: rev_image_eqI)
  then show "set (rc_records rc) \<subseteq> set evidence \<union> snd ` set (sn_records s)"
    using assms l by (auto simp: reconcile_def Let_def)
  show "\<forall>p \<in> set (sn_records s). record_key (snd p) \<noteq> None" by (rule project_keys [OF l])
  have "rc_chained rc = map (\<lambda>p. identity (snd p)) (sn_records s)"
    using assms l by (auto simp: reconcile_def Let_def)
  then show "in_chain rc r \<longleftrightarrow> identity r \<in> (\<lambda>p. identity (snd p)) ` set (sn_records s)" for r
    by (simp add: in_chain_def)
qed (use assms in \<open>auto simp: reconcile_def Let_def bind_Inr_iff\<close>)

lemma project_total: "\<forall>p \<in> set rs. record_key (snd p) \<noteq> None \<Longrightarrow> \<exists>l. project rs latest = Inr l"
  by (induction rs latest rule: project.induct) auto

lemma reconcile_total: "\<forall>p \<in> set (sn_records s). record_key (snd p) \<noteq> None \<Longrightarrow> \<exists>rc. reconcile s evidence = Inr rc"
  using project_total [of "sn_records s" "[]"] by (auto simp: reconcile_def Let_def)

lemma latest_of_snoc:
  "latest_of (rs @ [p]) key = (if key = the (record_key (snd p)) then Some p else latest_of rs key)"
  by (simp add: latest_of_def)

lemma identity_sort_keys [simp]: "identity (sort_keys r) = identity r"
  by (simp add: identity_def canonical_json_sort_keys)

section \<open>Witnesses\<close>

definition demo_observation :: pyval where
  "demo_observation = VDict [(''claim_id'', VStr ''suite''), (''producer_id'', VStr ''ci'')]"

definition demo_snapshot :: snapshot where
  "demo_snapshot = \<lparr>sn_records = [(1, demo_observation)], sn_head = GENESIS, sn_position = 1\<rparr>"

text \<open>A log of one observation, its snapshot, and the same log read against the retained head.\<close>

lemma demo_snapshots:
  obtains j :: journal and s :: snapshot where "verified_snapshot pad_sha (jn_rows j) None = Inr s"
    "verified_snapshot pad_sha (jn_rows j) (Some (sn_head s)) = Inr s" "map snd (sn_records s) = [sort_keys demo_entry]"
proof -
  obtain link j where a: "append_record pad_sha empty_journal demo_entry = Inr (link, j)"
    "verify pad_sha j (Some link)" "entries j = Inr [sort_keys demo_entry]"
    by (rule demo_journal)
  then obtain payload where p: "jn_rows j =
      [\<lparr>rw_seq = 1, rw_record = payload, rw_prev_link = GENESIS, rw_link = link\<rparr>]"
    "sha256_text pad_sha (linked GENESIS (sort_keys demo_entry)) = Inr link"
    by (auto simp: append_record_Inr insert_row_def empty_journal_def head_or_genesis_def head_def linked_sort_keys)
  have "json_loads payload = Inr (sort_keys demo_entry)"
    using a(3) by (auto simp: entries_def p(1) map_result.simps split: sum.splits)
  then show thesis
    using p(2) by (intro that [of j "\<lparr>sn_records = [(1, sort_keys demo_entry)], sn_head = link, sn_position = 1\<rparr>"])
      (simp_all add: p(1) verified_snapshot_def empty_snapshot_def demo_entry_def)
qed

end
