(* ===== verification/History.thy ===== *)
theory History
  imports Observations Dsse
begin

text \<open>
  Signed checkpoints of the observation log
  (\<^verbatim>\<open>src/src/ranex/governed_execution/adapters/persistence/history.py\<close> and
  \<^verbatim>\<open>src/src/ranex/foundation/history_checkpoint.py\<close>). The state is the three files the service keeps:
  the checkpoint outside the repository, the log and the evidence projection. An operation is a
  function on that state which may raise, and then leaves the state with the writes made so far;
  the exclusive lock makes each operation one step. Shown: a written checkpoint reads back; an
  acknowledged observation is certified and judged; and the two places where a writer can die
  leave a state that is refused and can be recovered, or one from which the observation is restored.
\<close>

section \<open>Paths\<close>

text \<open>
  POSIX \<open>pathlib\<close> paths as text. Resolving symbolic links and asking whether a path is one are
  questions to the file system: parameters.
\<close>

definition path_root :: "string \<Rightarrow> string" where
  "path_root p = (if starts_with ''//'' p \<and> \<not> starts_with ''///'' p then ''//''
     else if starts_with ''/'' p then ''/'' else [])"

definition path_parts :: "string \<Rightarrow> string list" where
  "path_parts p = filter (\<lambda>c. c \<noteq> [] \<and> c \<noteq> ''.'') (split_on CHR ''/'' p)"

definition path_str :: "string \<Rightarrow> string list \<Rightarrow> string" where
  "path_str root parts = (if root = [] \<and> parts = [] then ''.'' else root @ join ''/'' parts)"

definition is_absolute :: "string \<Rightarrow> bool" where
  "is_absolute p \<longleftrightarrow> starts_with ''/'' p"

definition absolute_path :: "string \<Rightarrow> string \<Rightarrow> string" where
  "absolute_path cwd p =
     (if is_absolute p then path_str (path_root p) (path_parts p)
      else path_str (path_root cwd) (path_parts cwd @ path_parts p))"

definition is_relative_to :: "string \<Rightarrow> string \<Rightarrow> bool" where
  "is_relative_to p q \<longleftrightarrow> path_root p = path_root q \<and> take (length (path_parts q)) (path_parts p) = path_parts q"

definition with_name :: "string \<Rightarrow> string \<Rightarrow> string result" where
  "with_name p name =
     ensure (path_parts p \<noteq> []) (ValueError (repr_str p @ '' has an empty name''))
       (Inr (path_str (path_root p) (butlast (path_parts p) @ [name])))"

definition path_name :: "string \<Rightarrow> string" where
  "path_name p = (if path_parts p = [] then [] else last (path_parts p))"

definition observations_path_for :: "string \<Rightarrow> string result" where
  "observations_path_for evidence =
     (if path_name evidence = ''evidence.json'' then with_name evidence ''observations.sqlite3''
      else with_name evidence (path_name evidence @ ''.observations.sqlite3''))"

section \<open>The checkpoint record\<close>

definition validate_checkpoint :: "pyval \<Rightarrow> bool" where
  "validate_checkpoint v \<longleftrightarrow>
     closed_keys v [''log_id'', ''head'', ''position''] \<and>
     is_str (fld v ''log_id'') \<and> is_absolute (str_of (fld v ''log_id'')) \<and>
     is_str (fld v ''head'') \<and> is_digest (str_of (fld v ''head'')) \<and>
     is_int (fld v ''position'') \<and> 0 \<le> int_of (fld v ''position'') \<and>
     ((int_of (fld v ''position'') = 0) = (str_of (fld v ''head'') = GENESIS))"

section \<open>Files and operations\<close>

definition CHECKPOINT_VARIABLE :: string where
  "CHECKPOINT_VARIABLE = ''RANEX_HISTORY_CHECKPOINT''"

definition CHECKPOINT_TYPE :: string where
  "CHECKPOINT_TYPE = ''application/vnd.ranex.observation-checkpoint.v1+json''"

definition ANCHOR_ERROR :: string where
  "ANCHOR_ERROR = ''E-OBSERVATION-ANCHOR''"

definition MAX_CHECKPOINT_BYTES :: nat where
  "MAX_CHECKPOINT_BYTES = 64 * 1024"

definition anchor_error :: "string \<Rightarrow> exn" where
  "anchor_error m = ValueError (ANCHOR_ERROR @ '': '' @ m)"

text \<open>The surroundings of a call: environment, file system, and the arguments that name files.\<close>

record site =
  si_cwd :: string
  si_environ :: "string \<Rightarrow> string option"
  si_resolve :: "string \<Rightarrow> string"
  si_symlink :: "string \<Rightarrow> bool"
  si_evidence :: string
  si_checkpoint :: "string option"
  si_repository :: string

record store =
  st_checkpoint :: "bytes option"
  st_log :: "journal option"
  st_evidence :: "bytes option"

text \<open>An operation on the files: it returns or raises, and the files are as it left them.\<close>

type_synonym 'a file_op = "store \<Rightarrow> 'a result \<times> store"

definition then_do :: "'a file_op \<Rightarrow> ('a \<Rightarrow> 'b file_op) \<Rightarrow> 'b file_op" where
  "then_do m f st = (case m st of (Inl e, st') \<Rightarrow> (Inl e, st') | (Inr x, st') \<Rightarrow> f x st')"

definition pure :: "'a result \<Rightarrow> 'a file_op" where
  "pure r st = (r, st)"

definition reading :: "(store \<Rightarrow> 'a result) \<Rightarrow> 'a file_op" where
  "reading f st = (f st, st)"

definition checkpoint_path :: "site \<Rightarrow> string result" where
  "checkpoint_path si =
     (case (case si_checkpoint si of Some v \<Rightarrow> Some v | None \<Rightarrow> si_environ si CHECKPOINT_VARIABLE) of
        None \<Rightarrow> Inl (anchor_error (''configure an independently retained '' @ CHECKPOINT_VARIABLE))
      | Some raw \<Rightarrow>
          ensure (\<not> blank raw) (anchor_error (''configure an independently retained '' @ CHECKPOINT_VARIABLE)) (
          let path = absolute_path (si_cwd si) raw in
          ensure (is_absolute raw) (anchor_error ''checkpoint must have an absolute external path'') (
          ensure (\<not> is_relative_to (si_resolve si path) (si_resolve si (si_repository si)))
            (anchor_error ''checkpoint must be retained outside the candidate repository'') (
          ensure (\<not> si_symlink si path) (anchor_error ''checkpoint symlinks are refused'') (
          Inr path)))))"

definition log_id :: "site \<Rightarrow> string result" where
  "log_id si = bind (observations_path_for (si_evidence si)) (\<lambda>p. Inr (absolute_path (si_cwd si) p))"

definition checkpoint_record :: "string \<Rightarrow> string \<Rightarrow> nat \<Rightarrow> pyval" where
  "checkpoint_record lid h position =
     VDict [(''log_id'', VStr lid), (''head'', VStr h), (''position'', VInt (int position))]"

text \<open>\<open>read_results_artifact\<close> on the checkpoint: a regular file of at most the given size.\<close>

definition read_bounded :: "nat \<Rightarrow> bytes option \<Rightarrow> bytes result" where
  "read_bounded limit f =
     (case f of None \<Rightarrow> Inl (OSError ''No such file or directory'')
      | Some raw \<Rightarrow>
          ensure (length raw \<le> limit)
            (ValueError (''results artifact exceeds the '' @ show_nat limit @ '' byte limit'')) (Inr raw))"

text \<open>The body of the \<open>try\<close> in \<open>_read_checkpoint\<close>, and the handler around it.\<close>

definition decode_checkpoint :: "ed25519 \<Rightarrow> bytes option \<Rightarrow> string \<Rightarrow> pyval \<Rightarrow> pyval result" where
  "decode_checkpoint ed f expected_log_id public_key =
     bind (read_bounded MAX_CHECKPOINT_BYTES f) (\<lambda>raw.
     bind (json_loads_bytes raw) (\<lambda>envelope.
     ensure (closed_keys envelope [''payloadType'', ''payload'', ''signatures'']) (ValueError ''invalid envelope fields'') (
     let signatures = fld envelope ''signatures'' in
     ensure (is_list signatures \<and> length (items_of signatures) = 1 \<and> closed_keys (hd (items_of signatures)) [''sig''])
       (ValueError ''invalid checkpoint signatures'') (
     case verify_envelope ed envelope public_key (Some CHECKPOINT_TYPE) of
       None \<Rightarrow> Inl (ValueError ''invalid checkpoint signature'')
     | Some payload \<Rightarrow>
         bind (json_loads_bytes payload) (\<lambda>r.
         ensure (validate_checkpoint r) (ValueError ''invalid checkpoint record'') (
         bind (canonical_json_bytes r) (\<lambda>b.
         ensure (b = payload) (ValueError ''invalid checkpoint record'') (
         ensure (str_of (fld r ''log_id'') = expected_log_id)
           (ValueError ''checkpoint belongs to another observation log'') (
         Inr r)))))))))"

definition read_checkpoint :: "ed25519 \<Rightarrow> bytes option \<Rightarrow> string \<Rightarrow> pyval \<Rightarrow> pyval result" where
  "read_checkpoint ed f expected_log_id public_key =
     (case decode_checkpoint ed f expected_log_id public_key of
        Inl e \<Rightarrow> Inl (anchor_error (''cannot verify retained checkpoint: '' @ exn_text e))
      | Inr r \<Rightarrow> Inr r)"

definition read_anchor :: "ed25519 \<Rightarrow> site \<Rightarrow> pyval \<Rightarrow> store \<Rightarrow> pyval result" where
  "read_anchor ed si public_key st =
     bind (log_id si) (\<lambda>lid. read_checkpoint ed (st_checkpoint st) lid public_key)"

definition verify_bound_history ::
  "(bytes \<Rightarrow> bytes) \<Rightarrow> ed25519 \<Rightarrow> site \<Rightarrow> pyval \<Rightarrow> pyval \<Rightarrow> store \<Rightarrow> bool" where
  "verify_bound_history sha ed si anchor public_key st \<longleftrightarrow>
     validate_checkpoint anchor \<and>
     (case bind (checkpoint_path si) (\<lambda>path.
           let lid = str_of (fld anchor ''log_id'') in
           if \<not> is_relative_to (absolute_path (si_cwd si) lid) (absolute_path (si_cwd si) (si_repository si))
           then Inr False
           else
             bind (read_checkpoint ed (st_checkpoint st) lid public_key) (\<lambda>retained.
             if \<not> py_eq retained anchor then Inr False
             else
               bind (log_snapshot sha (st_log st) (Some (str_of (fld retained ''head'')))) (\<lambda>s.
               Inr (sn_head s = str_of (fld retained ''head'') \<and>
                 int (sn_position s) = int_of (fld retained ''position''))))) of
        Inl _ \<Rightarrow> False | Inr b \<Rightarrow> b)"

definition write_checkpoint :: "ed25519 \<Rightarrow> pyval \<Rightarrow> pyval \<Rightarrow> bool \<Rightarrow> unit file_op" where
  "write_checkpoint ed r private_key exclusive st =
     (case bind (canonical_json_bytes r) (\<lambda>payload.
           bind (sign_envelope ed CHECKPOINT_TYPE payload private_key) (\<lambda>envelope.
           canonical_json_bytes envelope)) of
        Inl e \<Rightarrow> (Inl e, st)
      | Inr b \<Rightarrow>
          if exclusive \<and> st_checkpoint st \<noteq> None then (Inl (OSError ''File exists''), st)
          else (Inr (), st\<lparr>st_checkpoint := Some (b @ [CHR 0x0A])\<rparr>))"

definition check_key :: "ed25519 \<Rightarrow> pyval \<Rightarrow> pyval \<Rightarrow> unit result" where
  "check_key ed private_key public_key =
     bind (public_key_for ed private_key) (\<lambda>p.
     ensure (VStr p = public_key)
       (anchor_error ''history signing key does not match the trusted verdict signer'') (Inr ()))"

definition anchored_snapshot :: "(bytes \<Rightarrow> bytes) \<Rightarrow> journal option \<Rightarrow> pyval \<Rightarrow> snapshot result" where
  "anchored_snapshot sha log retained =
     bind (log_snapshot sha log (Some (str_of (fld retained ''head'')))) (\<lambda>s.
     ensure (sn_head s = str_of (fld retained ''head'') \<and> int (sn_position s) = int_of (fld retained ''position''))
       (anchor_error ''history differs from the current signed checkpoint'') (Inr s))"

definition evidence_records :: "store \<Rightarrow> pyval list result" where
  "evidence_records st =
     (case st_evidence st of
        None \<Rightarrow> Inr []
      | Some raw \<Rightarrow>
          bind (json_loads_bytes raw) (\<lambda>v.
          ensure (is_list v) (ValueError ''evidence file must contain a JSON array'') (Inr (items_of v))))"

definition write_evidence :: "pyval list \<Rightarrow> unit file_op" where
  "write_evidence rs st =
     (case canonical_json_bytes (VList rs) of
        Inl e \<Rightarrow> (Inl e, st)
      | Inr b \<Rightarrow> (Inr (), st\<lparr>st_evidence := Some (b @ [CHR 0x0A])\<rparr>))"

definition connect :: "unit file_op" where
  "connect st = (Inr (), st\<lparr>st_log := Some (case st_log st of None \<Rightarrow> empty_journal | Some j \<Rightarrow> j)\<rparr>)"

text \<open>Reconciling a snapshot with the evidence file; a record the chain never held is refused.\<close>

definition chained_projection :: "snapshot \<Rightarrow> store \<Rightarrow> reconciliation result" where
  "chained_projection s st =
     bind (evidence_records st) (\<lambda>projection.
     bind (reconcile s projection) (\<lambda>rc.
     ensure (\<forall>item \<in> set projection. in_chain rc item)
       (ValueError ''E-OBSERVATION-CHAIN: projection includes unchained records'') (Inr rc)))"

definition bootstrap_history :: "(bytes \<Rightarrow> bytes) \<Rightarrow> ed25519 \<Rightarrow> site \<Rightarrow> pyval \<Rightarrow> pyval \<Rightarrow> unit file_op" where
  "bootstrap_history sha ed si private_key public_key =
     then_do (pure (checkpoint_path si)) (\<lambda>_.
     then_do (pure (check_key ed private_key public_key)) (\<lambda>_.
     then_do (reading (\<lambda>st. ensure (st_checkpoint st = None)
       (anchor_error ''bootstrap refuses an existing checkpoint'') (Inr ()))) (\<lambda>_.
     then_do (pure (log_id si)) (\<lambda>lid.
     then_do (reading (\<lambda>st. bind (evidence_records st) (\<lambda>rs.
       if rs \<noteq> [] then Inr False else bind (log_snapshot sha (st_log st) None) (\<lambda>s. Inr (sn_position s = 0))))) (\<lambda>empty.
     then_do (pure (ensure empty
       (anchor_error ''bootstrap requires empty history; retained history cannot be reset'') (Inr ()))) (\<lambda>_.
     then_do connect (\<lambda>_.
     write_checkpoint ed (checkpoint_record lid GENESIS 0) private_key True)))))))"

definition migrate_history :: "(bytes \<Rightarrow> bytes) \<Rightarrow> ed25519 \<Rightarrow> site \<Rightarrow> pyval \<Rightarrow> pyval \<Rightarrow> unit file_op" where
  "migrate_history sha ed si private_key public_key =
     then_do (pure (checkpoint_path si)) (\<lambda>_.
     then_do (pure (check_key ed private_key public_key)) (\<lambda>_.
     then_do (reading (\<lambda>st. ensure (st_checkpoint st = None)
       (anchor_error ''migration refuses an existing checkpoint'') (Inr ()))) (\<lambda>_.
     then_do (pure (log_id si)) (\<lambda>lid.
     then_do (reading (\<lambda>st. ensure (st_log st \<noteq> None)
       (anchor_error ''migration requires an existing observation log'') (Inr ()))) (\<lambda>_.
     then_do (reading (\<lambda>st. log_snapshot sha (st_log st) None)) (\<lambda>s.
     then_do (reading (chained_projection s)) (\<lambda>rc.
     then_do (write_checkpoint ed (checkpoint_record lid (sn_head s) (sn_position s)) private_key True) (\<lambda>_.
     write_evidence (rc_records rc)))))))))"

definition reconcile_anchored :: "(bytes \<Rightarrow> bytes) \<Rightarrow> ed25519 \<Rightarrow> site \<Rightarrow> pyval \<Rightarrow> store \<Rightarrow> reconciliation result" where
  "reconcile_anchored sha ed si public_key st =
     bind (checkpoint_path si) (\<lambda>_.
     bind (read_anchor ed si public_key st) (\<lambda>retained.
     bind (anchored_snapshot sha (st_log st) retained) (\<lambda>s.
     chained_projection s st)))"

definition append_observation :: "(bytes \<Rightarrow> bytes) \<Rightarrow> snapshot \<Rightarrow> pyval \<Rightarrow> journal_append file_op" where
  "append_observation sha s r st =
     (let j = (case st_log st of None \<Rightarrow> empty_journal | Some j \<Rightarrow> j) in
      case append_record_if_head sha j (if sn_position s \<noteq> 0 then Some (sn_head s) else None) r of
        Inl e \<Rightarrow> (Inl e, st\<lparr>st_log := Some j\<rparr>)
      | Inr (a, j') \<Rightarrow> (Inr a, st\<lparr>st_log := Some j'\<rparr>))"

text \<open>The filter of the list comprehension: the record's fields are looked up when an object is met.\<close>

definition supersedes :: "pyval \<Rightarrow> pyval \<Rightarrow> bool result" where
  "supersedes r item =
     (if \<not> is_dict item then Inr False
      else if \<not> has_key r ''claim_id'' then Inl (KeyError ''claim_id'')
      else if \<not> py_eq (fld item ''claim_id'') (fld r ''claim_id'') then Inr False
      else if \<not> has_key r ''producer_id'' then Inl (KeyError ''producer_id'')
      else Inr (py_eq (fld item ''producer_id'') (fld r ''producer_id'')))"

definition projection_with :: "pyval list \<Rightarrow> pyval \<Rightarrow> pyval list result" where
  "projection_with existing r =
     bind (map_result (supersedes r) existing) (\<lambda>flags.
     Inr (map fst (filter (\<lambda>p. \<not> snd p) (zip existing flags)) @ [r]))"

definition record_anchored ::
  "(bytes \<Rightarrow> bytes) \<Rightarrow> ed25519 \<Rightarrow> site \<Rightarrow> pyval \<Rightarrow> pyval \<Rightarrow> pyval \<Rightarrow> unit file_op" where
  "record_anchored sha ed si r private_key public_key =
     then_do (pure (checkpoint_path si)) (\<lambda>_.
     then_do (pure (check_key ed private_key public_key)) (\<lambda>_.
     then_do (reading (read_anchor ed si public_key)) (\<lambda>retained.
     then_do (reading (\<lambda>st. anchored_snapshot sha (st_log st) retained)) (\<lambda>s.
     then_do (reading (chained_projection s)) (\<lambda>existing.
     then_do (append_observation sha s r) (\<lambda>appended.
     then_do (pure (log_id si)) (\<lambda>lid.
     then_do (write_checkpoint ed (checkpoint_record lid (ja_head appended) (ja_position appended)) private_key False) (\<lambda>_.
     then_do (pure (projection_with (rc_records existing) r)) (\<lambda>kept.
     write_evidence kept)))))))))"

text \<open>The position at which a chain first reaches a head.\<close>

fun position_of :: "(bytes \<Rightarrow> bytes) \<Rightarrow> string \<Rightarrow> string \<Rightarrow> (nat \<times> pyval) list \<Rightarrow> nat option result" where
  "position_of sha target h [] = Inr None"
| "position_of sha target h ((position, r) # rs) =
     bind (sha256_text sha (linked h r)) (\<lambda>l.
     if l = target then Inr (Some position) else position_of sha target l rs)"

definition recover_history :: "(bytes \<Rightarrow> bytes) \<Rightarrow> ed25519 \<Rightarrow> site \<Rightarrow> pyval \<Rightarrow> pyval \<Rightarrow> unit file_op" where
  "recover_history sha ed si private_key public_key =
     then_do (pure (checkpoint_path si)) (\<lambda>_.
     then_do (pure (check_key ed private_key public_key)) (\<lambda>_.
     then_do (reading (read_anchor ed si public_key)) (\<lambda>retained.
     then_do (reading (\<lambda>st. log_snapshot sha (st_log st) (Some (str_of (fld retained ''head''))))) (\<lambda>s.
     then_do (pure (
       if int_of (fld retained ''position'') = 0 then Inr ()
       else bind (position_of sha (str_of (fld retained ''head'')) GENESIS (sn_records s)) (\<lambda>found.
         ensure (\<exists>p \<in> set_option found. int p = int_of (fld retained ''position''))
           (anchor_error ''retained checkpoint position changed'') (Inr ())))) (\<lambda>_.
     then_do (reading (chained_projection s)) (\<lambda>rc.
     then_do (pure (log_id si)) (\<lambda>lid.
     then_do (write_checkpoint ed (checkpoint_record lid (sn_head s) (sn_position s)) private_key False) (\<lambda>_.
     write_evidence (rc_records rc)))))))))"

section \<open>A log that grows\<close>

lemma snapshot_rows_append:
  assumes "snapshot_rows sha e ws ret s = Inr s'"
  shows "\<exists>kept. (kept' \<or> (ws \<noteq> [] \<and> e' = Some (sn_head s')) \<longrightarrow> kept) \<and>
    snapshot_rows sha e' (ws @ vs) kept' s = snapshot_rows sha e' vs kept s'"
  using assms
proof (induction ws arbitrary: ret kept' s)
  case Nil
  then show ?case by (intro exI [of _ kept']) auto
next
  case (Cons w ws)
  then obtain r where r: "json_loads (rw_record w) = Inr r" "sha256_text sha (linked (sn_head s) r) = Inr (rw_link w)"
    "rw_prev_link w = sn_head s" "is_dict r" "sn_position s < rw_seq w"
    and rest: "snapshot_rows sha e ws (ret \<or> e = Some (rw_link w))
      \<lparr>sn_records = sn_records s @ [(rw_seq w, r)], sn_head = rw_link w, sn_position = rw_seq w\<rparr> = Inr s'"
    by (auto simp: bind_Inr_iff split: sum.splits)
  have "ws = [] \<Longrightarrow> sn_head s' = rw_link w" using rest by auto
  then show ?case using Cons.IH [OF rest, of "kept' \<or> e' = Some (rw_link w)"] r by auto
qed

lemma verified_snapshot_snoc:
  assumes "verified_snapshot sha ws e = Inr s"
    and "json_loads (rw_record w) = Inr r" "is_dict r" "sha256_text sha (linked (sn_head s) r) = Inr (rw_link w)"
    and "rw_prev_link w = sn_head s" "sn_position s < rw_seq w"
    and "e' \<in> {None, Some (sn_head s), Some (rw_link w)}"
  shows "verified_snapshot sha (ws @ [w]) e' =
    Inr \<lparr>sn_records = sn_records s @ [(rw_seq w, r)], sn_head = rw_link w, sn_position = rw_seq w\<rparr>"
proof -
  obtain kept where k: "(e' = None \<or> e' = Some GENESIS) \<or> (ws \<noteq> [] \<and> e' = Some (sn_head s)) \<longrightarrow> kept"
    "snapshot_rows sha e' (ws @ [w]) (e' = None \<or> e' = Some GENESIS) empty_snapshot = snapshot_rows sha e' [w] kept s"
    using snapshot_rows_append [OF assms(1) [unfolded verified_snapshot_def],
      of "e' = None \<or> e' = Some GENESIS" e' "[w]"] by (elim exE conjE)
  have "kept \<or> e' = Some (rw_link w)"
    using k(1) assms(1,7) by (cases "ws = []") (auto simp: verified_snapshot_def empty_snapshot_def)
  then show ?thesis using assms(2-6) unfolding verified_snapshot_def k(2) by simp
qed

text \<open>A snapshot can be opened against the head it reports, and against none.\<close>

lemma same_snapshot:
  assumes "verified_snapshot sha ws e = Inr s" "e' \<in> {None, Some (sn_head s)}"
  shows "verified_snapshot sha ws e' = Inr s"
proof -
  obtain kept where "(e' = None \<or> e' = Some GENESIS) \<or> (ws \<noteq> [] \<and> e' = Some (sn_head s)) \<longrightarrow> kept"
    "snapshot_rows sha e' (ws @ []) (e' = None \<or> e' = Some GENESIS) empty_snapshot = snapshot_rows sha e' [] kept s"
    using snapshot_rows_append [OF assms(1) [unfolded verified_snapshot_def], of "e' = None \<or> e' = Some GENESIS" e' "[]"]
    by (elim exE conjE)
  moreover have "ws = [] \<Longrightarrow> sn_head s = GENESIS" using assms(1) by (auto simp: verified_snapshot_def empty_snapshot_def)
  ultimately show ?thesis using assms(2) by (auto simp: verified_snapshot_def)
qed

lemma appended_snapshot:
  assumes "verified_snapshot sha (jn_rows j) e = Inr s" "sn_position s \<le> jn_counter j"
    and "append_record_if_head sha j (if sn_position s \<noteq> 0 then Some (sn_head s) else None) r = Inr (a, j')"
    and "plain_record r" "is_dict r" and "e' \<in> {None, Some (sn_head s), Some (ja_head a)}"
  shows "verified_snapshot sha (jn_rows j') e' =
    Inr \<lparr>sn_records = sn_records s @ [(ja_position a, sort_keys r)], sn_head = ja_head a, sn_position = ja_position a\<rparr>"
    "ja_position a = Suc (jn_counter j)"
proof -
  have h: "head_or_genesis j = sn_head s"
    using verify_rows_link verified_snapshot_Inr(1) [OF assms(1)]
    by (fastforce simp: head_or_genesis_def head_def split: option.splits)
  obtain payload where p: "canonical_json r = Inr payload" "sha256_text sha (linked (sn_head s) r) = Inr (ja_head a)"
    "j' = insert_row j payload (sn_head s) (ja_head a)" "ja_position a = Suc (jn_counter j)"
    using assms(3) unfolding append_record_if_head_Inr append_record_Inr h
    by (metis journal_append.select_convs(1))
  have "json_loads payload = Inr (sort_keys r)"
    using p(1) assms(4) json_loads_canonical by (simp add: plain_record_def)
  moreover have "is_dict (sort_keys r)" using assms(5) by (cases r) auto
  ultimately show "verified_snapshot sha (jn_rows j') e' =
      Inr \<lparr>sn_records = sn_records s @ [(ja_position a, sort_keys r)], sn_head = ja_head a, sn_position = ja_position a\<rparr>"
    using p(2) assms(2,6) verified_snapshot_snoc [OF assms(1), of "last (jn_rows j')" "sort_keys r" e']
    by (simp add: p(3,4) insert_row_def linked_sort_keys)
qed (use assms(3) append_record_if_head_Inr in \<open>metis journal_append.select_convs(1)\<close>)

section \<open>Reading back what was written\<close>

lemma json_loads_bytes_line:
  assumes "ascii_val v" "wf_val v" "canonical_json_bytes v = Inr b"
  shows "json_loads_bytes (b @ [CHR 0x0A]) = Inr (sort_keys v)" "json_loads_bytes b = Inr (sort_keys v)"
proof -
  have c: "canonical_json v = Inr b" using assms(3) by (simp add: canonical_json_bytes_Inr)
  have "list_all is_ascii b" by (rule canonical_json_bytes_ascii [OF assms(1,3)])
  then have "utf8_ok (b @ [CHR 0x0A])" "utf8_ok b" by (auto intro!: utf8_ok_ascii simp: is_ascii_def)
  then show "json_loads_bytes (b @ [CHR 0x0A]) = Inr (sort_keys v)" "json_loads_bytes b = Inr (sort_keys v)"
    using json_loads_line [OF chars_val_no_float [OF assms(1)] assms(2) c]
      json_loads_canonical [OF c] chars_val_no_float [OF assms(1)] assms(2)
    by (simp_all add: json_loads_bytes_def)
qed

lemma checkpoint_sorted [simp]:
  "sort_keys (checkpoint_record lid h n) =
     VDict [(''head'', VStr h), (''log_id'', VStr lid), (''position'', VInt (int n))]"
  by (simp add: checkpoint_record_def list_less_def)

lemma checkpoint_fields [simp]:
  "fld (sort_keys (checkpoint_record lid h n)) ''head'' = VStr h"
  "fld (sort_keys (checkpoint_record lid h n)) ''position'' = VInt (int n)"
  "fld (sort_keys (checkpoint_record lid h n)) ''log_id'' = VStr lid"
  by (simp_all add: shape_simps)

text \<open>A log path of at most \<open>PATH_MAX\<close> ASCII characters, a digest, and an SQLite row number.\<close>

definition small_anchor :: "string \<Rightarrow> nat \<Rightarrow> bool" where
  "small_anchor lid n \<longleftrightarrow> length lid \<le> 4096 \<and> n < 2 ^ 63"

definition anchor_ok :: "string \<Rightarrow> string \<Rightarrow> nat \<Rightarrow> bool" where
  "anchor_ok lid h n \<longleftrightarrow> is_absolute lid \<and> list_all is_ascii lid \<and> is_digest h \<and> ((n = 0) = (h = GENESIS)) \<and> small_anchor lid n"

lemma anchor_ok_valid:
  assumes "anchor_ok lid h n"
  shows "validate_checkpoint (sort_keys (checkpoint_record lid h n))" "ascii_val (checkpoint_record lid h n)"
    "wf_val (checkpoint_record lid h n)"
proof -
  have "list_all is_ascii h" using assms by (auto simp: anchor_ok_def intro: digest_ascii)
  then show "ascii_val (checkpoint_record lid h n)"
    using assms by (simp add: checkpoint_record_def anchor_ok_def) (simp add: is_ascii_def)
  show "wf_val (checkpoint_record lid h n)" by (simp add: checkpoint_record_def)
  show "validate_checkpoint (sort_keys (checkpoint_record lid h n))"
    using assms by (auto simp: validate_checkpoint_def anchor_ok_def closed_keys_def keys_def shape_simps)
qed

lemma envelope_reads_back:
  assumes "ed25519_laws ed" "sign_envelope ed CHECKPOINT_TYPE payload priv = Inr envelope"
    and "public_key_for ed priv = Inr pub" "canonical_json_bytes envelope = Inr b"
  shows "json_loads_bytes (b @ [CHR 0x0A]) = Inr envelope"
    "verify_envelope ed envelope (VStr pub) (Some CHECKPOINT_TYPE) = Some payload"
    "closed_keys envelope [''payloadType'', ''payload'', ''signatures'']"
    "\<exists>sig. fld envelope ''signatures'' = VList [VDict [(''sig'', sig)]]"
proof -
  show "verify_envelope ed envelope (VStr pub) (Some CHECKPOINT_TYPE) = Some payload"
    by (rule signed_envelope [OF assms(1-3)]) simp
  obtain sig where e: "envelope = VDict [(''payload'', VStr (b64encode payload)), (''payloadType'', VStr CHECKPOINT_TYPE),
      (''signatures'', VList [VDict [(''sig'', VStr (b64encode sig))]])]"
    using assms(2) by (auto simp: sign_envelope_def bind_Inr_iff)
  have "ascii_val envelope" using b64encode_ascii by (simp add: e CHECKPOINT_TYPE_def) (simp add: is_ascii_def)
  moreover have "wf_val envelope" "sort_keys envelope = envelope" by (simp_all add: e list_less_def)
  ultimately show "json_loads_bytes (b @ [CHR 0x0A]) = Inr envelope"
    using json_loads_bytes_line(1) [OF _ _ assms(4)] by simp
qed (use assms(2) in \<open>auto simp: sign_envelope_def bind_Inr_iff closed_keys_def keys_def shape_simps\<close>)

text \<open>A checkpoint is far below the size limit of its reader.\<close>

lemma length_json_str: "length (json_str s) \<le> 6 * length s + 2"
proof -
  have "length (json_escape c) \<le> 6" for c by (simp add: json_escape_def hex2_def Let_def)
  then have "length (concat (map json_escape s)) \<le> 6 * length s"
    by (induction s) (auto intro: add_mono)
  then show ?thesis by (simp add: json_str_def)
qed

lemma length_b64encode: "3 * length (b64encode b) \<le> 4 * length b + 8"
proof (induction b rule: b64encode.induct)
  case (4 a b c r)
  then have "3 * length (b64encode r) \<le> 4 * length r + 8" by blast
  then show ?case by (simp add: Let_def)
qed (simp_all add: Let_def)

lemma json_escape_b64: "c \<in> set (b64encode b) \<Longrightarrow> json_escape c = [c]"
proof (induction b rule: b64encode.induct)
  have b: "43 \<le> (of_char (b64_char n) :: nat) \<and> (of_char (b64_char n) :: nat) \<noteq> 92" for n
    by (auto simp: b64_char_def)
  have "json_escape c = [c]" if "43 \<le> (of_char c :: nat) \<and> (of_char c :: nat) \<noteq> 92" for c
  proof -
    have "c \<noteq> d" if "(of_char d :: nat) < 43 \<or> (of_char d :: nat) = 92" for d
      using \<open>43 \<le> (of_char c :: nat) \<and> (of_char c :: nat) \<noteq> 92\<close> that by (cases "c = d") simp_all
    then have "c \<notin> {CHR 0x22, CHR 0x5C, CHR 0x0A, CHR 0x0D, CHR 0x09, CHR 0x0C, CHR 0x08}" by simp
    moreover have "\<not> (of_char c :: nat) < 32" using that by linarith
    ultimately show ?thesis unfolding json_escape_def by simp
  qed
  then have e: "json_escape (b64_char n) = [b64_char n]" for n using b by blast
  have p: "json_escape CHR ''='' = ''=''" by (simp add: json_escape_def)
  {
    case 1
    then show ?case by simp
  next
    case (2 a)
    then show ?case using e p by (auto simp: Let_def)
  next
    case (3 a b)
    then show ?case using e p by (auto simp: Let_def)
  next
    case (4 a b c r)
    then show ?case using e by (auto simp: Let_def)
  }
qed

lemma length_json_str_b64: "length (json_str (b64encode b)) = length (b64encode b) + 2"
proof -
  have "concat (map json_escape (b64encode b)) = concat (map (\<lambda>c. [c]) (b64encode b))"
    using json_escape_b64 by (metis (no_types, lifting) map_cong)
  then show ?thesis by (simp add: json_str_def)
qed

lemma checkpoint_payload_length:
  assumes "anchor_ok lid h n" "canonical_json_bytes (checkpoint_record lid h n) = Inr payload"
  shows "length payload \<le> 25200"
proof -
  have "payload = dumps (sort_keys (checkpoint_record lid h n))"
    using assms(2) by (auto simp: canonical_json_bytes_Inr canonical_json_def split: if_splits)
  moreover have "length h = 71" using assms(1) by (auto simp: anchor_ok_def is_digest_def is_hex64_def)
  moreover have "length (show_nat n) \<le> 19" using assms(1) by (intro length_show_nat) (auto simp: anchor_ok_def small_anchor_def)
  moreover have "length (json_str ''head'') \<le> 26" "length (json_str ''log_id'') \<le> 38" "length (json_str ''position'') \<le> 50"
    using length_json_str [of "''head''"] length_json_str [of "''log_id''"] length_json_str [of "''position''"] by simp_all
  ultimately show ?thesis
    using length_json_str [of lid] length_json_str [of h] assms(1) by (simp add: show_int_def anchor_ok_def small_anchor_def)
qed

lemma checkpoint_fits:
  assumes "ed25519_laws ed" "anchor_ok lid h n"
    and "write_checkpoint ed (checkpoint_record lid h n) priv ex st = (Inr (), st')" "st_checkpoint st' = Some f"
  shows "length f \<le> MAX_CHECKPOINT_BYTES"
proof -
  obtain payload envelope b where w: "canonical_json_bytes (checkpoint_record lid h n) = Inr payload"
    "sign_envelope ed CHECKPOINT_TYPE payload priv = Inr envelope" "canonical_json_bytes envelope = Inr b" "f = b @ [CHR 0x0A]"
    using assms(3,4) by (auto simp: write_checkpoint_def bind_Inr_iff split: sum.splits if_splits)
  obtain sig where sig: "envelope = VDict [(''payload'', VStr (b64encode payload)), (''payloadType'', VStr CHECKPOINT_TYPE),
      (''signatures'', VList [VDict [(''sig'', VStr (b64encode sig))]])]" "length sig = 64"
    using w(2) assms(1) by (auto simp: sign_envelope_def bind_Inr_iff decode_Inr_iff ed25519_laws_def)
  have "b = dumps envelope"
    using w(3) by (auto simp: sig(1) canonical_json_bytes_Inr canonical_json_def list_less_def split: if_splits)
  moreover have "length (json_str ''payload'') \<le> 50" "length (json_str ''payloadType'') \<le> 80"
    "length (json_str ''signatures'') \<le> 80" "length (json_str ''sig'') \<le> 20" "length (json_str CHECKPOINT_TYPE) \<le> 400"
    using length_json_str [of "''payload''"] length_json_str [of "''payloadType''"] length_json_str [of "''signatures''"]
      length_json_str [of "''sig''"] length_json_str [of CHECKPOINT_TYPE] by (simp_all add: CHECKPOINT_TYPE_def)
  ultimately show ?thesis
    using checkpoint_payload_length [OF assms(2) w(1)] length_b64encode [of payload] length_b64encode [of sig] sig(2)
    by (simp add: sig(1) w(4) length_json_str_b64 MAX_CHECKPOINT_BYTES_def)
qed

text \<open>What \<open>write_checkpoint\<close> stores, and that it is read back under the matching key.\<close>

lemma read_after_write:
  assumes "ed25519_laws ed" "public_key_for ed priv = Inr pub" "anchor_ok lid h n"
    and "write_checkpoint ed (checkpoint_record lid h n) priv ex st = (Inr (), st')"
  shows "read_checkpoint ed (st_checkpoint st') lid (VStr pub) = Inr (sort_keys (checkpoint_record lid h n))"
proof -
  obtain payload envelope b where w: "canonical_json_bytes (checkpoint_record lid h n) = Inr payload"
    "sign_envelope ed CHECKPOINT_TYPE payload priv = Inr envelope" "canonical_json_bytes envelope = Inr b"
    "st_checkpoint st' = Some (b @ [CHR 0x0A])"
    using assms(4) by (auto simp: write_checkpoint_def bind_Inr_iff split: sum.splits if_splits)
  note e = envelope_reads_back [OF assms(1) w(2) assms(2) w(3)]
  obtain sig where sig: "fld envelope ''signatures'' = VList [VDict [(''sig'', sig)]]" using e(4) by blast
  have "closed_keys (VDict [(''sig'', sig)]) [''sig'']" by (simp add: closed_keys_def keys_def)
  moreover have "json_loads_bytes payload = Inr (sort_keys (checkpoint_record lid h n))"
    by (rule json_loads_bytes_line(2) [OF anchor_ok_valid(2,3) [OF assms(3)] w(1)])
  moreover have "canonical_json_bytes (sort_keys (checkpoint_record lid h n)) = Inr payload"
    using w(1) canonical_json_bytes_cong [OF sort_keys_idem] by metis
  moreover have "validate_checkpoint (sort_keys (checkpoint_record lid h n))" by (rule anchor_ok_valid(1) [OF assms(3)])
  moreover have "read_bounded MAX_CHECKPOINT_BYTES (st_checkpoint st') = Inr (b @ [CHR 0x0A])"
    using checkpoint_fits [OF assms(1,3,4)] w(4) by (simp add: read_bounded_def)
  ultimately show ?thesis
    using e(1-3) sig by (simp add: read_checkpoint_def decode_checkpoint_def del: checkpoint_sorted)
qed

lemma evidence_after_write:
  assumes "write_evidence rs st = (Inr (), st')" "\<forall>r \<in> set rs. ascii_val r \<and> wf_val r"
  shows "evidence_records st' = Inr (map sort_keys rs)" "st_log st' = st_log st" "st_checkpoint st' = st_checkpoint st"
proof -
  obtain b where b: "canonical_json_bytes (VList rs) = Inr b" "st' = st\<lparr>st_evidence := Some (b @ [CHR 0x0A])\<rparr>"
    using assms(1) by (auto simp: write_evidence_def split: sum.splits)
  then show "evidence_records st' = Inr (map sort_keys rs)"
    using json_loads_bytes_line(1) [OF _ _ b(1)] assms(2) by (simp add: evidence_records_def)
qed (use assms(1) in \<open>auto simp: write_evidence_def split: sum.splits\<close>)

section \<open>Recording an observation\<close>

lemma then_do_Inr: "then_do m f st = (Inr y, st') \<longleftrightarrow> (\<exists>x st1. m st = (Inr x, st1) \<and> f x st1 = (Inr y, st'))"
  by (auto simp: then_do_def split: prod.splits sum.splits)

lemmas file_op_simps = then_do_Inr pure_def reading_def

lemma anchored_snapshot_Inr:
  "anchored_snapshot sha log retained = Inr s \<longleftrightarrow>
     log_snapshot sha log (Some (str_of (fld retained ''head''))) = Inr s \<and>
     sn_head s = str_of (fld retained ''head'') \<and> int (sn_position s) = int_of (fld retained ''position'')"
  by (auto simp: anchored_snapshot_def bind_Inr_iff)

lemma chained_projection_Inr:
  "chained_projection s st = Inr rc \<longleftrightarrow>
     (\<exists>ev. evidence_records st = Inr ev \<and> reconcile s ev = Inr rc \<and> (\<forall>item \<in> set ev. in_chain rc item))"
  by (auto simp: chained_projection_def bind_Inr_iff)

lemma reconcile_anchored_Inr:
  "reconcile_anchored sha ed si pub st = Inr rc \<longleftrightarrow>
     (\<exists>path retained s. checkpoint_path si = Inr path \<and> read_anchor ed si pub st = Inr retained \<and>
        anchored_snapshot sha (st_log st) retained = Inr s \<and> chained_projection s st = Inr rc)"
  by (auto simp: reconcile_anchored_def bind_Inr_iff)

text \<open>A record that names its claim and producer, and the place the log gives it.\<close>

definition observation :: "pyval \<Rightarrow> bool" where
  "observation r \<longleftrightarrow> record_key r \<noteq> None \<and> ascii_val r \<and> wf_val r"

lemma observation_facts:
  assumes "observation r"
  shows "is_dict r" "plain_record r" "record_key (sort_keys r) = record_key r" "observation (sort_keys r)"
proof -
  show "is_dict r" using assms by (auto simp: observation_def record_key_def split: pyval.splits if_splits)
  then obtain d where d: "r = VDict d" by (cases r) auto
  show "plain_record r" using assms chars_val_no_float by (auto simp: observation_def plain_record_def)
  have f: "fld (sort_keys r) k = sort_keys (fld r k)" for k
    using assms fld_sort_keys [of d k] unfolding observation_def d by blast
  show k: "record_key (sort_keys r) = record_key r"
    unfolding record_key_def f using d by (auto split: pyval.splits)
  show "observation (sort_keys r)"
    using assms k chars_val_sort_keys wf_val_sort_keys by (auto simp: observation_def)
qed

definition counter_covers :: "store \<Rightarrow> bool" where
  "counter_covers st \<longleftrightarrow> (\<forall>j. st_log st = Some j \<longrightarrow> (\<forall>w \<in> set (jn_rows j). rw_seq w \<le> jn_counter j))"

abbreviation grown :: "snapshot \<Rightarrow> journal_append \<Rightarrow> pyval \<Rightarrow> snapshot" where
  "grown s a r \<equiv> \<lparr>sn_records = sn_records s @ [(ja_position a, sort_keys r)], sn_head = ja_head a,
     sn_position = ja_position a\<rparr>"

lemma log_after_append:
  assumes "log_snapshot sha (st_log st) (Some h) = Inr s" "counter_covers st" "observation r"
    and "append_observation sha s r st = (Inr a, st1)"
  shows "\<And>e'. e' \<in> {None, Some (sn_head s), Some (ja_head a)} \<Longrightarrow> log_snapshot sha (st_log st1) e' = Inr (grown s a r)"
    "sn_position s < ja_position a"
    "st_checkpoint st1 = st_checkpoint st" "st_evidence st1 = st_evidence st"
proof -
  obtain j where j: "st_log st = Some j" "verified_snapshot sha (jn_rows j) (Some h) = Inr s"
    using assms(1) by (auto simp: log_snapshot_def split: option.splits)
  have c: "sn_position s \<le> jn_counter j"
    using verified_snapshot_Inr(5) [OF j(2)] assms(2) j(1) by (auto simp: counter_covers_def)
  obtain j' where a: "append_record_if_head sha j (if sn_position s \<noteq> 0 then Some (sn_head s) else None) r = Inr (a, j')"
    "st1 = st\<lparr>st_log := Some j'\<rparr>"
    using assms(4) j(1) by (auto simp: append_observation_def Let_def split: sum.splits)
  note g = appended_snapshot [OF j(2) c a(1) observation_facts(2,1) [OF assms(3)]]
  show "log_snapshot sha (st_log st1) e' = Inr (grown s a r)" if "e' \<in> {None, Some (sn_head s), Some (ja_head a)}" for e'
    using g(1) [OF that] by (simp add: a(2) log_snapshot_def)
  show "sn_position s < ja_position a" using g(2) [of None] c by simp
qed (use assms(4) in \<open>auto simp: append_observation_def Let_def split: sum.splits\<close>)

lemma anchored_view:
  assumes "checkpoint_path si = Inr path" "log_id si = Inr lid"
    and "read_checkpoint ed (st_checkpoint st) lid pub = Inr (sort_keys (checkpoint_record lid (sn_head s) (sn_position s)))"
    and "log_snapshot sha (st_log st) (Some (sn_head s)) = Inr s"
    and "evidence_records st = Inr ev" "\<forall>p \<in> set (sn_records s). record_key (snd p) \<noteq> None"
    and "\<forall>item \<in> set ev. identity item \<in> (\<lambda>p. identity (snd p)) ` set (sn_records s)"
  shows "\<exists>rc. reconcile_anchored sha ed si pub st = Inr rc \<and> reconcile s ev = Inr rc"
proof -
  obtain rc where rc: "reconcile s ev = Inr rc" using reconcile_total [OF assms(6)] by blast
  moreover have "anchored_snapshot sha (st_log st) (sort_keys (checkpoint_record lid (sn_head s) (sn_position s))) = Inr s"
    using assms(4) by (simp add: anchored_snapshot_Inr del: checkpoint_sorted)
  moreover have "chained_projection s st = Inr rc"
    using assms(5,7) rc reconcile_Inr(3) [OF rc] by (simp add: chained_projection_Inr)
  ultimately show ?thesis
    using assms(1-3) by (simp add: reconcile_anchored_Inr read_anchor_def del: checkpoint_sorted)
qed

text \<open>
  C32: A writer that dies between the append and the checkpoint leaves an uncertified observation in
  the log, and it is not judged: the readers refuse the history as differing from its checkpoint.
\<close>

theorem unsigned_suffix_refused:
  assumes "reconcile_anchored sha ed si pub st = Inr rc"
    and "read_anchor ed si pub st = Inr retained" and "anchored_snapshot sha (st_log st) retained = Inr s"
    and "counter_covers st" and "observation r"
    and "append_observation sha s r st = (Inr a, st1)"
  shows "reconcile_anchored sha ed si pub st1 =
    Inl (anchor_error ''history differs from the current signed checkpoint'')"
proof -
  have s: "log_snapshot sha (st_log st) (Some (sn_head s)) = Inr s" "str_of (fld retained ''head'') = sn_head s"
    "int_of (fld retained ''position'') = int (sn_position s)"
    using assms(3) by (simp_all add: anchored_snapshot_Inr)
  note g = log_after_append [OF s(1) assms(4-6)]
  have "read_anchor ed si pub st1 = Inr retained" using assms(2) g(3) by (simp add: read_anchor_def)
  moreover have "anchored_snapshot sha (st_log st1) retained =
      Inl (anchor_error ''history differs from the current signed checkpoint'')"
    using g(1) [of "Some (sn_head s)"] g(2) by (simp add: anchored_snapshot_def s(2,3))
  moreover obtain path where "checkpoint_path si = Inr path" using assms(1) by (auto simp: reconcile_anchored_Inr)
  ultimately show ?thesis by (simp add: reconcile_anchored_def)
qed

lemma write_checkpoint_frame:
  "write_checkpoint ed c priv ex st = (Inr (), st') \<Longrightarrow> st_log st' = st_log st \<and> st_evidence st' = st_evidence st"
  by (auto simp: write_checkpoint_def split: sum.splits if_splits)

lemma evidence_records_cong: "st_evidence st' = st_evidence st \<Longrightarrow> evidence_records st' = evidence_records st"
  by (simp add: evidence_records_def)

lemma latest_of_grown: "observation r \<Longrightarrow> latest_of (sn_records (grown s a r)) (the (record_key r)) = Some (ja_position a, sort_keys r)"
  by (simp add: latest_of_snoc observation_facts(3))

text \<open>
  A writer that dies after the checkpoint and before the projection loses nothing: the signed
  observation is restored from the log, and it is among the records to judge.
\<close>

lemma signed_observation_restored:
  assumes "ed25519_laws ed" and "public_key_for ed priv = Inr pub"
    and "reconcile_anchored sha ed si (VStr pub) st = Inr rc"
    and "read_anchor ed si (VStr pub) st = Inr retained" and "anchored_snapshot sha (st_log st) retained = Inr s"
    and "counter_covers st" and "observation r"
    and "append_observation sha s r st = (Inr a, st1)"
    and "log_id si = Inr lid" and "anchor_ok lid (ja_head a) (ja_position a)"
    and "write_checkpoint ed (checkpoint_record lid (ja_head a) (ja_position a)) priv False st1 = (Inr (), st2)"
  shows "\<exists>rc'. reconcile_anchored sha ed si (VStr pub) st2 = Inr rc' \<and>
    identity r \<in> identity ` set (rc_records rc') \<and> rc_head rc' = ja_head a \<and> rc_position rc' = ja_position a"
proof -
  have s: "log_snapshot sha (st_log st) (Some (sn_head s)) = Inr s" using assms(5) by (simp add: anchored_snapshot_Inr)
  note g = log_after_append [OF s assms(6-8)]
  obtain path ev where ev: "checkpoint_path si = Inr path" "evidence_records st = Inr ev" "reconcile s ev = Inr rc"
    "\<forall>item \<in> set ev. in_chain rc item"
    using assms(3-5) by (auto simp: reconcile_anchored_Inr chained_projection_Inr)
  have st2: "st_log st2 = st_log st1" "evidence_records st2 = Inr ev"
    using write_checkpoint_frame [OF assms(11)] ev(2) g(4) evidence_records_cong by metis+
  have "\<forall>p \<in> set (sn_records (grown s a r)). record_key (snd p) \<noteq> None"
    using reconcile_Inr(4) [OF ev(3)] observation_facts(4) [OF assms(7)] by (simp add: observation_def ball_Un del: not_None_eq)
  moreover have "\<forall>item \<in> set ev. identity item \<in> (\<lambda>p. identity (snd p)) ` set (sn_records (grown s a r))"
    using ev(4) unfolding reconcile_Inr(3) [OF ev(3)] by simp
  moreover have "log_snapshot sha (st_log st2) (Some (sn_head (grown s a r))) = Inr (grown s a r)"
    using g(1) by (simp add: st2)
  moreover have "read_checkpoint ed (st_checkpoint st2) lid (VStr pub) =
      Inr (sort_keys (checkpoint_record lid (sn_head (grown s a r)) (sn_position (grown s a r))))"
    using read_after_write [OF assms(1,2,10,11)] by simp
  ultimately obtain rc' where rc': "reconcile_anchored sha ed si (VStr pub) st2 = Inr rc'"
    "reconcile (grown s a r) ev = Inr rc'"
    using anchored_view [OF ev(1) assms(9) _ _ st2(2)] by blast
  have "identity (snd (ja_position a, sort_keys r)) \<in> identity ` set (rc_records rc')"
    by (rule conjunct1 [OF reconcile_view [OF rc'(2)], rule_format, OF latest_of_grown [OF assms(7)]])
  then have "identity r \<in> identity ` set (rc_records rc')" by simp
  then show ?thesis using rc' reconcile_Inr(1,2) [OF rc'(2)] by simp
qed

section \<open>Complete operations\<close>

lemma none_removed:
  assumes "reconcile s ev = Inr rc"
    and "\<And>key p. latest_of (sn_records s) key = Some p \<Longrightarrow> identity (snd p) \<in> identity ` set ev"
  shows "rc_removed rc = []"
proof -
  have "set (rc_removed rc) = {}"
    unfolding conjunct2 [OF conjunct2 [OF reconcile_view [OF assms(1)]]] using assms(2) by fastforce
  then show ?thesis by simp
qed

lemma latest_of_key:
  assumes "latest_of rs key = Some p" "\<forall>p \<in> set rs. record_key (snd p) \<noteq> None"
  shows "p \<in> set rs" "record_key (snd p) = Some key"
proof -
  have "(key, p) \<in> set (map (\<lambda>p. (the (record_key (snd p)), p)) rs)"
    using map_of_SomeD [OF assms(1) [unfolded latest_of_def]] by simp
  then show "p \<in> set rs" "record_key (snd p) = Some key" using assms(2) by fastforce+
qed

lemma identity_same_key:
  assumes "observation x" "observation y" "identity x = identity y"
  shows "record_key x = record_key y"
proof -
  obtain a b where ab: "canonical_json x = Inr a" "canonical_json y = Inr b"
    using assms(1,2) by (auto simp: observation_def canonical_json_def no_float_finite chars_val_no_float)
  then have "canonical_json y = Inr a" using assms(3) by (simp add: identity_def)
  then have "sort_keys x = sort_keys y"
    using json_loads_canonical [OF ab(1)] json_loads_canonical [of y a] observation_facts(2) [OF assms(1)]
      observation_facts(2) [OF assms(2)] by (simp add: plain_record_def)
  then show ?thesis using observation_facts(3) assms(1,2) by metis
qed

lemma supersedes_other:
  assumes "observation r" "record_key x \<noteq> None"
  shows "supersedes r x = Inr (record_key x = record_key r)"
proof -
  have k: "\<exists>c q. fld y ''claim_id'' = VStr c \<and> fld y ''producer_id'' = VStr q \<and> record_key y = Some (c, q) \<and> is_dict y"
    if "record_key y \<noteq> None" for y
    using that by (auto simp: record_key_def split: pyval.splits if_splits)
  have h: "has_key y k" if "fld y k = VStr c" for y k c
    using that by (auto simp: fld_def has_key_def keys_def split: option.splits dest!: map_of_SomeD intro: rev_image_eqI)
  from k [of r] k [OF assms(2)] assms(1) show ?thesis
    using h by (auto simp: supersedes_def observation_def)
qed

lemma projection_with_set:
  assumes "projection_with existing r = Inr kept" "observation r" "\<forall>x \<in> set existing. record_key x \<noteq> None"
  shows "set kept = insert r {x \<in> set existing. record_key x \<noteq> record_key r}"
proof -
  obtain flags where f: "list_all2 (\<lambda>x b. supersedes r x = Inr b) existing flags"
    "kept = map fst (filter (\<lambda>p. \<not> snd p) (zip existing flags)) @ [r]"
    using assms(1) by (auto simp: projection_with_def bind_Inr_iff map_result_Inr_iff)
  have "flags = map (\<lambda>x. record_key x = record_key r) existing"
    using f(1) assms(3)
  proof (induction rule: list_all2_induct)
    case (Cons x xs y ys)
    then show ?case using supersedes_other [OF assms(2)] by auto
  qed simp
  then have "map fst (filter (\<lambda>p. \<not> snd p) (zip existing flags)) = filter (\<lambda>x. record_key x \<noteq> record_key r) existing"
    by (induction existing arbitrary: flags) auto
  then show ?thesis by (auto simp: f(2))
qed

lemma judged_latest:
  assumes "reconcile s ev = Inr rc" "\<forall>item \<in> set ev. in_chain rc item"
  shows "i \<in> identity ` set (rc_records rc) \<longleftrightarrow> (\<exists>key p. latest_of (sn_records s) key = Some p \<and> i = identity (snd p))"
proof -
  note view = reconcile_view [OF assms(1)]
  have "\<forall>x \<in> set (rc_records rc). in_chain rc x"
    using reconcile_Inr(5) [OF assms(1)] assms(2) unfolding reconcile_Inr(3) [OF assms(1)] by blast
  then have "\<exists>key p. latest_of (sn_records s) key = Some p \<and> identity x = identity (snd p)" if "x \<in> set (rc_records rc)" for x
    using conjunct1 [OF conjunct2 [OF view], rule_format, OF that] that by simp
  moreover have "identity (snd p) \<in> identity ` set (rc_records rc)" if "latest_of (sn_records s) key = Some p" for key p
    by (rule conjunct1 [OF view, rule_format, OF that])
  ultimately show ?thesis by (auto simp del: split_paired_Ex)
qed

text \<open>The records judged for the other claims and producers.\<close>

lemma judged_others:
  assumes "reconcile s ev = Inr rc" "\<forall>item \<in> set ev. in_chain rc item"
    and "\<forall>p \<in> set (sn_records s). observation (snd p)" "\<forall>x \<in> set (rc_records rc). observation x"
  shows "(\<exists>y \<in> set (rc_records rc). record_key y \<noteq> Some k \<and> i = identity y) \<longleftrightarrow>
    (\<exists>key p. latest_of (sn_records s) key = Some p \<and> key \<noteq> k \<and> i = identity (snd p))"
proof -
  have same: "record_key y = Some key"
    if "latest_of (sn_records s) key = Some p" "y \<in> set (rc_records rc)" "identity y = identity (snd p)" for key p y
    using latest_of_key [OF that(1) reconcile_Inr(4) [OF assms(1)]] identity_same_key [OF _ _ that(3)] that(2) assms(3,4)
    by simp
  show ?thesis
  proof
    assume "\<exists>y \<in> set (rc_records rc). record_key y \<noteq> Some k \<and> i = identity y"
    then obtain y where y: "y \<in> set (rc_records rc)" "record_key y \<noteq> Some k" "i = identity y" by blast
    then obtain key p where "latest_of (sn_records s) key = Some p" "i = identity (snd p)"
      using judged_latest [OF assms(1,2), of i] by (auto simp del: split_paired_Ex)
    with same [OF this(1) y(1)] y show "\<exists>key p. latest_of (sn_records s) key = Some p \<and> key \<noteq> k \<and> i = identity (snd p)"
      by (intro exI [of _ key] exI [of _ p]) auto
  next
    assume "\<exists>key p. latest_of (sn_records s) key = Some p \<and> key \<noteq> k \<and> i = identity (snd p)"
    then obtain key p where p: "latest_of (sn_records s) key = Some p" "key \<noteq> k" "i = identity (snd p)" by blast
    then have "i \<in> identity ` set (rc_records rc)" unfolding judged_latest [OF assms(1,2)] by blast
    then obtain y where y: "y \<in> set (rc_records rc)" "i = identity y" by blast
    with same [OF p(1) y(1)] p show "\<exists>y \<in> set (rc_records rc). record_key y \<noteq> Some k \<and> i = identity y"
      by (intro bexI [of _ y]) auto
  qed
qed

lemma judged_grown:
  assumes "reconcile s ev = Inr rc" "\<forall>item \<in> set ev. in_chain rc item"
    and "reconcile (grown s a r) ev' = Inr rc'" "\<forall>item \<in> set ev'. in_chain rc' item"
    and "observation r" "\<forall>p \<in> set (sn_records s). observation (snd p)" "\<forall>x \<in> set (rc_records rc). observation x"
  shows "identity ` set (rc_records rc') =
    insert (identity r) {identity x | x. x \<in> set (rc_records rc) \<and> record_key x \<noteq> record_key r}"
proof -
  obtain k where k: "record_key r = Some k" using assms(5) by (auto simp: observation_def)
  have l: "latest_of (sn_records (grown s a r)) key =
      (if key = k then Some (ja_position a, sort_keys r) else latest_of (sn_records s) key)" for key
    by (simp add: latest_of_snoc observation_facts(3) [OF assms(5)] k)
  have "i \<in> identity ` set (rc_records rc') \<longleftrightarrow>
      i = identity r \<or> (\<exists>y \<in> set (rc_records rc). record_key y \<noteq> Some k \<and> i = identity y)" for i
    unfolding judged_latest [OF assms(3,4)] judged_others [OF assms(1,2,6,7)] l
    by (auto simp del: split_paired_Ex split: if_splits)
  then show ?thesis unfolding k by blast
qed

lemma check_key_Inr: "check_key ed priv (VStr pub) = Inr u \<longleftrightarrow> public_key_for ed priv = Inr pub"
  by (auto simp: check_key_def bind_Inr_iff)

lemma certified_write:
  assumes "ed25519_laws ed" "public_key_for ed priv = Inr pub" "checkpoint_path si = Inr path" "log_id si = Inr lid"
    and "anchor_ok lid (sn_head s) (sn_position s)"
    and "write_checkpoint ed (checkpoint_record lid (sn_head s) (sn_position s)) priv False st1 = (Inr (), st2)"
    and "write_evidence rs st2 = (Inr (), st3)" "\<forall>r \<in> set rs. observation r"
    and "log_snapshot sha (st_log st1) (Some (sn_head s)) = Inr s"
    and "\<forall>p \<in> set (sn_records s). record_key (snd p) \<noteq> None"
    and "\<forall>item \<in> set rs. identity item \<in> (\<lambda>p. identity (snd p)) ` set (sn_records s)"
  shows "\<exists>rc. reconcile_anchored sha ed si (VStr pub) st3 = Inr rc \<and> reconcile s (map sort_keys rs) = Inr rc"
proof -
  have e: "evidence_records st3 = Inr (map sort_keys rs)" "st_log st3 = st_log st2" "st_checkpoint st3 = st_checkpoint st2"
    using evidence_after_write [OF assms(7)] assms(8) by (auto simp: observation_def)
  have l: "log_snapshot sha (st_log st3) (Some (sn_head s)) = Inr s"
    using write_checkpoint_frame [OF assms(6)] assms(9) e(2) by simp
  have c: "read_checkpoint ed (st_checkpoint st3) lid (VStr pub) =
      Inr (sort_keys (checkpoint_record lid (sn_head s) (sn_position s)))"
    unfolding e(3) by (rule read_after_write [OF assms(1,2,5,6)])
  show ?thesis by (rule anchored_view [OF assms(3,4) c l e(1) assms(10)]) (use assms(11) in simp)
qed

text \<open>
  C31: An acknowledged observation is certified: after \<open>record_anchored\<close> returns, the history reads back
  under the new checkpoint, nothing counts as removed, the observation is judged, and so is
  everything that was judged before except what the observation supersedes.
\<close>

theorem acknowledged_observation_judged:
  assumes "ed25519_laws ed"
    and "reconcile_anchored sha ed si (VStr pub) st = Inr rc"
    and "read_anchor ed si (VStr pub) st = Inr retained" and "anchored_snapshot sha (st_log st) retained = Inr s"
    and "counter_covers st" and "observation r"
    and "\<forall>x \<in> set (rc_records rc) \<union> snd ` set (sn_records s). observation x"
    and "append_observation sha s r st = (Inr a, st1)"
    and "log_id si = Inr lid" and "anchor_ok lid (ja_head a) (ja_position a)"
    and "record_anchored sha ed si r priv (VStr pub) st = (Inr (), st')"
  shows "\<exists>rc'. reconcile_anchored sha ed si (VStr pub) st' = Inr rc' \<and> rc_removed rc' = [] \<and>
    rc_head rc' = ja_head a \<and> rc_position rc' = ja_position a \<and>
    identity ` set (rc_records rc') =
      insert (identity r) {identity x | x. x \<in> set (rc_records rc) \<and> record_key x \<noteq> record_key r}"
proof -
  let ?g = "grown s a r"
  have chained: "chained_projection s st = Inr rc" using assms(2-4) by (auto simp: reconcile_anchored_Inr)
  obtain path st2 kept where w: "checkpoint_path si = Inr path" "public_key_for ed priv = Inr pub"
    "write_checkpoint ed (checkpoint_record lid (ja_head a) (ja_position a)) priv False st1 = (Inr (), st2)"
    "projection_with (rc_records rc) r = Inr kept" "write_evidence kept st2 = (Inr (), st')"
    using assms(11) by (auto simp: record_anchored_def file_op_simps check_key_Inr assms(3,4,8,9) chained)
  obtain ev where ev: "evidence_records st = Inr ev" "reconcile s ev = Inr rc" "\<forall>item \<in> set ev. in_chain rc item"
    using chained by (auto simp: chained_projection_Inr)
  have s: "log_snapshot sha (st_log st) (Some (sn_head s)) = Inr s" using assms(4) by (simp add: anchored_snapshot_Inr)
  note g = log_after_append [OF s assms(5,6,8)]
  have kept: "set kept = insert r {x \<in> set (rc_records rc). record_key x \<noteq> record_key r}"
    using projection_with_set [OF w(4) assms(6)] assms(7) by (simp add: observation_def)
  have in_g: "\<forall>item \<in> set kept. identity item \<in> (\<lambda>p. identity (snd p)) ` set (sn_records ?g)"
    using reconcile_Inr(3,5) [OF ev(2)] ev(3) unfolding kept by fastforce
  have "\<forall>p \<in> set (sn_records ?g). record_key (snd p) \<noteq> None"
    using assms(6,7) observation_facts(4) by (auto simp: observation_def)
  then obtain rc' where rc': "reconcile_anchored sha ed si (VStr pub) st' = Inr rc'" "reconcile ?g (map sort_keys kept) = Inr rc'"
    using certified_write [OF assms(1) w(2,1) assms(9), of ?g st1 st2 kept st' sha] assms(6,7,10) w(3,5) g(1) in_g kept
    by auto
  have chain': "\<forall>item \<in> set (map sort_keys kept). in_chain rc' item"
    unfolding reconcile_Inr(3) [OF rc'(2)] using in_g by simp
  have judged: "identity ` set (rc_records rc') = identity ` set kept"
    using judged_grown [OF ev(2,3) rc'(2) chain' assms(6)] assms(7) kept by auto
  have "rc_removed rc' = []"
  proof (rule none_removed [OF rc'(2)])
    show "identity (snd p) \<in> identity ` set (map sort_keys kept)" if "latest_of (sn_records ?g) key = Some p" for key p
      using conjunct1 [OF reconcile_view [OF rc'(2)], rule_format, OF that] judged by (simp add: image_image)
  qed
  then show ?thesis using rc' judged kept reconcile_Inr(1,2) [OF rc'(2)] by (auto simp: image_iff)
qed

text \<open>The place a chain has after its first records, and the place \<open>position_of\<close> finds.\<close>

definition position_after :: "nat \<Rightarrow> snapshot \<Rightarrow> nat" where
  "position_after k s = last (0 # map fst (take k (sn_records s)))"

lemma position_of_chain:
  "position_of sha target h rs = Inr (Some p) \<Longrightarrow>
    \<exists>k. chain_head sha record_encoding h (take k (map snd rs)) = Inr target \<and> p = last (q # map fst (take k rs))"
proof (induction rs arbitrary: h q)
  case (Cons w rs)
  obtain n r where w: "w = (n, r)" by (cases w)
  obtain l where l: "sha256_text sha (linked h r) = Inr l" using Cons.prems w by (auto simp: bind_Inr_iff)
  then have step: "chain_link sha record_encoding h r = Inr l" by (simp add: record_link)
  show ?case
  proof (cases "l = target")
    case True
    then show ?thesis using Cons.prems l step by (intro exI [of _ 1]) (simp add: w)
  next
    case False
    then obtain k where "chain_head sha record_encoding l (take k (map snd rs)) = Inr target" "p = last (n # map fst (take k rs))"
      using Cons.IH [of l n] Cons.prems l w by auto
    then show ?thesis using step by (intro exI [of _ "Suc k"]) (simp add: w)
  qed
qed simp

lemma retained_valid:
  assumes "read_anchor ed si pub st = Inr retained"
  shows "validate_checkpoint retained"
proof -
  obtain lid where "read_checkpoint ed (st_checkpoint st) lid pub = Inr retained"
    using assms by (auto simp: read_anchor_def bind_Inr_iff)
  then have "decode_checkpoint ed (st_checkpoint st) lid pub = Inr retained"
    by (simp add: read_checkpoint_def split: sum.splits)
  then show ?thesis by (auto simp: decode_checkpoint_def Let_def bind_Inr_iff split: option.splits)
qed

lemma recover_history_Inr:
  assumes "recover_history sha ed si priv (VStr pub) st = (Inr (), st')"
  obtains path lid retained s k rc st2 where "checkpoint_path si = Inr path" "log_id si = Inr lid" "public_key_for ed priv = Inr pub"
    "read_anchor ed si (VStr pub) st = Inr retained"
    "log_snapshot sha (st_log st) None = Inr s" "log_snapshot sha (st_log st) (Some (sn_head s)) = Inr s"
    "chain_head sha record_encoding GENESIS (take k (map snd (sn_records s))) = Inr (str_of (fld retained ''head''))"
    "int (position_after k s) = int_of (fld retained ''position'')"
    "chained_projection s st = Inr rc"
    "write_checkpoint ed (checkpoint_record lid (sn_head s) (sn_position s)) priv False st = (Inr (), st2)"
    "write_evidence (rc_records rc) st2 = (Inr (), st')"
proof -
  obtain path lid retained s rc st2 where r: "checkpoint_path si = Inr path" "log_id si = Inr lid" "public_key_for ed priv = Inr pub"
    "read_anchor ed si (VStr pub) st = Inr retained"
    "log_snapshot sha (st_log st) (Some (str_of (fld retained ''head''))) = Inr s"
    "int_of (fld retained ''position'') = 0 \<or> (\<exists>p. position_of sha (str_of (fld retained ''head'')) GENESIS (sn_records s) = Inr (Some p) \<and>
       int p = int_of (fld retained ''position''))"
    "chained_projection s st = Inr rc"
    "write_checkpoint ed (checkpoint_record lid (sn_head s) (sn_position s)) priv False st = (Inr (), st2)"
    "write_evidence (rc_records rc) st2 = (Inr (), st')"
    using assms by (auto simp: recover_history_def file_op_simps check_key_Inr bind_Inr_iff split: if_split_asm)
  obtain k where "chain_head sha record_encoding GENESIS (take k (map snd (sn_records s))) = Inr (str_of (fld retained ''head''))"
    "int (position_after k s) = int_of (fld retained ''position'')"
  proof (cases "int_of (fld retained ''position'') = 0")
    case True
    then show thesis using retained_valid [OF r(4)] by (intro that [of 0]) (auto simp: validate_checkpoint_def position_after_def)
  next
    case False
    then show thesis using r(6) position_of_chain [where q = 0] that unfolding position_after_def by metis
  qed
  moreover obtain j where "st_log st = Some j" "verified_snapshot sha (jn_rows j) (Some (str_of (fld retained ''head''))) = Inr s"
    using r(5) by (auto simp: log_snapshot_def split: option.splits)
  then have "log_snapshot sha (st_log st) e = Inr s" if "e \<in> {None, Some (sn_head s)}" for e
    using same_snapshot [OF _ that] by (simp add: log_snapshot_def)
  ultimately show thesis using that [OF r(1-4) _ _ _ _ r(7-9)] by simp
qed

lemma recovered_view:
  assumes "ed25519_laws ed" "public_key_for ed priv = Inr pub" "checkpoint_path si = Inr path" "log_id si = Inr lid"
    and "anchor_ok lid (sn_head s) (sn_position s)" and "log_snapshot sha (st_log st) (Some (sn_head s)) = Inr s"
    and "evidence_records st = Inr es" "chained_projection s st = Inr rc"
    and "\<forall>p \<in> set (sn_records s). observation (snd p)" "\<forall>x \<in> set es. observation x"
    and "write_checkpoint ed (checkpoint_record lid (sn_head s) (sn_position s)) priv False st = (Inr (), st2)"
    and "write_evidence (rc_records rc) st2 = (Inr (), st')"
  shows "\<exists>rc'. reconcile_anchored sha ed si (VStr pub) st' = Inr rc' \<and> rc_removed rc' = [] \<and>
    rc_head rc' = sn_head s \<and> rc_position rc' = sn_position s \<and>
    (\<forall>key p. latest_of (sn_records s) key = Some p \<longrightarrow> identity (snd p) \<in> identity ` set (rc_records rc'))"
proof -
  have es: "reconcile s es = Inr rc" "\<forall>item \<in> set es. in_chain rc item"
    using assms(7,8) by (auto simp: chained_projection_Inr)
  have obs: "\<forall>x \<in> set (rc_records rc). observation x" using reconcile_Inr(5) [OF es(1)] assms(9,10) by auto
  have in_s: "\<forall>x \<in> set (rc_records rc). identity x \<in> (\<lambda>p. identity (snd p)) ` set (sn_records s)"
    using reconcile_Inr(3,5) [OF es(1)] es(2) by fastforce
  obtain rc' where rc': "reconcile_anchored sha ed si (VStr pub) st' = Inr rc'"
    "reconcile s (map sort_keys (rc_records rc)) = Inr rc'"
    using certified_write [OF assms(1-5,11,12) obs assms(6) reconcile_Inr(4) [OF es(1)] in_s] by blast
  have "rc_removed rc' = []"
  proof (rule none_removed [OF rc'(2)])
    show "identity (snd p) \<in> identity ` set (map sort_keys (rc_records rc))" if "latest_of (sn_records s) key = Some p" for key p
      using conjunct1 [OF reconcile_view [OF es(1)], rule_format, OF that] by (simp add: image_image)
  qed
  then show ?thesis
    using rc'(1) reconcile_Inr(1,2) [OF rc'(2)] conjunct1 [OF reconcile_view [OF rc'(2)]]
    by (intro exI [of _ rc'] conjI) assumption+
qed

text \<open>
  C33: Recovery certifies an extension of the certified history and nothing else. When
  \<open>recover_history\<close> returns, a checkpoint signed by the trusted key was there, and its head is the head
  that the verified log reaches after some of its records, at the position the checkpoint names. The log is
  unchanged; the new checkpoint certifies all of it, the projection is complete, and every latest record
  of the chain is judged. The hypotheses on what the log and the evidence hold say that the records
  name a claim and a producer and are ASCII, and that the new checkpoint is a valid one.
\<close>

theorem recovery_extends_certified:
  assumes "ed25519_laws ed"
    and "recover_history sha ed si priv (VStr pub) st = (Inr (), st')"
    and "\<And>lid s. log_id si = Inr lid \<Longrightarrow> log_snapshot sha (st_log st) None = Inr s \<Longrightarrow>
      anchor_ok lid (sn_head s) (sn_position s) \<and> (\<forall>p \<in> set (sn_records s). observation (snd p))"
    and "\<And>ev. evidence_records st = Inr ev \<Longrightarrow> \<forall>x \<in> set ev. observation x"
  shows "\<exists>retained s k rc'. read_anchor ed si (VStr pub) st = Inr retained \<and> log_snapshot sha (st_log st) None = Inr s \<and>
    chain_head sha record_encoding GENESIS (take k (map snd (sn_records s))) = Inr (str_of (fld retained ''head'')) \<and>
    int (position_after k s) = int_of (fld retained ''position'') \<and>
    st_log st' = st_log st \<and> reconcile_anchored sha ed si (VStr pub) st' = Inr rc' \<and> rc_removed rc' = [] \<and>
    rc_head rc' = sn_head s \<and> rc_position rc' = sn_position s \<and>
    (\<forall>key p. latest_of (sn_records s) key = Some p \<longrightarrow> identity (snd p) \<in> identity ` set (rc_records rc'))"
proof -
  obtain path lid retained s k rc st2 where w: "checkpoint_path si = Inr path" "log_id si = Inr lid" "public_key_for ed priv = Inr pub"
    and retained: "read_anchor ed si (VStr pub) st = Inr retained"
    and l: "log_snapshot sha (st_log st) None = Inr s" "log_snapshot sha (st_log st) (Some (sn_head s)) = Inr s"
    and k: "chain_head sha record_encoding GENESIS (take k (map snd (sn_records s))) = Inr (str_of (fld retained ''head''))"
      "int (position_after k s) = int_of (fld retained ''position'')"
    and c: "chained_projection s st = Inr rc"
    and cp: "write_checkpoint ed (checkpoint_record lid (sn_head s) (sn_position s)) priv False st = (Inr (), st2)"
    and ev: "write_evidence (rc_records rc) st2 = (Inr (), st')"
    using assms(2) by (rule recover_history_Inr)
  note good = assms(3) [OF w(2) l(1)]
  obtain es where es: "evidence_records st = Inr es" using c by (auto simp: chained_projection_Inr)
  have "st_log st' = st_log st"
    using write_checkpoint_frame [OF cp] ev by (auto simp: write_evidence_def split: sum.splits)
  then show ?thesis
    using recovered_view [OF assms(1) w(3,1,2) conjunct1 [OF good] l(2) es c conjunct2 [OF good] assms(4) [OF es] cp ev] retained l(1) k
    by (elim exE conjE) (intro exI [of _ retained] exI [of _ s] exI [of _ k] exI conjI; assumption)
qed

section \<open>Observations are accepted\<close>

lemma certified_head_ascii:
  assumes "read_anchor ed si pub st = Inr retained"
  shows "list_all is_ascii (str_of (fld retained ''head''))"
  using retained_valid [OF assms] by (auto simp: validate_checkpoint_def intro: digest_ascii)

lemma append_total:
  assumes "log_snapshot sha (st_log st) (Some (sn_head s)) = Inr s" "list_all is_ascii (sn_head s)" "observation r"
  shows "\<exists>a st1. append_observation sha s r st = (Inr a, st1)"
proof -
  obtain j where j: "st_log st = Some j" "verified_snapshot sha (jn_rows j) (Some (sn_head s)) = Inr s"
    using assms(1) by (auto simp: log_snapshot_def split: option.splits)
  note v = verified_snapshot_Inr [OF j(2)]
  have h: "head_or_genesis j = sn_head s" "head j = (if sn_position s \<noteq> 0 then Some (sn_head s) else None)"
    using verify_rows_link [OF v(1)] v(1,5,7) by (auto simp: head_or_genesis_def head_def)
  have "plain_val (linked (sn_head s) r)"
    using assms(2,3) ascii_val_plain by (auto simp: linked_def observation_def list_all_iff is_ascii_def)
  then obtain b where "canonical_json_bytes (linked (sn_head s) r) = Inr b" using canonical_json_bytes_plain by blast
  moreover obtain payload where "canonical_json r = Inr payload"
    using assms(3) by (auto simp: observation_def canonical_json_def no_float_finite chars_val_no_float)
  ultimately obtain link j' where "append_record sha j r = Inr (link, j')"
    by (auto simp: append_record_Inr h(1) sha256_text_def canonical_sha256_def)
  then have "append_record_if_head sha j (if sn_position s \<noteq> 0 then Some (sn_head s) else None) r =
      Inr (\<lparr>ja_position = Suc (jn_counter j), ja_previous_head = head_or_genesis j, ja_head = link\<rparr>, j')"
    unfolding append_record_if_head_Inr by (simp add: h(2))
  then show ?thesis by (simp add: append_observation_def j(1))
qed

lemma write_checkpoint_total:
  assumes "public_key_for ed priv = Inr pub" "anchor_ok lid h n" "ex \<longrightarrow> st_checkpoint st = None"
  shows "\<exists>b. write_checkpoint ed (checkpoint_record lid h n) priv ex st = (Inr (), st\<lparr>st_checkpoint := Some b\<rparr>)"
proof -
  obtain payload where p: "canonical_json_bytes (checkpoint_record lid h n) = Inr payload"
    using canonical_json_bytes_plain [OF ascii_val_plain [OF anchor_ok_valid(2) [OF assms(2)]]] by blast
  have "CHR 0xED \<notin> set CHECKPOINT_TYPE" by (simp add: CHECKPOINT_TYPE_def)
  then have "\<not> has_surrogate CHECKPOINT_TYPE" by (rule not_surrogate)
  then obtain sig where e: "sign_envelope ed CHECKPOINT_TYPE payload priv =
      Inr (VDict [(''payload'', VStr (b64encode payload)), (''payloadType'', VStr CHECKPOINT_TYPE),
        (''signatures'', VList [VDict [(''sig'', VStr (b64encode sig))]])])"
    using assms(1) by (auto simp: sign_envelope_def public_key_for_def bind_Inr_iff pae_def)
  have "ascii_val (VDict [(''payload'', VStr (b64encode payload)), (''payloadType'', VStr CHECKPOINT_TYPE),
      (''signatures'', VList [VDict [(''sig'', VStr (b64encode sig))]])])"
    using b64encode_ascii by (simp add: CHECKPOINT_TYPE_def) (simp add: is_ascii_def)
  from canonical_json_bytes_plain [OF ascii_val_plain [OF this]] show ?thesis
    using assms(3) by (auto simp: write_checkpoint_def p e)
qed

lemma write_evidence_total: "\<forall>r \<in> set rs. observation r \<Longrightarrow> \<exists>st'. write_evidence rs st = (Inr (), st')"
  using canonical_json_bytes_plain [of "VList rs"] ascii_val_plain by (auto simp: write_evidence_def observation_def)

lemma projection_with_total:
  assumes "observation r" "\<forall>x \<in> set existing. record_key x \<noteq> None"
  shows "\<exists>kept. projection_with existing r = Inr kept"
proof -
  have "map_result (supersedes r) existing = Inr (map (\<lambda>x. record_key x = record_key r) existing)"
    using assms(2) supersedes_other [OF assms(1)] by (simp add: map_result_Inr_iff list_all2_map2 list_all2_same)
  then show ?thesis by (simp add: projection_with_def)
qed

lemma recording_total:
  assumes "public_key_for ed priv = Inr pub"
    and "reconcile_anchored sha ed si (VStr pub) st = Inr rc"
    and "read_anchor ed si (VStr pub) st = Inr retained" and "anchored_snapshot sha (st_log st) retained = Inr s"
    and "observation r" and "\<forall>x \<in> set (rc_records rc). observation x"
    and "log_id si = Inr lid"
    and "\<And>a st1. append_observation sha s r st = (Inr a, st1) \<Longrightarrow> anchor_ok lid (ja_head a) (ja_position a)"
  shows "\<exists>st'. record_anchored sha ed si r priv (VStr pub) st = (Inr (), st')"
proof -
  obtain path where c: "checkpoint_path si = Inr path" "chained_projection s st = Inr rc"
    using assms(2-4) by (auto simp: reconcile_anchored_Inr)
  have s: "log_snapshot sha (st_log st) (Some (sn_head s)) = Inr s" "list_all is_ascii (sn_head s)"
    using assms(4) certified_head_ascii [OF assms(3)] by (simp_all add: anchored_snapshot_Inr)
  obtain a st1 where a: "append_observation sha s r st = (Inr a, st1)" using append_total [OF s assms(5)] by blast
  obtain st2 where st2: "write_checkpoint ed (checkpoint_record lid (ja_head a) (ja_position a)) priv False st1 = (Inr (), st2)"
    using write_checkpoint_total [OF assms(1) assms(8) [OF a], of False] by blast
  have keys: "\<forall>x \<in> set (rc_records rc). record_key x \<noteq> None" using assms(6) by (simp add: observation_def)
  obtain kept where k: "projection_with (rc_records rc) r = Inr kept" using projection_with_total [OF assms(5) keys] by blast
  have "\<forall>x \<in> set kept. observation x" using projection_with_set [OF k assms(5) keys] assms(5,6) by auto
  then obtain st' where "write_evidence kept st2 = (Inr (), st')" using write_evidence_total by blast
  then have "record_anchored sha ed si r priv (VStr pub) st = (Inr (), st')"
    by (simp add: record_anchored_def file_op_simps check_key_Inr c assms(1,3,4,7) a st2 k)
  then show ?thesis by blast
qed

text \<open>
  Recording does not get stuck: on a certified history, with the key that signs it, every
  well-formed observation is recorded, provided the digest of the new link is not the genesis value.
\<close>

lemma observation_accepted:
  assumes "public_key_for ed priv = Inr pub"
    and "reconcile_anchored sha ed si (VStr pub) st = Inr rc"
    and "read_anchor ed si (VStr pub) st = Inr retained" and "anchored_snapshot sha (st_log st) retained = Inr s"
    and "observation r" and "\<forall>x \<in> set (rc_records rc). observation x"
    and "log_id si = Inr lid"
    and "\<And>a st1. append_observation sha s r st = (Inr a, st1) \<Longrightarrow> anchor_ok lid (ja_head a) (ja_position a)"
  shows "\<exists>st'. record_anchored sha ed si r priv (VStr pub) st = (Inr (), st')"
  by (rule recording_total [OF assms])

section \<open>An interrupted recording is recovered\<close>

lemma position_of_append: "position_of sha target h rs = Inr (Some p) \<Longrightarrow> position_of sha target h (rs @ ts) = Inr (Some p)"
proof (induction rs arbitrary: h)
  case (Cons w rs)
  then show ?case by (cases w) (auto simp: bind_Inr_iff split: if_split_asm)
qed simp

lemma interrupted_recording_recovers:
  assumes "ed25519_laws ed" and "public_key_for ed priv = Inr pub"
    and "reconcile_anchored sha ed si (VStr pub) st = Inr rc"
    and "read_anchor ed si (VStr pub) st = Inr retained" and "anchored_snapshot sha (st_log st) retained = Inr s"
    and "counter_covers st" and "observation r"
    and "\<forall>p \<in> set (sn_records s). observation (snd p)" "\<And>ev. evidence_records st = Inr ev \<Longrightarrow> \<forall>x \<in> set ev. observation x"
    and "sn_position s = 0 \<or> position_of sha (sn_head s) GENESIS (sn_records s) = Inr (Some (sn_position s))"
    and "append_observation sha s r st = (Inr a, st1)"
    and "log_id si = Inr lid" and "anchor_ok lid (ja_head a) (ja_position a)"
  shows "\<exists>st' rc'. recover_history sha ed si priv (VStr pub) st1 = (Inr (), st') \<and>
    reconcile_anchored sha ed si (VStr pub) st' = Inr rc' \<and> rc_removed rc' = [] \<and>
    rc_head rc' = ja_head a \<and> rc_position rc' = ja_position a \<and> identity r \<in> identity ` set (rc_records rc')"
proof -
  let ?g = "grown s a r"
  have s: "log_snapshot sha (st_log st) (Some (sn_head s)) = Inr s" "str_of (fld retained ''head'') = sn_head s"
    "int_of (fld retained ''position'') = int (sn_position s)"
    using assms(5) by (simp_all add: anchored_snapshot_Inr)
  note g = log_after_append [OF s(1) assms(6,7,11)]
  obtain path ev where ev: "checkpoint_path si = Inr path" "evidence_records st = Inr ev" "reconcile s ev = Inr rc"
    "\<forall>item \<in> set ev. in_chain rc item"
    using assms(3-5) by (auto simp: reconcile_anchored_Inr chained_projection_Inr)
  have obs: "\<forall>p \<in> set (sn_records ?g). observation (snd p)"
    using assms(8) observation_facts(4) [OF assms(7)] by auto
  then have "\<forall>p \<in> set (sn_records ?g). record_key (snd p) \<noteq> None" by (auto simp: observation_def)
  then obtain rc1 where rc1: "reconcile ?g ev = Inr rc1" using reconcile_total by blast
  have e1: "evidence_records st1 = Inr ev" using ev(2) g(4) evidence_records_cong by metis
  have c: "chained_projection ?g st1 = Inr rc1"
    using e1 rc1 ev(4) unfolding chained_projection_Inr reconcile_Inr(3) [OF rc1] reconcile_Inr(3) [OF ev(3)] by auto
  have r: "read_anchor ed si (VStr pub) st1 = Inr retained" using assms(4) g(3) by (simp add: read_anchor_def)
  have "\<forall>x \<in> set (rc_records rc1). observation x"
    using reconcile_Inr(5) [OF rc1] assms(9) [OF ev(2)] obs by auto
  moreover obtain st2 where cp: "write_checkpoint ed (checkpoint_record lid (sn_head ?g) (sn_position ?g)) priv False st1 = (Inr (), st2)"
    using write_checkpoint_total [OF assms(2,13), of False st1] by auto
  ultimately obtain st' where w: "write_evidence (rc_records rc1) st2 = (Inr (), st')" using write_evidence_total by blast
  have "sn_position s = 0 \<or> position_of sha (sn_head s) GENESIS (sn_records ?g) = Inr (Some (sn_position s))"
    using assms(10) position_of_append by fastforce
  then have "recover_history sha ed si priv (VStr pub) st1 = (Inr (), st')"
    using g(1) [of "Some (sn_head s)"] cp w c
    by (auto simp: recover_history_def file_op_simps check_key_Inr ev(1) assms(2,12) r s(2,3))
  moreover have "log_snapshot sha (st_log st1) (Some (sn_head ?g)) = Inr ?g" using g(1) by simp
  note view = recovered_view [OF assms(1,2) ev(1) assms(12) _ this e1 c obs assms(9) [OF ev(2)] cp w]
  moreover have "identity (snd (ja_position a, sort_keys r)) = identity r" by simp
  ultimately show ?thesis using assms(13) latest_of_grown [OF assms(7), of s a] by fastforce
qed

section \<open>Witnesses\<close>

definition demo_site :: site where
  "demo_site = \<lparr>si_cwd = ''/'', si_environ = (\<lambda>_. None), si_resolve = (\<lambda>p. p), si_symlink = (\<lambda>_. False),
     si_evidence = ''/repo/governance/evidence.json'', si_checkpoint = Some ''/srv/anchor'', si_repository = ''/repo''\<rparr>"

abbreviation demo_log_id :: string where
  "demo_log_id \<equiv> ''/repo/governance/observations.sqlite3''"

lemma demo_paths:
  "checkpoint_path demo_site = Inr ''/srv/anchor''" "log_id demo_site = Inr demo_log_id"
  by code_simp+

lemma demo_anchor: "is_digest h \<Longrightarrow> (n = 0) = (h = GENESIS) \<Longrightarrow> n < 2 ^ 63 \<Longrightarrow> anchor_ok demo_log_id h n"
  by (simp add: anchor_ok_def small_anchor_def is_absolute_def) (simp add: is_ascii_def)

abbreviation toy_text :: pyval where
  "toy_text \<equiv> VStr (encode toy_key)"

lemma demo_observation_good: "observation demo_observation"
  by (simp add: observation_def demo_observation_def record_key_def fld_def) (simp add: is_ascii_def)

text \<open>The files after \<open>bootstrap_history\<close>.\<close>

lemma demo_bootstrap:
  obtains st where "bootstrap_history pad_sha toy_ed demo_site toy_text toy_text
      \<lparr>st_checkpoint = None, st_log = None, st_evidence = None\<rparr> = (Inr (), st)"
    "reconcile_anchored pad_sha toy_ed demo_site toy_text st =
      Inr \<lparr>rc_records = [], rc_removed = [], rc_chained = [], rc_head = GENESIS, rc_position = 0\<rparr>"
    "read_anchor toy_ed demo_site toy_text st = Inr (sort_keys (checkpoint_record demo_log_id GENESIS 0))"
    "anchored_snapshot pad_sha (st_log st) (sort_keys (checkpoint_record demo_log_id GENESIS 0)) = Inr empty_snapshot"
    "counter_covers st" "evidence_records st = Inr []" "st_log st = Some empty_journal"
proof -
  have anchor: "anchor_ok demo_log_id GENESIS 0"
    by (rule demo_anchor) (simp_all add: is_digest_def is_hex64_def GENESIS_def is_lower_hex_def list_all_iff)
  obtain b where w: "write_checkpoint toy_ed (checkpoint_record demo_log_id GENESIS 0) toy_text True
      \<lparr>st_checkpoint = None, st_log = Some empty_journal, st_evidence = None\<rparr> = (Inr (),
        \<lparr>st_checkpoint = Some b, st_log = Some empty_journal, st_evidence = None\<rparr>)" (is "_ = (_, ?st)")
    using write_checkpoint_total [OF demo_envelope_signed(2) anchor, of True
      "\<lparr>st_checkpoint = None, st_log = Some empty_journal, st_evidence = None\<rparr>"] by auto
  have "read_checkpoint toy_ed (st_checkpoint ?st) demo_log_id toy_text = Inr (sort_keys (checkpoint_record demo_log_id GENESIS 0))"
    by (rule read_after_write [OF toy_laws demo_envelope_signed(2) anchor w])
  then have r: "read_anchor toy_ed demo_site toy_text ?st = Inr (sort_keys (checkpoint_record demo_log_id GENESIS 0))"
    by (simp add: read_anchor_def demo_paths del: checkpoint_sorted)
  have s: "anchored_snapshot pad_sha (st_log ?st) (sort_keys (checkpoint_record demo_log_id GENESIS 0)) = Inr empty_snapshot"
    by (simp add: anchored_snapshot_Inr log_snapshot_def verified_snapshot_def empty_journal_def empty_snapshot_def
        del: checkpoint_sorted)
  have k: "check_key toy_ed toy_text toy_text = Inr ()" by (simp add: check_key_Inr demo_envelope_signed(2))
  show thesis
    using w r s by (intro that [of ?st]) (simp_all add: bootstrap_history_def then_do_def pure_def reading_def demo_paths k
        evidence_records_def log_snapshot_def connect_def counter_covers_def empty_journal_def
        reconcile_anchored_def chained_projection_def reconcile_def empty_snapshot_def del: checkpoint_sorted)
qed

lemma demo_appends_observation:
  assumes "read_anchor ed si pub st = Inr retained" "anchored_snapshot sha (st_log st) retained = Inr s"
  shows "\<exists>a st1. append_observation sha s demo_observation st = (Inr a, st1)"
  using append_total [OF _ _ demo_observation_good] certified_head_ascii [OF assms(1)] assms(2)
  by (simp add: anchored_snapshot_Inr)

lemma demo_append:
  assumes "append_observation pad_sha empty_snapshot demo_observation st = (Inr a, st1)" "st_log st = Some empty_journal"
  shows "anchor_ok demo_log_id (ja_head a) (ja_position a)"
proof -
  obtain j' where "append_record_if_head pad_sha empty_journal None demo_observation = Inr (a, j')"
    using assms by (auto simp: append_observation_def empty_snapshot_def split: sum.splits)
  then have a: "ja_position a = 1" "sha256_text pad_sha (linked GENESIS demo_observation) = Inr (ja_head a)"
    by (auto simp: append_record_if_head_Inr append_record_Inr empty_journal_def head_or_genesis_def head_def
        dest: arg_cong [where f = ja_position])
  then obtain b where "record_encoding GENESIS demo_observation = Inr b" "ja_head a = tagged pad_sha b"
    by (auto simp: sha256_text_Inr record_encoding_def tagged_def)
  then have "ja_head a \<noteq> GENESIS" using pad_sha_not_zero by (simp add: GENESIS_def)
  moreover have "is_digest (ja_head a)" using sha256_text_digest [OF a(2)] length_pad_sha by blast
  ultimately show ?thesis using a(1) by (intro demo_anchor) simp_all
qed

theorem unsigned_suffix_refused_witness:
  "\<exists>st a st1. append_observation pad_sha empty_snapshot demo_observation st = (Inr a, st1) \<and>
    reconcile_anchored pad_sha toy_ed demo_site toy_text st1 =
      Inl (anchor_error ''history differs from the current signed checkpoint'')"
proof -
  obtain st where st: "reconcile_anchored pad_sha toy_ed demo_site toy_text st =
      Inr \<lparr>rc_records = [], rc_removed = [], rc_chained = [], rc_head = GENESIS, rc_position = 0\<rparr>"
    "read_anchor toy_ed demo_site toy_text st = Inr (sort_keys (checkpoint_record demo_log_id GENESIS 0))"
    "anchored_snapshot pad_sha (st_log st) (sort_keys (checkpoint_record demo_log_id GENESIS 0)) = Inr empty_snapshot"
    "counter_covers st"
    by (rule demo_bootstrap)
  obtain a st1 where a: "append_observation pad_sha empty_snapshot demo_observation st = (Inr a, st1)"
    using demo_appends_observation [OF st(2,3)] by blast
  from unsigned_suffix_refused [OF st demo_observation_good a] a show ?thesis by blast
qed

lemma demo_recorded:
  obtains st st' a st1 where "reconcile_anchored pad_sha toy_ed demo_site toy_text st =
      Inr \<lparr>rc_records = [], rc_removed = [], rc_chained = [], rc_head = GENESIS, rc_position = 0\<rparr>"
    "read_anchor toy_ed demo_site toy_text st = Inr (sort_keys (checkpoint_record demo_log_id GENESIS 0))"
    "anchored_snapshot pad_sha (st_log st) (sort_keys (checkpoint_record demo_log_id GENESIS 0)) = Inr empty_snapshot"
    "counter_covers st" "append_observation pad_sha empty_snapshot demo_observation st = (Inr a, st1)"
    "anchor_ok demo_log_id (ja_head a) (ja_position a)"
    "record_anchored pad_sha toy_ed demo_site demo_observation toy_text toy_text st = (Inr (), st')"
proof -
  obtain st where st: "reconcile_anchored pad_sha toy_ed demo_site toy_text st =
      Inr \<lparr>rc_records = [], rc_removed = [], rc_chained = [], rc_head = GENESIS, rc_position = 0\<rparr>"
    "read_anchor toy_ed demo_site toy_text st = Inr (sort_keys (checkpoint_record demo_log_id GENESIS 0))"
    "anchored_snapshot pad_sha (st_log st) (sort_keys (checkpoint_record demo_log_id GENESIS 0)) = Inr empty_snapshot"
    "counter_covers st" "st_log st = Some empty_journal"
    by (rule demo_bootstrap)
  obtain a st1 where a: "append_observation pad_sha empty_snapshot demo_observation st = (Inr a, st1)"
    using demo_appends_observation [OF st(2,3)] by blast
  have "\<exists>st'. record_anchored pad_sha toy_ed demo_site demo_observation toy_text toy_text st = (Inr (), st')"
    by (rule recording_total [OF demo_envelope_signed(2) st(1-3) demo_observation_good _ demo_paths(2)])
      (use demo_append st(5) in auto)
  with st(1-4) a demo_append [OF a st(5)] show thesis using that by blast
qed

theorem acknowledged_observation_judged_witness:
  "\<exists>st' (a :: journal_append) rc'. reconcile_anchored pad_sha toy_ed demo_site toy_text st' = Inr rc' \<and> rc_removed rc' = [] \<and>
    rc_head rc' = ja_head a \<and> rc_position rc' = ja_position a \<and>
    identity ` set (rc_records rc') = insert (identity demo_observation) {}"
proof -
  obtain st st' a st1 where d: "reconcile_anchored pad_sha toy_ed demo_site toy_text st =
      Inr \<lparr>rc_records = [], rc_removed = [], rc_chained = [], rc_head = GENESIS, rc_position = 0\<rparr>"
    "read_anchor toy_ed demo_site toy_text st = Inr (sort_keys (checkpoint_record demo_log_id GENESIS 0))"
    "anchored_snapshot pad_sha (st_log st) (sort_keys (checkpoint_record demo_log_id GENESIS 0)) = Inr empty_snapshot"
    "counter_covers st" "append_observation pad_sha empty_snapshot demo_observation st = (Inr a, st1)"
    "anchor_ok demo_log_id (ja_head a) (ja_position a)"
    "record_anchored pad_sha toy_ed demo_site demo_observation toy_text toy_text st = (Inr (), st')"
    by (rule demo_recorded)
  show ?thesis
    using acknowledged_observation_judged [OF toy_laws d(1-4) demo_observation_good _ d(5) demo_paths(2) d(6,7)]
    by (auto simp: empty_snapshot_def)
qed

theorem recovery_extends_certified_witness:
  "\<exists>st a st1 st' rc'. append_observation pad_sha empty_snapshot demo_observation st = (Inr a, st1) \<and>
    recover_history pad_sha toy_ed demo_site toy_text toy_text st1 = (Inr (), st') \<and> st_log st' = st_log st1 \<and>
    reconcile_anchored pad_sha toy_ed demo_site toy_text st' = Inr rc' \<and> rc_removed rc' = [] \<and> rc_position rc' = 1"
proof -
  obtain st where st: "reconcile_anchored pad_sha toy_ed demo_site toy_text st =
      Inr \<lparr>rc_records = [], rc_removed = [], rc_chained = [], rc_head = GENESIS, rc_position = 0\<rparr>"
    "read_anchor toy_ed demo_site toy_text st = Inr (sort_keys (checkpoint_record demo_log_id GENESIS 0))"
    "anchored_snapshot pad_sha (st_log st) (sort_keys (checkpoint_record demo_log_id GENESIS 0)) = Inr empty_snapshot"
    "counter_covers st" "evidence_records st = Inr []" "st_log st = Some empty_journal"
    by (rule demo_bootstrap)
  obtain a st1 where a: "append_observation pad_sha empty_snapshot demo_observation st = (Inr a, st1)"
    using demo_appends_observation [OF st(2,3)] by blast
  have "log_snapshot pad_sha (st_log st) (Some (sn_head empty_snapshot)) = Inr empty_snapshot"
    using st(3) by (simp add: anchored_snapshot_Inr)
  note g = log_after_append [OF this st(4) demo_observation_good a]
  have none: "log_snapshot pad_sha (st_log st1) None = Inr (grown empty_snapshot a demo_observation)" using g(1) by simp
  have e1: "evidence_records st1 = Inr []" using st(5) g(4) evidence_records_cong by metis
  obtain st' where r: "recover_history pad_sha toy_ed demo_site toy_text toy_text st1 = (Inr (), st')"
    using interrupted_recording_recovers [OF toy_laws demo_envelope_signed(2) st(1-4) demo_observation_good _ _ _ a demo_paths(2)
        demo_append [OF a st(6)]] st(5)
    by (auto simp: empty_snapshot_def)
  have good: "anchor_ok lid (sn_head t) (sn_position t) \<and> (\<forall>p \<in> set (sn_records t). observation (snd p))"
    if "log_id demo_site = Inr lid" "log_snapshot pad_sha (st_log st1) None = Inr t" for lid t
    using that demo_paths(2) none demo_append [OF a st(6)] observation_facts(4) [OF demo_observation_good]
    by (auto simp: empty_snapshot_def)
  obtain j' where "append_record_if_head pad_sha empty_journal None demo_observation = Inr (a, j')"
    using a st(6) by (auto simp: append_observation_def empty_snapshot_def split: sum.splits)
  then have "ja_position a = 1"
    by (auto simp: append_record_if_head_Inr empty_journal_def dest: arg_cong [where f = ja_position])
  with recovery_extends_certified [OF toy_laws r good] e1 none a r show ?thesis by fastforce
qed

end
