(* ===== verification/Spec_Abc.thy ===== *)
theory Spec_Abc
  imports Dsse
begin

text \<open>
  The frozen A/B/C specification contracts
  (\<^verbatim>\<open>src/src/ranex/foundation/specification_abc.py\<close>): the strict JSON profile, canonical payload
  bytes and digests, the validators of the spec packet (A), the artifact manifest (B) and the
  approval envelope (C), and the check that they form one chain. The error registry, a committed
  JSON file, is loaded by \<open>load_error_registry\<close> and passed as an argument. Messages that the JSON
  and codec libraries compose are left out.
\<close>

section \<open>Error registry\<close>

definition SPEC_PACKET_PAYLOAD_TYPE :: string where
  "SPEC_PACKET_PAYLOAD_TYPE = ''application/vnd.ranex.spec-packet.v1+json''"

definition MANIFEST_PAYLOAD_TYPE :: string where
  "MANIFEST_PAYLOAD_TYPE = ''application/vnd.ranex.generated-artifact-manifest.v1+json''"

definition APPROVAL_PAYLOAD_TYPE :: string where
  "APPROVAL_PAYLOAD_TYPE = ''application/vnd.ranex.approval-envelope.v1+json''"

definition MAX_SAFE_INTEGER :: int where
  "MAX_SAFE_INTEGER = 2 ^ 53 - 1"

definition REGISTRY_FAILURE_CODE :: string where
  "REGISTRY_FAILURE_CODE = ''E-ABC-000''"

definition closed_field_sets :: "(string \<times> string list) list" where
  "closed_field_sets =
    [(''spec_packet'', [''version'', ''domain'', ''task'', ''revision'', ''semantics'', ''scope'', ''answers'',
        ''observable_outcomes'', ''non_goals'', ''oracle_provenance'', ''ids'']),
     (''scope'', [''include'', ''exclude'']),
     (''ids'', [''question'', ''rule'', ''transition'', ''outcome'', ''error'', ''test'', ''mapping'']),
     (''manifest'', [''version'', ''domain'', ''a_digest'', ''artifacts'', ''exemptions'']),
     (''artifacts'', [''pseudocode_flow'', ''protected'', ''invocation'', ''expected_values'', ''baselines'',
        ''negative_controls'', ''trace_projections'', ''sidecars'']),
     (''invocation'', [''argv'']),
     (''artifact_row'', [''path'', ''digest'']),
     (''exemption_row'', [''path'', ''class'', ''reason'', ''why_no_discriminating_red'']),
     (''envelope'', [''version'', ''payload_type'', ''payload'', ''key_id'', ''signature'']),
     (''approval_payload'', [''version'', ''domain'', ''task'', ''revision'', ''subject_digest'', ''base_digest'',
        ''a_digest'', ''b_digest'', ''principal'', ''key'', ''role'', ''nonce'', ''journal_predecessor'', ''time_window'',
        ''capability_request'', ''profile_digests'']),
     (''time_window'', [''not_before'', ''not_after'']),
     (''capability_request'', [''executable'', ''argv'', ''cwd'', ''roots'', ''actions'', ''environment'', ''network'',
        ''secret'', ''commit'', ''subagent'']),
     (''environment'', [''allow'']),
     (''network'', [''allow'', ''hosts'']),
     (''secret'', [''allow'', ''names'']),
     (''commit'', [''allow'']),
     (''subagent'', [''allow'', ''max_children'']),
     (''profile_digests'', [''base'', ''policy'', ''generator'', ''harness''])]"

abbreviation field_set :: "string \<Rightarrow> string list" where
  "field_set name \<equiv> the (map_of closed_field_sets name)"

record registry =
  rg_errors :: "(string \<times> pyval) list"
  rg_check_order :: "string list"

definition hashable :: "pyval \<Rightarrow> bool" where
  "hashable v \<longleftrightarrow> \<not> is_list v \<and> \<not> is_dict v"

definition registry_new :: "bytes \<Rightarrow> registry result" where
  "registry_new raw =
     (case json_loads_bytes raw of
        Inl _ \<Rightarrow> Inl (ValueError ''invalid specification error registry'')
      | Inr value \<Rightarrow>
          let bad = ValueError ''invalid specification error registry'';
              errors = fld value ''errors''; precedence = fld value ''precedence''; check_order = fld value ''check_order'' in
          ensure (is_dict value \<and> fld value ''version'' = VStr ''ranex-specification-error-registry-v1'') bad (
          ensure (is_dict errors \<and> is_list precedence \<and> is_list check_order) bad (
          ensure (list_all hashable (items_of precedence)) (TypeError ''unhashable type'') (
          ensure (set (items_of precedence) = VStr ` set (keys errors)) bad (
          ensure (list_all hashable (items_of check_order)) (TypeError ''unhashable type'') (
          ensure (set (items_of check_order) = VStr ` set (keys errors) \<and>
              length (items_of precedence) = length (keys errors) \<and> length (items_of check_order) = length (keys errors) \<and>
              items_of precedence = items_of check_order) bad (
          ensure (\<forall>name \<in> set (items_of precedence).
              is_dict (fld errors (str_of name)) \<and> is_str (fld (fld errors (str_of name)) ''code'')) bad (
          Inr \<lparr>rg_errors = dict_of errors, rg_check_order = map str_of (items_of check_order)\<rparr>))))))))"

definition load_error_registry :: "bytes \<Rightarrow> registry result" where
  "load_error_registry raw = registry_new raw"

text \<open>\<open>f"{v}"\<close>.\<close>

definition py_str :: "pyval \<Rightarrow> string" where
  "py_str v = (case v of VStr s \<Rightarrow> s | _ \<Rightarrow> py_repr v)"

text \<open>What \<open>refuse\<close> raises: \<open>SpecificationABCError\<close> with its code and detail is a \<open>Refusal\<close>.\<close>

definition refuse :: "registry \<Rightarrow> string \<Rightarrow> string \<Rightarrow> exn" where
  "refuse reg name detail =
     (case map_of (rg_errors reg) name of
        None \<Rightarrow> Refusal REGISTRY_FAILURE_CODE (''error registry has no entry for '' @ repr_str name)
      | Some entry \<Rightarrow>
          if has_key entry ''message''
          then Refusal (str_of (fld entry ''code'')) (py_str (fld entry ''message'') @ '': '' @ detail)
          else KeyError ''message'')"

type_synonym failures = "(string \<times> string) list"

definition refuse_first :: "registry \<Rightarrow> failures \<Rightarrow> exn" where
  "refuse_first reg fs =
     (case find (\<lambda>name. name \<in> fst ` set fs) (rg_check_order reg) of
        Some name \<Rightarrow> refuse reg name (the (map_of fs name))
      | None \<Rightarrow> Refusal REGISTRY_FAILURE_CODE ''no registered failure candidate'')"

definition add_failure :: "failures \<Rightarrow> string \<Rightarrow> string \<Rightarrow> failures" where
  "add_failure fs name detail = (if name \<in> fst ` set fs then fs else fs @ [(name, detail)])"

definition extend_failures :: "failures \<Rightarrow> failures \<Rightarrow> failures" where
  "extend_failures fs gs = foldl (\<lambda>a p. add_failure a (fst p) (snd p)) fs gs"

definition refuse_if_any :: "registry \<Rightarrow> failures \<Rightarrow> unit result" where
  "refuse_if_any reg fs = (if fs \<noteq> [] then Inl (refuse_first reg fs) else Inr ())"

section \<open>Strict JSON\<close>

datatype strict_error = Malformed | DuplicateMember string | PlainNumber | IntegerRange string

text \<open>\<open>_pairs\<close>, \<open>_integer\<close>, \<open>_float\<close> and \<open>_constant\<close>: the hooks that \<open>json.loads\<close> calls.\<close>

fun pairs :: "(string \<times> pyval) list \<Rightarrow> (string \<times> pyval) list \<Rightarrow> strict_error + (string \<times> pyval) list" where
  "pairs acc [] = Inr acc"
| "pairs acc ((k, v) # ps) = (if k \<in> fst ` set acc then Inl (DuplicateMember k) else pairs (acc @ [(k, v)]) ps)"

text \<open>\<open>int\<close> itself refuses more than 4300 digits.\<close>

definition integer_token :: "string \<Rightarrow> strict_error + int" where
  "integer_token token =
     (if token = ''-0'' then Inl PlainNumber
      else
        (let neg = (take 1 token = ''-''); digits = (if neg then drop 1 token else token) in
         if 4300 < length digits then Inl Malformed
         else
           (let i = (if neg then - nat_of_digits digits else nat_of_digits digits) in
            if \<bar>i\<bar> > MAX_SAFE_INTEGER then Inl (IntegerRange token) else Inr i)))"

definition strict_number :: "string \<Rightarrow> strict_error + (pyval \<times> string)" where
  "strict_number s =
     (case scan_number s of
        None \<Rightarrow> Inl Malformed
      | Some (VInt _, r) \<Rightarrow>
          (case integer_token (take (length s - length r) s) of Inl e \<Rightarrow> Inl e | Inr i \<Rightarrow> Inr (VInt i, r))
      | Some _ \<Rightarrow> Inl PlainNumber)"

fun strict_value :: "nat \<Rightarrow> string \<Rightarrow> strict_error + (pyval \<times> string)"
  and strict_array :: "nat \<Rightarrow> string \<Rightarrow> strict_error + (pyval list \<times> string)"
  and strict_object :: "nat \<Rightarrow> string \<Rightarrow> strict_error + ((string \<times> pyval) list \<times> string)"
where
  "strict_value 0 s = Inl Malformed"
| "strict_value (Suc n) s =
     (case s of
        [] \<Rightarrow> Inl Malformed
      | c # r \<Rightarrow>
          if c = CHR 0x22 then (case scan_string r of None \<Rightarrow> Inl Malformed | Some (t, r') \<Rightarrow> Inr (VStr t, r'))
          else if c = CHR 0x7B then
            (case skip_ws r of
               [] \<Rightarrow> Inl Malformed
             | d # r' \<Rightarrow> if d = CHR 0x7D then Inr (VDict [], r')
                 else (case strict_object n (d # r') of
                    Inl e \<Rightarrow> Inl e
                  | Inr (ps, r2) \<Rightarrow> (case pairs [] ps of Inl e \<Rightarrow> Inl e | Inr d \<Rightarrow> Inr (VDict d, r2))))
          else if c = CHR 0x5B then
            (case skip_ws r of
               [] \<Rightarrow> Inl Malformed
             | d # r' \<Rightarrow> if d = CHR 0x5D then Inr (VList [], r')
                 else (case strict_array n (d # r') of Inl e \<Rightarrow> Inl e | Inr (xs, r2) \<Rightarrow> Inr (VList xs, r2)))
          else if starts_with ''null'' s then Inr (VNone, drop 4 s)
          else if starts_with ''true'' s then Inr (VBool True, drop 4 s)
          else if starts_with ''false'' s then Inr (VBool False, drop 5 s)
          else if starts_with ''NaN'' s \<or> starts_with ''Infinity'' s \<or> starts_with ''-Infinity'' s then Inl PlainNumber
          else strict_number s)"
| "strict_array 0 s = Inl Malformed"
| "strict_array (Suc n) s =
     (case strict_value n s of
        Inl e \<Rightarrow> Inl e
      | Inr (v, r) \<Rightarrow>
          (case skip_ws r of
             [] \<Rightarrow> Inl Malformed
           | c # r' \<Rightarrow>
               if c = CHR 0x5D then Inr ([v], r')
               else if c = CHR '','' then
                 (case strict_array n (skip_ws r') of Inl e \<Rightarrow> Inl e | Inr (vs, r2) \<Rightarrow> Inr (v # vs, r2))
               else Inl Malformed))"
| "strict_object 0 s = Inl Malformed"
| "strict_object (Suc n) s =
     (case s of
        [] \<Rightarrow> Inl Malformed
      | c # s' \<Rightarrow>
          if c \<noteq> CHR 0x22 then Inl Malformed
          else (case scan_string s' of
             None \<Rightarrow> Inl Malformed
           | Some (k, r) \<Rightarrow>
               (case skip_ws r of
                  [] \<Rightarrow> Inl Malformed
                | d # r' \<Rightarrow>
                    if d \<noteq> CHR '':'' then Inl Malformed
                    else (case strict_value n (skip_ws r') of
                       Inl e \<Rightarrow> Inl e
                     | Inr (v, r2) \<Rightarrow>
                         (case skip_ws r2 of
                            [] \<Rightarrow> Inl Malformed
                          | e # r3 \<Rightarrow>
                              if e = CHR 0x7D then Inr ([(k, v)], r3)
                              else if e = CHR '','' then
                                (case strict_object n (skip_ws r3) of Inl e \<Rightarrow> Inl e | Inr (ps, r4) \<Rightarrow> Inr ((k, v) # ps, r4))
                              else Inl Malformed)))))"

definition strict_loads :: "string \<Rightarrow> strict_error + pyval" where
  "strict_loads s =
     (case strict_value (Suc (length s)) (skip_ws s) of
        Inl e \<Rightarrow> Inl e
      | Inr (v, r) \<Rightarrow> if skip_ws r = [] then Inr v else Inl Malformed)"

text \<open>The code points of well-formed UTF-8, each as its bytes.\<close>

fun code_points :: "bytes \<Rightarrow> string list" where
  "code_points [] = []"
| "code_points (a # s) =
     (let n = (let k = (of_char a :: nat) in if k < 192 then 0 else if k < 224 then 1 else if k < 240 then 2 else 3) in
      (a # take n s) # code_points (drop n s))"

definition hex_unit :: "string list \<Rightarrow> nat option" where
  "hex_unit unit = (if length unit \<noteq> 4 then None else map_option fst (hex4 (concat unit)))"

text \<open>The loop body at a backslash: the text after the escape, and the failures.\<close>

definition escape_at :: "string list \<Rightarrow> failures \<Rightarrow> string list \<times> failures" where
  "escape_at r fs =
     (case r of
        [] \<Rightarrow> ([], add_failure fs ''escape'' ''unterminated escape'')
      | d # r1 \<Rightarrow>
          if d \<noteq> ''u'' then
            (r1, if d \<in> {[CHR 0x22], [CHR 0x5C], ''/'', ''b'', ''f'', ''n'', ''r'', ''t''} then fs
                 else add_failure fs ''escape'' ''invalid escape character'')
          else
            (case hex_unit (take 4 r1) of
               None \<Rightarrow> (drop 4 r1, add_failure fs ''escape'' ''unicode escape must contain exactly four hexadecimal digits'')
             | Some v \<Rightarrow>
                 let r2 = drop 4 r1; pair = (take 2 r2 = [[CHR 0x5C], ''u'']);
                     missing = add_failure fs ''surrogate'' ''high surrogate is not followed by a low surrogate'' in
                 if 55296 \<le> v \<and> v \<le> 56319 then
                   (case hex_unit (if pair then take 4 (drop 2 r2) else []) of
                      None \<Rightarrow> (r2, if pair then add_failure missing ''escape''
                          ''unicode escape must contain exactly four hexadecimal digits'' else missing)
                    | Some w \<Rightarrow> if \<not> (56320 \<le> w \<and> w \<le> 57343) then (r2, missing) else (drop 6 r2, fs))
                 else if 56320 \<le> v \<and> v \<le> 57343 then
                   (r2, add_failure fs ''surrogate'' ''low surrogate has no preceding high surrogate'')
                 else (r2, fs)))"

lemma escape_at_length: "length (fst (escape_at r fs)) \<le> length r"
  by (auto simp: escape_at_def Let_def split: list.splits option.splits)

function (sequential) escape_failures :: "string list \<Rightarrow> bool \<Rightarrow> failures \<Rightarrow> failures" where
  "escape_failures [] in_string fs = fs"
| "escape_failures (c # r) in_string fs =
     (if \<not> in_string then escape_failures r (c = [CHR 0x22]) fs
      else if c = [CHR 0x22] then escape_failures r False fs
      else if c \<noteq> [CHR 0x5C] then escape_failures r True fs
      else escape_failures (fst (escape_at r fs)) True (snd (escape_at r fs)))"
  by pat_completeness auto
termination
  by (relation "measure (\<lambda>(text, _). length text)") (auto simp: le_imp_less_Suc escape_at_length)

definition json_escape_failures :: "string list \<Rightarrow> failures" where
  "json_escape_failures txt = escape_failures txt False []"

text \<open>The inner loop over a string literal: its code points up to the closing quote, and the rest.\<close>

fun string_token :: "string list \<Rightarrow> string list \<times> string list" where
  "string_token [] = ([], [])"
| "string_token (c # r) =
     (if c = [CHR 0x5C] then
        (case r of [] \<Rightarrow> ([c], []) | d # r' \<Rightarrow> (c # d # fst (string_token r'), snd (string_token r')))
      else if c = [CHR 0x22] then ([c], r)
      else (c # fst (string_token r), snd (string_token r)))"

lemma string_token_length: "length (snd (string_token r)) \<le> length r"
proof (induction r rule: string_token.induct)
  case (2 c r)
  then show ?case
    by (cases r; cases "c = [CHR 0x5C]"; cases "c = [CHR 0x22]") (simp_all add: le_SucI)
qed simp

function (sequential) member_failures :: "string list \<Rightarrow> string list list \<Rightarrow> failures \<Rightarrow> failures" where
  "member_failures [] objects fs = fs"
| "member_failures (c # r) objects fs =
     (if c = [CHR 0x7B] then member_failures r ([] # objects) fs
      else if c = [CHR 0x7D] then member_failures r (tl objects) fs
      else if c = [CHR 0x22] then
        (let token = concat (c # fst (string_token r)); rest = snd (string_token r);
             after = dropWhile blank rest in
         if objects \<noteq> [] \<and> after \<noteq> [] \<and> hd after = '':'' then
           (let key = (case json_loads token of Inr (VStr k) \<Rightarrow> k | _ \<Rightarrow> token) in
            member_failures rest ((key # hd objects) # tl objects)
              (if key \<in> set (hd objects) then add_failure fs ''duplicate_member'' key else fs))
         else member_failures rest objects fs)
      else member_failures r objects fs)"
  by pat_completeness auto
termination
  by (relation "measure (\<lambda>(text, _). length text)") (auto simp: le_imp_less_Suc string_token_length)

definition duplicate_member_failures :: "string list \<Rightarrow> failures" where
  "duplicate_member_failures txt = member_failures txt [] []"

definition strict_failure :: "strict_error \<Rightarrow> string \<times> string" where
  "strict_failure e =
     (case e of
        DuplicateMember k \<Rightarrow> (''duplicate_member'', k)
      | IntegerRange t \<Rightarrow> (''integer_range'', t)
      | PlainNumber \<Rightarrow> (''number'', ''floats, exponents, and negative zero are forbidden'')
      | Malformed \<Rightarrow> (''json'', ''not JSON''))"

definition parse_strict_json :: "registry \<Rightarrow> bytes \<Rightarrow> pyval result" where
  "parse_strict_json reg raw =
     (let fs0 = (if starts_with [CHR 0xEF, CHR 0xBB, CHR 0xBF] raw then add_failure [] ''bom'' ''BOM is forbidden'' else []) in
      if \<not> utf8_ok raw \<or> has_surrogate raw then Inl (refuse_first reg (add_failure fs0 ''utf8'' ''invalid UTF-8''))
      else
        (let txt = code_points raw;
             fs = extend_failures (extend_failures fs0 (json_escape_failures txt)) (duplicate_member_failures txt) in
         case strict_loads raw of
           Inl e \<Rightarrow> Inl (refuse_first reg (add_failure fs (fst (strict_failure e)) (snd (strict_failure e))))
         | Inr v \<Rightarrow> bind (refuse_if_any reg fs) (\<lambda>_. Inr v)))"

section \<open>Canonical payloads\<close>

function (sequential) reject_value :: "registry \<Rightarrow> pyval \<Rightarrow> unit result"
  and reject_values :: "registry \<Rightarrow> pyval list \<Rightarrow> unit result"
  and reject_items :: "registry \<Rightarrow> (string \<times> pyval) list \<Rightarrow> unit result"
where
  "reject_value reg (VStr t) =
     ensure (\<not> has_surrogate t) (refuse reg ''surrogate'' ''in-memory string has a surrogate'') (Inr ())"
| "reject_value reg (VList xs) = reject_values reg xs"
| "reject_value reg (VDict d) = reject_items reg d"
| "reject_value reg (VFloat t) = Inl (refuse reg ''number'' ''in-memory float is forbidden'')"
| "reject_value reg (VInt i) = ensure (\<bar>i\<bar> \<le> MAX_SAFE_INTEGER) (refuse reg ''integer_range'' (show_int i)) (Inr ())"
| "reject_value reg v = Inr ()"
| "reject_values reg [] = Inr ()"
| "reject_values reg (x # xs) = (case reject_value reg x of Inl e \<Rightarrow> Inl e | Inr _ \<Rightarrow> reject_values reg xs)"
| "reject_items reg [] = Inr ()"
| "reject_items reg ((k, v) # d) =
     (if has_surrogate k then Inl (refuse reg ''surrogate'' ''in-memory string has a surrogate'')
      else (case reject_value reg v of Inl e \<Rightarrow> Inl e | Inr _ \<Rightarrow> reject_items reg d))"
  by pat_completeness auto
termination
  by (relation "measure (\<lambda>a. case a of Inl (_, x) \<Rightarrow> size x
        | Inr (Inl (_, xs)) \<Rightarrow> size_list size xs
        | Inr (Inr (_, d)) \<Rightarrow> size_list (size_prod (\<lambda>_. 0) size) d)") auto

text \<open>U+2028 and U+2029 are written as escapes.\<close>

fun escape_separators :: "bytes \<Rightarrow> bytes" where
  "escape_separators (a # b # c # s) =
     (if a = CHR 0xE2 \<and> b = CHR 0x80 \<and> (c = CHR 0xA8 \<or> c = CHR 0xA9)
      then [CHR 0x5C] @ (if c = CHR 0xA8 then ''u2028'' else ''u2029'') @ escape_separators s
      else a # escape_separators (b # c # s))"
| "escape_separators s = s"

definition canonical_payload_bytes :: "registry \<Rightarrow> pyval \<Rightarrow> bytes result" where
  "canonical_payload_bytes reg v =
     bind (reject_value reg v) (\<lambda>_.
     case canonical_json_bytes v of
       Inl e \<Rightarrow> Inl (refuse reg ''shape'' ''value cannot be encoded'')
     | Inr b \<Rightarrow> Inr (escape_separators b))"

definition inferred_payload_type :: "pyval \<Rightarrow> string option" where
  "inferred_payload_type v =
     (case fld v ''version'' of
        VStr ver \<Rightarrow>
          map_of [(''spec-packet-v1'', SPEC_PACKET_PAYLOAD_TYPE), (''generated-artifact-manifest-v1'', MANIFEST_PAYLOAD_TYPE),
            (''approval-payload-v1'', APPROVAL_PAYLOAD_TYPE), (''approval-envelope-v1'', APPROVAL_PAYLOAD_TYPE)] ver
      | _ \<Rightarrow> None)"

definition payload_preimage :: "registry \<Rightarrow> pyval \<Rightarrow> bytes result" where
  "payload_preimage reg v =
     bind (canonical_payload_bytes reg v) (\<lambda>body.
     case inferred_payload_type v of None \<Rightarrow> Inr body | Some t \<Rightarrow> pae t body)"

text \<open>\<open>payload_digest\<close> without an explicit payload type, as every caller uses it.\<close>

definition payload_digest :: "(bytes \<Rightarrow> bytes) \<Rightarrow> registry \<Rightarrow> pyval \<Rightarrow> string result" where
  "payload_digest sha reg v = bind (payload_preimage reg v) (\<lambda>b. Inr (''sha256:'' @ hex_bytes (sha b)))"

section \<open>Validators\<close>

text \<open>The checks return nothing: the code uses the value it passed in.\<close>

definition abc_object :: "registry \<Rightarrow> string \<Rightarrow> pyval \<Rightarrow> unit result" where
  "abc_object reg name v =
     ensure (closed_keys v (field_set name)) (refuse reg ''shape'' ''object has missing or extra fields'') (Inr ())"

definition abc_string :: "registry \<Rightarrow> pyval \<Rightarrow> unit result" where
  "abc_string reg v = ensure (is_text v) (refuse reg ''shape'' ''required string is absent or empty'') (Inr ())"

definition abc_strings :: "registry \<Rightarrow> pyval \<Rightarrow> unit result" where
  "abc_strings reg v =
     ensure (is_list v \<and> list_all is_str (items_of v)) (refuse reg ''shape'' ''expected a string array'') (Inr ())"

definition abc_integer :: "registry \<Rightarrow> pyval \<Rightarrow> unit result" where
  "abc_integer reg v =
     ensure (is_int v \<and> 0 \<le> int_of v) (refuse reg ''shape'' ''expected a non-negative integer'') (Inr ())"

definition abc_digest :: "registry \<Rightarrow> pyval \<Rightarrow> unit result" where
  "abc_digest reg v = ensure (is_str v \<and> is_digest (str_of v)) (refuse reg ''digest'' (py_repr v)) (Inr ())"

definition abc_version :: "registry \<Rightarrow> string \<Rightarrow> pyval \<Rightarrow> unit result" where
  "abc_version reg expected v =
     ensure (fld v ''version'' = VStr expected) (refuse reg ''version'' (py_repr (fld v ''version''))) (Inr ())"

definition both :: "unit result \<Rightarrow> unit result \<Rightarrow> unit result" where
  "both a b = bind a (\<lambda>_. b)"

text \<open>\<open>any(... item not in labels ...)\<close>: a list or dict is not hashable.\<close>

fun provenance_ok :: "(string \<times> pyval) list \<Rightarrow> bool result" where
  "provenance_ok [] = Inr True"
| "provenance_ok ((k, v) # d) =
     (if \<not> hashable v then Inl (TypeError ''unhashable type'')
      else if v \<notin> VStr ` {''human'', ''domain-rule'', ''requirement'', ''observed-only''} then Inr False
      else provenance_ok d)"

text \<open>The loops over the ID lists: blank and repeated IDs are collected.\<close>

definition id_failures :: "string list \<Rightarrow> string list \<times> failures \<Rightarrow> string list \<times> failures" where
  "id_failures ids acc =
     foldl (\<lambda>(seen, fs) i.
        let fs1 = (if blank i then add_failure fs ''id_grammar'' ''ID must not be blank or whitespace-only'' else fs) in
        (i # seen, if i \<in> set seen then add_failure fs1 ''id_duplicate'' i else fs1)) acc ids"

fun collect_ids :: "registry \<Rightarrow> (string \<times> pyval) list \<Rightarrow> string list \<times> failures \<Rightarrow> failures result" where
  "collect_ids reg [] acc = Inr (snd acc)"
| "collect_ids reg ((k, item) # d) acc =
     bind (abc_strings reg item) (\<lambda>_. collect_ids reg d (id_failures (map str_of (items_of item)) acc))"

definition validate_spec_packet :: "registry \<Rightarrow> pyval \<Rightarrow> pyval result" where
  "validate_spec_packet reg v =
     (let fs = (if is_dict v \<and> has_key v ''version'' \<and> fld v ''version'' \<noteq> VStr ''spec-packet-v1''
                then add_failure [] ''version'' (py_repr (fld v ''version'')) else []);
          fs = (if is_dict v \<and> \<not> closed_keys v (field_set ''spec_packet'')
                then add_failure fs ''shape'' ''object has missing or extra fields'' else fs) in
      bind (refuse_if_any reg fs) (\<lambda>_.
      bind (abc_object reg ''spec_packet'' v) (\<lambda>_.
      bind (abc_version reg ''spec-packet-v1'' v) (\<lambda>_.
      bind (abc_string reg (fld v ''domain'')) (\<lambda>_.
      bind (abc_string reg (fld v ''task'')) (\<lambda>_.
      bind (abc_integer reg (fld v ''revision'')) (\<lambda>_.
      bind (for_each (\<lambda>name. abc_strings reg (fld v name)) [''semantics'', ''observable_outcomes'', ''non_goals'']) (\<lambda>_.
      let scope = fld v ''scope'' in
      bind (abc_object reg ''scope'' scope) (\<lambda>_.
      bind (abc_strings reg (fld scope ''include'')) (\<lambda>_.
      bind (abc_strings reg (fld scope ''exclude'')) (\<lambda>_.
      let answers = fld v ''answers'' in
      ensure (is_dict answers \<and> list_all (\<lambda>p. is_str (snd p)) (dict_of answers))
        (refuse reg ''shape'' ''answers must map strings to strings'') (
      let provenance = fld v ''oracle_provenance'' in
      ensure (is_dict provenance) (refuse reg ''shape'' ''oracle provenance is invalid'') (
      bind (provenance_ok (dict_of provenance)) (\<lambda>ok.
      ensure ok (refuse reg ''shape'' ''oracle provenance is invalid'') (
      let ids = fld v ''ids'' in
      bind (abc_object reg ''ids'' ids) (\<lambda>_.
      bind (collect_ids reg (dict_of ids) ([], [])) (\<lambda>fs.
      bind (refuse_if_any reg fs) (\<lambda>_.
      Inr v))))))))))))))))))"

definition artifact_lists :: "string list" where
  "artifact_lists = [''pseudocode_flow'', ''protected'', ''expected_values'', ''baselines'', ''negative_controls'',
     ''trace_projections'', ''sidecars'']"

definition exemption_classes :: "pyval set" where
  "exemption_classes = VStr ` {''generated'', ''vendor'', ''docs'', ''nonbehavioral''}"

definition artifact_rows :: "registry \<Rightarrow> pyval \<Rightarrow> unit result" where
  "artifact_rows reg v =
     ensure (is_list v) (refuse reg ''shape'' ''artifact set must be an array'') (
     for_each (\<lambda>row.
       bind (abc_object reg ''artifact_row'' row) (\<lambda>_.
       bind (abc_string reg (fld row ''path'')) (\<lambda>_. abc_digest reg (fld row ''digest'')))) (items_of v))"

definition collect_object :: "string \<Rightarrow> pyval \<Rightarrow> failures \<Rightarrow> failures \<times> bool" where
  "collect_object name v fs =
     (if closed_keys v (field_set name) then (fs, True)
      else (add_failure fs ''shape'' ''object has missing or extra fields'', False))"

definition collect_artifact_row :: "failures \<Rightarrow> pyval \<Rightarrow> failures" where
  "collect_artifact_row fs row =
     (let (fs1, ok) = collect_object ''artifact_row'' row fs in
      if \<not> ok then fs1
      else
        (let path = fld row ''path''; digest = fld row ''digest'';
             fs2 = (if is_text path then fs1 else add_failure fs1 ''shape'' ''required string is absent or empty'') in
         if is_str digest \<and> is_digest (str_of digest) then fs2 else add_failure fs2 ''digest'' (py_repr digest)))"

definition collect_artifact_rows :: "pyval \<Rightarrow> failures \<Rightarrow> failures" where
  "collect_artifact_rows v fs =
     (if \<not> is_list v then add_failure fs ''shape'' ''artifact set must be an array''
      else foldl collect_artifact_row fs (items_of v))"

text \<open>One exemption row; its class may not be hashable.\<close>

definition collect_exemption :: "pyval \<Rightarrow> failures \<Rightarrow> failures result" where
  "collect_exemption row fs =
     (let (fs1, ok) = collect_object ''exemption_row'' row fs in
      if \<not> ok then Inr fs1
      else
        (let fs2 = foldl (\<lambda>a name. if is_text (fld row name) then a
                     else add_failure a ''shape'' ''required string is absent or empty'')
                     fs1 [''path'', ''reason'', ''why_no_discriminating_red''] in
         ensure (hashable (fld row ''class'')) (TypeError ''unhashable type'') (
         Inr (if fld row ''class'' \<in> exemption_classes then fs2 else add_failure fs2 ''shape'' ''exemption class is invalid''))))"

fun collect_exemptions :: "pyval list \<Rightarrow> failures \<Rightarrow> failures result" where
  "collect_exemptions [] fs = Inr fs"
| "collect_exemptions (row # rows) fs = bind (collect_exemption row fs) (collect_exemptions rows)"

definition collect_manifest_candidates :: "pyval \<Rightarrow> failures \<Rightarrow> failures result" where
  "collect_manifest_candidates v fs =
     (let fs1 = (if is_dict v \<and> has_key v ''version'' \<and> fld v ''version'' \<noteq> VStr ''generated-artifact-manifest-v1''
                 then add_failure fs ''version'' (py_repr (fld v ''version'')) else fs);
          digest = fld v ''a_digest'';
          fs2 = (if is_dict v \<and> \<not> (is_str digest \<and> is_digest (str_of digest))
                 then add_failure fs1 ''digest'' (py_repr digest) else fs1);
          (fs3, ok) = collect_object ''manifest'' v fs2 in
      if \<not> ok then Inr fs3
      else
        (let artifacts = fld v ''artifacts''; (fs4, ok4) = collect_object ''artifacts'' artifacts fs3;
             fs5 = (if ok4 then foldl (\<lambda>a name. collect_artifact_rows (fld artifacts name) a) fs4 artifact_lists else fs4);
             invocation = fld artifacts ''invocation'';
             (fs6, ok6) = (if ok4 then collect_object ''invocation'' invocation fs5 else (fs5, False));
             argv = fld invocation ''argv'';
             fs7 = (if ok6 \<and> \<not> (is_list argv \<and> list_all is_str (items_of argv))
                    then add_failure fs6 ''shape'' ''expected a string array'' else fs6);
             exemptions = fld v ''exemptions'' in
         if \<not> is_list exemptions then Inr (add_failure fs7 ''shape'' ''exemptions must be an array'')
         else collect_exemptions (items_of exemptions) fs7))"

definition check_exemption :: "registry \<Rightarrow> pyval \<Rightarrow> unit result" where
  "check_exemption reg row =
     bind (abc_object reg ''exemption_row'' row) (\<lambda>_.
     bind (abc_string reg (fld row ''path'')) (\<lambda>_.
     bind (abc_string reg (fld row ''reason'')) (\<lambda>_.
     bind (abc_string reg (fld row ''why_no_discriminating_red'')) (\<lambda>_.
     ensure (hashable (fld row ''class'')) (TypeError ''unhashable type'') (
     ensure (fld row ''class'' \<in> exemption_classes) (refuse reg ''shape'' ''exemption class is invalid'') (Inr ()))))))"

definition validate_generated_artifact_manifest ::
  "(bytes \<Rightarrow> bytes) \<Rightarrow> registry \<Rightarrow> pyval \<Rightarrow> pyval option \<Rightarrow> pyval result" where
  "validate_generated_artifact_manifest sha reg v spec_packet =
     bind (collect_manifest_candidates v []) (\<lambda>fs.
     bind (refuse_if_any reg fs) (\<lambda>_.
     bind (abc_object reg ''manifest'' v) (\<lambda>_.
     bind (abc_version reg ''generated-artifact-manifest-v1'' v) (\<lambda>_.
     bind (abc_string reg (fld v ''domain'')) (\<lambda>_.
     bind (abc_digest reg (fld v ''a_digest'')) (\<lambda>_.
     let artifacts = fld v ''artifacts'' in
     bind (abc_object reg ''artifacts'' artifacts) (\<lambda>_.
     bind (for_each (\<lambda>name. artifact_rows reg (fld artifacts name)) artifact_lists) (\<lambda>_.
     bind (abc_object reg ''invocation'' (fld artifacts ''invocation'')) (\<lambda>_.
     bind (abc_strings reg (fld (fld artifacts ''invocation'') ''argv'')) (\<lambda>_.
     ensure (is_list (fld v ''exemptions'')) (refuse reg ''shape'' ''exemptions must be an array'') (
     bind (for_each (check_exemption reg) (items_of (fld v ''exemptions''))) (\<lambda>_.
     (case spec_packet of
        None \<Rightarrow> Inr v
      | Some a \<Rightarrow>
          bind (validate_spec_packet reg a) (\<lambda>checked.
          bind (payload_digest sha reg checked) (\<lambda>d.
          ensure (fld v ''a_digest'' = VStr d)
            (refuse reg ''a_binding'' ''manifest a_digest does not bind the supplied spec packet'') (Inr v))))))))))))))))"

section \<open>Approval envelopes\<close>

definition abc_key :: "registry \<Rightarrow> pyval \<Rightarrow> unit result" where
  "abc_key reg v =
     (case decode v (Some 32) ''public key'' of
        Inl e \<Rightarrow> Inl (refuse reg ''shape'' (exn_text e)) | Inr _ \<Rightarrow> Inr ())"

definition abc_capability :: "registry \<Rightarrow> pyval \<Rightarrow> unit result" where
  "abc_capability reg v =
     (let environment = fld v ''environment''; network = fld v ''network''; secret = fld v ''secret'';
          commit = fld v ''commit''; subagent = fld v ''subagent'' in
      bind (abc_object reg ''capability_request'' v) (\<lambda>_.
      bind (abc_string reg (fld v ''executable'')) (\<lambda>_.
      bind (abc_strings reg (fld v ''argv'')) (\<lambda>_.
      bind (abc_string reg (fld v ''cwd'')) (\<lambda>_.
      bind (abc_strings reg (fld v ''roots'')) (\<lambda>_.
      bind (abc_strings reg (fld v ''actions'')) (\<lambda>_.
      bind (abc_object reg ''environment'' environment) (\<lambda>_.
      bind (abc_strings reg (fld environment ''allow'')) (\<lambda>_.
      bind (abc_object reg ''network'' network) (\<lambda>_.
      bind (abc_strings reg (fld network ''hosts'')) (\<lambda>_.
      bind (abc_object reg ''secret'' secret) (\<lambda>_.
      bind (abc_strings reg (fld secret ''names'')) (\<lambda>_.
      bind (abc_object reg ''commit'' commit) (\<lambda>_.
      bind (abc_object reg ''subagent'' subagent) (\<lambda>_.
      bind (abc_integer reg (fld subagent ''max_children'')) (\<lambda>_.
      for_each (\<lambda>flag. ensure (is_bool flag) (refuse reg ''shape'' ''capability allow value must be boolean'') (Inr ()))
        [fld network ''allow'', fld secret ''allow'', fld commit ''allow'', fld subagent ''allow'']))))))))))))))))"

definition approval_payload :: "registry \<Rightarrow> pyval \<Rightarrow> pyval result" where
  "approval_payload reg v =
     (let window = fld v ''time_window''; profiles = fld v ''profile_digests'' in
      bind (abc_object reg ''approval_payload'' v) (\<lambda>_.
      bind (abc_version reg ''approval-payload-v1'' v) (\<lambda>_.
      bind (for_each (\<lambda>name. abc_string reg (fld v name)) [''domain'', ''task'', ''principal'', ''role'', ''nonce'']) (\<lambda>_.
      bind (abc_integer reg (fld v ''revision'')) (\<lambda>_.
      bind (for_each (\<lambda>name. abc_digest reg (fld v name)) [''subject_digest'', ''base_digest'', ''a_digest'', ''b_digest'']) (\<lambda>_.
      bind (abc_key reg (fld v ''key'')) (\<lambda>_.
      bind (if fld v ''journal_predecessor'' \<noteq> VNone then abc_digest reg (fld v ''journal_predecessor'') else Inr ()) (\<lambda>_.
      bind (abc_object reg ''time_window'' window) (\<lambda>_.
      bind (abc_integer reg (fld window ''not_before'')) (\<lambda>_.
      bind (abc_integer reg (fld window ''not_after'')) (\<lambda>_.
      ensure (int_of (fld window ''not_before'') \<le> int_of (fld window ''not_after''))
        (refuse reg ''shape'' ''journal sequence window is reversed'') (
      bind (abc_capability reg (fld v ''capability_request'')) (\<lambda>_.
      bind (abc_object reg ''profile_digests'' profiles) (\<lambda>_.
      bind (for_each (\<lambda>p. abc_digest reg (snd p)) (dict_of profiles)) (\<lambda>_.
      Inr v)))))))))))))))"

definition payload_type_from_version :: "registry \<Rightarrow> pyval \<Rightarrow> string result" where
  "payload_type_from_version reg payload =
     (if fld payload ''version'' = VStr ''approval-payload-v1'' then Inr APPROVAL_PAYLOAD_TYPE
      else Inl (refuse reg ''payload_type'' (py_repr (fld payload ''version''))))"

text \<open>The bytes a signature of an approval covers.\<close>

definition approval_message :: "registry \<Rightarrow> pyval \<Rightarrow> bytes result" where
  "approval_message reg payload =
     bind (payload_type_from_version reg payload) (\<lambda>t.
     bind (canonical_payload_bytes reg payload) (\<lambda>body. pae t body))"

text \<open>The body of the \<open>try\<close> around the signature check; \<open>SpecificationABCError\<close> is a \<open>ValueError\<close>.\<close>

definition check_signature :: "ed25519 \<Rightarrow> registry \<Rightarrow> pyval \<Rightarrow> pyval \<Rightarrow> unit result" where
  "check_signature ed reg payload signature =
     bind (decode signature (Some 64) ''signature'') (\<lambda>sig.
     bind (decode (fld payload ''key'') (Some 32) ''public key'') (\<lambda>public.
     bind (approval_message reg payload) (\<lambda>message.
     ensure (ed_key_ok ed public) (ValueError ''public key'') (
     ensure (ed_verify ed public sig message) (ValueError []) (Inr ())))))"

definition validate_approval_envelope :: "ed25519 \<Rightarrow> registry \<Rightarrow> pyval \<Rightarrow> string list \<Rightarrow> pyval result" where
  "validate_approval_envelope ed reg v used_nonces =
     bind (abc_object reg ''envelope'' v) (\<lambda>_.
     ensure (fld v ''payload_type'' = VStr APPROVAL_PAYLOAD_TYPE)
       (refuse reg ''payload_type'' (py_repr (fld v ''payload_type''))) (
     bind (abc_version reg ''approval-envelope-v1'' v) (\<lambda>_.
     bind (approval_payload reg (fld v ''payload'')) (\<lambda>payload.
     bind (abc_key reg (fld v ''key_id'')) (\<lambda>_.
     ensure (fld v ''key_id'' = fld payload ''key'')
       (refuse reg ''key_binding'' ''envelope key_id does not match approval payload key'') (
     ensure (str_of (fld payload ''nonce'') \<notin> set used_nonces) (refuse reg ''nonce_reuse'' (str_of (fld payload ''nonce''))) (
     case check_signature ed reg payload (fld v ''signature'') of
       Inl e \<Rightarrow> Inl (refuse reg ''signature'' (exn_text e))
     | Inr _ \<Rightarrow> Inr v)))))))"

definition sign_approval_payload :: "ed25519 \<Rightarrow> registry \<Rightarrow> pyval \<Rightarrow> pyval \<Rightarrow> string result" where
  "sign_approval_payload ed reg payload private_key =
     bind (approval_payload reg payload) (\<lambda>checked.
     case decode private_key (Some 32) ''private key'' of
       Inl e \<Rightarrow> Inl (refuse reg ''signature'' (exn_text e))
     | Inr seed \<Rightarrow>
         ensure (VStr (encode (ed_public ed seed)) = fld checked ''key'')
           (refuse reg ''relation'' ''private key does not match approval payload key'') (
         bind (approval_message reg checked) (\<lambda>message. Inr (encode (ed_sign ed seed message)))))"

text \<open>Only \<open>SpecificationABCError\<close> is caught.\<close>

definition verify_approval_envelope :: "ed25519 \<Rightarrow> registry \<Rightarrow> pyval \<Rightarrow> string list \<Rightarrow> bool result" where
  "verify_approval_envelope ed reg v used_nonces =
     (case validate_approval_envelope ed reg v used_nonces of
        Inl (Refusal _ _) \<Rightarrow> Inr False | Inl e \<Rightarrow> Inl e | Inr _ \<Rightarrow> Inr True)"

definition chain_failures :: "pyval \<Rightarrow> pyval \<Rightarrow> pyval \<Rightarrow> string \<Rightarrow> string \<Rightarrow> failures" where
  "chain_failures a b c a_digest b_digest =
     (let fs1 = (if fld b ''a_digest'' \<noteq> VStr a_digest
            then add_failure [] ''a_binding'' ''manifest a_digest does not bind the supplied spec packet'' else []);
          fs2 = (if fld c ''a_digest'' \<noteq> VStr a_digest
            then add_failure fs1 ''a_binding'' ''approval payload a_digest does not bind the supplied spec packet'' else fs1);
          fs3 = (if fld c ''b_digest'' \<noteq> VStr b_digest
            then add_failure fs2 ''b_binding'' ''approval payload b_digest does not bind the supplied manifest'' else fs2);
          fs4 = (if fld a ''domain'' \<noteq> fld b ''domain'' \<or> fld a ''domain'' \<noteq> fld c ''domain''
            then add_failure fs3 ''context_binding'' ''A, B, and C domains must match exactly'' else fs3) in
      if fld a ''task'' \<noteq> fld c ''task'' \<or> fld a ''revision'' \<noteq> fld c ''revision''
      then add_failure fs4 ''context_binding'' ''A and C task and revision must match exactly'' else fs4)"

definition assert_abc_chain ::
  "(bytes \<Rightarrow> bytes) \<Rightarrow> ed25519 \<Rightarrow> registry \<Rightarrow> pyval \<Rightarrow> pyval \<Rightarrow> pyval \<Rightarrow> string list \<Rightarrow> unit result" where
  "assert_abc_chain sha ed reg spec_packet manifest envelope used_nonces =
     bind (validate_spec_packet reg spec_packet) (\<lambda>a.
     bind (validate_generated_artifact_manifest sha reg manifest None) (\<lambda>b.
     bind (abc_object reg ''envelope'' envelope) (\<lambda>_.
     bind (approval_payload reg (fld envelope ''payload'')) (\<lambda>c.
     bind (payload_digest sha reg a) (\<lambda>a_digest.
     bind (payload_digest sha reg b) (\<lambda>b_digest.
     bind (refuse_if_any reg (chain_failures a b c a_digest b_digest)) (\<lambda>_.
     bind (validate_approval_envelope ed reg envelope used_nonces) (\<lambda>_. Inr ()))))))))"

definition parse_canonical_payload :: "registry \<Rightarrow> bytes \<Rightarrow> pyval result" where
  "parse_canonical_payload reg raw =
     bind (parse_strict_json reg raw) (\<lambda>v.
     bind (canonical_payload_bytes reg v) (\<lambda>b.
     ensure (raw = b) (refuse reg ''canonical'' ''raw bytes differ from canonical serialization'') (Inr v)))"

definition validate_spec_packet_bytes :: "registry \<Rightarrow> bytes \<Rightarrow> pyval result" where
  "validate_spec_packet_bytes reg raw = bind (parse_canonical_payload reg raw) (validate_spec_packet reg)"

definition validate_generated_artifact_manifest_bytes ::
  "(bytes \<Rightarrow> bytes) \<Rightarrow> registry \<Rightarrow> bytes \<Rightarrow> pyval option \<Rightarrow> pyval result" where
  "validate_generated_artifact_manifest_bytes sha reg raw spec_packet =
     bind (parse_canonical_payload reg raw) (\<lambda>v. validate_generated_artifact_manifest sha reg v spec_packet)"

definition validate_approval_envelope_bytes :: "ed25519 \<Rightarrow> registry \<Rightarrow> bytes \<Rightarrow> string list \<Rightarrow> pyval result" where
  "validate_approval_envelope_bytes ed reg raw used_nonces =
     bind (parse_canonical_payload reg raw) (\<lambda>v. validate_approval_envelope ed reg v used_nonces)"

section \<open>The chain\<close>

lemma add_failure_ne [simp]: "add_failure fs name detail \<noteq> []"
  by (auto simp: add_failure_def)

lemma refuse_if_any_Inr [simp]: "refuse_if_any reg fs = Inr u \<longleftrightarrow> fs = []"
  by (simp add: refuse_if_any_def)

lemma chain_failures_none:
  "chain_failures a b c a_digest b_digest = [] \<longleftrightarrow>
     fld b ''a_digest'' = VStr a_digest \<and> fld c ''a_digest'' = VStr a_digest \<and> fld c ''b_digest'' = VStr b_digest \<and>
     fld a ''domain'' = fld b ''domain'' \<and> fld a ''domain'' = fld c ''domain'' \<and>
     fld a ''task'' = fld c ''task'' \<and> fld a ''revision'' = fld c ''revision''"
  by (simp add: chain_failures_def Let_def)

section \<open>Payload bytes determine the payload\<close>

text \<open>
  Text in which every backslash starts a complete escape that is not one of a separator, as
  \<open>json.dumps\<close> writes it; and the inverse of \<open>escape_separators\<close> on such text.
\<close>

fun plain_escapes :: "bytes \<Rightarrow> bool" where
  "plain_escapes [] = True"
| "plain_escapes (c # s) =
     (if c = CHR 0x5C then
        (case s of [] \<Rightarrow> False | d # s' \<Rightarrow> is_ascii d \<and> (d = CHR ''u'' \<longrightarrow> (\<exists>e r. s' = e # r \<and> e = CHR ''0'')) \<and> plain_escapes s')
      else plain_escapes s)"

fun restore_separators :: "bytes \<Rightarrow> bytes" where
  "restore_separators [] = []"
| "restore_separators (c # s) =
     (if c = CHR 0x5C then
        (case s of
           [] \<Rightarrow> [c]
         | d # s' \<Rightarrow>
             if d = CHR ''u'' \<and> take 4 s' = ''2028'' then [CHR 0xE2, CHR 0x80, CHR 0xA8] @ restore_separators (drop 4 s')
             else if d = CHR ''u'' \<and> take 4 s' = ''2029'' then [CHR 0xE2, CHR 0x80, CHR 0xA9] @ restore_separators (drop 4 s')
             else c # d # restore_separators s')
      else c # restore_separators s)"

lemma escape_separators_head: "a \<noteq> CHR 0xE2 \<Longrightarrow> escape_separators (a # s) = a # escape_separators s"
  by (cases s rule: escape_separators.cases; cases "tl s") auto

lemma restore_escape: "plain_escapes b \<Longrightarrow> restore_separators (escape_separators b) = b"
proof (induction "length b" arbitrary: b rule: less_induct)
  case less
  show ?case
  proof (cases b)
    case (Cons c s)
    show ?thesis
    proof (cases "c = CHR 0x5C")
      case True
      with less.prems Cons obtain d s' where d: "s = d # s'" "is_ascii d" "plain_escapes s'"
        "d = CHR ''u'' \<longrightarrow> (\<exists>r. s' = CHR ''0'' # r)"
        by (auto split: list.splits)
      then have "d \<noteq> CHR 0xE2" by (auto simp: is_ascii_def)
      then have "escape_separators b = c # d # escape_separators s'"
        using Cons d(1) True by (simp add: escape_separators_head)
      moreover have "restore_separators (escape_separators s') = s'" using less d(1,3) Cons by simp
      moreover have "take 4 (escape_separators s') \<notin> {''2028'', ''2029''}" if "d = CHR ''u''"
        using d(4) that by (auto simp: escape_separators_head)
      ultimately show ?thesis using True Cons d(1) by auto
    next
      case False
      then have rest: "plain_escapes s" using less.prems Cons by simp
      show ?thesis
      proof (cases "\<exists>d s'. c = CHR 0xE2 \<and> s = CHR 0x80 # d # s' \<and> (d = CHR 0xA8 \<or> d = CHR 0xA9)")
        case True
        then obtain d s' where d: "c = CHR 0xE2" "s = CHR 0x80 # d # s'" "d = CHR 0xA8 \<or> d = CHR 0xA9" by blast
        then have "plain_escapes s'" using rest by auto
        then have "restore_separators (escape_separators s') = s'" using less d(2) Cons by simp
        then show ?thesis using d Cons by auto
      next
        case False
        then have "escape_separators b = c # escape_separators s"
          using Cons by (cases s rule: escape_separators.cases; cases "tl s") auto
        then show ?thesis using less Cons rest \<open>c \<noteq> CHR 0x5C\<close> by simp
      qed
    qed
  qed simp
qed

lemma plain_escapes_append: "plain_escapes x \<Longrightarrow> plain_escapes (x @ y) = plain_escapes y"
proof (induction x rule: plain_escapes.induct)
  case (2 c s)
  show ?case
  proof (cases s)
    case Nil
    then show ?thesis using "2.prems" by (simp split: if_splits)
  next
    case (Cons d s')
    then show ?thesis using 2 by (cases "c = CHR 0x5C"; cases s') simp_all
  qed
qed simp

lemma plain_escapes_simple: "CHR 0x5C \<notin> set s \<Longrightarrow> plain_escapes s"
  by (induction s) auto

lemma plain_escapes_concat: "\<forall>x \<in> set xs. plain_escapes x \<Longrightarrow> plain_escapes (concat xs)"
  by (induction xs) (auto simp: plain_escapes_append)

lemma plain_escapes_join: "plain_escapes sep \<Longrightarrow> \<forall>x \<in> set xs. plain_escapes x \<Longrightarrow> plain_escapes (join sep xs)"
  by (induction sep xs rule: join.induct) (auto simp: plain_escapes_append)

lemma json_str_plain_escapes: "plain_escapes (json_str s)"
proof -
  have "plain_escapes (json_escape c)" for c
  proof (cases "CHR 0x5C \<in> set (json_escape c)")
    case True
    have "CHR 0x5C \<notin> set (hex2 c)" using hex2_lower [of c] by (auto simp: list_all_iff is_lower_hex_def)
    then show ?thesis using True
      by (auto simp: json_escape_def is_ascii_def plain_escapes_simple split: if_splits)
  qed (simp add: plain_escapes_simple)
  then have "plain_escapes (concat (map json_escape s))" by (intro plain_escapes_concat) auto
  then show ?thesis by (simp add: json_str_def plain_escapes_append plain_escapes_simple)
qed

lemma dumps_plain_escapes: "no_float v \<Longrightarrow> plain_escapes (dumps v)"
proof (induction v rule: pyval.induct)
  case (VInt i)
  have "CHR 0x5C \<notin> set (show_nat n)" for n
    using show_nat_digits [of n] by (auto simp: list_all_iff is_digit_def Let_def)
  then show ?case by (auto simp: show_int_def intro!: plain_escapes_simple)
next
  case (VList xs)
  then have "plain_escapes (join '','' (map dumps xs))" by (intro plain_escapes_join) auto
  then show ?case by (simp add: plain_escapes_append)
next
  case (VDict d)
  have "plain_escapes (dumps (snd p))" if "p \<in> set d" for p using VDict that by (cases p) fastforce
  then have "plain_escapes (join '','' (map (\<lambda>p. json_str (fst p) @ '':'' @ dumps (snd p)) d))"
    by (intro plain_escapes_join) (auto simp: plain_escapes_append json_str_plain_escapes)
  then show ?case by (simp add: plain_escapes_append)
qed (auto simp: json_str_plain_escapes)

lemma dumps_first:
  assumes "no_float v"
  obtains c t where "dumps v = c # t" "c \<noteq> CHR ''D'' \<and> c \<noteq> CHR 0xE2"
proof (cases v)
  case (VInt i)
  obtain c t where "show_nat (nat \<bar>i\<bar>) = c # t" "is_digit c" using show_nat_Cons by blast
  moreover then have "c \<noteq> CHR ''D'' \<and> c \<noteq> CHR 0xE2" by (auto simp: is_digit_def)
  ultimately show ?thesis using that VInt by (cases "i < 0") (auto simp: show_int_def)
next
  case (VBool b)
  with that show ?thesis by (cases b) auto
qed (use assms that in \<open>auto simp: json_str_def\<close>)

lemma reject_value_no_float:
  "reject_value reg v = Inr u \<Longrightarrow> no_float v"
  "reject_values reg xs = Inr u \<Longrightarrow> \<forall>x \<in> set xs. no_float x"
  "reject_items reg d = Inr u \<Longrightarrow> \<forall>p \<in> set d. no_float (snd p)"
  by (induction reg v and reg xs and reg d rule: reject_value_reject_values_reject_items.induct)
    (auto split: sum.splits if_splits)

lemma canonical_payload_bytes_Inr:
  assumes "canonical_payload_bytes reg v = Inr b"
  shows "no_float v" "restore_separators b = dumps (sort_keys v)" "\<exists>c. canonical_json v = Inr c \<and> c = restore_separators b"
    "\<exists>c t. b = c # t \<and> c \<noteq> CHR ''D''"
proof -
  have v: "no_float v" and b: "b = escape_separators (dumps (sort_keys v))" "canonical_json v = Inr (dumps (sort_keys v))"
    using assms by (auto simp: canonical_payload_bytes_def bind_Inr_iff canonical_json_bytes_Inr canonical_json_def
        dest!: reject_value_no_float(1) split: sum.splits if_splits)
  then show "no_float v" "restore_separators b = dumps (sort_keys v)"
    "\<exists>c. canonical_json v = Inr c \<and> c = restore_separators b"
    using restore_escape [OF dumps_plain_escapes [OF no_float_sort_keys [OF v]]] by simp_all
  obtain c t where "dumps (sort_keys v) = c # t" "c \<noteq> CHR ''D'' \<and> c \<noteq> CHR 0xE2"
    by (rule dumps_first [OF no_float_sort_keys [OF v]])
  then show "\<exists>c t. b = c # t \<and> c \<noteq> CHR ''D''" by (auto simp: b escape_separators_head)
qed

lemma canonical_payload_bytes_inject:
  assumes "canonical_payload_bytes reg v = Inr b" "canonical_payload_bytes reg' w = Inr b" "wf_val v" "wf_val w"
  shows "sort_keys v = sort_keys w"
proof -
  have "canonical_json v = Inr (restore_separators b)" "canonical_json w = Inr (restore_separators b)"
    using canonical_payload_bytes_Inr(3) assms(1,2) by blast+
  from json_loads_canonical [OF this(1)] json_loads_canonical [OF this(2)] show ?thesis
    using canonical_payload_bytes_Inr(1) assms by simp
qed

lemma payload_preimage_inject:
  assumes "payload_preimage reg v = Inr b" "payload_preimage reg' w = Inr b" "wf_val v" "wf_val w"
  shows "sort_keys v = sort_keys w"
proof -
  obtain x y where x: "canonical_payload_bytes reg v = Inr x" and y: "canonical_payload_bytes reg' w = Inr y"
    using assms(1,2) by (auto simp: payload_preimage_def bind_Inr_iff)
  have d: "\<exists>t. m = CHR ''D'' # t" if "pae p z = Inr m" for p z m using that by (auto simp: pae_def split: if_splits)
  have "x = y"
    using assms(1,2) x y canonical_payload_bytes_Inr(4) [OF x] canonical_payload_bytes_Inr(4) [OF y]
    by (auto simp: payload_preimage_def split: option.splits dest: d pae_inject)
  then show ?thesis using canonical_payload_bytes_inject x y assms(3,4) by blast
qed

lemma payload_digest_inject:
  assumes "payload_digest sha reg v = Inr d" "payload_digest sha reg' w = Inr d"
    and "payload_preimage reg v = Inr b" "payload_preimage reg' w = Inr c" "inj_on sha {b, c}" "wf_val v" "wf_val w"
  shows "sort_keys v = sort_keys w"
proof -
  have "hex_bytes (sha b) = hex_bytes (sha c)" using assms(1-4) by (auto simp: payload_digest_def)
  then have "b = c" using assms(5) by (auto dest: inj_onD)
  then show ?thesis using payload_preimage_inject assms(3,4,6,7) by blast
qed

text \<open>
  A payload digest names one payload: two payloads with the same digest are the same value up to
  key order, whatever their types and versions, as long as the hash does not collide on the bytes
  that were hashed. The type separation and the escapes of the canonical form lose nothing.
\<close>

lemma payload_digest_determines:
  assumes "payload_digest sha reg v = Inr d" and "payload_digest sha reg' w = Inr d"
    and "payload_preimage reg v = Inr b" and "payload_preimage reg' w = Inr c" and "inj_on sha {b, c}"
    and "wf_val v" and "wf_val w"
  shows "sort_keys v = sort_keys w"
  by (rule payload_digest_inject [OF assms])

section \<open>Signed approvals\<close>

lemma validated_values:
  "validate_spec_packet reg v = Inr w \<Longrightarrow> w = v"
  "validate_generated_artifact_manifest sha reg v p = Inr w \<Longrightarrow> w = v"
  "approval_payload reg v = Inr w \<Longrightarrow> w = v"
  "validate_approval_envelope ed reg v ns = Inr w \<Longrightarrow> w = v"
  by (auto simp: validate_spec_packet_def validate_generated_artifact_manifest_def approval_payload_def
      validate_approval_envelope_def Let_def bind_Inr_iff split: option.splits sum.splits)

lemma validated_iff:
  "validate_spec_packet reg v = Inr w \<longleftrightarrow> is_ok (validate_spec_packet reg v) \<and> w = v"
  "validate_generated_artifact_manifest sha reg v p = Inr w \<longleftrightarrow>
     is_ok (validate_generated_artifact_manifest sha reg v p) \<and> w = v"
  "approval_payload reg v = Inr w \<longleftrightarrow> is_ok (approval_payload reg v) \<and> w = v"
  by (auto simp: is_ok_iff dest: validated_values)

lemma check_signature_Inr:
  "check_signature ed reg payload signature = Inr u \<longleftrightarrow>
     (\<exists>sig public message. signature = VStr (encode sig) \<and> length sig = 64 \<and>
        fld payload ''key'' = VStr (encode public) \<and> length public = 32 \<and>
        approval_message reg payload = Inr message \<and> ed_key_ok ed public \<and> ed_verify ed public sig message)"
proof -
  have ne: "length sig = 64 \<Longrightarrow> sig \<noteq> []" "length public = 32 \<Longrightarrow> public \<noteq> []" for sig public :: bytes by auto
  show ?thesis
    unfolding check_signature_def bind_Inr_iff decode_Inr_iff using ne by (auto 0 3)
qed

lemma caught_Inr: "(case r of Inl e \<Rightarrow> Inl (f e) | Inr _ \<Rightarrow> Inr v) = Inr w \<longleftrightarrow> is_ok r \<and> w = v"
  by (cases r) auto

lemma validate_approval_envelope_Inr:
  "validate_approval_envelope ed reg v ns = Inr w \<longleftrightarrow>
     w = v \<and> abc_object reg ''envelope'' v = Inr () \<and> fld v ''payload_type'' = VStr APPROVAL_PAYLOAD_TYPE \<and>
     fld v ''version'' = VStr ''approval-envelope-v1'' \<and> is_ok (approval_payload reg (fld v ''payload'')) \<and>
     abc_key reg (fld v ''key_id'') = Inr () \<and> fld v ''key_id'' = fld (fld v ''payload'') ''key'' \<and>
     str_of (fld (fld v ''payload'') ''nonce'') \<notin> set ns \<and>
     is_ok (check_signature ed reg (fld v ''payload'') (fld v ''signature''))"
  by (auto simp: validate_approval_envelope_def bind_Inr_iff abc_version_def validated_iff(3) caught_Inr)

definition approval_envelope :: "pyval \<Rightarrow> string \<Rightarrow> pyval" where
  "approval_envelope payload signature =
     VDict [(''version'', VStr ''approval-envelope-v1''), (''payload_type'', VStr APPROVAL_PAYLOAD_TYPE),
       (''payload'', payload), (''key_id'', fld payload ''key''), (''signature'', VStr signature)]"

lemma approval_envelope_fields [simp]:
  "fld (approval_envelope payload signature) ''version'' = VStr ''approval-envelope-v1''"
  "fld (approval_envelope payload signature) ''payload_type'' = VStr APPROVAL_PAYLOAD_TYPE"
  "fld (approval_envelope payload signature) ''payload'' = payload"
  "fld (approval_envelope payload signature) ''key_id'' = fld payload ''key''"
  "fld (approval_envelope payload signature) ''signature'' = VStr signature"
  "abc_object reg ''envelope'' (approval_envelope payload signature) = Inr ()"
  by (simp_all add: approval_envelope_def shape_simps abc_object_def closed_keys_def keys_def closed_field_sets_def)

lemma signed_approval_validates:
  assumes "ed25519_laws ed" "sign_approval_payload ed reg payload private_key = Inr signature"
    and "str_of (fld payload ''nonce'') \<notin> set used_nonces"
  shows "validate_approval_envelope ed reg (approval_envelope payload signature) used_nonces =
    Inr (approval_envelope payload signature)"
proof -
  have p: "approval_payload reg payload = Inr payload"
    using assms(2) by (auto simp: sign_approval_payload_def bind_Inr_iff dest: validated_values(3))
  then obtain seed where d: "decode private_key (Some 32) ''private key'' = Inr seed"
    using assms(2) by (auto simp: sign_approval_payload_def split: sum.splits)
  obtain message where s: "approval_payload reg payload = Inr payload" "length seed = 32"
    "fld payload ''key'' = VStr (encode (ed_public ed seed))" "approval_message reg payload = Inr message"
    "signature = encode (ed_sign ed seed message)"
    using assms(2) p d by (auto simp: sign_approval_payload_def bind_Inr_iff decode_Inr_iff)
  have l: "length (ed_public ed seed) = 32" "length (ed_sign ed seed message) = 64" "ed_key_ok ed (ed_public ed seed)"
    "ed_verify ed (ed_public ed seed) (ed_sign ed seed message) message"
    using assms(1) s(2) by (simp_all add: ed25519_laws_def)
  have "check_signature ed reg payload (VStr signature) = Inr ()"
    unfolding check_signature_Inr using s l by blast
  moreover have "decode (fld payload ''key'') (Some 32) ''public key'' = Inr (ed_public ed seed)"
    unfolding s(3) using l(1) by (auto simp: decode_Inr_iff)
  ultimately show ?thesis
    using s(1) assms(3) by (simp add: validate_approval_envelope_Inr abc_key_def)
qed

text \<open>
  Approvals round-trip: an approval payload signed with the key it names gives an envelope that
  validates, unless its nonce was used before.
\<close>

lemma signed_approval_accepted:
  assumes "ed25519_laws ed" and "sign_approval_payload ed reg payload private_key = Inr signature"
    and "str_of (fld payload ''nonce'') \<notin> set used_nonces"
  shows "validate_approval_envelope ed reg (approval_envelope payload signature) used_nonces =
    Inr (approval_envelope payload signature)"
  by (rule signed_approval_validates [OF assms])

section \<open>One chain\<close>

lemma abc_chain_Inr:
  "assert_abc_chain sha ed reg a b env ns = Inr u \<longleftrightarrow>
     (\<exists>da db. is_ok (validate_spec_packet reg a) \<and> is_ok (validate_generated_artifact_manifest sha reg b None) \<and>
        payload_digest sha reg a = Inr da \<and> payload_digest sha reg b = Inr db \<and>
        chain_failures a b (fld env ''payload'') da db = [] \<and>
        validate_approval_envelope ed reg env ns = Inr env)"
  unfolding assert_abc_chain_def bind_Inr_iff validated_iff validate_approval_envelope_Inr by auto

text \<open>
  C28: An accepted chain is bound end to end: the manifest and the approval carry the digest of this
  very packet, the approval the digest of this very manifest, the three agree on domain, task and
  revision, the nonce is fresh, and the approver's key has signed exactly this approval.
\<close>

theorem abc_chain_binds:
  "assert_abc_chain sha ed reg a b env ns = Inr () \<longleftrightarrow>
     is_ok (validate_spec_packet reg a) \<and> is_ok (validate_generated_artifact_manifest sha reg b None) \<and>
     validate_approval_envelope ed reg env ns = Inr env \<and>
     (\<exists>da db. payload_digest sha reg a = Inr da \<and> payload_digest sha reg b = Inr db \<and>
        fld b ''a_digest'' = VStr da \<and> fld (fld env ''payload'') ''a_digest'' = VStr da \<and>
        fld (fld env ''payload'') ''b_digest'' = VStr db) \<and>
     fld a ''domain'' = fld b ''domain'' \<and> fld a ''domain'' = fld (fld env ''payload'') ''domain'' \<and>
     fld a ''task'' = fld (fld env ''payload'') ''task'' \<and> fld a ''revision'' = fld (fld env ''payload'') ''revision'' \<and>
     str_of (fld (fld env ''payload'') ''nonce'') \<notin> set ns \<and>
     (\<exists>sig public message. fld env ''signature'' = VStr (encode sig) \<and> fld env ''key_id'' = VStr (encode public) \<and>
        approval_message reg (fld env ''payload'') = Inr message \<and> ed_verify ed public sig message)"
  (is "?chain \<longleftrightarrow> ?bound")
proof
  assume ?chain
  then show ?bound
    unfolding abc_chain_Inr chain_failures_none validate_approval_envelope_Inr is_ok_iff [of "check_signature _ _ _ _"]
      check_signature_Inr by (auto; blast)
next
  assume ?bound
  then show ?chain unfolding abc_chain_Inr chain_failures_none by blast
qed

text \<open>
  An approval cannot be moved to other documents: if one envelope completes a chain with two
  packets and two manifests, they are the same packet and the same manifest up to key order, as
  long as the hash does not collide on their bytes.
\<close>

lemma approval_names_one_chain:
  assumes "assert_abc_chain sha ed reg a b env ns = Inr ()" and "assert_abc_chain sha ed reg a' b' env ns' = Inr ()"
    and "payload_preimage reg a = Inr pa" and "payload_preimage reg a' = Inr pa'"
    and "payload_preimage reg b = Inr pb" and "payload_preimage reg b' = Inr pb'"
    and "inj_on sha {pa, pa', pb, pb'}" and "wf_val a" and "wf_val a'" and "wf_val b" and "wf_val b'"
  shows "sort_keys a = sort_keys a' \<and> sort_keys b = sort_keys b'"
proof -
  obtain da db where d: "payload_digest sha reg a = Inr da" "payload_digest sha reg a' = Inr da"
    "payload_digest sha reg b = Inr db" "payload_digest sha reg b' = Inr db"
    using assms(1,2) by (auto simp: abc_chain_Inr chain_failures_none)
  have "inj_on sha {pa, pa'}" "inj_on sha {pb, pb'}" using assms(7) by (auto intro: inj_on_subset)
  then show ?thesis
    using payload_digest_inject [OF d(1,2) assms(3,4)] payload_digest_inject [OF d(3,4) assms(5,6)] assms(8-11) by blast
qed

section \<open>Witnesses\<close>

fun safe_integers :: "pyval \<Rightarrow> bool" where
  "safe_integers (VInt i) = (\<bar>i\<bar> \<le> MAX_SAFE_INTEGER)"
| "safe_integers (VList xs) = (\<forall>x \<in> set xs. safe_integers x)"
| "safe_integers (VDict d) = (\<forall>p \<in> set d. safe_integers (snd p))"
| "safe_integers _ = True"

lemma ascii_no_surrogate: "list_all is_ascii s \<Longrightarrow> \<not> has_surrogate s"
  by (intro not_surrogate) (auto simp: list_all_iff is_ascii_def)

lemma reject_value_ok:
  "ascii_val v \<Longrightarrow> safe_integers v \<Longrightarrow> reject_value reg v = Inr ()"
  "\<forall>x \<in> set xs. ascii_val x \<and> safe_integers x \<Longrightarrow> reject_values reg xs = Inr ()"
  "\<forall>p \<in> set d. list_all is_ascii (fst p) \<and> ascii_val (snd p) \<and> safe_integers (snd p) \<Longrightarrow> reject_items reg d = Inr ()"
  by (induction reg v and reg xs and reg d rule: reject_value_reject_values_reject_items.induct)
    (auto simp: ascii_no_surrogate)

lemma ascii_payload:
  assumes "ascii_val v" "safe_integers v"
  shows "\<exists>body. canonical_payload_bytes reg v = Inr body" "\<exists>b. payload_preimage reg v = Inr b"
    "\<exists>d. payload_digest sha reg v = Inr d"
proof -
  obtain c where c: "canonical_json_bytes v = Inr c"
    using canonical_json_bytes_plain [OF ascii_val_plain [OF assms(1)]] by blast
  then show body: "\<exists>body. canonical_payload_bytes reg v = Inr body"
    by (simp add: canonical_payload_bytes_def reject_value_ok(1) [OF assms])
  have "\<not> has_surrogate t" if "inferred_payload_type v = Some t" for t
    using that by (intro ascii_no_surrogate) (auto simp: inferred_payload_type_def SPEC_PACKET_PAYLOAD_TYPE_def
        MANIFEST_PAYLOAD_TYPE_def APPROVAL_PAYLOAD_TYPE_def is_ascii_def split: pyval.splits if_splits)
  then show "\<exists>b. payload_preimage reg v = Inr b"
    using body by (auto simp: payload_preimage_def pae_def split: option.splits)
  then show "\<exists>d. payload_digest sha reg v = Inr d" by (auto simp: payload_digest_def)
qed

definition demo_registry :: registry where
  "demo_registry = \<lparr>rg_errors = [], rg_check_order = []\<rparr>"

definition demo_packet :: pyval where
  "demo_packet = VDict
     [(''version'', VStr ''spec-packet-v1''), (''domain'', VStr ''demo''), (''task'', VStr ''t1''), (''revision'', VInt 1),
      (''semantics'', VList []), (''scope'', VDict [(''include'', VList []), (''exclude'', VList [])]), (''answers'', VDict []),
      (''observable_outcomes'', VList []), (''non_goals'', VList [VStr ''none'']), (''oracle_provenance'', VDict []),
      (''ids'', VDict (map (\<lambda>k. (k, VList [])) [''question'', ''rule'', ''transition'', ''outcome'', ''error'', ''test'', ''mapping'']))]"

definition demo_spec_manifest :: "string \<Rightarrow> pyval" where
  "demo_spec_manifest a_digest = VDict
     [(''version'', VStr ''generated-artifact-manifest-v1''), (''domain'', VStr ''demo''), (''a_digest'', VStr a_digest),
      (''artifacts'', VDict ((''invocation'', VDict [(''argv'', VList [])]) # map (\<lambda>k. (k, VList [])) artifact_lists)),
      (''exemptions'', VList [])]"

definition demo_request :: pyval where
  "demo_request = VDict
     [(''executable'', VStr ''pytest''), (''argv'', VList []), (''cwd'', VStr ''.''), (''roots'', VList [VStr ''src'']),
      (''actions'', VList [VStr ''write'']), (''environment'', VDict [(''allow'', VList [])]),
      (''network'', VDict [(''allow'', VBool False), (''hosts'', VList [])]),
      (''secret'', VDict [(''allow'', VBool False), (''names'', VList [])]), (''commit'', VDict [(''allow'', VBool False)]),
      (''subagent'', VDict [(''allow'', VBool False), (''max_children'', VInt 0)])]"

definition demo_approval :: "string \<Rightarrow> string \<Rightarrow> string \<Rightarrow> pyval" where
  "demo_approval a_digest b_digest policy = VDict
     [(''version'', VStr ''approval-payload-v1''), (''domain'', VStr ''demo''), (''task'', VStr ''t1''), (''revision'', VInt 1),
      (''subject_digest'', VStr a_digest), (''base_digest'', VStr a_digest), (''a_digest'', VStr a_digest),
      (''b_digest'', VStr b_digest), (''principal'', VStr ''alice''), (''key'', VStr (encode toy_key)), (''role'', VStr ''approver''),
      (''nonce'', VStr ''n1''), (''journal_predecessor'', VNone),
      (''time_window'', VDict [(''not_before'', VInt 0), (''not_after'', VInt 9)]), (''capability_request'', demo_request),
      (''profile_digests'', VDict [(''base'', VStr a_digest), (''policy'', VStr policy), (''generator'', VStr a_digest),
         (''harness'', VStr a_digest)])]"

lemmas demo_shapes = shape_simps abc_object_def abc_string_def abc_strings_def abc_integer_def abc_digest_def abc_version_def
  abc_key_def closed_keys_def keys_def closed_field_sets_def is_text_def for_each.simps ensure_def Let_def

lemma demo_packet_valid: "validate_spec_packet demo_registry demo_packet = Inr demo_packet"
  by (simp add: validate_spec_packet_def demo_packet_def demo_shapes has_key_def refuse_if_any_def id_failures_def)

lemma demo_manifest_valid:
  "is_digest d \<Longrightarrow> validate_generated_artifact_manifest sha demo_registry (demo_spec_manifest d) None = Inr (demo_spec_manifest d)"
  by (simp add: validate_generated_artifact_manifest_def collect_manifest_candidates_def collect_object_def demo_spec_manifest_def
      artifact_lists_def artifact_rows_def collect_artifact_rows_def demo_shapes has_key_def refuse_if_any_def insert_commute)

lemma demo_request_valid: "abc_capability demo_registry demo_request = Inr ()"
  by (simp add: abc_capability_def demo_request_def demo_shapes)

lemma toy_key_decodes: "decode (VStr (encode toy_key)) (Some 32) f = Inr toy_key"
  by (simp add: decode_Inr_iff toy_key_def)

lemma demo_approval_valid:
  assumes "is_digest a" "is_digest b" "is_digest p"
  shows "approval_payload demo_registry (demo_approval a b p) = Inr (demo_approval a b p)"
  using assms demo_request_valid
  by (simp add: approval_payload_def demo_approval_def demo_shapes toy_key_decodes)

lemma demo_ascii:
  "ascii_val demo_packet" "safe_integers demo_packet" "wf_val demo_packet"
  "is_digest d \<Longrightarrow> ascii_val (demo_spec_manifest d)" "safe_integers (demo_spec_manifest d)" "wf_val (demo_spec_manifest d)"
  "is_digest a \<Longrightarrow> is_digest b \<Longrightarrow> is_digest p \<Longrightarrow> ascii_val (demo_approval a b p)" "safe_integers (demo_approval a b p)"
  by (auto simp: demo_packet_def demo_spec_manifest_def demo_approval_def demo_request_def artifact_lists_def is_ascii_def
      MAX_SAFE_INTEGER_def encode_def ed_prefix_def intro: digest_ascii b64encode_ascii)

lemma demo_signed:
  assumes "is_digest a" "is_digest b" "is_digest p"
  shows "\<exists>sig. sign_approval_payload toy_ed demo_registry (demo_approval a b p) (VStr (encode toy_key)) = Inr sig"
proof -
  have f: "fld (demo_approval a b p) ''key'' = VStr (encode toy_key)"
    "fld (demo_approval a b p) ''version'' = VStr ''approval-payload-v1''"
    by (simp_all add: demo_approval_def shape_simps)
  obtain body where body: "canonical_payload_bytes demo_registry (demo_approval a b p) = Inr body"
    using ascii_payload(1) [OF demo_ascii(7) [OF assms] demo_ascii(8)] by blast
  have "\<not> has_surrogate APPROVAL_PAYLOAD_TYPE"
    by (intro ascii_no_surrogate) (simp add: APPROVAL_PAYLOAD_TYPE_def is_ascii_def)
  then show ?thesis
    using body by (simp add: sign_approval_payload_def demo_approval_valid [OF assms] toy_key_decodes f approval_message_def
        payload_type_from_version_def pae_def) (simp add: toy_ed_def)
qed

lemma demo_chain:
  assumes "is_digest p" and len: "\<And>b. length (sha b) = 32"
  obtains d e sig where "payload_digest sha demo_registry demo_packet = Inr d" "is_digest d"
    "payload_digest sha demo_registry (demo_spec_manifest d) = Inr e" "is_digest e"
    "sign_approval_payload toy_ed demo_registry (demo_approval d e p) (VStr (encode toy_key)) = Inr sig"
    "assert_abc_chain sha toy_ed demo_registry demo_packet (demo_spec_manifest d)
      (approval_envelope (demo_approval d e p) sig) [] = Inr ()"
proof -
  have dig: "is_digest d" if "payload_digest sha reg v = Inr d" for reg v d
    using that by (auto simp: payload_digest_def bind_Inr_iff is_digest_def is_hex64_def hex_bytes_lower len)
  obtain d where d: "payload_digest sha demo_registry demo_packet = Inr d"
    using ascii_payload(3) [OF demo_ascii(1,2)] by blast
  obtain e where e: "payload_digest sha demo_registry (demo_spec_manifest d) = Inr e"
    using ascii_payload(3) [OF demo_ascii(4,5)] dig [OF d] by blast
  note digests = dig [OF d] dig [OF e] assms(1)
  obtain sig where sig: "sign_approval_payload toy_ed demo_registry (demo_approval d e p) (VStr (encode toy_key)) = Inr sig"
    using demo_signed [OF digests] by blast
  have "chain_failures demo_packet (demo_spec_manifest d) (demo_approval d e p) d e = []"
    unfolding chain_failures_none by (simp add: demo_packet_def demo_spec_manifest_def demo_approval_def shape_simps)
  then have "assert_abc_chain sha toy_ed demo_registry demo_packet (demo_spec_manifest d)
      (approval_envelope (demo_approval d e p) sig) [] = Inr ()"
    using signed_approval_validates [OF toy_laws sig, of "[]"] d e demo_manifest_valid [OF digests(1)]
    by (simp add: abc_chain_Inr demo_packet_valid)
  then show thesis using that d e sig digests by blast
qed

lemma zero_digest_ok: "is_digest zero_digest"
  by (simp add: zero_digest_def is_digest_def is_hex64_def is_lower_hex_def list_all_iff)

lemma demo_preimages_differ:
  assumes "payload_preimage demo_registry demo_packet = Inr pa" "payload_preimage demo_registry (demo_spec_manifest d) = Inr pb"
  shows "inj_on pad_sha {pa, pa, pb, pb}"
proof -
  have n: "length SPEC_PACKET_PAYLOAD_TYPE = 41" "length MANIFEST_PAYLOAD_TYPE = 57"
    "show_nat 41 = ''41''" "show_nat 57 = ''57''"
    by code_simp+
  have t: "inferred_payload_type demo_packet = Some SPEC_PACKET_PAYLOAD_TYPE"
    "inferred_payload_type (demo_spec_manifest d) = Some MANIFEST_PAYLOAD_TYPE"
    by (simp_all add: inferred_payload_type_def demo_packet_def demo_spec_manifest_def shape_simps)
  obtain x y where "pa = ''DSSEv1 41'' @ x" "pb = ''DSSEv1 57'' @ y"
    using assms t by (auto simp: payload_preimage_def pae_def n bind_Inr_iff split: if_splits)
  then have "pad_sha pa \<noteq> pad_sha pb" by (simp add: pad_sha_def)
  then show ?thesis by auto
qed

end
