(* ===== verification/Strict_Json.thy ===== *)
theory Strict_Json
  imports Spec_Abc
begin

text \<open>
  The strict JSON profile of \<^verbatim>\<open>src/src/ranex/foundation/specification_abc.py\<close> reads what the canonical
  serializer writes: \<open>parse_strict_json\<close> accepts the canonical bytes of every ASCII payload, finds no
  escape and no duplicate member to refuse in them, and returns the payload with its keys sorted.
\<close>

section \<open>The parser\<close>

lemma show_int_token:
  assumes "\<bar>i\<bar> \<le> MAX_SAFE_INTEGER"
  shows "integer_token (show_int i) = Inr i"
proof -
  have len: "length (show_nat (nat \<bar>i\<bar>)) \<le> 16"
    using assms by (intro length_show_nat) (auto simp: MAX_SAFE_INTEGER_def)
  have z: "show_int i \<noteq> ''-0''"
    using show_nat_no_zero [of "nat (- i)"] show_nat_not_minus [of "nat i" "[]"] by (auto simp: show_int_def)
  have m: "take 1 (show_nat n) \<noteq> ''-''" for n using show_nat_not_minus [of n "[]"] by simp
  show ?thesis
  proof (cases "i < 0")
    case True
    then have "show_int i = CHR ''-'' # show_nat (nat (- i))" "length (show_nat (nat (- i))) \<le> 16"
      using len by (simp_all add: show_int_def)
    then show ?thesis using z assms True by (simp add: integer_token_def Let_def show_nat_value)
  next
    case False
    then have "show_int i = show_nat (nat i)" "length (show_nat (nat i)) \<le> 16" using len by (simp_all add: show_int_def)
    then show ?thesis using z assms False m [of "nat i"] by (simp add: integer_token_def Let_def show_nat_value)
  qed
qed

lemma strict_show_int:
  assumes "delim r" "\<bar>i\<bar> \<le> MAX_SAFE_INTEGER"
  shows "strict_value (Suc n) (show_int i @ r) = Inr (VInt i, r)"
proof -
  obtain c s where cs: "show_int i @ r = c # s" "\<not> starts_with ''-Infinity'' (c # s)"
    "c \<notin> {CHR 0x22, CHR 0x7B, CHR 0x5B, CHR ''n'', CHR ''t'', CHR ''f'', CHR ''N'', CHR ''I''}"
    by (rule int_text_head)
  then have "strict_value (Suc n) (c # s) = strict_number (c # s)" by (cases "c = CHR ''-''") simp_all
  moreover have "strict_number (show_int i @ r) = Inr (VInt i, r)"
    by (simp add: strict_number_def scan_show_int [OF assms(1)] show_int_token [OF assms(2)])
  ultimately show ?thesis using cs(1) by metis
qed

lemma strict_array_join:
  assumes "xs \<noteq> []"
    and "\<And>x n r. x \<in> set xs \<Longrightarrow> length (dumps x) \<le> n \<Longrightarrow> delim r \<Longrightarrow> strict_value n (dumps x @ r) = Inr (x, r)"
    and "\<forall>x \<in> set xs. no_float x"
    and "length (join '','' (map dumps xs)) < n"
  shows "strict_array n (join '','' (map dumps xs) @ CHR 0x5D # r) = Inr (xs, r)"
  using assms
proof (induction xs arbitrary: n)
  case (Cons x xs)
  then obtain m where n: "n = Suc m" by (cases n) auto
  show ?case
  proof (cases xs)
    case Nil
    have "strict_value m (dumps x @ CHR 0x5D # r) = Inr (x, CHR 0x5D # r)"
      using Cons.prems n Nil by (auto simp: delim_def)
    then show ?thesis using n Nil by simp
  next
    case (Cons y ys)
    let ?rest = "join '','' (map dumps xs) @ CHR 0x5D # r"
    have "strict_value m (dumps x @ CHR '','' # ?rest) = Inr (x, CHR '','' # ?rest)"
      using Cons.prems n Cons by (auto simp: delim_def)
    moreover have "skip_ws ?rest = ?rest"
      using Cons Cons.prems(3) skip_ws_dumps [of y] by (cases ys) auto
    moreover have "strict_array m ?rest = Inr (xs, r)"
      using Cons Cons.prems n by (intro Cons.IH) auto
    ultimately show ?thesis using Cons n by simp
  qed
qed simp

lemma pairs_distinct: "distinct (map fst (acc @ d)) \<Longrightarrow> pairs acc d = Inr (acc @ d)"
  by (induction acc d rule: pairs.induct) auto

lemma strict_object_join:
  assumes "d \<noteq> []"
    and "\<And>p n r. p \<in> set d \<Longrightarrow> length (dumps (snd p)) \<le> n \<Longrightarrow> delim r \<Longrightarrow>
           strict_value n (dumps (snd p) @ r) = Inr (snd p, r)"
    and "\<forall>p \<in> set d. no_float (snd p)"
    and "length (join '','' (map dump_item d)) < n"
  shows "strict_object n (join '','' (map dump_item d) @ CHR 0x7D # r) = Inr (d, r)"
  using assms
proof (induction d arbitrary: n)
  case (Cons p d)
  obtain k v where p: "p = (k, v)" by (cases p)
  from Cons.prems obtain m where n: "n = Suc m" by (cases n) auto
  have nf: "no_float v" using Cons.prems(3) p by simp
  have step: "strict_object n (json_str k @ '':'' @ dumps v @ e # t) =
      (if e = CHR 0x7D then Inr ([(k, v)], t)
       else (case strict_object m (skip_ws t) of Inl e \<Rightarrow> Inl e | Inr (ps, r4) \<Rightarrow> Inr ((k, v) # ps, r4)))"
    if "e \<in> {CHR '','', CHR 0x7D}" "length (dumps v) \<le> m" for e t
  proof -
    have "strict_value m (dumps v @ e # t) = Inr (v, e # t)"
      using Cons.prems(2) [of p m "e # t"] that p by (auto simp: delim_def)
    then show ?thesis
      using that nf by (auto simp: n json_str_def scan_json_str skip_ws_dumps)
  qed
  show ?case
  proof (cases d)
    case Nil
    have "length (dumps v) \<le> m" using Cons.prems(4) n p Nil by simp
    from step [OF _ this, of "CHR 0x7D" r] show ?thesis using Nil p by simp
  next
    case (Cons q ds)
    let ?rest = "join '','' (map dump_item d) @ CHR 0x7D # r"
    have len: "length (dumps v) \<le> m" "length (join '','' (map dump_item d)) < m"
      using Cons.prems(4) n p Cons by auto
    have "skip_ws ?rest = ?rest" using Cons by (cases ds) (auto simp: json_str_def)
    moreover have "strict_object m ?rest = Inr (d, r)"
      using Cons.prems Cons p len by (intro Cons.IH) auto
    ultimately show ?thesis using step [OF _ len(1), of "CHR '',''" ?rest] p Cons by simp
  qed
qed simp

lemma strict_dumps:
  assumes "no_float v" "wf_val v" "safe_integers v" "length (dumps v) \<le> n" "delim r"
  shows "strict_value n (dumps v @ r) = Inr (v, r)"
  using assms
proof (induction v arbitrary: n r rule: pyval.induct)
  case (VList xs)
  then obtain m where n: "n = Suc m" by (cases n) auto
  show ?case
  proof (cases "xs = []")
    case False
    then obtain y ys where xs: "xs = y # ys" by (cases xs) auto
    obtain c s where "dumps y = c # s" "c \<notin> {CHR 0x20, CHR 0x09, CHR 0x0A, CHR 0x0D, CHR 0x5D}"
      using VList.prems(1) xs dumps_Cons [of y] by auto
    then obtain t where head: "join '','' (map dumps xs) = c # t" "c \<noteq> CHR 0x5D"
      "skip_ws (c # t @ CHR 0x5D # r) = c # t @ CHR 0x5D # r"
      using xs by (cases ys) auto
    have "strict_array m (join '','' (map dumps xs) @ CHR 0x5D # r) = Inr (xs, r)"
      using VList False n by (intro strict_array_join) auto
    then show ?thesis using n head by simp
  qed (use n in simp)
next
  case (VDict d)
  then obtain m where n: "n = Suc m" by (cases n) auto
  show ?case
  proof (cases d)
    case (Cons q ds)
    have head: "join '','' (map dump_item d) = CHR 0x22 # tl (join '','' (map dump_item d))"
      using Cons by (cases ds) (auto simp: json_str_def)
    have "strict_object m (join '','' (map dump_item d) @ CHR 0x7D # r) = Inr (d, r)"
    proof (rule strict_object_join)
      fix p k t
      assume p: "p \<in> set d" and "length (dumps (snd p)) \<le> k" "delim t"
      then show "strict_value k (dumps (snd p) @ t) = Inr (snd p, t)"
        using VDict.IH [OF p, of "snd p" k t] VDict.prems(1-3) by (auto simp: prod_set_defs)
    qed (use VDict.prems Cons n in auto)
    moreover have "pairs [] d = Inr d" using pairs_distinct [of "[]" d] VDict.prems(2) by simp
    ultimately show ?thesis using n head by (cases "join '','' (map dump_item d)") auto
  qed (use n in simp)
next
  case (VInt i)
  obtain m where "n = Suc m"
    using VInt.prems(4) dumps_ne [OF VInt.prems(1)] by (cases n) auto
  then show ?case using strict_show_int [OF VInt.prems(5)] VInt.prems(3) by (metis dumps.simps(3) safe_integers.simps(1))
next
  case VNone
  then show ?case by (cases n) auto
next
  case (VBool b)
  then show ?case by (cases n; cases b) auto
next
  case (VStr s)
  then show ?case by (cases n) (auto simp: json_str_def scan_json_str)
qed simp

lemma strict_loads_dumps:
  assumes "no_float v" "wf_val v" "safe_integers v"
  shows "strict_loads (dumps v) = Inr v"
proof -
  have "strict_value (Suc (length (dumps v))) (dumps v @ []) = Inr (v, [])"
    using assms by (intro strict_dumps) (simp_all add: delim_def)
  moreover have "skip_ws (dumps v) = dumps v" using skip_ws_dumps [OF assms(1), of "[]"] by simp
  ultimately show ?thesis by (simp add: strict_loads_def del: strict_value.simps)
qed

section \<open>The scans over the text\<close>

abbreviation units :: "string \<Rightarrow> string list" where
  "units t \<equiv> map (\<lambda>c. [c]) t"

lemma code_points_ascii: "list_all is_ascii s \<Longrightarrow> code_points s = units s"
  by (induction s rule: code_points.induct) (auto simp: is_ascii_def Let_def)

text \<open>Text that the escape scan passes through without a failure, ending outside a string.\<close>

definition unescaped :: "string \<Rightarrow> bool" where
  "unescaped t \<longleftrightarrow> (\<forall>rest fs. escape_failures (units t @ rest) False fs = escape_failures rest False fs)"

lemma unescaped_append: "unescaped s \<Longrightarrow> unescaped t \<Longrightarrow> unescaped (s @ t)"
  by (simp add: unescaped_def)

lemma unescaped_Nil [simp]: "unescaped []"
  by (simp add: unescaped_def)

lemma unescaped_plain: "CHR 0x22 \<notin> set t \<Longrightarrow> unescaped t"
  by (induction t) (auto simp: unescaped_def)

lemma unescaped_join: "unescaped sep \<Longrightarrow> \<forall>x \<in> set xs. unescaped x \<Longrightarrow> unescaped (join sep xs)"
  by (induction sep xs rule: join.induct) (auto intro: unescaped_append)

lemma hex_unit_hex2: "hex_unit (units (''00'' @ hex2 c)) = Some (of_char c)"
proof -
  let ?n = "of_char c :: nat"
  have n: "16 * (?n div 16) + ?n mod 16 = ?n" by simp
  have "?n div 16 < 16" and "?n mod 16 < 16" using of_char_div16 by auto
  then show ?thesis using n by (simp add: hex_unit_def hex2_def Let_def) (simp add: hex_val_def)
qed

lemma escape_at_hex2:
  assumes "(of_char c :: nat) < 32"
  shows "escape_at (units (''u00'' @ hex2 c) @ rest) fs = (rest, fs)"
proof -
  have "units (''u00'' @ hex2 c) @ rest = ''u'' # units (''00'' @ hex2 c) @ rest" "length (units (''00'' @ hex2 c)) = 4"
    by (simp_all add: hex2_def Let_def)
  then show ?thesis using hex_unit_hex2 [of c] assms by (simp add: escape_at_def Let_def)
qed

text \<open>The three ways a character is written inside a string.\<close>

lemma json_escape_cases:
  obtains "json_escape c = [c]" "c \<noteq> CHR 0x22" "c \<noteq> CHR 0x5C"
    | d where "json_escape c = [CHR 0x5C, d]" "d \<in> {CHR 0x22, CHR 0x5C, CHR ''n'', CHR ''r'', CHR ''t'', CHR ''f'', CHR ''b''}"
    | "json_escape c = CHR 0x5C # ''u00'' @ hex2 c" "(of_char c :: nat) < 32"
proof -
  let ?S = "{CHR 0x22, CHR 0x5C, CHR 0x0A, CHR 0x0D, CHR 0x09, CHR 0x0C, CHR 0x08}"
  consider "c \<in> ?S" | "c \<notin> ?S" "(of_char c :: nat) < 32" | "c \<notin> ?S" "\<not> (of_char c :: nat) < 32" by blast
  then show thesis
  proof cases
    case 1
    then have "\<exists>d \<in> {CHR 0x22, CHR 0x5C, CHR ''n'', CHR ''r'', CHR ''t'', CHR ''f'', CHR ''b''}. json_escape c = [CHR 0x5C, d]"
      by (auto simp: json_escape_def)
    then show thesis using that(2) by blast
  qed (use that(1,3) in \<open>auto simp: json_escape_def\<close>)
qed

lemma escape_failures_json_escape:
  "escape_failures (units (json_escape c) @ rest) True fs = escape_failures rest True fs"
proof (cases rule: json_escape_cases [of c])
  case (2 d)
  then show ?thesis by (auto simp: escape_at_def)
next
  case 3
  then have "escape_failures (units (json_escape c) @ rest) True fs =
      escape_failures (fst (escape_at (units (''u00'' @ hex2 c) @ rest) fs)) True (snd (escape_at (units (''u00'' @ hex2 c) @ rest) fs))"
    by simp
  then show ?thesis using escape_at_hex2 [OF 3(2)] by simp
qed simp

lemma unescaped_json_str: "unescaped (json_str s)"
proof -
  have "escape_failures (units (concat (map json_escape s)) @ rest) True fs = escape_failures rest True fs" for rest fs
    by (induction s) (auto simp: escape_failures_json_escape)
  then show ?thesis by (simp add: unescaped_def json_str_def)
qed

lemma unescaped_dumps: "no_float v \<Longrightarrow> unescaped (dumps v)"
proof (induction v rule: pyval.induct)
  case (VInt i)
  have "CHR 0x22 \<notin> set (show_nat n)" for n
    using show_nat_digits [of n] by (auto simp: list_all_iff is_digit_def Let_def)
  then show ?case by (auto simp: show_int_def intro!: unescaped_plain)
next
  case (VList xs)
  then have "unescaped (join '','' (map dumps xs))" by (intro unescaped_join) (auto intro: unescaped_plain)
  then show ?case unfolding dumps.simps by (intro unescaped_append) (auto intro: unescaped_plain)
next
  case (VDict d)
  have "unescaped (dumps (snd p))" if "p \<in> set d" for p using VDict that by (cases p) fastforce
  moreover have "unescaped '':''" "unescaped '',''" by (simp_all add: unescaped_plain)
  ultimately have "unescaped (join '','' (map (\<lambda>p. json_str (fst p) @ '':'' @ dumps (snd p)) d))"
    using unescaped_json_str by (intro unescaped_join) (auto simp del: append_Cons intro!: unescaped_append)
  then show ?case unfolding dumps.simps by (intro unescaped_append) (auto intro: unescaped_plain)
qed (auto simp: unescaped_json_str intro!: unescaped_plain)

text \<open>The member scan over a string literal.\<close>

lemma string_token_json_str:
  "string_token (units (concat (map json_escape s)) @ [CHR 0x22] # rest) = (units (concat (map json_escape s)) @ [[CHR 0x22]], rest)"
proof (induction s)
  case (Cons c s)
  have hex: "x \<noteq> CHR 0x22 \<and> x \<noteq> CHR 0x5C" if "x \<in> set (hex2 c)" for x
    using that hex2_lower [of c] by (auto simp: list_all_iff is_lower_hex_def)
  have pass: "string_token (units t @ u) = (units t @ fst (string_token u), snd (string_token u))"
    if "\<forall>x \<in> set t. x \<noteq> CHR 0x22 \<and> x \<noteq> CHR 0x5C" for t u
    using that by (induction t) auto
  show ?case
  proof (cases rule: json_escape_cases [of c])
    case 3
    have "string_token (units (''00'' @ hex2 c) @ units (concat (map json_escape s)) @ [CHR 0x22] # rest) =
        (units (''00'' @ hex2 c) @ units (concat (map json_escape s)) @ [[CHR 0x22]], rest)"
      using pass [of "''00'' @ hex2 c"] hex Cons by auto
    then show ?thesis using 3 by simp
  qed (use Cons in auto)
qed simp

text \<open>What follows a value in canonical text.\<close>

definition follow :: "string \<Rightarrow> bool" where
  "follow r \<longleftrightarrow> r = [] \<or> hd r \<in> {CHR '','', CHR 0x5D, CHR 0x7D}"

lemma member_failures_str:
  assumes "follow r"
  shows "member_failures (units (json_str s @ r)) objects fs = member_failures (units r) objects fs"
proof -
  have d: "dropWhile blank (units r) = units r" "r = [] \<or> hd (units r) \<noteq> '':''"
    using assms by (cases r; auto simp: follow_def ascii_space_def)+
  show ?thesis using string_token_json_str [of s "units r"] d by (auto simp: json_str_def Let_def simp del: blank.simps)
qed

lemma member_failures_key:
  assumes "k \<notin> set seen"
  shows "member_failures (units (json_str k @ '':'' @ r)) (seen # objects) fs = member_failures (units r) ((k # seen) # objects) fs"
proof -
  have "concat ([CHR 0x22] # units (concat (map json_escape k)) @ [[CHR 0x22]]) = dumps (VStr k)"
    by (simp add: json_str_def)
  moreover have "json_loads (dumps (VStr k)) = Inr (VStr k)" by (rule json_loads_dumps) simp_all
  moreover have "\<not> blank '':''" by (simp add: ascii_space_def)
  ultimately show ?thesis
    using string_token_json_str [of k "units ('':'' @ r)"] assms by (simp add: json_str_def Let_def)
qed

lemma member_failures_plain:
  "{CHR 0x22, CHR 0x7B, CHR 0x7D} \<inter> set t = {} \<Longrightarrow> member_failures (units (t @ r)) objects fs = member_failures (units r) objects fs"
  by (induction t) auto

lemma member_failures_array:
  assumes "\<And>x r objects fs. x \<in> set xs \<Longrightarrow> follow r \<Longrightarrow>
      member_failures (units (dumps x @ r)) objects fs = member_failures (units r) objects fs"
  shows "member_failures (units (join '','' (map dumps xs) @ CHR 0x5D # r)) objects fs = member_failures (units r) objects fs"
  using assms
proof (induction xs)
  case (Cons x xs)
  let ?rest = "join '','' (map dumps xs) @ CHR 0x5D # r"
  have IH: "member_failures (units ?rest) objects fs = member_failures (units r) objects fs" using Cons by simp
  show ?case
  proof (cases xs)
    case Nil
    then show ?thesis using Cons.prems [of x "CHR 0x5D # r"] by (simp add: follow_def)
  next
    case (Cons y ys)
    then have "join '','' (map dumps (x # xs)) @ CHR 0x5D # r = dumps x @ CHR '','' # ?rest" by simp
    then show ?thesis using Cons.prems [of x "CHR '','' # ?rest"] IH by (simp add: follow_def)
  qed
qed simp

lemma member_failures_object:
  assumes "\<And>p r objects fs. p \<in> set d \<Longrightarrow> follow r \<Longrightarrow>
      member_failures (units (dumps (snd p) @ r)) objects fs = member_failures (units r) objects fs"
    and "distinct (map fst d)" and "fst ` set d \<inter> set seen = {}"
  shows "member_failures (units (join '','' (map dump_item d) @ CHR 0x7D # r)) (seen # objects) fs = member_failures (units r) objects fs"
  using assms
proof (induction d arbitrary: seen)
  case (Cons p d)
  obtain k v where p: "p = (k, v)" by (cases p)
  let ?rest = "join '','' (map dump_item d) @ CHR 0x7D # r"
  have IH: "member_failures (units ?rest) ((k # seen) # objects) fs = member_failures (units r) objects fs"
    using Cons p by (intro Cons.IH) auto
  have key: "member_failures (units (json_str k @ '':'' @ t)) (seen # objects) fs = member_failures (units t) ((k # seen) # objects) fs"
    for t using Cons.prems(3) p by (intro member_failures_key) simp
  show ?case
  proof (cases d)
    case Nil
    then show ?thesis using key [of "dumps v @ CHR 0x7D # r"] Cons.prems(1) [of p "CHR 0x7D # r"] p by (simp add: follow_def)
  next
    case (Cons q ds)
    then have "join '','' (map dump_item (p # d)) @ CHR 0x7D # r = json_str k @ '':'' @ dumps v @ CHR '','' # ?rest" using p by simp
    then show ?thesis using key [of "dumps v @ CHR '','' # ?rest"] Cons.prems(1) [of p "CHR '','' # ?rest"] IH p by (simp add: follow_def)
  qed
qed simp

lemma member_failures_dumps:
  assumes "no_float v" "wf_val v" "follow r"
  shows "member_failures (units (dumps v @ r)) objects fs = member_failures (units r) objects fs"
  using assms
proof (induction v arbitrary: r objects fs rule: pyval.induct)
  case (VInt i)
  have "{CHR 0x22, CHR 0x7B, CHR 0x7D} \<inter> set (show_nat n) = {}" for n
    using show_nat_digits [of n] by (auto simp: list_all_iff is_digit_def Let_def)
  then show ?case unfolding dumps.simps show_int_def by (intro member_failures_plain) auto
next
  case (VStr s)
  then show ?case using member_failures_str by simp
next
  case (VList xs)
  then have "member_failures (units (join '','' (map dumps xs) @ CHR 0x5D # r)) objects fs = member_failures (units r) objects fs"
    by (intro member_failures_array) auto
  then show ?case by simp
next
  case (VDict d)
  have "member_failures (units (join '','' (map dump_item d) @ CHR 0x7D # r)) ([] # objects) fs = member_failures (units r) objects fs"
  proof (rule member_failures_object)
    fix p r' objects' fs'
    assume p: "p \<in> set d" and "follow r'"
    then show "member_failures (units (dumps (snd p) @ r')) objects' fs' = member_failures (units r') objects' fs'"
      using VDict.IH [OF p, of "snd p" r'] VDict.prems(1,2) by (auto simp: prod_set_defs)
  qed (use VDict.prems in auto)
  then show ?case by simp
qed auto

section \<open>Reading back what was written\<close>

lemma escape_separators_ascii: "list_all is_ascii b \<Longrightarrow> escape_separators b = b"
  by (induction b rule: escape_separators.induct) (auto simp: is_ascii_def)

lemma reject_value_safe:
  "reject_value reg v = Inr u \<Longrightarrow> safe_integers v"
  "reject_values reg xs = Inr u \<Longrightarrow> \<forall>x \<in> set xs. safe_integers x"
  "reject_items reg d = Inr u \<Longrightarrow> \<forall>p \<in> set d. safe_integers (snd p)"
  by (induction reg v and reg xs and reg d rule: reject_value_reject_values_reject_items.induct)
    (auto split: sum.splits if_splits)

lemma safe_integers_sort_keys [simp]: "safe_integers (sort_keys v) = safe_integers v"
proof (induction v rule: pyval.induct)
  case (VDict d)
  then have "safe_integers (sort_keys (snd p)) = safe_integers (snd p)" if "p \<in> set d" for p
    using that by (cases p) fastforce
  then show ?case by auto
qed auto

lemma canonical_payload_ascii:
  assumes "ascii_val v"
  shows "canonical_payload_bytes reg v = Inr b \<longleftrightarrow> safe_integers v \<and> b = dumps (sort_keys v)"
    "canonical_payload_bytes reg v = Inr b \<Longrightarrow> list_all is_ascii b"
proof -
  obtain c where c: "canonical_json_bytes v = Inr c"
    using canonical_json_bytes_plain [OF ascii_val_plain [OF assms]] by blast
  then have "c = dumps (sort_keys v)" by (auto simp: canonical_json_bytes_Inr canonical_json_def split: if_splits)
  moreover have a: "list_all is_ascii c" using canonical_json_bytes_ascii [OF assms c] .
  ultimately have p: "canonical_payload_bytes reg v = bind (reject_value reg v) (\<lambda>_. Inr (dumps (sort_keys v)))"
    using c by (simp add: canonical_payload_bytes_def escape_separators_ascii)
  then show "canonical_payload_bytes reg v = Inr b \<longleftrightarrow> safe_integers v \<and> b = dumps (sort_keys v)"
    using reject_value_ok(1) [OF assms] reject_value_safe(1) by (auto simp: bind_Inr_iff)
  then show "canonical_payload_bytes reg v = Inr b \<Longrightarrow> list_all is_ascii b" using a \<open>c = dumps (sort_keys v)\<close> by simp
qed

lemma payload_digest_sort_keys:
  assumes "ascii_val v" "wf_val v"
  shows "payload_digest sha reg (sort_keys v) = Inr d \<longleftrightarrow> payload_digest sha reg v = Inr d"
proof -
  have "fld (sort_keys v) ''version'' = sort_keys (fld v ''version'')"
  proof (cases v)
    case (VDict d)
    then show ?thesis using fld_sort_keys [of d] assms(2) by simp
  qed (simp_all add: fld_def)
  then have "inferred_payload_type (sort_keys v) = inferred_payload_type v"
    by (cases "fld v ''version''") (simp_all add: inferred_payload_type_def)
  moreover have "canonical_payload_bytes reg (sort_keys v) = Inr b \<longleftrightarrow> canonical_payload_bytes reg v = Inr b" for b
    using canonical_payload_ascii(1) [OF assms(1)] canonical_payload_ascii(1) [OF chars_val_sort_keys [OF assms(1)]] by simp
  ultimately show ?thesis by (auto simp: payload_digest_def payload_preimage_def bind_Inr_iff split: option.splits)
qed

lemma parse_canonical_bytes:
  assumes "ascii_val v" "wf_val v" "canonical_payload_bytes reg v = Inr b"
  shows "parse_strict_json reg' b = Inr (sort_keys v)"
proof -
  have b: "b = dumps (sort_keys v)" "safe_integers v" and ascii: "list_all is_ascii b"
    using canonical_payload_ascii [OF assms(1)] assms(3) by blast+
  have w: "no_float (sort_keys v)" "wf_val (sort_keys v)" "safe_integers (sort_keys v)"
    using assms(1,2) b(2) chars_val_no_float [of is_ascii v] by (simp_all add: no_float_sort_keys wf_val_sort_keys)
  have loads: "strict_loads b = Inr (sort_keys v)" unfolding b(1) by (rule strict_loads_dumps [OF w])
  have escapes: "json_escape_failures (code_points b) = []"
    using unescaped_dumps [OF w(1)] by (simp add: b(1) unescaped_def json_escape_failures_def code_points_ascii [OF ascii [unfolded b(1)]])
      (metis append_Nil2 escape_failures.simps(1))
  have members: "duplicate_member_failures (code_points b) = []"
    using member_failures_dumps [OF w(1,2), of "[]" "[]" "[]"]
    by (simp add: duplicate_member_failures_def follow_def b(1) code_points_ascii [OF ascii [unfolded b(1)]])
  have "\<not> starts_with [CHR 0xEF, CHR 0xBB, CHR 0xBF] b"
    using ascii by (cases b) (auto simp: is_ascii_def)
  then show ?thesis
    using loads escapes members utf8_ok_ascii [OF ascii] ascii_no_surrogate [OF ascii]
    by (simp add: parse_strict_json_def Let_def extend_failures_def refuse_if_any_def)
qed

text \<open>
  C23: The strict profile accepts every payload this program writes: the canonical bytes of an ASCII
  payload parse without any failure (encoding, escapes, duplicate members, numbers), to the same
  payload with sorted keys, and they pass the check that raw bytes be canonical.
\<close>

theorem strict_json_roundtrip:
  assumes "ascii_val v" and "wf_val v" and "canonical_payload_bytes reg v = Inr b"
  shows "parse_strict_json reg' b = Inr (sort_keys v) \<and> parse_canonical_payload reg' b = Inr (sort_keys v)"
proof -
  have "canonical_payload_bytes reg' (sort_keys v) = Inr b"
    using assms canonical_payload_ascii [OF assms(1)] canonical_payload_ascii [of "sort_keys v"]
    by (simp add: chars_val_sort_keys sort_keys_idem)
  then show ?thesis using parse_canonical_bytes [OF assms] by (simp add: parse_canonical_payload_def)
qed

theorem strict_json_roundtrip_witness:
  "\<exists>b. parse_strict_json demo_registry b = Inr (VDict [(''a'', VNone), (''b'', VInt 1)])"
proof -
  let ?v = "VDict [(''b'', VInt 1), (''a'', VNone)]"
  have v: "ascii_val ?v" "wf_val ?v" "safe_integers ?v" by (simp_all add: is_ascii_def MAX_SAFE_INTEGER_def)
  obtain b where b: "canonical_payload_bytes demo_registry ?v = Inr b" using ascii_payload(1) [OF v(1,3)] by blast
  have "sort_keys ?v = VDict [(''a'', VNone), (''b'', VInt 1)]" by (simp add: list_less_def)
  then show ?thesis using strict_json_roundtrip [OF v(1,2) b] by metis
qed

end
