(* ===== verification/Capabilities.thy ===== *)
theory Capabilities
  imports Spec_Abc
begin

text \<open>
  Approval authority: capability records, their intersection, role assignments, grants and the
  events of their lifecycle (\<^verbatim>\<open>src/src/ranex/governed_execution/domain/specification_approval.py\<close> and
  \<^verbatim>\<open>src/src/ranex/governed_execution/domain/specification_events.py\<close>). Shown: an intersection never
  exceeds any of its sources, a child grant never exceeds its parent or the policy and never
  overlaps a sibling, no key holds incompatible roles, and a grant is usable exactly in its
  window, with a complete chain of issuances, while neither it nor an ancestor is revoked.
\<close>

section \<open>Capability records\<close>

definition approval_refusal :: "string \<Rightarrow> string \<Rightarrow> exn" where
  "approval_refusal code detail = Refusal code detail"

definition ap_string :: "pyval \<Rightarrow> string \<Rightarrow> string result" where
  "ap_string v field =
     ensure (is_text v) (approval_refusal ''E-APPROVAL-SHAPE'' (field @ '' must be a non-empty string'')) (Inr (str_of v))"

text \<open>
  \<open>_capability_strings\<close> on a list or a tuple: both are a \<open>VList\<close> here, \<open>from_tuple\<close> says which the
  caller requires and has.
\<close>

definition capability_strings :: "bool \<Rightarrow> pyval \<Rightarrow> string \<Rightarrow> bool \<Rightarrow> string list result" where
  "capability_strings from_tuple v field ordered =
     ensure (is_list v \<and> list_all is_text (items_of v))
       (approval_refusal ''E-APPROVAL-SHAPE'' (field @ '' must be a string '' @ (if from_tuple then ''tuple'' else ''list''))) (
     let values = map str_of (items_of v) in
     ensure (distinct values) (approval_refusal ''E-APPROVAL-SHAPE'' (field @ '' must not repeat values'')) (
     ensure (list_all (\<lambda>s. CHR ''*'' \<notin> set s) values) (approval_refusal ''E-APPROVAL-WILDCARD'' field) (
     ensure (from_tuple \<and> \<not> ordered \<longrightarrow> sort values = values)
       (approval_refusal ''E-APPROVAL-SHAPE'' (field @ '' must be sorted and unique'')) (
     Inr (if ordered then values else sort values)))))"

definition tuple_strings :: "string list \<Rightarrow> string \<Rightarrow> string list result" where
  "tuple_strings values field = capability_strings True (str_list values) field (field = ''argv'')"

definition record_strings :: "pyval \<Rightarrow> string \<Rightarrow> string list result" where
  "record_strings v field = capability_strings False v field (field = ''argv'')"

definition portable_relative :: "string \<Rightarrow> string \<Rightarrow> bool \<Rightarrow> string result" where
  "portable_relative v field cwd =
     (if cwd \<and> v = ''.'' then Inr v
      else
        ensure (v \<noteq> [] \<and> \<not> starts_with ''/'' v \<and> CHR 0x5C \<notin> set v \<and>
            list_all (\<lambda>c. 32 \<le> (of_char c :: nat) \<and> (of_char c :: nat) \<noteq> 127) v \<and>
            list_all (\<lambda>p. p \<notin> {[], ''.'', ''..''}) (split_on CHR ''/'' v))
          (approval_refusal ''E-APPROVAL-PATH'' field) (Inr v))"

definition ap_record :: "pyval \<Rightarrow> string list \<Rightarrow> string \<Rightarrow> unit result" where
  "ap_record v fields' field =
     ensure (closed_keys v fields') (approval_refusal ''E-APPROVAL-SHAPE'' (field @ '' is not a closed record'')) (Inr ())"

record policy_capabilities =
  pc_executable :: string
  pc_argv :: "string list"
  pc_cwd :: string
  pc_roots :: "string list"
  pc_actions :: "string list"
  pc_environment_allow :: "string list"
  pc_network_allow :: bool
  pc_network_hosts :: "string list"
  pc_secret_allow :: bool
  pc_secret_names :: "string list"
  pc_commit_allow :: bool
  pc_subagent_allow :: bool
  pc_subagent_max_children :: int

definition CAPABILITY_VERSION :: string where
  "CAPABILITY_VERSION = ''policy-capabilities-v1''"

text \<open>The constructor: \<open>version\<close> is the only value it accepts, so the record does not carry it.\<close>

definition capabilities_post_init :: "policy_capabilities \<Rightarrow> policy_capabilities result" where
  "capabilities_post_init c =
     bind (ap_string (VStr (pc_executable c)) ''executable'') (\<lambda>_.
     bind (tuple_strings (pc_argv c) ''argv'') (\<lambda>_.
     bind (ap_string (VStr (pc_cwd c)) ''cwd'') (\<lambda>cwd.
     bind (portable_relative cwd ''cwd'' True) (\<lambda>_.
     bind (tuple_strings (pc_roots c) ''roots'') (\<lambda>roots.
     bind (map_result (\<lambda>r. portable_relative r ''roots'' False) roots) (\<lambda>_.
     bind (tuple_strings (pc_actions c) ''actions'') (\<lambda>_.
     bind (tuple_strings (pc_environment_allow c) ''environment.allow'') (\<lambda>_.
     bind (tuple_strings (pc_network_hosts c) ''network.hosts'') (\<lambda>_.
     bind (tuple_strings (pc_secret_names c) ''secret.names'') (\<lambda>_.
     ensure (0 \<le> pc_subagent_max_children c)
       (approval_refusal ''E-APPROVAL-SHAPE'' ''max_children must be a non-negative integer'') (Inr c)))))))))))"

definition capability_fields :: "string list" where
  "capability_fields = [''executable'', ''argv'', ''cwd'', ''roots'', ''actions'', ''environment'', ''network'', ''secret'',
     ''commit'', ''subagent'']"

definition capabilities_from_record :: "pyval \<Rightarrow> policy_capabilities result" where
  "capabilities_from_record v =
     ensure (closed_keys v (''version'' # capability_fields) \<or> closed_keys v capability_fields)
       (approval_refusal ''E-APPROVAL-SHAPE'' ''capability is not a closed record'') (
     let environment = fld v ''environment''; network = fld v ''network''; secret = fld v ''secret'';
         commit = fld v ''commit''; subagent = fld v ''subagent''; maximum = fld subagent ''max_children'' in
     bind (ap_record environment [''allow''] ''environment'') (\<lambda>_.
     bind (ap_record network [''allow'', ''hosts''] ''network'') (\<lambda>_.
     bind (ap_record secret [''allow'', ''names''] ''secret'') (\<lambda>_.
     bind (ap_record commit [''allow''] ''commit'') (\<lambda>_.
     bind (ap_record subagent [''allow'', ''max_children''] ''subagent'') (\<lambda>_.
     bind (record_strings (fld v ''roots'') ''roots'') (\<lambda>roots.
     bind (map_result (\<lambda>r. portable_relative r ''roots'' False) roots) (\<lambda>_.
     bind (ap_string (fld v ''cwd'') ''cwd'') (\<lambda>cwd0.
     bind (portable_relative cwd0 ''cwd'' True) (\<lambda>cwd.
     ensure (list_all is_bool [fld network ''allow'', fld secret ''allow'', fld commit ''allow'', fld subagent ''allow''])
       (approval_refusal ''E-APPROVAL-SHAPE'' ''capability flags must be booleans'') (
     ensure (is_int maximum \<and> 0 \<le> int_of maximum)
       (approval_refusal ''E-APPROVAL-SHAPE'' ''max_children must be a non-negative integer'') (
     bind (ap_string (fld v ''executable'') ''executable'') (\<lambda>executable.
     bind (record_strings (fld v ''argv'') ''argv'') (\<lambda>argv.
     bind (record_strings (fld v ''actions'') ''actions'') (\<lambda>actions.
     bind (record_strings (fld environment ''allow'') ''environment.allow'') (\<lambda>environment_allow.
     bind (record_strings (fld network ''hosts'') ''network.hosts'') (\<lambda>hosts.
     bind (record_strings (fld secret ''names'') ''secret.names'') (\<lambda>names.
     ensure (has_key v ''version'' \<longrightarrow> fld v ''version'' = VStr CAPABILITY_VERSION)
       (approval_refusal ''E-APPROVAL-SHAPE'' ''capability version is unsupported'') (
     capabilities_post_init
       \<lparr>pc_executable = executable, pc_argv = argv, pc_cwd = cwd, pc_roots = roots, pc_actions = actions,
        pc_environment_allow = environment_allow, pc_network_allow = bool_of (fld network ''allow''),
        pc_network_hosts = hosts, pc_secret_allow = bool_of (fld secret ''allow''), pc_secret_names = names,
        pc_commit_allow = bool_of (fld commit ''allow''), pc_subagent_allow = bool_of (fld subagent ''allow''),
        pc_subagent_max_children = int_of maximum\<rparr>)))))))))))))))))))"

definition capabilities_as_record :: "policy_capabilities \<Rightarrow> pyval" where
  "capabilities_as_record c = VDict
     [(''version'', VStr CAPABILITY_VERSION), (''executable'', VStr (pc_executable c)), (''argv'', str_list (pc_argv c)),
      (''cwd'', VStr (pc_cwd c)), (''roots'', str_list (pc_roots c)), (''actions'', str_list (pc_actions c)),
      (''environment'', VDict [(''allow'', str_list (pc_environment_allow c))]),
      (''network'', VDict [(''allow'', VBool (pc_network_allow c)), (''hosts'', str_list (pc_network_hosts c))]),
      (''secret'', VDict [(''allow'', VBool (pc_secret_allow c)), (''names'', str_list (pc_secret_names c))]),
      (''commit'', VDict [(''allow'', VBool (pc_commit_allow c))]),
      (''subagent'', VDict [(''allow'', VBool (pc_subagent_allow c)), (''max_children'', VInt (pc_subagent_max_children c))])]"

definition capabilities_digest :: "(bytes \<Rightarrow> bytes) \<Rightarrow> registry \<Rightarrow> policy_capabilities \<Rightarrow> string result" where
  "capabilities_digest sha reg c = payload_digest sha reg (capabilities_as_record c)"

record approval_pending_context =
  ap_a_digest :: string
  ap_subject_digest :: string
  ap_actor :: string

section \<open>Roles\<close>

record role_assignment =
  ra_assignment_id :: string
  ra_principal_id :: string
  ra_public_key :: string
  ra_role :: string
  ra_scope_c_digest :: string

definition role_assignment_as_record :: "role_assignment \<Rightarrow> pyval" where
  "role_assignment_as_record a = VDict
     [(''assignment_id'', VStr (ra_assignment_id a)), (''principal_id'', VStr (ra_principal_id a)),
      (''public_key'', VStr (ra_public_key a)), (''role'', VStr (ra_role a)), (''scope_c_digest'', VStr (ra_scope_c_digest a))]"

definition ROLES :: "string list" where
  "ROLES = [''approver'', ''worker'', ''evaluator'', ''publisher'']"

definition incompatible :: "string \<Rightarrow> string \<Rightarrow> bool" where
  "incompatible r s \<longleftrightarrow>
     {r, s} \<in> {{''approver'', ''worker''}, {''approver'', ''evaluator''}, {''worker'', ''evaluator''}, {''evaluator'', ''publisher''},
       {''worker'', ''publisher''}}"

text \<open>The constructor's loop; \<open>held\<close> is \<open>by_key\<close>, the roles each key already has.\<close>

fun check_assignments :: "role_assignment list \<Rightarrow> string list \<Rightarrow> (string \<times> string) list \<Rightarrow> unit result" where
  "check_assignments [] seen held = Inr ()"
| "check_assignments (a # as) seen held =
     ensure (list_all (\<lambda>p. is_text (snd p)) (dict_of (role_assignment_as_record a)))
       (approval_refusal ''E-APPROVAL-SHAPE'' ''role assignment fields must be non-empty strings'') (
     ensure (ra_role a \<in> set ROLES \<and> ra_assignment_id a \<notin> set seen)
       (approval_refusal ''E-APPROVAL-ROLE'' ''unknown role or duplicate assignment'') (
     ensure (\<forall>(k, r) \<in> set held. k = ra_public_key a \<longrightarrow> \<not> incompatible r (ra_role a))
       (approval_refusal ''E-APPROVAL-ROLE'' ''public key has incompatible roles'') (
     check_assignments as (ra_assignment_id a # seen) ((ra_public_key a, ra_role a) # held))))"

definition role_assignments :: "role_assignment list \<Rightarrow> role_assignment list result" where
  "role_assignments as = bind (check_assignments as [] []) (\<lambda>_. Inr as)"

definition require_role :: "role_assignment list \<Rightarrow> string \<Rightarrow> string \<Rightarrow> string \<Rightarrow> string \<Rightarrow> unit result" where
  "require_role as who key role c_digest =
     ensure (\<exists>a \<in> set as. ra_principal_id a = who \<and> ra_public_key a = key \<and> ra_role a = role \<and>
         ra_scope_c_digest a = c_digest)
       (approval_refusal ''E-APPROVAL-ROLE'' ''principal/key/role is absent from C-bound snapshot'') (Inr ())"

definition key_for :: "role_assignment list \<Rightarrow> string \<Rightarrow> string \<Rightarrow> string result" where
  "key_for as role c_digest =
     (let matches = sorted_set (map ra_public_key (filter (\<lambda>a. ra_role a = role \<and> ra_scope_c_digest a = c_digest) as)) in
      ensure (length matches = 1) (approval_refusal ''E-APPROVAL-ROLE'' (''exactly one '' @ role @ '' key is required'')) (
      Inr (hd matches)))"

section \<open>Grants\<close>

record capability_grant =
  cg_grant_id :: string
  cg_c_digest :: string
  cg_parent_grant_id :: "string option"
  cg_capabilities :: policy_capabilities
  cg_worker_key :: string
  cg_evaluator_key :: string
  cg_publisher_key :: "string option"
  cg_not_before :: int
  cg_not_after :: int

definition grant_post_init :: "capability_grant \<Rightarrow> capability_grant result" where
  "grant_post_init g =
     bind (ap_string (VStr (cg_grant_id g)) ''grant_id'') (\<lambda>_.
     bind (ap_string (VStr (cg_c_digest g)) ''c_digest'') (\<lambda>_.
     bind (ap_string (VStr (cg_worker_key g)) ''worker_key'') (\<lambda>_.
     bind (ap_string (VStr (cg_evaluator_key g)) ''evaluator_key'') (\<lambda>_.
     bind (case cg_parent_grant_id g of None \<Rightarrow> Inr [] | Some p \<Rightarrow> ap_string (VStr p) ''parent_grant_id'') (\<lambda>_.
     bind (case cg_publisher_key g of None \<Rightarrow> Inr [] | Some k \<Rightarrow> ap_string (VStr k) ''publisher_key'') (\<lambda>_.
     ensure (0 \<le> cg_not_before g \<and> cg_not_before g \<le> cg_not_after g)
       (approval_refusal ''E-APPROVAL-WINDOW'' ''grant window is invalid'') (Inr g)))))))"

definition grant_as_record :: "capability_grant \<Rightarrow> pyval" where
  "grant_as_record g = VDict
     ([(''grant_id'', VStr (cg_grant_id g)), (''c_digest'', VStr (cg_c_digest g)),
       (''parent_grant_id'', opt_str (cg_parent_grant_id g)), (''capabilities'', capabilities_as_record (cg_capabilities g)),
       (''worker_key'', VStr (cg_worker_key g)), (''evaluator_key'', VStr (cg_evaluator_key g)),
       (''time_window'', VDict [(''not_before'', VInt (cg_not_before g)), (''not_after'', VInt (cg_not_after g))])] @
      (case cg_publisher_key g of None \<Rightarrow> [] | Some k \<Rightarrow> [(''publisher_key'', VStr k)]))"

text \<open>\<open>_intersection\<close> and \<open>_root_intersection\<close>.\<close>

definition intersection :: "string list list \<Rightarrow> string list" where
  "intersection values =
     (case values of [] \<Rightarrow> [] | v # vs \<Rightarrow> sorted_set (filter (\<lambda>x. \<forall>w \<in> set vs. x \<in> set w) v))"

definition path_prefix :: "string \<Rightarrow> string \<Rightarrow> bool" where
  "path_prefix left right \<longleftrightarrow> left = right \<or> starts_with (left @ ''/'') right"

definition root_intersection :: "string list list \<Rightarrow> string list" where
  "root_intersection collections =
     sorted_set (filter (\<lambda>c. \<forall>roots \<in> set collections. \<exists>root \<in> set roots. path_prefix root c) (concat collections))"

definition intersect_capabilities :: "policy_capabilities list \<Rightarrow> bool \<Rightarrow> policy_capabilities result" where
  "intersect_capabilities values child =
     ensure (values \<noteq> []) (approval_refusal ''E-APPROVAL-SHAPE'' ''at least one capability record is required'') (
     let first = hd values in
     ensure (\<forall>v \<in> set values. pc_executable v = pc_executable first \<and> pc_argv v = pc_argv first \<and> pc_cwd v = pc_cwd first)
       (approval_refusal ''E-APPROVAL-EXPANSION'' ''executable, argv, and cwd require exact equality'') (
     let roots = root_intersection (map pc_roots values); actions = intersection (map pc_actions values);
         scopes = List.product roots actions; hosts = intersection (map pc_network_hosts values);
         network_allow = ((\<forall>v \<in> set values. pc_network_allow v) \<and> hosts \<noteq> []) in
     capabilities_post_init
       \<lparr>pc_executable = pc_executable first, pc_argv = pc_argv first, pc_cwd = pc_cwd first,
        pc_roots = sorted_set (map fst scopes), pc_actions = sorted_set (map snd scopes),
        pc_environment_allow = intersection (map pc_environment_allow values),
        pc_network_allow = network_allow, pc_network_hosts = (if network_allow then hosts else []),
        pc_secret_allow = (if child then False else \<forall>v \<in> set values. pc_secret_allow v),
        pc_secret_names = (if child then [] else intersection (map pc_secret_names values)),
        pc_commit_allow = (if child then False else \<forall>v \<in> set values. pc_commit_allow v),
        pc_subagent_allow = (\<forall>v \<in> set values. pc_subagent_allow v),
        pc_subagent_max_children = Min (pc_subagent_max_children ` set values)\<rparr>))"

section \<open>Events\<close>

record spec_event =
  ev_event_id :: string
  ev_kind :: string
  ev_seq :: int
  ev_journal_head_link :: "string option"
  ev_c_digest :: string
  ev_grant_id :: "string option"
  ev_parent_grant_id :: "string option"
  ev_principal_id :: string
  ev_key_id :: string
  ev_previous_event_digest :: "string option"
  ev_code :: string

definition EVENT_KINDS :: "string list" where
  "EVENT_KINDS = [''APPROVED'', ''IMPLEMENTABLE'', ''GRANT_ISSUED'', ''GRANT_REVOKED'', ''APPROVAL_REVOKED'', ''EXPIRY_RECORDED'']"

definition event_post_init :: "spec_event \<Rightarrow> spec_event result" where
  "event_post_init e =
     ensure (ev_kind e \<in> set EVENT_KINDS \<and> ev_event_id e \<noteq> [] \<and> ev_c_digest e \<noteq> [] \<and> ev_principal_id e \<noteq> [] \<and>
         ev_key_id e \<noteq> [] \<and> ev_code e \<noteq> [])
       (approval_refusal ''E-APPROVAL-EVENT'' ''event has an unknown kind or absent required field'') (
     ensure (0 \<le> ev_seq e) (approval_refusal ''E-APPROVAL-EVENT'' ''event sequence is invalid'') (Inr e))"

definition event_as_record :: "spec_event \<Rightarrow> pyval" where
  "event_as_record e = VDict
     [(''version'', VStr ''approval-event-v1''), (''event_id'', VStr (ev_event_id e)), (''kind'', VStr (ev_kind e)),
      (''journal_position'', VDict [(''seq'', VInt (ev_seq e)), (''head_link'', opt_str (ev_journal_head_link e))]),
      (''c_digest'', VStr (ev_c_digest e)), (''grant_id'', opt_str (ev_grant_id e)),
      (''parent_grant_id'', opt_str (ev_parent_grant_id e)), (''principal_id'', VStr (ev_principal_id e)),
      (''key_id'', VStr (ev_key_id e)), (''previous_event_digest'', opt_str (ev_previous_event_digest e)),
      (''code'', VStr (ev_code e))]"

definition event_digest :: "(bytes \<Rightarrow> bytes) \<Rightarrow> registry \<Rightarrow> spec_event \<Rightarrow> string result" where
  "event_digest sha reg e = payload_digest sha reg (event_as_record e)"

definition grant_event ::
  "string \<Rightarrow> string \<Rightarrow> capability_grant \<Rightarrow> int \<Rightarrow> string option \<Rightarrow> string \<Rightarrow> string \<Rightarrow> string option \<Rightarrow> spec_event" where
  "grant_event prefix kind g seq head_link who key_id previous =
     \<lparr>ev_event_id = prefix @ cg_grant_id g, ev_kind = kind, ev_seq = seq, ev_journal_head_link = head_link,
      ev_c_digest = cg_c_digest g, ev_grant_id = Some (cg_grant_id g), ev_parent_grant_id = cg_parent_grant_id g,
      ev_principal_id = who, ev_key_id = key_id, ev_previous_event_digest = previous, ev_code = ''OK''\<rparr>"

definition grant_issued_event ::
  "capability_grant \<Rightarrow> int \<Rightarrow> string option \<Rightarrow> string \<Rightarrow> string \<Rightarrow> string option \<Rightarrow> spec_event result" where
  "grant_issued_event g seq head_link who key_id previous =
     event_post_init (grant_event ''grant-issued:'' ''GRANT_ISSUED'' g seq head_link who key_id previous)"

definition grant_revoked_event ::
  "capability_grant \<Rightarrow> int \<Rightarrow> string option \<Rightarrow> string \<Rightarrow> string \<Rightarrow> string option \<Rightarrow> spec_event result" where
  "grant_revoked_event g seq head_link who key_id previous =
     event_post_init (grant_event ''grant-revoked:'' ''GRANT_REVOKED'' g seq head_link who key_id previous)"

definition approval_revoked_event ::
  "string \<Rightarrow> int \<Rightarrow> string option \<Rightarrow> string \<Rightarrow> string \<Rightarrow> string option \<Rightarrow> spec_event result" where
  "approval_revoked_event c_digest seq head_link who key_id previous =
     event_post_init
       \<lparr>ev_event_id = ''approval-revoked:'' @ c_digest, ev_kind = ''APPROVAL_REVOKED'', ev_seq = seq,
        ev_journal_head_link = head_link, ev_c_digest = c_digest, ev_grant_id = None, ev_parent_grant_id = None,
        ev_principal_id = who, ev_key_id = key_id, ev_previous_event_digest = previous, ev_code = ''OK''\<rparr>"

definition expiry_recorded_event ::
  "capability_grant \<Rightarrow> string option \<Rightarrow> string \<Rightarrow> string \<Rightarrow> string option \<Rightarrow> int option \<Rightarrow> spec_event result" where
  "expiry_recorded_event g head_link who key_id previous seq =
     event_post_init (grant_event ''expiry:'' ''EXPIRY_RECORDED'' g
       (case seq of None \<Rightarrow> cg_not_after g + 1 | Some n \<Rightarrow> n) head_link who key_id previous)"

definition last_digest :: "(bytes \<Rightarrow> bytes) \<Rightarrow> registry \<Rightarrow> spec_event list \<Rightarrow> string option result" where
  "last_digest sha reg events =
     (if events = [] then Inr None else bind (event_digest sha reg (last events)) (\<lambda>d. Inr (Some d)))"

definition issue_child_grant ::
  "(bytes \<Rightarrow> bytes) \<Rightarrow> registry \<Rightarrow> string \<Rightarrow> policy_capabilities \<Rightarrow> capability_grant \<Rightarrow> policy_capabilities \<Rightarrow>
   capability_grant list \<Rightarrow> int \<Rightarrow> string option \<Rightarrow> spec_event list \<Rightarrow> string \<Rightarrow> string \<Rightarrow>
   (capability_grant \<times> spec_event) result" where
  "issue_child_grant sha reg grant_id request parent policy siblings journal_position head_link prior_events who key_id =
     bind (ap_string (VStr grant_id) ''grant_id'') (\<lambda>_.
     ensure (cg_c_digest parent \<noteq> []) (approval_refusal ''E-APPROVAL-SHAPE'' ''parent C digest is absent'') (
     bind (intersect_capabilities [request, cg_capabilities parent, policy] True) (\<lambda>capabilities.
     ensure (\<forall>sibling \<in> set siblings.
         cg_parent_grant_id sibling = Some (cg_grant_id parent) \<longrightarrow>
         (\<forall>x \<in> set (pc_actions capabilities). x \<notin> set (pc_actions (cg_capabilities sibling))) \<or>
         (\<forall>root \<in> set (pc_roots capabilities). \<forall>other \<in> set (pc_roots (cg_capabilities sibling)).
            \<not> path_prefix root other \<and> \<not> path_prefix other root))
       (approval_refusal ''E-APPROVAL-OVERLAP'' ''siblings share a path-prefix+action scope'') (
     bind (grant_post_init
       \<lparr>cg_grant_id = grant_id, cg_c_digest = cg_c_digest parent, cg_parent_grant_id = Some (cg_grant_id parent),
        cg_capabilities = capabilities, cg_worker_key = cg_worker_key parent, cg_evaluator_key = cg_evaluator_key parent,
        cg_publisher_key = None, cg_not_before = cg_not_before parent, cg_not_after = cg_not_after parent\<rparr>) (\<lambda>g.
     bind (last_digest sha reg prior_events) (\<lambda>previous.
     bind (grant_issued_event g journal_position head_link who key_id previous) (\<lambda>e.
     Inr (g, e))))))))"

section \<open>Using a grant\<close>

record use_fact =
  uf_grant_id :: string
  uf_valid :: bool
  uf_code :: string
  uf_observed_event_head :: "string option"
  uf_observed_position :: int

fun checked_prefix ::
  "(bytes \<Rightarrow> bytes) \<Rightarrow> registry \<Rightarrow> int \<Rightarrow> int \<Rightarrow> string option \<Rightarrow> spec_event list \<Rightarrow> unit result" where
  "checked_prefix sha reg position previous_seq previous_digest [] = Inr ()"
| "checked_prefix sha reg position previous_seq previous_digest (e # es) =
     ensure (previous_seq < ev_seq e \<and> ev_seq e < position \<and> ev_previous_event_digest e = previous_digest)
       (approval_refusal ''E-APPROVAL-EVENT-CHAIN'' ''event prefix is not canonically ordered'') (
     bind (event_digest sha reg e) (\<lambda>d. checked_prefix sha reg position (ev_seq e) (Some d) es))"

definition is_issuance :: "spec_event \<Rightarrow> bool" where
  "is_issuance e \<longleftrightarrow> ev_kind e = ''GRANT_ISSUED'' \<and> ev_grant_id e \<noteq> None"

fun issuances :: "spec_event list \<Rightarrow> (string \<times> spec_event) list \<Rightarrow> (string \<times> spec_event) list result" where
  "issuances [] acc = Inr acc"
| "issuances (e # es) acc =
     (if \<not> is_issuance e then issuances es acc
      else
        ensure (the (ev_grant_id e) \<notin> fst ` set acc)
          (approval_refusal ''E-APPROVAL-GRANT-DUPLICATE'' ''grant has more than one issuance event'') (
        issuances es (acc @ [(the (ev_grant_id e), e)])))"

text \<open>
  The ancestry loop. A grant is visited once, so it ends after at most as many rounds as there are
  issuances; \<open>seen\<close> holds the grants visited.
\<close>

function check_ancestry ::
  "(string \<times> spec_event) list \<Rightarrow> string \<Rightarrow> string \<Rightarrow> string option \<Rightarrow> string list \<Rightarrow> unit result" where
  "check_ancestry issued c_digest current expected_parent seen =
     (if current \<in> set seen then Inl (approval_refusal ''E-APPROVAL-GRANT-UNISSUED'' ''grant issuance ancestry cycles'')
      else
        (case map_of issued current of
           None \<Rightarrow> Inl (approval_refusal ''E-APPROVAL-GRANT-UNISSUED'' ''grant has no complete C-bound issuance ancestry'')
         | Some e \<Rightarrow>
             if ev_c_digest e \<noteq> c_digest \<or> ev_parent_grant_id e \<noteq> expected_parent
             then Inl (approval_refusal ''E-APPROVAL-GRANT-UNISSUED'' ''grant has no complete C-bound issuance ancestry'')
             else
               (case expected_parent of
                  None \<Rightarrow> Inr ()
                | Some parent \<Rightarrow>
                    (case map_of issued parent of
                       None \<Rightarrow> Inl (approval_refusal ''E-APPROVAL-GRANT-UNISSUED'' ''grant issuance ancestry is not temporally ordered'')
                     | Some p \<Rightarrow>
                         if ev_seq e \<le> ev_seq p
                         then Inl (approval_refusal ''E-APPROVAL-GRANT-UNISSUED'' ''grant issuance ancestry is not temporally ordered'')
                         else check_ancestry issued c_digest parent (ev_parent_grant_id p) (current # seen)))))"
  by pat_completeness auto
termination
proof (relation "measure (\<lambda>(issued, _, _, _, seen). card (fst ` set issued - set seen))")
  fix issued c_digest current seen e parent p
  assume "current \<notin> set seen" "map_of issued current = Some e"
  then have "current \<in> fst ` set issued - set seen" by (force dest: map_of_SomeD)
  then have "card (fst ` set issued - set (current # seen)) < card (fst ` set issued - set seen)"
    by (intro psubset_card_mono) auto
  then show "((issued, c_digest, parent, ev_parent_grant_id p, current # seen), issued, c_digest, current, ep, seen)
      \<in> measure (\<lambda>(issued, _, _, _, seen). card (fst ` set issued - set seen))" for ep
    by simp
qed simp

declare check_ancestry.simps [simp del]

text \<open>The ancestors of a grant by the issued events.\<close>

function ancestors :: "(string \<times> string option) list \<Rightarrow> string option \<Rightarrow> string list \<Rightarrow> string list" where
  "ancestors parents current acc =
     (case current of
        None \<Rightarrow> acc
      | Some g \<Rightarrow>
          if g \<in> set acc then acc
          else (case map_of parents g of
             None \<Rightarrow> g # acc
           | Some p \<Rightarrow> ancestors parents p (g # acc)))"
  by pat_completeness auto
termination
proof (relation "measure (\<lambda>(parents, _, acc). card (fst ` set parents - set acc))")
  fix parents g acc p
  assume "g \<notin> set acc" "map_of parents g = Some (p :: string option)"
  then have "g \<in> fst ` set parents - set acc" by (force dest: map_of_SomeD)
  then have "card (fst ` set parents - set (g # acc)) < card (fst ` set parents - set acc)"
    by (intro psubset_card_mono) auto
  then show "((parents, p, g # acc), parents, current, acc)
      \<in> measure (\<lambda>(parents, _, acc). card (fst ` set parents - set acc))" for current
    by simp
qed simp

declare ancestors.simps [simp del]

definition revokes :: "string list \<Rightarrow> string \<Rightarrow> spec_event \<Rightarrow> bool" where
  "revokes lineage c_digest e \<longleftrightarrow>
     (ev_kind e \<in> {''GRANT_REVOKED'', ''EXPIRY_RECORDED''} \<and> (\<exists>g \<in> set lineage. ev_grant_id e = Some g)) \<or>
     (ev_kind e = ''APPROVAL_REVOKED'' \<and> ev_c_digest e = c_digest)"

text \<open>\<open>parent_by_grant\<close>: an issuance with an empty grant ID is not among its keys.\<close>

definition parent_by_grant :: "spec_event list \<Rightarrow> (string \<times> string option) list" where
  "parent_by_grant events =
     rev (map (\<lambda>e. (the (ev_grant_id e), ev_parent_grant_id e)) (filter (\<lambda>e. is_issuance e \<and> ev_grant_id e \<noteq> Some []) events))"

definition evaluate_use :: "(bytes \<Rightarrow> bytes) \<Rightarrow> registry \<Rightarrow> spec_event list \<Rightarrow> capability_grant \<Rightarrow> int \<Rightarrow> use_fact result" where
  "evaluate_use sha reg events g position =
     ensure (0 \<le> position) (approval_refusal ''E-APPROVAL-EVENT'' ''use position is invalid'') (
     bind (checked_prefix sha reg position (-1) None events) (\<lambda>_.
     bind (issuances events []) (\<lambda>issued.
     bind (check_ancestry issued (cg_c_digest g) (cg_grant_id g) (cg_parent_grant_id g) []) (\<lambda>_.
     bind (last_digest sha reg events) (\<lambda>head_digest.
     let fact = (\<lambda>valid code. \<lparr>uf_grant_id = cg_grant_id g, uf_valid = valid, uf_code = code,
           uf_observed_event_head = head_digest, uf_observed_position = position\<rparr>) in
     if \<not> (cg_not_before g \<le> position \<and> position \<le> cg_not_after g) then Inr (fact False ''E-APPROVAL-WINDOW'')
     else
       (let lineage = ancestors (parent_by_grant events) (cg_parent_grant_id g) [cg_grant_id g];
            revoked = (\<exists>e \<in> set events. revokes lineage (cg_c_digest g) e) in
        Inr (fact (\<not> revoked) (if \<not> revoked then ''OK'' else ''E-APPROVAL-REVOKED''))))))))"

section \<open>Least authority\<close>

text \<open>One capability record grants nothing that another does not.\<close>

definition within :: "policy_capabilities \<Rightarrow> policy_capabilities \<Rightarrow> bool" where
  "within c d \<longleftrightarrow>
     pc_executable c = pc_executable d \<and> pc_argv c = pc_argv d \<and> pc_cwd c = pc_cwd d \<and>
     (\<forall>root \<in> set (pc_roots c). \<exists>r \<in> set (pc_roots d). path_prefix r root) \<and>
     set (pc_actions c) \<subseteq> set (pc_actions d) \<and> set (pc_environment_allow c) \<subseteq> set (pc_environment_allow d) \<and>
     (pc_network_allow c \<longrightarrow> pc_network_allow d) \<and> set (pc_network_hosts c) \<subseteq> set (pc_network_hosts d) \<and>
     (pc_secret_allow c \<longrightarrow> pc_secret_allow d) \<and> set (pc_secret_names c) \<subseteq> set (pc_secret_names d) \<and>
     (pc_commit_allow c \<longrightarrow> pc_commit_allow d) \<and> (pc_subagent_allow c \<longrightarrow> pc_subagent_allow d) \<and>
     pc_subagent_max_children c \<le> pc_subagent_max_children d"

lemma path_prefix_refl [simp]: "path_prefix p p"
  by (simp add: path_prefix_def)

lemma path_prefix_iff: "path_prefix p q \<longleftrightarrow> p = q \<or> (\<exists>t. q = p @ ''/'' @ t)"
  unfolding path_prefix_def using starts_withD [of "p @ ''/''" q] by (auto simp: starts_with_def)

lemma path_prefix_trans: "path_prefix p q \<Longrightarrow> path_prefix q r \<Longrightarrow> path_prefix p r"
  by (auto simp: path_prefix_iff)

lemma within_trans:
  assumes "within c d" "within d e"
  shows "within c e"
proof -
  have "\<exists>r \<in> set (pc_roots e). path_prefix r root" if root: "root \<in> set (pc_roots c)" for root
  proof -
    obtain r where r: "r \<in> set (pc_roots d)" "path_prefix r root" using assms(1) root unfolding within_def by blast
    then obtain q where "q \<in> set (pc_roots e)" "path_prefix q r" using assms(2) unfolding within_def by blast
    then show ?thesis using r(2) path_prefix_trans by blast
  qed
  then show ?thesis using assms unfolding within_def by (elim conjE) (intro conjI; (simp | erule (1) subset_trans))
qed

lemma set_intersection: "x \<in> set (intersection vs) \<longleftrightarrow> vs \<noteq> [] \<and> (\<forall>v \<in> set vs. x \<in> set v)"
  by (cases vs) (auto simp: intersection_def)

lemma set_root_intersection:
  "x \<in> set (root_intersection vs) \<longleftrightarrow>
     (\<exists>v \<in> set vs. x \<in> set v) \<and> (\<forall>v \<in> set vs. \<exists>root \<in> set v. path_prefix root x)"
  by (auto simp: root_intersection_def)

lemma capabilities_post_init_Inr: "capabilities_post_init c = Inr d \<Longrightarrow> d = c"
  by (auto simp: capabilities_post_init_def bind_Inr_iff)

lemma product_projections:
  "fst ` (A \<times> B) = (if B = {} then {} else A)" "snd ` (A \<times> B) = (if A = {} then {} else B)"
  by (auto simp: image_iff)

lemma intersect_Inr:
  assumes "intersect_capabilities values child = Inr c"
  shows "values \<noteq> []"
    "\<forall>v \<in> set values. pc_executable v = pc_executable c \<and> pc_argv v = pc_argv c \<and> pc_cwd v = pc_cwd c"
    "set (pc_roots c) = (if intersection (map pc_actions values) = [] then {} else set (root_intersection (map pc_roots values)))"
    "set (pc_actions c) = (if root_intersection (map pc_roots values) = [] then {} else set (intersection (map pc_actions values)))"
    "pc_environment_allow c = intersection (map pc_environment_allow values)"
    "pc_network_allow c \<longleftrightarrow> (\<forall>v \<in> set values. pc_network_allow v) \<and> intersection (map pc_network_hosts values) \<noteq> []"
    "pc_network_hosts c = (if pc_network_allow c then intersection (map pc_network_hosts values) else [])"
    "pc_secret_allow c \<longleftrightarrow> \<not> child \<and> (\<forall>v \<in> set values. pc_secret_allow v)"
    "pc_secret_names c = (if child then [] else intersection (map pc_secret_names values))"
    "pc_commit_allow c \<longleftrightarrow> \<not> child \<and> (\<forall>v \<in> set values. pc_commit_allow v)"
    "pc_subagent_allow c \<longleftrightarrow> (\<forall>v \<in> set values. pc_subagent_allow v)"
    "pc_subagent_max_children c = Min (pc_subagent_max_children ` set values)"
proof -
  note u = assms [unfolded intersect_capabilities_def Let_def ensure_Inr_iff]
  from u show "values \<noteq> []" by (rule conjunct1)
  note e = conjunct1 [OF conjunct2 [OF u]] and c = capabilities_post_init_Inr [OF conjunct2 [OF conjunct2 [OF u]]]
  show "\<forall>v \<in> set values. pc_executable v = pc_executable c \<and> pc_argv v = pc_argv c \<and> pc_cwd v = pc_cwd c"
    unfolding c using e by simp
  show "set (pc_roots c) = (if intersection (map pc_actions values) = [] then {} else set (root_intersection (map pc_roots values)))"
    "set (pc_actions c) = (if root_intersection (map pc_roots values) = [] then {} else set (intersection (map pc_actions values)))"
    unfolding c by (simp_all add: product_projections)
qed (simp_all add: capabilities_post_init_Inr [OF conjunct2 [OF conjunct2 [OF assms [unfolded intersect_capabilities_def Let_def ensure_Inr_iff]]]])

lemma intersection_within:
  assumes "intersect_capabilities values child = Inr c" "v \<in> set values"
  shows "within c v"
proof -
  note i = intersect_Inr [OF assms(1)]
  have "\<exists>r \<in> set (pc_roots v). path_prefix r root" if "root \<in> set (pc_roots c)" for root
    using that assms(2) unfolding i(3) by (auto simp: set_root_intersection split: if_splits)
  moreover have "set (pc_actions c) \<subseteq> set (pc_actions v)" "set (pc_environment_allow c) \<subseteq> set (pc_environment_allow v)"
    "set (pc_network_hosts c) \<subseteq> set (pc_network_hosts v)" "set (pc_secret_names c) \<subseteq> set (pc_secret_names v)"
    unfolding i(4,5,7,9) using assms(2) by (auto simp: set_intersection split: if_splits)
  moreover have "pc_subagent_max_children c \<le> pc_subagent_max_children v" unfolding i(12) using assms(2) by simp
  ultimately show ?thesis using i(2,6,8,10,11) assms(2) unfolding within_def by auto
qed

text \<open>
  One scope, a root and an action together: what a capability record lets an actor do to a path.
\<close>

definition permits :: "policy_capabilities \<Rightarrow> string \<Rightarrow> string \<Rightarrow> bool" where
  "permits c path action \<longleftrightarrow> (\<exists>root \<in> set (pc_roots c). path_prefix root path) \<and> action \<in> set (pc_actions c)"

text \<open>Two roots above one path are themselves one above the other.\<close>

lemma path_prefix_linear: "path_prefix p x \<Longrightarrow> path_prefix q x \<Longrightarrow> path_prefix p q \<or> path_prefix q p"
proof -
  have *: "path_prefix p q" if "q = p @ r" "p @ ''/'' @ t = q @ ''/'' @ u" for p q r t u :: string
    using that by (cases r) (auto simp: path_prefix_iff)
  assume "path_prefix p x" "path_prefix q x"
  then consider "p = x" | "q = x" | t u where "p @ ''/'' @ t = q @ ''/'' @ u" "x = p @ ''/'' @ t"
    by (auto simp: path_prefix_iff)
  then show ?thesis
  proof cases
    case 3
    then obtain us where "p = q @ us \<or> q = p @ us" by (metis append_eq_append_conv2)
    then show ?thesis using * 3(1) by metis
  qed (use \<open>path_prefix p x\<close> \<open>path_prefix q x\<close> in auto)
qed

text \<open>A deepest root among those that every source has above the path belongs to the intersection.\<close>

lemma common_root:
  assumes "vs \<noteq> []" "\<forall>v \<in> set vs. \<exists>root \<in> set v. path_prefix root x"
  shows "\<exists>root \<in> set (root_intersection vs). path_prefix root x"
proof -
  define R where "R = {root. root \<in> \<Union> (set ` set vs) \<and> path_prefix root x}"
  have "finite R" "R \<noteq> {}" unfolding R_def using assms by (auto simp: neq_Nil_conv)
  have "Max (length ` R) \<in> length ` R" using \<open>finite R\<close> \<open>R \<noteq> {}\<close> by simp
  then obtain root where "root \<in> R" "length root = Max (length ` R)" by auto
  then have root: "root \<in> R" "\<forall>r \<in> R. length r \<le> length root" using \<open>finite R\<close> by auto
  have "\<exists>r \<in> set v. path_prefix r root" if v: "v \<in> set vs" for v
  proof -
    obtain r where r: "r \<in> set v" "path_prefix r x" using assms(2) v by blast
    then have "length r \<le> length root" using root(2) v unfolding R_def by blast
    then have "path_prefix r root" using path_prefix_linear [OF r(2), of root] root(1) unfolding R_def
      by (auto simp: path_prefix_iff)
    then show ?thesis using r(1) by blast
  qed
  then have "root \<in> set (root_intersection vs)" using root(1) unfolding R_def by (auto simp: set_root_intersection)
  then show ?thesis using root(1) unfolding R_def by blast
qed

lemma intersection_common:
  assumes "intersect_capabilities values child = Inr c"
  shows "permits c path action \<longleftrightarrow> (\<forall>v \<in> set values. permits v path action)"
proof -
  note i = intersect_Inr [OF assms]
  have "permits v path action" if "permits c path action" "v \<in> set values" for v
    using that intersection_within [OF assms, of v] path_prefix_trans unfolding permits_def within_def by blast
  moreover have "permits c path action" if *: "\<forall>v \<in> set values. permits v path action"
  proof -
    have a: "action \<in> set (intersection (map pc_actions values))"
      using * i(1) by (auto simp: permits_def set_intersection)
    obtain root where "root \<in> set (root_intersection (map pc_roots values))" "path_prefix root path"
      using common_root [of "map pc_roots values" path] * i(1) by (auto simp: permits_def)
    with a show ?thesis unfolding permits_def i(3,4) by (auto split: if_splits)
  qed
  ultimately show ?thesis by blast
qed

text \<open>
  C24: Intersection is exactly the common authority: for every path and action, what
  \<open>intersect_capabilities\<close> returns permits it if and only if every source does; it is within every
  source in each other respect too (variables, hosts, secrets, flags, number of children), and for a
  child it carries neither secrets nor commits at all.
\<close>

theorem intersection_least_authority:
  assumes "intersect_capabilities values child = Inr c"
  shows "(permits c path action \<longleftrightarrow> (\<forall>v \<in> set values. permits v path action)) \<and>
    (\<forall>v \<in> set values. within c v) \<and>
    (child \<longrightarrow> \<not> pc_secret_allow c \<and> pc_secret_names c = [] \<and> \<not> pc_commit_allow c)"
  using intersection_common [OF assms] intersection_within [OF assms] intersect_Inr(8-10) [OF assms]
  by (intro conjI iffI ballI impI) simp_all

section \<open>Child grants and roles\<close>

lemma grant_post_init_Inr: "grant_post_init g = Inr h \<Longrightarrow> h = g"
  by (auto simp: grant_post_init_def bind_Inr_iff)

lemma event_post_init_Inr: "event_post_init e = Inr f \<Longrightarrow> f = e"
  by (simp add: event_post_init_def)

lemma issue_child_grant_Inr:
  assumes "issue_child_grant sha reg gid request parent policy siblings pos link prior who key = Inr (g, e)"
  shows "intersect_capabilities [request, cg_capabilities parent, policy] True = Inr (cg_capabilities g)"
    "\<forall>sibling \<in> set siblings. cg_parent_grant_id sibling = Some (cg_grant_id parent) \<longrightarrow>
       (\<forall>x \<in> set (pc_actions (cg_capabilities g)). x \<notin> set (pc_actions (cg_capabilities sibling))) \<or>
       (\<forall>root \<in> set (pc_roots (cg_capabilities g)). \<forall>other \<in> set (pc_roots (cg_capabilities sibling)).
          \<not> path_prefix root other \<and> \<not> path_prefix other root)"
    "cg_grant_id g = gid \<and> cg_c_digest g = cg_c_digest parent \<and> cg_parent_grant_id g = Some (cg_grant_id parent) \<and>
       cg_publisher_key g = None \<and> cg_not_before g = cg_not_before parent \<and> cg_not_after g = cg_not_after parent"
    "\<exists>previous. last_digest sha reg prior = Inr previous \<and>
       e = grant_event ''grant-issued:'' ''GRANT_ISSUED'' g pos link who key previous"
proof -
  obtain caps previous where *: "intersect_capabilities [request, cg_capabilities parent, policy] True = Inr caps"
    "\<forall>sibling \<in> set siblings. cg_parent_grant_id sibling = Some (cg_grant_id parent) \<longrightarrow>
       (\<forall>x \<in> set (pc_actions caps). x \<notin> set (pc_actions (cg_capabilities sibling))) \<or>
       (\<forall>root \<in> set (pc_roots caps). \<forall>other \<in> set (pc_roots (cg_capabilities sibling)).
          \<not> path_prefix root other \<and> \<not> path_prefix other root)"
    "grant_post_init \<lparr>cg_grant_id = gid, cg_c_digest = cg_c_digest parent, cg_parent_grant_id = Some (cg_grant_id parent),
        cg_capabilities = caps, cg_worker_key = cg_worker_key parent, cg_evaluator_key = cg_evaluator_key parent,
        cg_publisher_key = None, cg_not_before = cg_not_before parent, cg_not_after = cg_not_after parent\<rparr> = Inr g"
    "last_digest sha reg prior = Inr previous" "grant_issued_event g pos link who key previous = Inr e"
    using assms unfolding issue_child_grant_def bind_Inr_iff ensure_Inr_iff by blast
  from *(3) have g: "g = \<lparr>cg_grant_id = gid, cg_c_digest = cg_c_digest parent, cg_parent_grant_id = Some (cg_grant_id parent),
        cg_capabilities = caps, cg_worker_key = cg_worker_key parent, cg_evaluator_key = cg_evaluator_key parent,
        cg_publisher_key = None, cg_not_before = cg_not_before parent, cg_not_after = cg_not_after parent\<rparr>"
    by (rule grant_post_init_Inr)
  then have caps: "caps = cg_capabilities g" by simp
  show "intersect_capabilities [request, cg_capabilities parent, policy] True = Inr (cg_capabilities g)"
    using *(1) unfolding caps .
  show "\<forall>sibling \<in> set siblings. cg_parent_grant_id sibling = Some (cg_grant_id parent) \<longrightarrow>
       (\<forall>x \<in> set (pc_actions (cg_capabilities g)). x \<notin> set (pc_actions (cg_capabilities sibling))) \<or>
       (\<forall>root \<in> set (pc_roots (cg_capabilities g)). \<forall>other \<in> set (pc_roots (cg_capabilities sibling)).
          \<not> path_prefix root other \<and> \<not> path_prefix other root)" using *(2) unfolding caps .
  show "cg_grant_id g = gid \<and> cg_c_digest g = cg_c_digest parent \<and> cg_parent_grant_id g = Some (cg_grant_id parent) \<and>
       cg_publisher_key g = None \<and> cg_not_before g = cg_not_before parent \<and> cg_not_after g = cg_not_after parent"
    unfolding g by simp
  show "\<exists>previous. last_digest sha reg prior = Inr previous \<and>
       e = grant_event ''grant-issued:'' ''GRANT_ISSUED'' g pos link who key previous"
    using *(4,5) event_post_init_Inr unfolding grant_issued_event_def by blast
qed

text \<open>
  C25: A child grant is confined. It permits an action on a path exactly when the request, the parent
  grant and the policy all permit it; it lives in the parent's window and under the parent's approval
  and keys, with no publisher, no secrets and no commits; and no path and action is permitted to it
  and to a sibling it was checked against.
\<close>

theorem child_grant_confined:
  assumes "issue_child_grant sha reg gid request parent policy siblings pos link prior who key = Inr (g, e)"
  shows "(permits (cg_capabilities g) path action \<longleftrightarrow>
      permits request path action \<and> permits (cg_capabilities parent) path action \<and> permits policy path action) \<and>
    within (cg_capabilities g) (cg_capabilities parent) \<and> within (cg_capabilities g) policy \<and>
    \<not> pc_secret_allow (cg_capabilities g) \<and> \<not> pc_commit_allow (cg_capabilities g) \<and> cg_publisher_key g = None \<and>
    cg_c_digest g = cg_c_digest parent \<and> cg_parent_grant_id g = Some (cg_grant_id parent) \<and>
    cg_not_before g = cg_not_before parent \<and> cg_not_after g = cg_not_after parent \<and>
    \<not> (\<exists>sibling \<in> set siblings. cg_parent_grant_id sibling = cg_parent_grant_id g \<and>
        permits (cg_capabilities g) path action \<and> permits (cg_capabilities sibling) path action) \<and>
    ev_kind e = ''GRANT_ISSUED'' \<and> ev_grant_id e = Some gid \<and> ev_seq e = pos"
proof -
  note g = issue_child_grant_Inr [OF assms]
  have f: "cg_publisher_key g = None" "cg_c_digest g = cg_c_digest parent" "cg_parent_grant_id g = Some (cg_grant_id parent)"
    "cg_not_before g = cg_not_before parent" "cg_not_after g = cg_not_after parent" "cg_grant_id g = gid"
    using g(3) by simp_all
  have e: "ev_kind e = ''GRANT_ISSUED''" "ev_grant_id e = Some gid" "ev_seq e = pos"
    using g(4) f(6) by (auto simp: grant_event_def)
  have "\<not> permits (cg_capabilities sibling) path action"
    if "sibling \<in> set siblings" "cg_parent_grant_id sibling = Some (cg_grant_id parent)" "permits (cg_capabilities g) path action"
    for sibling
    using g(2) that path_prefix_linear unfolding permits_def by blast
  moreover note intersection_common [OF g(1), of path action] intersection_within [OF g(1)] intersect_Inr(8-10) [OF g(1)]
  ultimately show ?thesis unfolding f e by simp
qed

text \<open>The loop of \<open>RoleAssignments\<close>: what it has passed.\<close>

lemma incompatible_commute: "incompatible r s = incompatible s r"
  by (simp add: incompatible_def insert_commute)

lemma incompatible_irrefl: "\<not> incompatible r r"
  by (auto simp: incompatible_def doubleton_eq_iff)

lemma check_assignments_Inr:
  "check_assignments as seen held = Inr () \<Longrightarrow>
     distinct (map ra_assignment_id as) \<and> ra_assignment_id ` set as \<inter> set seen = {} \<and>
     (\<forall>a \<in> set as. \<forall>r. (ra_public_key a, r) \<in> set held \<longrightarrow> \<not> incompatible r (ra_role a)) \<and>
     (\<forall>a \<in> set as. \<forall>b \<in> set as. ra_public_key a = ra_public_key b \<longrightarrow> \<not> incompatible (ra_role a) (ra_role b))"
proof (induction as seen held rule: check_assignments.induct)
  case (2 a as seen held)
  have h: "ra_assignment_id a \<notin> set seen" "\<And>r. (ra_public_key a, r) \<in> set held \<Longrightarrow> \<not> incompatible r (ra_role a)"
    and r: "check_assignments as (ra_assignment_id a # seen) ((ra_public_key a, ra_role a) # held) = Inr ()"
    using 2(2) unfolding check_assignments.simps ensure_Inr_iff by blast+
  have "distinct (map ra_assignment_id as)" "ra_assignment_id ` set as \<inter> set (ra_assignment_id a # seen) = {}"
    "\<And>b r. b \<in> set as \<Longrightarrow> (ra_public_key b, r) \<in> set held \<Longrightarrow> \<not> incompatible r (ra_role b)"
    and k: "\<And>b. b \<in> set as \<Longrightarrow> ra_public_key b = ra_public_key a \<Longrightarrow> \<not> incompatible (ra_role a) (ra_role b)"
    "\<And>b c. b \<in> set as \<Longrightarrow> c \<in> set as \<Longrightarrow> ra_public_key b = ra_public_key c \<Longrightarrow> \<not> incompatible (ra_role b) (ra_role c)"
    using 2(1) r by auto
  moreover have "\<not> incompatible (ra_role b) (ra_role c)"
    if "b \<in> set (a # as)" "c \<in> set (a # as)" "ra_public_key b = ra_public_key c" for b c
    using that k incompatible_irrefl incompatible_commute by (metis set_ConsD)
  ultimately show ?case using h by auto
qed simp

lemma key_for_member:
  assumes "key_for as r d = Inr x"
  shows "\<exists>a \<in> set as. ra_role a = r \<and> ra_public_key a = x"
proof -
  let ?m = "sorted_set (map ra_public_key (filter (\<lambda>a. ra_role a = r \<and> ra_scope_c_digest a = d) as))"
  have "length ?m = 1" "x = hd ?m" using assms unfolding key_for_def Let_def ensure_Inr_iff by simp_all
  then have "x \<in> set ?m" by (cases ?m) simp_all
  then show ?thesis by auto
qed

lemma incompatible_keys_differ:
  assumes "role_assignments as = Inr bs" "a \<in> set bs" "b \<in> set bs" "incompatible (ra_role a) (ra_role b)"
  shows "ra_public_key a \<noteq> ra_public_key b"
proof -
  have "check_assignments as [] [] = Inr ()" "bs = as" using assms(1) by (auto simp: role_assignments_def bind_Inr_iff)
  then show ?thesis using check_assignments_Inr assms(2-4) by blast
qed

text \<open>
  Separation of duties: in an accepted role snapshot no public key holds two incompatible roles,
  whatever principals and scopes it is listed under, assignment IDs are unique, and then the
  approver's key and the worker's key that \<open>key_for\<close> finds for one approval are different keys.
\<close>

lemma roles_separated:
  assumes "role_assignments as = Inr bs" and "incompatible role other"
    and "key_for bs role c_digest = Inr k" and "key_for bs other d_digest = Inr l"
  shows "bs = as \<and> k \<noteq> l \<and> distinct (map ra_assignment_id bs)"
proof -
  have c: "check_assignments as [] [] = Inr ()" "bs = as" using assms(1) by (auto simp: role_assignments_def bind_Inr_iff)
  obtain a b where "a \<in> set bs" "ra_role a = role" "ra_public_key a = k" "b \<in> set bs" "ra_role b = other" "ra_public_key b = l"
    using key_for_member [OF assms(3)] key_for_member [OF assms(4)] by blast
  then have "k \<noteq> l" using incompatible_keys_differ [OF assms(1)] assms(2) by metis
  then show ?thesis using c check_assignments_Inr [OF c(1)] by simp
qed

section \<open>Using a grant over time\<close>

lemma ancestors_acc: "set acc \<subseteq> set (ancestors parents current acc)"
proof (induction parents current acc rule: ancestors.induct)
  case (1 parents current acc)
  then show ?case by (subst ancestors.simps) (auto split: option.splits)
qed

lemma ancestors_mono:
  "map_of ps \<subseteq>\<^sub>m map_of qs \<Longrightarrow> set (ancestors ps current acc) \<subseteq> set (ancestors qs current acc)"
proof (induction ps current acc rule: ancestors.induct)
  case (1 ps current acc)
  show ?case
  proof (cases current)
    case (Some g)
    show ?thesis
    proof (cases "g \<in> set acc")
      case False
      show ?thesis
      proof (cases "map_of ps g")
        case None
        then show ?thesis using ancestors_acc [of "g # acc" qs] Some False
          by (subst (1 2) ancestors.simps) (auto split: option.splits)
      next
        case (Some p)
        then have "map_of qs g = Some p" using 1(2) by (auto simp: map_le_def dom_def)
        then show ?thesis using 1(1) [OF \<open>current = Some g\<close> False Some 1(2)] Some False \<open>current = Some g\<close>
          by (subst (1 2) ancestors.simps) simp
      qed
    qed (use Some in \<open>simp add: ancestors.simps\<close>)
  qed (simp add: ancestors.simps)
qed

lemma issuances_Inr:
  "issuances es acc = Inr issued \<Longrightarrow>
     issued = acc @ map (\<lambda>e. (the (ev_grant_id e), e)) (filter is_issuance es)"
proof (induction es acc rule: issuances.induct)
  case (2 e es acc)
  then show ?case by (cases "is_issuance e") simp_all
qed simp

lemma issuances_distinct: "issuances es acc = Inr issued \<Longrightarrow> distinct (map fst acc) \<Longrightarrow> distinct (map fst issued)"
proof (induction es acc rule: issuances.induct)
  case (2 e es acc)
  then show ?case by (cases "is_issuance e") simp_all
qed simp

lemma issued_ids:
  assumes "issuances es [] = Inr issued"
  shows "distinct (map (\<lambda>e. the (ev_grant_id e)) (filter is_issuance es))"
  using issuances_distinct [OF assms] issuances_Inr [OF assms] by (simp add: comp_def)

lemma issued_lookup:
  assumes "issuances es [] = Inr issued"
  shows "map_of issued g = Some e \<longleftrightarrow> e \<in> set es \<and> ev_kind e = ''GRANT_ISSUED'' \<and> ev_grant_id e = Some g"
proof -
  have "map_of issued g = Some e \<longleftrightarrow> (g, e) \<in> set issued"
    using issuances_distinct [OF assms] by simp
  then show ?thesis unfolding issuances_Inr [OF assms] by (force simp: is_issuance_def image_iff)
qed

lemma parent_lookup:
  assumes "issuances es [] = Inr issued"
  shows "map_of (parent_by_grant es) g = Some p \<longleftrightarrow>
    g \<noteq> [] \<and> (\<exists>e \<in> set es. ev_kind e = ''GRANT_ISSUED'' \<and> ev_grant_id e = Some g \<and> ev_parent_grant_id e = p)"
proof -
  have "distinct (map (\<lambda>e. the (ev_grant_id e)) (filter (\<lambda>e. ev_grant_id e \<noteq> Some []) (filter is_issuance es)))"
    using issued_ids [OF assms] by (rule distinct_map_filter)
  then have "distinct (map fst (parent_by_grant es))"
    by (simp add: parent_by_grant_def rev_map comp_def conj_commute flip: rev_map)
  then have "map_of (parent_by_grant es) g = Some p \<longleftrightarrow> (g, p) \<in> set (parent_by_grant es)" by simp
  then show ?thesis by (force simp: parent_by_grant_def is_issuance_def image_iff)
qed

lemma parent_by_grant_mono:
  assumes "issuances (es @ fs) [] = Inr issued" "issuances es [] = Inr issued'"
  shows "map_of (parent_by_grant es) \<subseteq>\<^sub>m map_of (parent_by_grant (es @ fs))"
proof -
  have "map_of (parent_by_grant (es @ fs)) g = Some p" if "map_of (parent_by_grant es) g = Some p" for g p
    using that unfolding parent_lookup [OF assms(1)] parent_lookup [OF assms(2)] by auto
  then show ?thesis by (auto simp: map_le_def dom_def)
qed

text \<open>
  A chain of issuances under one approval, from a grant up to one without a parent: the specification
  of \<open>check_ancestry\<close>. The last argument lists the grants of the chain.
\<close>

inductive issued_chain :: "spec_event list \<Rightarrow> string \<Rightarrow> string \<Rightarrow> string option \<Rightarrow> string list \<Rightarrow> bool" for es c where
  issued_root: "issued_chain es c g None [g]"
    if "e \<in> set es" "ev_kind e = ''GRANT_ISSUED''" "ev_grant_id e = Some g" "ev_c_digest e = c" "ev_parent_grant_id e = None"
| issued_child: "issued_chain es c g (Some p) (g # gs)"
    if "e \<in> set es" "ev_kind e = ''GRANT_ISSUED''" "ev_grant_id e = Some g" "ev_c_digest e = c" "ev_parent_grant_id e = Some p"
      "f \<in> set es" "ev_kind f = ''GRANT_ISSUED''" "ev_grant_id f = Some p" "ev_seq f < ev_seq e"
      "issued_chain es c p (ev_parent_grant_id f) gs"

lemma check_ancestry_chain:
  "check_ancestry issued c g p seen = Inr () \<Longrightarrow> issuances es [] = Inr issued \<Longrightarrow>
    \<exists>gs. issued_chain es c g p gs \<and> distinct gs \<and> set gs \<inter> set seen = {}"
proof (induction issued c g p seen rule: check_ancestry.induct)
  case (1 issued c g p seen)
  note lookup = issued_lookup [OF 1(3)]
  have g: "g \<notin> set seen" using 1(2) by (subst (asm) check_ancestry.simps) (simp split: if_splits)
  obtain e where e: "map_of issued g = Some e" "ev_c_digest e = c" "ev_parent_grant_id e = p"
    using 1(2) g by (subst (asm) check_ancestry.simps) (auto split: option.splits if_splits)
  note e' = e(1) [unfolded lookup]
  show ?case
  proof (cases p)
    case None
    then have "issued_chain es c g p [g]" using e e' by (auto intro: issued_root)
    then show ?thesis using g by (intro exI [of _ "[g]"]) simp
  next
    case (Some q)
    obtain f where f: "map_of issued q = Some f" "\<not> ev_seq e \<le> ev_seq f"
      "check_ancestry issued c q (ev_parent_grant_id f) (g # seen) = Inr ()"
      using 1(2) g e Some by (subst (asm) check_ancestry.simps) (auto split: option.splits if_splits)
    have ok: "\<not> (ev_c_digest e \<noteq> c \<or> ev_parent_grant_id e \<noteq> p)" using e(2,3) by simp
    obtain gs where gs: "issued_chain es c q (ev_parent_grant_id f) gs" "distinct gs" "set gs \<inter> set (g # seen) = {}"
      using 1(1) [OF g e(1) ok Some f 1(3)] by blast
    have "issued_chain es c g p (g # gs)" using Some e' e(2,3) f(1,2) gs(1) by (auto simp: lookup intro: issued_child)
    then show ?thesis using g gs(2,3) by (intro exI [of _ "g # gs"]) auto
  qed
qed

text \<open>
  The grants whose revocation counts: the revocation loop walks that chain from the grant up, but it does
  not know the parent of a grant above it that was issued under the empty ID.
\<close>

fun watched_above :: "string list \<Rightarrow> string list" where
  "watched_above [] = []"
| "watched_above (p # ps) = p # (if p = [] then [] else watched_above ps)"

fun watched :: "string list \<Rightarrow> string list" where
  "watched [] = []"
| "watched (g # ps) = g # watched_above ps"

lemma watched_above_all: "watched_above ps = ps \<longleftrightarrow> [] \<notin> set (butlast ps)"
  by (induction ps) auto

lemma watched_all: "watched gs = gs \<longleftrightarrow> [] \<notin> set (butlast (tl gs))"
  by (cases gs) (simp_all add: watched_above_all)

lemma watched_above_subset: "set (watched_above ps) \<subseteq> set ps"
  by (induction ps) auto

lemma ancestors_chain:
  assumes "issuances es [] = Inr issued"
  shows "issued_chain es c g p gs \<Longrightarrow> distinct gs \<Longrightarrow> set gs \<inter> set acc = {} \<Longrightarrow>
    set (ancestors (parent_by_grant es) (Some g) acc) = set (watched_above gs) \<union> set acc"
proof (induction arbitrary: acc rule: issued_chain.induct)
  case (issued_root e g)
  then have "map_of (parent_by_grant es) g = (if g = [] then None else Some None)"
    using parent_lookup [OF assms, of g] by (cases "map_of (parent_by_grant es) g") auto
  then show ?case using issued_root by (auto simp: ancestors.simps)
next
  case (issued_child e g p f gs)
  show ?case
  proof (cases "g = []")
    case True
    then have "map_of (parent_by_grant es) g = None"
      using parent_lookup [OF assms, of g] by (cases "map_of (parent_by_grant es) g") auto
    then show ?thesis using True issued_child.prems by (auto simp: ancestors.simps)
  next
    case False
    then have "map_of (parent_by_grant es) g = Some (Some p)" unfolding parent_lookup [OF assms(1)] using issued_child by auto
    then have "ancestors (parent_by_grant es) (Some g) acc = ancestors (parent_by_grant es) (Some p) (g # acc)"
      using issued_child by (subst ancestors.simps) simp
    then show ?thesis using False issued_child.IH [of "g # acc"] issued_child.prems by auto
  qed
qed

lemma evaluate_use_Inr:
  assumes "evaluate_use sha reg es g pos = Inr f"
  obtains issued head' where "0 \<le> pos" "checked_prefix sha reg pos (-1) None es = Inr ()" "issuances es [] = Inr issued"
    "check_ancestry issued (cg_c_digest g) (cg_grant_id g) (cg_parent_grant_id g) [] = Inr ()"
    "last_digest sha reg es = Inr head'" "uf_observed_event_head f = head'" "uf_observed_position f = pos"
    "uf_valid f \<longleftrightarrow> cg_not_before g \<le> pos \<and> pos \<le> cg_not_after g \<and>
       \<not> (\<exists>e \<in> set es. revokes (ancestors (parent_by_grant es) (cg_parent_grant_id g) [cg_grant_id g]) (cg_c_digest g) e)"
    "uf_code f = (if \<not> (cg_not_before g \<le> pos \<and> pos \<le> cg_not_after g) then ''E-APPROVAL-WINDOW''
       else if uf_valid f then ''OK'' else ''E-APPROVAL-REVOKED'')"
proof -
  obtain issued head' where *: "0 \<le> pos" "checked_prefix sha reg pos (-1) None es = Inr ()" "issuances es [] = Inr issued"
    "check_ancestry issued (cg_c_digest g) (cg_grant_id g) (cg_parent_grant_id g) [] = Inr ()"
    "last_digest sha reg es = Inr head'"
    using assms unfolding evaluate_use_def ensure_Inr_iff bind_Inr_iff by auto
  show ?thesis
    using assms * by (intro that [OF *]) (auto simp: evaluate_use_def Let_def split: if_splits)
qed

text \<open>
  C27: The decision on a use. An evaluation that returns found a chain of issuances under the
  approval from the grant up to a root, each recorded after its parent; and it says valid exactly
  when the position is in the grant's window and no event of the prefix revokes the approval or revokes or
  expires a watched grant of that chain. Every grant of the chain is watched unless one above the grant was
  issued under the empty ID: then the grants above that one are not, and their revocation is missed.
\<close>

theorem grant_use_decision:
  assumes "evaluate_use sha reg es g pos = Inr f"
  shows "\<exists>gs. issued_chain es (cg_c_digest g) (cg_grant_id g) (cg_parent_grant_id g) gs \<and>
    (uf_valid f \<longleftrightarrow> cg_not_before g \<le> pos \<and> pos \<le> cg_not_after g \<and>
      \<not> (\<exists>e \<in> set es. ev_kind e \<in> {''GRANT_REVOKED'', ''EXPIRY_RECORDED''} \<and> ev_grant_id e \<in> Some ` set (watched gs)) \<and>
      \<not> (\<exists>e \<in> set es. ev_kind e = ''APPROVAL_REVOKED'' \<and> ev_c_digest e = cg_c_digest g)) \<and>
    (watched gs = gs \<longleftrightarrow> [] \<notin> set (butlast (tl gs)))"
proof -
  obtain issued where u: "issuances es [] = Inr issued"
    "check_ancestry issued (cg_c_digest g) (cg_grant_id g) (cg_parent_grant_id g) [] = Inr ()"
    "uf_valid f \<longleftrightarrow> cg_not_before g \<le> pos \<and> pos \<le> cg_not_after g \<and>
       \<not> (\<exists>e \<in> set es. revokes (ancestors (parent_by_grant es) (cg_parent_grant_id g) [cg_grant_id g]) (cg_c_digest g) e)"
    by (rule evaluate_use_Inr [OF assms])
  obtain gs where gs: "issued_chain es (cg_c_digest g) (cg_grant_id g) (cg_parent_grant_id g) gs" "distinct gs"
    using check_ancestry_chain [OF u(2,1)] by blast
  have "set (ancestors (parent_by_grant es) (cg_parent_grant_id g) [cg_grant_id g]) = set (watched gs)"
    using gs
  proof (cases rule: issued_chain.cases)
    case (issued_child e p f' hs)
    then show ?thesis using ancestors_chain [OF u(1) issued_child(12), of "[cg_grant_id g]"] gs(2) by auto
  qed (simp add: ancestors.simps)
  then show ?thesis
    using gs(1) watched_all [of gs] unfolding u(3) revokes_def by (intro exI [of _ gs]) (auto simp: image_iff)
qed

text \<open>
  C26: Revocation is permanent. Once an evaluation answers \<open>E-APPROVAL-REVOKED\<close> for a grant, no
  evaluation on a longer sequence of events ever finds it valid, and inside the window the answer
  stays the same.
\<close>

theorem revocation_permanent:
  assumes "evaluate_use sha reg es g pos = Inr f" and "uf_code f = ''E-APPROVAL-REVOKED''"
    and "evaluate_use sha reg (es @ later) g pos' = Inr f'"
  shows "\<not> uf_valid f' \<and> (cg_not_before g \<le> pos' \<longrightarrow> pos' \<le> cg_not_after g \<longrightarrow> uf_code f' = ''E-APPROVAL-REVOKED'')"
proof -
  let ?a = "\<lambda>es. ancestors (parent_by_grant es) (cg_parent_grant_id g) [cg_grant_id g]"
  obtain issued where u: "issuances es [] = Inr issued"
    "uf_valid f \<longleftrightarrow> cg_not_before g \<le> pos \<and> pos \<le> cg_not_after g \<and> \<not> (\<exists>e \<in> set es. revokes (?a es) (cg_c_digest g) e)"
    "uf_code f = (if \<not> (cg_not_before g \<le> pos \<and> pos \<le> cg_not_after g) then ''E-APPROVAL-WINDOW''
       else if uf_valid f then ''OK'' else ''E-APPROVAL-REVOKED'')"
    by (rule evaluate_use_Inr [OF assms(1)])
  obtain issued' where v: "issuances (es @ later) [] = Inr issued'"
    "uf_valid f' \<longleftrightarrow> cg_not_before g \<le> pos' \<and> pos' \<le> cg_not_after g \<and>
       \<not> (\<exists>e \<in> set (es @ later). revokes (?a (es @ later)) (cg_c_digest g) e)"
    "uf_code f' = (if \<not> (cg_not_before g \<le> pos' \<and> pos' \<le> cg_not_after g) then ''E-APPROVAL-WINDOW''
       else if uf_valid f' then ''OK'' else ''E-APPROVAL-REVOKED'')"
    by (rule evaluate_use_Inr [OF assms(3)])
  have "\<exists>e \<in> set es. revokes (?a es) (cg_c_digest g) e" using u(2,3) assms(2) by (auto split: if_splits)
  moreover have "set (?a es) \<subseteq> set (?a (es @ later))" using ancestors_mono [OF parent_by_grant_mono [OF v(1) u(1)]] .
  ultimately have "\<exists>e \<in> set (es @ later). revokes (?a (es @ later)) (cg_c_digest g) e" unfolding revokes_def by fastforce
  then show ?thesis using v(2,3) by simp
qed

section \<open>Witnesses\<close>

definition demo_capabilities :: "string list \<Rightarrow> policy_capabilities" where
  "demo_capabilities roots = \<lparr>pc_executable = ''pytest'', pc_argv = [], pc_cwd = ''.'', pc_roots = roots, pc_actions = [''write''],
     pc_environment_allow = [], pc_network_allow = False, pc_network_hosts = [], pc_secret_allow = True, pc_secret_names = [],
     pc_commit_allow = True, pc_subagent_allow = True, pc_subagent_max_children = 1\<rparr>"

definition demo_grant :: capability_grant where
  "demo_grant = \<lparr>cg_grant_id = ''g1'', cg_c_digest = ''c'', cg_parent_grant_id = None,
     cg_capabilities = demo_capabilities [''src''], cg_worker_key = ''w'', cg_evaluator_key = ''e'', cg_publisher_key = None,
     cg_not_before = 0, cg_not_after = 9\<rparr>"

lemma demo_intersection:
  "intersect_capabilities [demo_capabilities [''src/app''], demo_capabilities [''src''], demo_capabilities [''src'', ''test'']] True =
    Inr ((demo_capabilities [''src/app'']) \<lparr>pc_secret_allow := False, pc_commit_allow := False\<rparr>)"
  by code_simp

lemma demo_permits:
  "permits (demo_capabilities [''src/app'']) ''src/app/main.py'' ''write''"
  "permits (demo_capabilities [''src'']) ''src/app/main.py'' ''write''"
  "permits (demo_capabilities [''src'', ''test'']) ''src/app/main.py'' ''write''"
  "\<not> permits (demo_capabilities [''src'']) ''test/a.py'' ''write''"
  by code_simp+

theorem intersection_least_authority_witness:
  "\<exists>c. intersect_capabilities [demo_capabilities [''src/app''], demo_capabilities [''src''], demo_capabilities [''src'', ''test'']] True = Inr c \<and>
    permits c ''src/app/main.py'' ''write'' \<and> \<not> permits c ''test/a.py'' ''write'' \<and> \<not> pc_commit_allow c"
  using intersection_least_authority [OF demo_intersection, of "''src/app/main.py''" "''write''"]
    intersection_least_authority [OF demo_intersection, of "''test/a.py''" "''write''"] demo_permits
  by (intro exI [of _ "demo_capabilities [''src/app''] \<lparr>pc_secret_allow := False, pc_commit_allow := False\<rparr>"])
    (simp add: demo_intersection)

definition demo_child :: "(capability_grant \<times> spec_event) result" where
  "demo_child = issue_child_grant pad_sha demo_registry ''g2'' (demo_capabilities [''src/app'']) demo_grant
     (demo_capabilities [''src'', ''test'']) [] 5 None [] ''alice'' ''k''"

lemma demo_child_issued: "\<exists>g e. demo_child = Inr (g, e)"
  using demo_intersection
  by (simp add: demo_child_def issue_child_grant_def demo_grant_def ap_string_def is_text_def shape_simps grant_post_init_def
      last_digest_def grant_issued_event_def grant_event_def event_post_init_def EVENT_KINDS_def)

theorem child_grant_confined_witness:
  "\<exists>g e. demo_child = Inr (g, e) \<and> permits (cg_capabilities g) ''src/app/main.py'' ''write'' \<and>
    \<not> permits (cg_capabilities g) ''test/a.py'' ''write'' \<and> \<not> pc_commit_allow (cg_capabilities g) \<and> cg_not_after g = 9"
proof -
  obtain g e where c: "demo_child = Inr (g, e)" using demo_child_issued by blast
  show ?thesis
    using child_grant_confined [OF c [unfolded demo_child_def], of "''src/app/main.py''" "''write''"]
      child_grant_confined [OF c [unfolded demo_child_def], of "''test/a.py''" "''write''"] demo_permits c
    by (intro exI [of _ g] exI [of _ e]) (simp add: demo_grant_def)
qed

definition demo_roles :: "role_assignment list" where
  "demo_roles =
     [\<lparr>ra_assignment_id = ''r1'', ra_principal_id = ''alice'', ra_public_key = ''a'', ra_role = ''approver'', ra_scope_c_digest = ''c''\<rparr>,
      \<lparr>ra_assignment_id = ''r2'', ra_principal_id = ''bob'', ra_public_key = ''w'', ra_role = ''worker'', ra_scope_c_digest = ''c''\<rparr>,
      \<lparr>ra_assignment_id = ''r3'', ra_principal_id = ''eve'', ra_public_key = ''e'', ra_role = ''evaluator'', ra_scope_c_digest = ''c''\<rparr>]"

lemma demo_roles_accepted:
  "role_assignments demo_roles = Inr demo_roles" "key_for demo_roles ''approver'' ''c'' = Inr ''a''"
  "key_for demo_roles ''worker'' ''c'' = Inr ''w''" "key_for demo_roles ''evaluator'' ''c'' = Inr ''e''"
  "incompatible ''approver'' ''worker''"
  by code_simp+

text \<open>A grant issued at position 0 and revoked at position 1.\<close>

definition demo_issued :: spec_event where
  "demo_issued = grant_event ''grant-issued:'' ''GRANT_ISSUED'' demo_grant 0 None ''alice'' ''k'' None"

definition demo_revoked :: "string \<Rightarrow> spec_event" where
  "demo_revoked d = grant_event ''grant-revoked:'' ''GRANT_REVOKED'' demo_grant 1 None ''alice'' ''k'' (Some d)"

lemmas demo_event_simps = demo_issued_def demo_revoked_def grant_event_def demo_grant_def is_issuance_def parent_by_grant_def

lemma demo_event_digests:
  "\<exists>d. event_digest pad_sha demo_registry demo_issued = Inr d"
  "list_all is_ascii d \<Longrightarrow> \<exists>d'. event_digest pad_sha demo_registry (demo_revoked d) = Inr d'"
  unfolding event_digest_def
  by (rule ascii_payload(3); simp add: event_as_record_def demo_event_simps opt_str_def is_ascii_def MAX_SAFE_INTEGER_def)+

lemma event_digest_ascii:
  assumes "event_digest pad_sha reg e = Inr d"
  shows "list_all is_ascii d"
proof (rule digest_ascii)
  show "is_digest d"
    using assms by (auto simp: event_digest_def payload_digest_def bind_Inr_iff is_digest_def is_hex64_def hex_bytes_lower length_pad_sha)
qed

lemma demo_issued_checks:
  "check_ancestry [(''g1'', demo_issued)] (cg_c_digest demo_grant) (cg_grant_id demo_grant) (cg_parent_grant_id demo_grant) [] = Inr ()"
  by (simp add: check_ancestry.simps demo_event_simps)

lemma demo_use_valid:
  "\<exists>f. evaluate_use pad_sha demo_registry [demo_issued] demo_grant 3 = Inr f \<and> uf_valid f"
proof -
  obtain d where d: "event_digest pad_sha demo_registry demo_issued = Inr d" using demo_event_digests(1) by blast
  have "issuances [demo_issued] [] = Inr [(''g1'', demo_issued)]" "ev_seq demo_issued = 0" "ev_previous_event_digest demo_issued = None"
    "parent_by_grant [demo_issued] = [(''g1'', None)]" "\<not> revokes [''g1''] ''c'' demo_issued"
    "cg_not_before demo_grant = 0" "cg_not_after demo_grant = 9" "cg_c_digest demo_grant = ''c''" "cg_grant_id demo_grant = ''g1''" "cg_parent_grant_id demo_grant = None"
    by (simp_all add: demo_event_simps revokes_def)
  then show ?thesis using d demo_issued_checks by (simp add: evaluate_use_def last_digest_def Let_def ancestors.simps)
qed

lemma demo_use_revoked:
  "\<exists>d f. evaluate_use pad_sha demo_registry [demo_issued, demo_revoked d] demo_grant 3 = Inr f \<and> uf_code f = ''E-APPROVAL-REVOKED''"
proof -
  obtain d where d: "event_digest pad_sha demo_registry demo_issued = Inr d" using demo_event_digests(1) by blast
  obtain d' where d': "event_digest pad_sha demo_registry (demo_revoked d) = Inr d'"
    using demo_event_digests(2) [OF event_digest_ascii [OF d]] by blast
  have "issuances [demo_issued, demo_revoked d] [] = Inr [(''g1'', demo_issued)]" "ev_seq demo_issued = 0" "ev_previous_event_digest demo_issued = None"
    "ev_seq (demo_revoked d) = 1" "ev_previous_event_digest (demo_revoked d) = Some d"
    "parent_by_grant [demo_issued, demo_revoked d] = [(''g1'', None)]" "revokes [''g1''] ''c'' (demo_revoked d)"
    "cg_not_before demo_grant = 0" "cg_not_after demo_grant = 9" "cg_c_digest demo_grant = ''c''" "cg_grant_id demo_grant = ''g1''" "cg_parent_grant_id demo_grant = None"
    by (simp_all add: demo_event_simps revokes_def)
  then show ?thesis using d d' demo_issued_checks
    by (intro exI [of _ d]) (simp add: evaluate_use_def last_digest_def Let_def ancestors.simps)
qed

theorem grant_use_decision_witness:
  "\<exists>f gs. evaluate_use pad_sha demo_registry [demo_issued] demo_grant 3 = Inr f \<and> uf_valid f \<and>
    issued_chain [demo_issued] (cg_c_digest demo_grant) (cg_grant_id demo_grant) (cg_parent_grant_id demo_grant) gs"
proof -
  obtain f where f: "evaluate_use pad_sha demo_registry [demo_issued] demo_grant 3 = Inr f" "uf_valid f" using demo_use_valid by blast
  from grant_use_decision [OF f(1)] f show ?thesis by blast
qed

text \<open>
  A grant two below the root, with a grant of the empty ID between them: the root is revoked, and the use
  is still allowed.
\<close>

definition unnamed_grant :: capability_grant where
  "unnamed_grant = demo_grant\<lparr>cg_grant_id := [], cg_parent_grant_id := Some ''g1''\<rparr>"

definition below_unnamed :: capability_grant where
  "below_unnamed = demo_grant\<lparr>cg_grant_id := ''g3'', cg_parent_grant_id := Some []\<rparr>"

definition unnamed_issued :: "string \<Rightarrow> spec_event" where
  "unnamed_issued d = grant_event ''grant-issued:'' ''GRANT_ISSUED'' unnamed_grant 1 None ''alice'' ''k'' (Some d)"

definition below_issued :: "string \<Rightarrow> spec_event" where
  "below_issued d = grant_event ''grant-issued:'' ''GRANT_ISSUED'' below_unnamed 2 None ''alice'' ''k'' (Some d)"

definition root_revoked :: "string \<Rightarrow> spec_event" where
  "root_revoked d = grant_event ''grant-revoked:'' ''GRANT_REVOKED'' demo_grant 3 None ''alice'' ''k'' (Some d)"

lemmas unnamed_simps = unnamed_issued_def below_issued_def root_revoked_def unnamed_grant_def below_unnamed_def

lemma unnamed_digests:
  assumes "list_all is_ascii d"
  shows "\<exists>d'. event_digest pad_sha demo_registry (unnamed_issued d) = Inr d'"
    and "\<exists>d'. event_digest pad_sha demo_registry (below_issued d) = Inr d'"
    and "\<exists>d'. event_digest pad_sha demo_registry (root_revoked d) = Inr d'"
  unfolding event_digest_def
  by (rule ascii_payload(3); use assms in \<open>simp add: event_as_record_def demo_event_simps unnamed_simps
      opt_str_def is_ascii_def MAX_SAFE_INTEGER_def\<close>)+

lemma revocation_above_unnamed_missed:
  "\<exists>d0 d1 d2 f. evaluate_use pad_sha demo_registry [demo_issued, unnamed_issued d0, below_issued d1, root_revoked d2] below_unnamed 4 = Inr f \<and>
     uf_valid f"
proof -
  obtain d0 where d0: "event_digest pad_sha demo_registry demo_issued = Inr d0" using demo_event_digests(1) by blast
  obtain d1 where d1: "event_digest pad_sha demo_registry (unnamed_issued d0) = Inr d1"
    using unnamed_digests(1) [OF event_digest_ascii [OF d0]] by blast
  obtain d2 where d2: "event_digest pad_sha demo_registry (below_issued d1) = Inr d2"
    using unnamed_digests(2) [OF event_digest_ascii [OF d1]] by blast
  obtain d3 where d3: "event_digest pad_sha demo_registry (root_revoked d2) = Inr d3"
    using unnamed_digests(3) [OF event_digest_ascii [OF d2]] by blast
  let ?es = "[demo_issued, unnamed_issued d0, below_issued d1, root_revoked d2]"
  let ?issued = "[(''g1'', demo_issued), ([], unnamed_issued d0), (''g3'', below_issued d1)]"
  have "checked_prefix pad_sha demo_registry 4 (-1) None ?es = Inr ()" "last_digest pad_sha demo_registry ?es = Inr (Some d3)"
    using d0 d1 d2 d3 by (simp_all add: last_digest_def) (simp_all add: demo_event_simps unnamed_simps)
  moreover have "issuances ?es [] = Inr ?issued" by (simp add: demo_event_simps unnamed_simps)
  moreover have "check_ancestry ?issued ''c'' ''g3'' (Some []) [] = Inr ()"
    by (simp add: check_ancestry.simps) (simp add: demo_event_simps unnamed_simps check_ancestry.simps)
  moreover have "ancestors (parent_by_grant ?es) (Some []) [''g3''] = [[], ''g3'']"
    by (simp add: demo_event_simps unnamed_simps ancestors.simps)
  moreover have "\<not> (\<exists>e \<in> set ?es. revokes [[], ''g3''] ''c'' e)" by (simp add: demo_event_simps unnamed_simps revokes_def)
  moreover have "cg_c_digest below_unnamed = ''c''" "cg_grant_id below_unnamed = ''g3''" "cg_parent_grant_id below_unnamed = Some []"
    "cg_not_before below_unnamed = 0" "cg_not_after below_unnamed = 9" by (simp_all add: below_unnamed_def demo_grant_def)
  ultimately show ?thesis by (intro exI [of _ d0] exI [of _ d1] exI [of _ d2]) (simp add: evaluate_use_def Let_def)
qed

theorem revocation_permanent_witness:
  "\<exists>d f. evaluate_use pad_sha demo_registry [demo_issued, demo_revoked d] demo_grant 3 = Inr f \<and> \<not> uf_valid f"
proof -
  obtain d f where f: "evaluate_use pad_sha demo_registry [demo_issued, demo_revoked d] demo_grant 3 = Inr f"
    "uf_code f = ''E-APPROVAL-REVOKED''" using demo_use_revoked by blast
  have "evaluate_use pad_sha demo_registry ([demo_issued, demo_revoked d] @ []) demo_grant 3 = Inr f" using f(1) by simp
  from revocation_permanent [OF f this] f(1) show ?thesis by blast
qed

end
