(* ===== verification/Lifecycle.thy ===== *)
theory Lifecycle
  imports Strict_Json
begin

text \<open>
  The specification lifecycle before implementation
  (\<^verbatim>\<open>src/src/ranex/governed_execution/domain/specification.py\<close> and
  \<^verbatim>\<open>src/src/ranex/governed_execution/application/specification.py\<close>): clarification requests, sessions and the
  guarded transition \<open>advance\<close>. Shown: a refusal leaves the session alone and names its code, an
  acceptance moves exactly one step and binds the digests of what was validated, and a session that
  reached approval has a complete, signed A/B/C chain behind it.
\<close>

section \<open>Records\<close>

datatype lifecycle_state = DRAFT | SPEC_VALIDATED | TESTS_MAPPED | APPROVAL_PENDING

definition state_text :: "lifecycle_state \<Rightarrow> string" where
  "state_text s = (case s of DRAFT \<Rightarrow> ''DRAFT'' | SPEC_VALIDATED \<Rightarrow> ''SPEC_VALIDATED'' | TESTS_MAPPED \<Rightarrow> ''TESTS_MAPPED''
     | APPROVAL_PENDING \<Rightarrow> ''APPROVAL_PENDING'')"

definition all_states :: "lifecycle_state list" where
  "all_states = [DRAFT, SPEC_VALIDATED, TESTS_MAPPED, APPROVAL_PENDING]"

datatype refusal_code = ACTOR_MISMATCH | MISSING_ACTOR | STALE_BASE | MISSING_ANSWER | UNKNOWN_ANSWER | CONTRADICTORY_ANSWER
  | AMBIGUOUS_QUESTION | OBSERVED_ONLY_INTENT | INVALID_SPECIFICATION | INVALID_MANIFEST | INVALID_APPROVAL | CHAIN_MISMATCH
  | INVALID_INPUT | OUT_OF_ORDER

definition code_text :: "refusal_code \<Rightarrow> string" where
  "code_text c = ''E-SPEC-030-'' @ (case c of ACTOR_MISMATCH \<Rightarrow> ''ACTOR-MISMATCH'' | MISSING_ACTOR \<Rightarrow> ''MISSING-ACTOR''
     | STALE_BASE \<Rightarrow> ''STALE-BASE'' | MISSING_ANSWER \<Rightarrow> ''MISSING-ANSWER'' | UNKNOWN_ANSWER \<Rightarrow> ''UNKNOWN-ANSWER''
     | CONTRADICTORY_ANSWER \<Rightarrow> ''CONTRADICTORY-ANSWER'' | AMBIGUOUS_QUESTION \<Rightarrow> ''AMBIGUOUS-QUESTION''
     | OBSERVED_ONLY_INTENT \<Rightarrow> ''OBSERVED-ONLY-INTENT'' | INVALID_SPECIFICATION \<Rightarrow> ''INVALID-SPECIFICATION''
     | INVALID_MANIFEST \<Rightarrow> ''INVALID-MANIFEST'' | INVALID_APPROVAL \<Rightarrow> ''INVALID-APPROVAL'' | CHAIN_MISMATCH \<Rightarrow> ''CHAIN-MISMATCH''
     | INVALID_INPUT \<Rightarrow> ''INVALID-INPUT'' | OUT_OF_ORDER \<Rightarrow> ''OUT-OF-ORDER'')"

fun transition_table :: "lifecycle_state \<Rightarrow> lifecycle_state option" where
  "transition_table DRAFT = Some SPEC_VALIDATED"
| "transition_table SPEC_VALIDATED = Some TESTS_MAPPED"
| "transition_table TESTS_MAPPED = Some APPROVAL_PENDING"
| "transition_table APPROVAL_PENDING = None"

record question =
  q_question_id :: string
  q_prompt :: string
  q_allowed_answers :: "string list"

definition question_as_record :: "question \<Rightarrow> pyval" where
  "question_as_record q = VDict [(''question_id'', VStr (q_question_id q)), (''prompt'', VStr (q_prompt q)),
     (''allowed_answers'', str_list (q_allowed_answers q))]"

record clarification_answer =
  ca_question_id :: string
  ca_value :: string

definition answer_as_record :: "clarification_answer \<Rightarrow> pyval" where
  "answer_as_record a = VDict [(''question_id'', VStr (ca_question_id a)), (''value'', VStr (ca_value a))]"

text \<open>
  The target of a request is a state or, from a caller that did not construct one, another value,
  of which only its text matters.
\<close>

record clarification_input =
  ci_actor_id :: string
  ci_target :: "string + lifecycle_state"
  ci_base_digest :: string
  ci_spec_packet :: pyval
  ci_manifest :: pyval
  ci_approval_envelope :: pyval
  ci_questions :: "question list"
  ci_answers :: "clarification_answer list"
  ci_observations :: "string list list"

definition input_as_record :: "clarification_input \<Rightarrow> pyval" where
  "input_as_record r = VDict
     [(''actor_id'', VStr (ci_actor_id r)), (''target'', VStr (case ci_target r of Inl t \<Rightarrow> t | Inr s \<Rightarrow> state_text s)),
      (''answers'', VList (map answer_as_record (ci_answers r))), (''approval_envelope'', ci_approval_envelope r),
      (''base_digest'', VStr (ci_base_digest r)), (''manifest'', ci_manifest r),
      (''observations'', VList (map str_list (ci_observations r))),
      (''questions'', VList (map question_as_record (ci_questions r))), (''spec_packet'', ci_spec_packet r)]"

text \<open>\<open>from_record\<close> does not check the types of a session's fields, so they are values.\<close>

record lifecycle_session =
  ls_state :: lifecycle_state
  ls_actor_id :: pyval
  ls_base_digest :: pyval
  ls_semantic_digest :: pyval
  ls_last_request_digest :: pyval
  ls_manifest_digest :: pyval

definition session_as_record :: "lifecycle_session \<Rightarrow> pyval" where
  "session_as_record s = VDict
     [(''actor_id'', ls_actor_id s), (''base_digest'', ls_base_digest s), (''last_request_digest'', ls_last_request_digest s),
      (''manifest_digest'', ls_manifest_digest s), (''semantic_digest'', ls_semantic_digest s),
      (''state'', VStr (state_text (ls_state s)))]"

definition session_from_record :: "pyval \<Rightarrow> lifecycle_session result" where
  "session_from_record v =
     ensure (is_dict v) (ValueError ''session must be an object'') (
     let found = filter (\<lambda>s. fld v ''state'' = VStr (state_text s)) all_states in
     ensure (has_key v ''state'' \<and> found \<noteq> [] \<and> has_key v ''actor_id'' \<and> has_key v ''base_digest'')
       (ValueError ''invalid lifecycle session'') (
     Inr \<lparr>ls_state = hd found, ls_actor_id = fld v ''actor_id'', ls_base_digest = fld v ''base_digest'',
       ls_semantic_digest = fld v ''semantic_digest'', ls_last_request_digest = fld v ''last_request_digest'',
       ls_manifest_digest = fld v ''manifest_digest''\<rparr>))"

record transition_result =
  tr_accepted :: bool
  tr_session :: lifecycle_session
  tr_actor_id :: string
  tr_code :: "refusal_code option"
  tr_semantic_digest :: pyval
  tr_cause :: "string option"

definition result_as_record :: "transition_result \<Rightarrow> pyval" where
  "result_as_record t = VDict
     [(''accepted'', VBool (tr_accepted t)), (''actor_id'', VStr (tr_actor_id t)), (''cause'', opt_str (tr_cause t)),
      (''code'', opt_str (map_option code_text (tr_code t))), (''semantic_digest'', tr_semantic_digest t),
      (''session'', session_as_record (tr_session t))]"

section \<open>Transitions\<close>

definition request_digest :: "(bytes \<Rightarrow> bytes) \<Rightarrow> clarification_input \<Rightarrow> string result" where
  "request_digest sha r = sha256_text sha (input_as_record r)"

definition draft :: "clarification_input \<Rightarrow> lifecycle_session" where
  "draft r = \<lparr>ls_state = DRAFT, ls_actor_id = VStr (ci_actor_id r), ls_base_digest = VStr (ci_base_digest r),
     ls_semantic_digest = VNone, ls_last_request_digest = VNone, ls_manifest_digest = VNone\<rparr>"

definition render_questions :: "clarification_input \<Rightarrow> string result" where
  "render_questions r = canonical_json (VDict [(''questions'', VList (map question_as_record (ci_questions r)))])"

definition refuse_advance :: "lifecycle_session \<Rightarrow> clarification_input \<Rightarrow> refusal_code \<Rightarrow> string option \<Rightarrow> transition_result" where
  "refuse_advance s r code cause =
     \<lparr>tr_accepted = False, tr_session = s, tr_actor_id = ci_actor_id r, tr_code = Some code,
      tr_semantic_digest = ls_semantic_digest s, tr_cause = cause\<rparr>"

fun question_shapes :: "question list \<Rightarrow> refusal_code option" where
  "question_shapes [] = None"
| "question_shapes (q # qs) =
     (if q_question_id q = [] \<or> q_prompt q = [] then Some MISSING_ANSWER
      else if length (q_allowed_answers q) \<noteq> 1 \<or> q_allowed_answers q ! 0 = [] then Some AMBIGUOUS_QUESTION
      else question_shapes qs)"

definition question_refusal :: "clarification_input \<Rightarrow> refusal_code option" where
  "question_refusal r =
     (let question_ids = map q_question_id (ci_questions r); answer_ids = map ca_question_id (ci_answers r);
          allowed = rev (map (\<lambda>q. (q_question_id q, q_allowed_answers q ! 0)) (ci_questions r)) in
      if question_ids = [] \<or> \<not> distinct question_ids then Some MISSING_ANSWER
      else
        (case question_shapes (ci_questions r) of
           Some c \<Rightarrow> Some c
         | None \<Rightarrow>
             if \<not> set answer_ids \<subseteq> set question_ids then Some UNKNOWN_ANSWER
             else if \<not> distinct answer_ids \<or> set answer_ids \<noteq> set question_ids then Some MISSING_ANSWER
             else if \<exists>a \<in> set (ci_answers r). ca_value a = [] \<or> map_of allowed (ca_question_id a) \<noteq> Some (ca_value a)
             then Some CONTRADICTORY_ANSWER
             else None))"

definition has_observed_only_intent :: "clarification_input \<Rightarrow> bool" where
  "has_observed_only_intent r \<longleftrightarrow> (\<exists>o' \<in> set (ci_observations r). length o' = 3 \<and> o' ! 2 = ''observed-only'')"

definition validated_specification :: "(bytes \<Rightarrow> bytes) \<Rightarrow> registry \<Rightarrow> clarification_input \<Rightarrow> string result" where
  "validated_specification sha reg r =
     bind (canonical_payload_bytes reg (ci_spec_packet r)) (\<lambda>b.
     bind (parse_strict_json reg b) (\<lambda>parsed.
     bind (validate_spec_packet reg parsed) (\<lambda>checked.
     ensure (items_of (fld checked ''non_goals'') \<noteq> []) (Refusal ''E-ABC-000'' ''non_goals must not be empty'') (
     payload_digest sha reg checked))))"

text \<open>
  The first \<open>try\<close>: a final answer, or the request digest and the state to move to. Every exception it
  lists is one of this model's except the \<open>OSError\<close> of file access.
\<close>

definition caught :: "exn \<Rightarrow> bool" where
  "caught e \<longleftrightarrow> (case e of OSError _ \<Rightarrow> False | _ \<Rightarrow> True)"

definition guard_session :: "(bytes \<Rightarrow> bytes) \<Rightarrow> registry \<Rightarrow> lifecycle_session \<Rightarrow> clarification_input \<Rightarrow>
    (transition_result option) result" where
  "guard_session sha reg s r =
     (if ls_state s = DRAFT then Inr None
      else
        bind (payload_digest sha reg (ci_spec_packet r)) (\<lambda>a.
        if VStr a \<noteq> ls_semantic_digest s then Inr (Some (refuse_advance s r CHAIN_MISMATCH (Some ''E-ABC-017'')))
        else if ls_state s \<in> {TESTS_MAPPED, APPROVAL_PENDING} then
          bind (payload_digest sha reg (ci_manifest r)) (\<lambda>b.
          Inr (if VStr b \<noteq> ls_manifest_digest s then Some (refuse_advance s r CHAIN_MISMATCH (Some ''E-ABC-019'')) else None))
        else Inr None))"

definition guard_request :: "(bytes \<Rightarrow> bytes) \<Rightarrow> registry \<Rightarrow> lifecycle_session \<Rightarrow> clarification_input \<Rightarrow>
    (transition_result + (string \<times> lifecycle_state)) result" where
  "guard_request sha reg s r =
     bind (request_digest sha r) (\<lambda>digest.
     case ci_target r of
       Inl _ \<Rightarrow> Inr (Inl (refuse_advance s r INVALID_INPUT None))
     | Inr target \<Rightarrow>
         if ci_actor_id r = [] then Inr (Inl (refuse_advance s r MISSING_ACTOR None))
         else if VStr (ci_actor_id r) \<noteq> ls_actor_id s then Inr (Inl (refuse_advance s r ACTOR_MISMATCH None))
         else if VStr (ci_base_digest r) \<noteq> ls_base_digest s then Inr (Inl (refuse_advance s r STALE_BASE None))
         else if has_observed_only_intent r then Inr (Inl (refuse_advance s r OBSERVED_ONLY_INTENT None))
         else
           (case question_refusal r of
              Some code \<Rightarrow> Inr (Inl (refuse_advance s r code None))
            | None \<Rightarrow>
                bind (guard_session sha reg s r) (\<lambda>refused.
                case refused of
                  Some t \<Rightarrow> Inr (Inl t)
                | None \<Rightarrow>
                    if ls_last_request_digest s = VStr digest then
                      Inr (Inl \<lparr>tr_accepted = True, tr_session = s, tr_actor_id = ci_actor_id r, tr_code = None,
                        tr_semantic_digest = ls_semantic_digest s, tr_cause = None\<rparr>)
                    else
                      (case transition_table (ls_state s) of
                         None \<Rightarrow> Inr (Inl (refuse_advance s r OUT_OF_ORDER None))
                       | Some destination \<Rightarrow>
                           if target \<noteq> destination then Inr (Inl (refuse_advance s r OUT_OF_ORDER None))
                           else Inr (Inr (digest, destination))))))"

text \<open>The second \<open>try\<close>: the digests the next session carries.\<close>

definition validate_stage :: "(bytes \<Rightarrow> bytes) \<Rightarrow> ed25519 \<Rightarrow> registry \<Rightarrow> lifecycle_session \<Rightarrow> clarification_input \<Rightarrow> (pyval \<times> pyval) result" where
  "validate_stage sha ed reg s r =
     (case ls_state s of
        DRAFT \<Rightarrow> bind (validated_specification sha reg r) (\<lambda>d. Inr (VStr d, ls_manifest_digest s))
      | SPEC_VALIDATED \<Rightarrow>
          bind (validate_generated_artifact_manifest sha reg (ci_manifest r) (Some (ci_spec_packet r))) (\<lambda>_.
          bind (payload_digest sha reg (ci_manifest r)) (\<lambda>d. Inr (ls_semantic_digest s, VStr d)))
      | _ \<Rightarrow>
          bind (validate_approval_envelope ed reg (ci_approval_envelope r) []) (\<lambda>_.
          Inr (ls_semantic_digest s, ls_manifest_digest s)))"

definition stage_code :: "lifecycle_state \<Rightarrow> refusal_code" where
  "stage_code s = (case s of DRAFT \<Rightarrow> INVALID_SPECIFICATION | SPEC_VALIDATED \<Rightarrow> INVALID_MANIFEST | _ \<Rightarrow> INVALID_APPROVAL)"

text \<open>How the last two \<open>try\<close> statements answer an exception.\<close>

definition answer_exception :: "lifecycle_session \<Rightarrow> clarification_input \<Rightarrow> refusal_code \<Rightarrow> exn \<Rightarrow> transition_result result" where
  "answer_exception s r code e =
     (case e of
        Refusal c _ \<Rightarrow> Inr (refuse_advance s r code (Some c))
      | _ \<Rightarrow> if caught e then Inr (refuse_advance s r INVALID_INPUT None) else Inl e)"

definition advance :: "(bytes \<Rightarrow> bytes) \<Rightarrow> ed25519 \<Rightarrow> registry \<Rightarrow> lifecycle_session \<Rightarrow> clarification_input \<Rightarrow> transition_result result" where
  "advance sha ed reg s r =
     (case guard_request sha reg s r of
        Inl e \<Rightarrow> if caught e then Inr (refuse_advance s r INVALID_INPUT None) else Inl e
      | Inr (Inl answer) \<Rightarrow> Inr answer
      | Inr (Inr (digest, destination)) \<Rightarrow>
          (case validate_stage sha ed reg s r of
             Inl e \<Rightarrow> answer_exception s r (stage_code (ls_state s)) e
           | Inr (semantic, manifest) \<Rightarrow>
               (case (if ls_state s = TESTS_MAPPED
                      then assert_abc_chain sha ed reg (ci_spec_packet r) (ci_manifest r) (ci_approval_envelope r) []
                      else Inr ()) of
                  Inl e \<Rightarrow> answer_exception s r CHAIN_MISMATCH e
                | Inr _ \<Rightarrow>
                    Inr \<lparr>tr_accepted = True,
                      tr_session = \<lparr>ls_state = destination, ls_actor_id = ls_actor_id s, ls_base_digest = ls_base_digest s,
                        ls_semantic_digest = semantic, ls_last_request_digest = VStr digest, ls_manifest_digest = manifest\<rparr>,
                      tr_actor_id = ci_actor_id r, tr_code = None, tr_semantic_digest = semantic, tr_cause = None\<rparr>)))"

section \<open>Refinement of the abstract lifecycle\<close>

text \<open>
  The abstract machine: a specification is drafted, then validated under a digest, then mapped to a
  manifest, then pending approval; each move rests on the validation the request passed.
\<close>

datatype phase = Drafting | Validated pyval | Mapped pyval pyval | Pending pyval pyval

inductive phase_step :: "(bytes \<Rightarrow> bytes) \<Rightarrow> ed25519 \<Rightarrow> registry \<Rightarrow> clarification_input \<Rightarrow> phase \<Rightarrow> phase \<Rightarrow> bool"
  for sha ed reg r where
  phase_validate: "phase_step sha ed reg r Drafting (Validated (VStr a))"
    if "validated_specification sha reg r = Inr a"
| phase_map: "phase_step sha ed reg r (Validated (VStr a)) (Mapped (VStr a) (VStr b))"
    if "payload_digest sha reg (ci_spec_packet r) = Inr a"
      "is_ok (validate_generated_artifact_manifest sha reg (ci_manifest r) (Some (ci_spec_packet r)))"
      "payload_digest sha reg (ci_manifest r) = Inr b"
| phase_approve: "phase_step sha ed reg r (Mapped (VStr a) (VStr b)) (Pending (VStr a) (VStr b))"
    if "payload_digest sha reg (ci_spec_packet r) = Inr a" "payload_digest sha reg (ci_manifest r) = Inr b"
      "assert_abc_chain sha ed reg (ci_spec_packet r) (ci_manifest r) (ci_approval_envelope r) [] = Inr ()"

definition phase_of :: "lifecycle_session \<Rightarrow> phase" where
  "phase_of s = (case ls_state s of DRAFT \<Rightarrow> Drafting | SPEC_VALIDATED \<Rightarrow> Validated (ls_semantic_digest s)
     | TESTS_MAPPED \<Rightarrow> Mapped (ls_semantic_digest s) (ls_manifest_digest s)
     | APPROVAL_PENDING \<Rightarrow> Pending (ls_semantic_digest s) (ls_manifest_digest s))"

text \<open>What an accepted step takes over from the request, besides the digests.\<close>

definition admitted :: "(bytes \<Rightarrow> bytes) \<Rightarrow> lifecycle_session \<Rightarrow> clarification_input \<Rightarrow> lifecycle_session \<Rightarrow> bool" where
  "admitted sha s r s' \<longleftrightarrow>
     transition_table (ls_state s) = Some (ls_state s') \<and> ci_target r = Inr (ls_state s') \<and>
     ci_actor_id r \<noteq> [] \<and> ls_actor_id s = VStr (ci_actor_id r) \<and> ls_base_digest s = VStr (ci_base_digest r) \<and>
     ls_actor_id s' = ls_actor_id s \<and> ls_base_digest s' = ls_base_digest s \<and>
     \<not> has_observed_only_intent r \<and> question_refusal r = None \<and>
     (\<exists>d. request_digest sha r = Inr d \<and> ls_last_request_digest s' = VStr d)"

lemma guard_session_None:
  "guard_session sha reg s r = Inr None \<longleftrightarrow>
     (ls_state s \<noteq> DRAFT \<longrightarrow> (\<exists>a. payload_digest sha reg (ci_spec_packet r) = Inr a \<and> ls_semantic_digest s = VStr a)) \<and>
     (ls_state s \<in> {TESTS_MAPPED, APPROVAL_PENDING} \<longrightarrow>
        (\<exists>b. payload_digest sha reg (ci_manifest r) = Inr b \<and> ls_manifest_digest s = VStr b))"
  by (cases "ls_state s") (auto simp: guard_session_def bind_Inr_iff)

lemma guard_session_Some:
  "guard_session sha reg s r = Inr (Some t) \<Longrightarrow> \<exists>c cause. t = refuse_advance s r c cause"
  by (auto simp: guard_session_def bind_Inr_iff split: if_splits)

lemma guard_request_Inr:
  "guard_request sha reg s r = Inr (Inr (d, s')) \<longleftrightarrow>
     request_digest sha r = Inr d \<and> ci_target r = Inr s' \<and> ci_actor_id r \<noteq> [] \<and> ls_actor_id s = VStr (ci_actor_id r) \<and>
     ls_base_digest s = VStr (ci_base_digest r) \<and> \<not> has_observed_only_intent r \<and> question_refusal r = None \<and>
     guard_session sha reg s r = Inr None \<and> ls_last_request_digest s \<noteq> VStr d \<and> transition_table (ls_state s) = Some s'"
  by (cases "request_digest sha r"; cases "ci_target r"; cases "question_refusal r"; cases "guard_session sha reg s r";
      cases "transition_table (ls_state s)") (auto simp: guard_request_def split: option.splits if_splits)

lemma guard_request_answer:
  assumes "guard_request sha reg s r = Inr (Inl t)"
  shows "tr_session t = s \<and> (tr_accepted t \<longleftrightarrow> tr_code t = None) \<and>
    (tr_accepted t \<longrightarrow> (\<exists>d. request_digest sha r = Inr d \<and> ls_last_request_digest s = VStr d))"
  using assms guard_session_Some [of sha reg s r]
  by (cases "request_digest sha r"; cases "ci_target r"; cases "question_refusal r"; cases "guard_session sha reg s r")
    (auto simp: guard_request_def refuse_advance_def split: option.splits if_splits)

lemma answer_exception_refuses:
  "answer_exception s r c e = Inr t \<Longrightarrow> tr_session t = s \<and> \<not> tr_accepted t \<and> tr_code t \<noteq> None"
  "answer_exception s r c e = Inl e' \<Longrightarrow> \<not> caught e'"
  by (auto simp: answer_exception_def refuse_advance_def caught_def split: exn.splits if_splits)

text \<open>The last step of \<open>advance\<close>, past the guards.\<close>

lemma advance_moves:
  assumes "guard_request sha reg s r = Inr (Inr (d, target))" "validate_stage sha ed reg s r = Inr (a, b)"
    and "ls_state s = TESTS_MAPPED \<Longrightarrow>
      assert_abc_chain sha ed reg (ci_spec_packet r) (ci_manifest r) (ci_approval_envelope r) [] = Inr ()"
  defines "s' \<equiv> \<lparr>ls_state = target, ls_actor_id = ls_actor_id s, ls_base_digest = ls_base_digest s,
      ls_semantic_digest = a, ls_last_request_digest = VStr d, ls_manifest_digest = b\<rparr>"
  shows "admitted sha s r s' \<and> phase_step sha ed reg r (phase_of s) (phase_of s')"
proof -
  note g = assms(1) [unfolded guard_request_Inr guard_session_None]
  have "admitted sha s r s'" using g by (auto simp: admitted_def s'_def)
  moreover have "phase_step sha ed reg r (phase_of s) (phase_of s')"
  proof (cases "ls_state s")
    case DRAFT
    then show ?thesis using assms(2) g by (auto simp: validate_stage_def bind_Inr_iff phase_of_def s'_def intro: phase_validate)
  next
    case SPEC_VALIDATED
    then show ?thesis using assms(2) g
      by (auto simp: validate_stage_def bind_Inr_iff phase_of_def s'_def is_ok_iff intro!: phase_map)
  next
    case TESTS_MAPPED
    then show ?thesis using assms(2,3) g
      by (auto simp: validate_stage_def bind_Inr_iff phase_of_def s'_def intro!: phase_approve)
  qed (use g in simp)
  ultimately show ?thesis by blast
qed

lemma advance_cases:
  "case advance sha ed reg s r of
     Inl e \<Rightarrow> \<not> caught e
   | Inr t \<Rightarrow>
       if \<not> tr_accepted t then tr_session t = s \<and> tr_code t \<noteq> None
       else tr_code t = None \<and>
         (tr_session t = s \<and> (\<exists>d. request_digest sha r = Inr d \<and> ls_last_request_digest s = VStr d) \<or>
          admitted sha s r (tr_session t) \<and> phase_step sha ed reg r (phase_of s) (phase_of (tr_session t)))"
proof (cases "guard_request sha reg s r")
  case (Inl e)
  then show ?thesis by (simp add: advance_def refuse_advance_def)
next
  case (Inr a)
  show ?thesis
  proof (cases a)
    case (Inl t)
    then show ?thesis using guard_request_answer [of sha reg s r t] Inr by (auto simp: advance_def)
  next
    case g: (Inr m)
    obtain d target where m: "m = (d, target)" by (cases m)
    show ?thesis
    proof (cases "validate_stage sha ed reg s r")
      case (Inl e)
      then show ?thesis using Inr g m answer_exception_refuses [of s r "stage_code (ls_state s)" e]
        by (auto simp: advance_def split: sum.splits)
    next
      case v: (Inr p)
      obtain x y where p: "p = (x, y)" by (cases p)
      show ?thesis
      proof (cases "if ls_state s = TESTS_MAPPED
          then assert_abc_chain sha ed reg (ci_spec_packet r) (ci_manifest r) (ci_approval_envelope r) [] else Inr ()")
        case (Inl e)
        then show ?thesis using Inr g m v p answer_exception_refuses [of s r CHAIN_MISMATCH e]
          by (auto simp: advance_def split: sum.splits)
      next
        case c: (Inr u)
        then have "ls_state s = TESTS_MAPPED \<Longrightarrow>
            assert_abc_chain sha ed reg (ci_spec_packet r) (ci_manifest r) (ci_approval_envelope r) [] = Inr ()" by simp
        from advance_moves [OF Inr [unfolded g m] v [unfolded p] this] show ?thesis
          using Inr g m v p c by (simp add: advance_def)
      qed
    qed
  qed
qed

text \<open>
  C22: \<open>advance\<close> refines the abstract lifecycle. It never raises the exceptions it promises to answer;
  a refusal leaves the session as it was and names a code; an acceptance either repeats the request
  the session last accepted and changes nothing, or takes exactly the next step of the table for
  the actor and base the session was drafted with, every question answered, bound to the digests of
  what was validated.
\<close>

theorem advance_refines:
  "case advance sha ed reg s r of
     Inl e \<Rightarrow> \<not> caught e
   | Inr t \<Rightarrow>
       if \<not> tr_accepted t then tr_session t = s \<and> tr_code t \<noteq> None
       else tr_code t = None \<and>
         (tr_session t = s \<and> (\<exists>d. request_digest sha r = Inr d \<and> ls_last_request_digest s = VStr d) \<or>
          admitted sha s r (tr_session t) \<and> phase_step sha ed reg r (phase_of s) (phase_of (tr_session t)))"
  by (rule advance_cases)

lemma advance_accepted:
  assumes "advance sha ed reg s r = Inr t"
  obtains "tr_session t = s"
    | "tr_accepted t" "admitted sha s r (tr_session t)" "phase_step sha ed reg r (phase_of s) (phase_of (tr_session t))"
  using advance_cases [where sha = sha and ed = ed and reg = reg and s = s and r = r] assms that by (auto split: if_splits)

section \<open>Runs\<close>

inductive lifecycle_run :: "(bytes \<Rightarrow> bytes) \<Rightarrow> ed25519 \<Rightarrow> registry \<Rightarrow> clarification_input \<Rightarrow> lifecycle_session \<Rightarrow> bool"
  for sha ed reg r0 where
  run_draft: "lifecycle_run sha ed reg r0 (draft r0)"
| run_advance: "lifecycle_run sha ed reg r0 (tr_session t)"
    if "lifecycle_run sha ed reg r0 s" "advance sha ed reg s r = Inr t"

definition validated_as :: "(bytes \<Rightarrow> bytes) \<Rightarrow> registry \<Rightarrow> pyval \<Rightarrow> bool" where
  "validated_as sha reg a \<longleftrightarrow> (\<exists>(r :: clarification_input) x. a = VStr x \<and> validated_specification sha reg r = Inr x)"

definition mapped_as :: "(bytes \<Rightarrow> bytes) \<Rightarrow> registry \<Rightarrow> pyval \<Rightarrow> pyval \<Rightarrow> bool" where
  "mapped_as sha reg a b \<longleftrightarrow> (\<exists>(r :: clarification_input) x y. a = VStr x \<and> b = VStr y \<and> payload_digest sha reg (ci_spec_packet r) = Inr x \<and>
     is_ok (validate_generated_artifact_manifest sha reg (ci_manifest r) (Some (ci_spec_packet r))) \<and>
     payload_digest sha reg (ci_manifest r) = Inr y)"

definition approved_as :: "(bytes \<Rightarrow> bytes) \<Rightarrow> ed25519 \<Rightarrow> registry \<Rightarrow> pyval \<Rightarrow> pyval \<Rightarrow> bool" where
  "approved_as sha ed reg a b \<longleftrightarrow> (\<exists>(r :: clarification_input) x y. a = VStr x \<and> b = VStr y \<and> payload_digest sha reg (ci_spec_packet r) = Inr x \<and>
     payload_digest sha reg (ci_manifest r) = Inr y \<and>
     assert_abc_chain sha ed reg (ci_spec_packet r) (ci_manifest r) (ci_approval_envelope r) [] = Inr ())"

fun phase_inv :: "(bytes \<Rightarrow> bytes) \<Rightarrow> ed25519 \<Rightarrow> registry \<Rightarrow> phase \<Rightarrow> bool" where
  "phase_inv sha ed reg Drafting = True"
| "phase_inv sha ed reg (Validated a) = validated_as sha reg a"
| "phase_inv sha ed reg (Mapped a b) = (validated_as sha reg a \<and> mapped_as sha reg a b)"
| "phase_inv sha ed reg (Pending a b) = (validated_as sha reg a \<and> mapped_as sha reg a b \<and> approved_as sha ed reg a b)"

lemma phase_inv_step:
  assumes "phase_step sha ed reg r p q" "phase_inv sha ed reg p"
  shows "phase_inv sha ed reg q"
  using assms by (cases rule: phase_step.cases) (auto simp: validated_as_def mapped_as_def approved_as_def)

lemma run_inv:
  assumes "lifecycle_run sha ed reg r0 s"
  shows "phase_inv sha ed reg (phase_of s) \<and> ls_actor_id s = VStr (ci_actor_id r0) \<and> ls_base_digest s = VStr (ci_base_digest r0)"
  using assms
proof (induction rule: lifecycle_run.induct)
  case run_draft
  then show ?case by (simp add: draft_def phase_of_def)
next
  case (run_advance s r t)
  from run_advance.hyps(2) show ?case
  proof (cases rule: advance_accepted)
    case 2
    then show ?thesis using run_advance.IH phase_inv_step [OF 2(3)] by (simp add: admitted_def)
  qed (use run_advance.IH in simp)
qed

text \<open>
  C21: A session that is pending approval got there honestly. However many requests were made, in
  whatever order and with whatever content, a session in \<open>APPROVAL_PENDING\<close> carries the digest of a
  packet that passed validation, the digest of a manifest that was validated against a packet of
  that digest, and there was a request whose packet and manifest have these digests and whose
  approval completes a signed A/B/C chain with them; actor and base digest are those of the draft.
\<close>

theorem pending_session_has_chain:
  assumes "lifecycle_run sha ed reg r0 s" and "ls_state s = APPROVAL_PENDING"
  shows "ls_actor_id s = VStr (ci_actor_id r0) \<and> ls_base_digest s = VStr (ci_base_digest r0) \<and>
    validated_as sha reg (ls_semantic_digest s) \<and> mapped_as sha reg (ls_semantic_digest s) (ls_manifest_digest s) \<and>
    (\<exists>(r :: clarification_input) a b. ls_semantic_digest s = VStr a \<and> ls_manifest_digest s = VStr b \<and>
       payload_digest sha reg (ci_spec_packet r) = Inr a \<and> payload_digest sha reg (ci_manifest r) = Inr b \<and>
       assert_abc_chain sha ed reg (ci_spec_packet r) (ci_manifest r) (ci_approval_envelope r) [] = Inr ())"
  using run_inv [OF assms(1)] assms(2) by (auto simp: phase_of_def approved_as_def)

section \<open>Replay\<close>

text \<open>The digest that validation returns is the digest of the packet of the request.\<close>

lemma validated_packet_digest:
  assumes "ascii_val (ci_spec_packet r)" "wf_val (ci_spec_packet r)" "validated_specification sha reg r = Inr d"
  shows "payload_digest sha reg (ci_spec_packet r) = Inr d"
proof -
  obtain b parsed checked where "canonical_payload_bytes reg (ci_spec_packet r) = Inr b" "parse_strict_json reg b = Inr parsed"
    "validate_spec_packet reg parsed = Inr checked" "payload_digest sha reg checked = Inr d"
    using assms(3) unfolding validated_specification_def bind_Inr_iff ensure_Inr_iff by blast
  moreover have "parsed = sort_keys (ci_spec_packet r)" using parse_canonical_bytes [OF assms(1,2)] calculation by simp
  moreover have "checked = parsed" using validated_values(1) calculation by blast
  ultimately show ?thesis using payload_digest_sort_keys [OF assms(1,2)] by simp
qed

text \<open>
  A request can be retried: sending an accepted request again is accepted again and leaves the
  session exactly as the first acceptance left it.
\<close>

lemma advance_replay:
  assumes "advance sha ed reg s r = Inr t" and "tr_accepted t" and "ascii_val (ci_spec_packet r)" and "wf_val (ci_spec_packet r)"
  shows "\<exists>t'. advance sha ed reg (tr_session t) r = Inr t' \<and> tr_accepted t' \<and> tr_session t' = tr_session t"
  using assms(1)
proof (cases rule: advance_accepted)
  case 1
  then show ?thesis using assms(1,2) by auto
next
  case 2
  let ?s = "tr_session t"
  obtain d where d: "request_digest sha r = Inr d" "ls_last_request_digest ?s = VStr d"
    and a: "ci_target r = Inr (ls_state ?s)" "ci_actor_id r \<noteq> []" "ls_actor_id ?s = VStr (ci_actor_id r)"
    "ls_base_digest ?s = VStr (ci_base_digest r)" "\<not> has_observed_only_intent r" "question_refusal r = None"
    using 2(2) unfolding admitted_def by auto
  have "guard_session sha reg ?s r = Inr None"
    unfolding guard_session_None using 2(3) validated_packet_digest [OF assms(3,4)]
    by (cases rule: phase_step.cases) (auto simp: phase_of_def split: lifecycle_state.splits)
  then have "guard_request sha reg ?s r = Inr (Inl \<lparr>tr_accepted = True, tr_session = ?s, tr_actor_id = ci_actor_id r,
      tr_code = None, tr_semantic_digest = ls_semantic_digest ?s, tr_cause = None\<rparr>)"
    using a d by (simp add: guard_request_def)
  then show ?thesis by (simp add: advance_def)
qed

section \<open>Witnesses\<close>

text \<open>A digest function that tells requests apart by their last bytes, which name the target.\<close>

definition tail_sha :: "bytes \<Rightarrow> bytes" where
  "tail_sha b = pad_sha (rev b)"

definition demo_inquiry :: "string \<Rightarrow> string \<Rightarrow> string \<Rightarrow> lifecycle_state \<Rightarrow> clarification_input" where
  "demo_inquiry d e sig target =
     \<lparr>ci_actor_id = ''alice'', ci_target = Inr target, ci_base_digest = ''b0'', ci_spec_packet = demo_packet,
      ci_manifest = demo_spec_manifest d, ci_approval_envelope = approval_envelope (demo_approval d e zero_digest) sig,
      ci_questions = [\<lparr>q_question_id = ''q1'', q_prompt = ''scope?'', q_allowed_answers = [''src'']\<rparr>],
      ci_answers = [\<lparr>ca_question_id = ''q1'', ca_value = ''src''\<rparr>], ci_observations = []\<rparr>"

lemma demo_questions: "question_refusal (demo_inquiry d e sig target) = None" "\<not> has_observed_only_intent (demo_inquiry d e sig target)"
  by (simp_all add: question_refusal_def has_observed_only_intent_def demo_inquiry_def)

lemma demo_inquiry_ascii:
  assumes "is_digest d" "is_digest e" "list_all is_ascii sig"
  shows "ascii_val (input_as_record (demo_inquiry d e sig target))"
proof -
  have "ascii_val (approval_envelope (demo_approval d e zero_digest) sig)"
    using demo_ascii(7) [OF assms(1,2) zero_digest_ok] assms(3)
    by (simp add: approval_envelope_def APPROVAL_PAYLOAD_TYPE_def is_ascii_def)
      (simp add: demo_approval_def shape_simps encode_def ed_prefix_def is_ascii_def b64encode_ascii)
  then show ?thesis using demo_ascii(1) demo_ascii(4) [OF assms(1)]
    by (cases target) (simp_all add: input_as_record_def demo_inquiry_def answer_as_record_def question_as_record_def str_list_def
        state_text_def is_ascii_def)
qed

lemma demo_inquiry_text:
  "\<exists>pre. dumps (sort_keys (input_as_record (demo_inquiry d e sig target))) = pre @ json_str (state_text target) @ ''}''"
  by (simp add: input_as_record_def demo_inquiry_def list_less_def)

lemma demo_inquiry_digest:
  assumes "is_digest d" "is_digest e" "list_all is_ascii sig"
  shows "\<exists>pre. request_digest tail_sha (demo_inquiry d e sig target) =
    Inr (''sha256:'' @ hex_bytes (tail_sha (pre @ json_str (state_text target) @ ''}'')))"
proof -
  let ?v = "input_as_record (demo_inquiry d e sig target)"
  obtain b where b: "canonical_json_bytes ?v = Inr b"
    using canonical_json_bytes_plain [OF ascii_val_plain [OF demo_inquiry_ascii [OF assms]]] by blast
  then have "b = dumps (sort_keys ?v)" by (auto simp: canonical_json_bytes_Inr canonical_json_def split: if_splits)
  then show ?thesis using demo_inquiry_text [of d e sig target] b by (auto simp: request_digest_def sha256_text_def canonical_sha256_def)
qed

lemma demo_digests_differ:
  "hex_bytes (tail_sha (p @ json_str (state_text SPEC_VALIDATED) @ ''}'')) \<noteq> hex_bytes (tail_sha (q @ json_str (state_text TESTS_MAPPED) @ ''}''))"
  "hex_bytes (tail_sha (p @ json_str (state_text TESTS_MAPPED) @ ''}'')) \<noteq> hex_bytes (tail_sha (q @ json_str (state_text APPROVAL_PENDING) @ ''}''))"
  by (simp_all add: tail_sha_def pad_sha_def state_text_def json_str_def json_escape_def)

lemma demo_sorted_packet:
  "validate_spec_packet demo_registry (sort_keys demo_packet) = Inr (sort_keys demo_packet)"
  "items_of (fld (sort_keys demo_packet) ''non_goals'') \<noteq> []"
  by code_simp+

lemma demo_validated:
  assumes "payload_digest sha demo_registry demo_packet = Inr d"
  shows "validated_specification sha demo_registry (demo_inquiry d' e sig target) = Inr d"
proof -
  obtain b where b: "canonical_payload_bytes demo_registry demo_packet = Inr b"
    using ascii_payload(1) [OF demo_ascii(1,2)] by blast
  then show ?thesis
    using parse_canonical_bytes [OF demo_ascii(1,3) b, of demo_registry] demo_sorted_packet
      payload_digest_sort_keys [OF demo_ascii(1,3)] assms
    by (simp add: validated_specification_def demo_inquiry_def)
qed

lemma manifest_for_packet:
  assumes "validate_generated_artifact_manifest sha reg v None = Inr w" "validate_spec_packet reg a = Inr c"
    and "payload_digest sha reg c = Inr d" "fld v ''a_digest'' = VStr d"
  shows "is_ok (validate_generated_artifact_manifest sha reg v (Some a))"
  using assms by (auto simp: validate_generated_artifact_manifest_def bind_Inr_iff Let_def is_ok_iff)

text \<open>One step of the demonstration, for each stage.\<close>

lemma demo_step:
  assumes "ls_actor_id s = VStr ''alice''" "ls_base_digest s = VStr ''b0''" "transition_table (ls_state s) = Some target"
    and "guard_session sha demo_registry s (demo_inquiry d e sig target) = Inr None"
    and "request_digest sha (demo_inquiry d e sig target) = Inr x" "ls_last_request_digest s \<noteq> VStr x"
    and "validate_stage sha toy_ed demo_registry s (demo_inquiry d e sig target) = Inr (a, b)"
    and "ls_state s = TESTS_MAPPED \<Longrightarrow> assert_abc_chain sha toy_ed demo_registry demo_packet (demo_spec_manifest d)
      (approval_envelope (demo_approval d e zero_digest) sig) [] = Inr ()"
  shows "advance sha toy_ed demo_registry s (demo_inquiry d e sig target) =
    Inr \<lparr>tr_accepted = True,
      tr_session = \<lparr>ls_state = target, ls_actor_id = VStr ''alice'', ls_base_digest = VStr ''b0'', ls_semantic_digest = a,
        ls_last_request_digest = VStr x, ls_manifest_digest = b\<rparr>,
      tr_actor_id = ''alice'', tr_code = None, tr_semantic_digest = a, tr_cause = None\<rparr>"
proof -
  have "guard_request sha demo_registry s (demo_inquiry d e sig target) = Inr (Inr (x, target))"
    unfolding guard_request_Inr using assms(1-6) demo_questions by (simp add: demo_inquiry_def)
  then show ?thesis using assms(1,2,7,8) by (simp add: advance_def) (simp add: demo_inquiry_def)
qed

lemma demo_run:
  obtains r0 d e sig s t where "lifecycle_run tail_sha toy_ed demo_registry r0 s" "ls_state s = TESTS_MAPPED"
    "advance tail_sha toy_ed demo_registry s (demo_inquiry d e sig APPROVAL_PENDING) = Inr t" "tr_accepted t"
    "ls_state (tr_session t) = APPROVAL_PENDING"
proof -
  obtain d e sig where p: "payload_digest tail_sha demo_registry demo_packet = Inr d" "is_digest d"
    "payload_digest tail_sha demo_registry (demo_spec_manifest d) = Inr e" "is_digest e"
    "sign_approval_payload toy_ed demo_registry (demo_approval d e zero_digest) (VStr (encode toy_key)) = Inr sig"
    "assert_abc_chain tail_sha toy_ed demo_registry demo_packet (demo_spec_manifest d)
      (approval_envelope (demo_approval d e zero_digest) sig) [] = Inr ()"
    by (rule demo_chain [OF zero_digest_ok, of tail_sha]) (simp_all add: tail_sha_def length_pad_sha)
  have sig: "list_all is_ascii sig"
  proof -
    obtain y where "sig = encode y" using p(5) by (auto simp: sign_approval_payload_def bind_Inr_iff toy_key_decodes)
    then show ?thesis by (simp add: encode_def ed_prefix_def is_ascii_def b64encode_ascii)
  qed
  let ?r = "demo_inquiry d e sig" and ?x = "\<lambda>pre t. ''sha256:'' @ hex_bytes (tail_sha (pre @ json_str (state_text t) @ ''}''))"
  obtain p1 p2 p3 where x: "request_digest tail_sha (?r SPEC_VALIDATED) = Inr (?x p1 SPEC_VALIDATED)"
    "request_digest tail_sha (?r TESTS_MAPPED) = Inr (?x p2 TESTS_MAPPED)"
    "request_digest tail_sha (?r APPROVAL_PENDING) = Inr (?x p3 APPROVAL_PENDING)"
    using demo_inquiry_digest [OF p(2,4) sig] by metis
  have r: "ci_spec_packet (?r t) = demo_packet" "ci_manifest (?r t) = demo_spec_manifest d"
    "ci_approval_envelope (?r t) = approval_envelope (demo_approval d e zero_digest) sig" for t
    by (simp_all add: demo_inquiry_def)
  let ?draft = "draft (?r SPEC_VALIDATED)"
  let ?s = "\<lambda>st x b. \<lparr>ls_state = st, ls_actor_id = VStr ''alice'', ls_base_digest = VStr ''b0'', ls_semantic_digest = VStr d,
        ls_last_request_digest = VStr x, ls_manifest_digest = b\<rparr>"
  let ?t = "\<lambda>s. \<lparr>tr_accepted = True, tr_session = s, tr_actor_id = ''alice'', tr_code = None, tr_semantic_digest = VStr d, tr_cause = None\<rparr>"
  let ?one = "?s SPEC_VALIDATED (?x p1 SPEC_VALIDATED) VNone" and ?two = "?s TESTS_MAPPED (?x p2 TESTS_MAPPED) (VStr e)"
    and ?three = "?s APPROVAL_PENDING (?x p3 APPROVAL_PENDING) (VStr e)"
  have "advance tail_sha toy_ed demo_registry ?draft (?r SPEC_VALIDATED) = Inr (?t ?one)"
    using x(1) demo_validated [OF p(1)]
    by (intro demo_step) (simp_all add: draft_def demo_inquiry_def guard_session_def validate_stage_def)
  with run_draft have 1: "lifecycle_run tail_sha toy_ed demo_registry (?r SPEC_VALIDATED) ?one" using run_advance by fastforce
  have "is_ok (validate_generated_artifact_manifest tail_sha demo_registry (demo_spec_manifest d) (Some demo_packet))"
    using demo_manifest_valid [OF p(2)] demo_packet_valid p(1)
    by (intro manifest_for_packet) (auto simp: demo_spec_manifest_def shape_simps)
  then have "advance tail_sha toy_ed demo_registry ?one (?r TESTS_MAPPED) = Inr (?t ?two)"
    using x(2) p(1,3) demo_digests_differ(1) [of p1 p2]
    by (intro demo_step) (auto simp: guard_session_def validate_stage_def r is_ok_iff)
  with 1 have 2: "lifecycle_run tail_sha toy_ed demo_registry (?r SPEC_VALIDATED) ?two" using run_advance by fastforce
  have "validate_approval_envelope toy_ed demo_registry (approval_envelope (demo_approval d e zero_digest) sig) [] =
      Inr (approval_envelope (demo_approval d e zero_digest) sig)"
    using signed_approval_validates [OF toy_laws p(5), of "[]"] by simp
  then have "advance tail_sha toy_ed demo_registry ?two (?r APPROVAL_PENDING) = Inr (?t ?three)"
    using x(3) p(1,3,6) demo_digests_differ(2) [of p2 p3]
    by (intro demo_step) (auto simp: guard_session_def validate_stage_def r)
  from that [OF 2 _ this] show thesis by simp
qed

theorem pending_session_has_chain_witness:
  "\<exists>(r0 :: clarification_input) (s :: lifecycle_session). lifecycle_run tail_sha toy_ed demo_registry r0 s \<and>
    ls_state s = APPROVAL_PENDING \<and> validated_as tail_sha demo_registry (ls_semantic_digest s)"
proof -
  obtain r0 d e sig s t where r: "lifecycle_run tail_sha toy_ed demo_registry r0 s"
    "advance tail_sha toy_ed demo_registry s (demo_inquiry d e sig APPROVAL_PENDING) = Inr t"
    "ls_state (tr_session t) = APPROVAL_PENDING"
    by (rule demo_run)
  note run = run_advance [OF r(1,2)]
  show ?thesis using pending_session_has_chain [OF run r(3)] run r(3) by blast
qed

end
