(* ===== verification/Approval.thy ===== *)
theory Approval
  imports Capabilities
begin

text \<open>
  Issuing an approval (\<^verbatim>\<open>src/src/ranex/governed_execution/application/specification_approval.py\<close>): the
  composition of the A/B/C chain, the capability algebra, the role snapshot and the event chain.
  Shown: what an issued approval rests on, when its grant can be used, and that a nonce buys one
  approval.
\<close>

section \<open>Issuing\<close>

record approval_outcome =
  ao_c_digest :: string
  ao_grant :: capability_grant
  ao_approved_event :: spec_event
  ao_implementable_event :: spec_event
  ao_grant_issued_event :: spec_event
  ao_expiry_recorded_event :: spec_event

definition outcome_as_record :: "approval_outcome \<Rightarrow> pyval" where
  "outcome_as_record o' = VDict
     [(''c_digest'', VStr (ao_c_digest o')), (''grant'', grant_as_record (ao_grant o')),
      (''approved_event'', event_as_record (ao_approved_event o')),
      (''implementable_event'', event_as_record (ao_implementable_event o')),
      (''grant_issued_event'', event_as_record (ao_grant_issued_event o')),
      (''expiry_recorded_event'', event_as_record (ao_expiry_recorded_event o'))]"

fun prior_prefix :: "(bytes \<Rightarrow> bytes) \<Rightarrow> registry \<Rightarrow> int \<Rightarrow> string option \<Rightarrow> spec_event list \<Rightarrow> unit result" where
  "prior_prefix sha reg previous_seq previous_digest [] = Inr ()"
| "prior_prefix sha reg previous_seq previous_digest (e # es) =
     ensure (previous_seq < ev_seq e \<and> ev_previous_event_digest e = previous_digest)
       (approval_refusal ''E-APPROVAL-EVENT-CHAIN'' ''prior event prefix is not canonically ordered'') (
     bind (event_digest sha reg e) (\<lambda>d. prior_prefix sha reg (ev_seq e) (Some d) es))"

definition used_nonces :: "spec_event list \<Rightarrow> string list" where
  "used_nonces events =
     map (\<lambda>e. drop (length ''approval:'') (ev_event_id e))
       (filter (\<lambda>e. ev_kind e = ''APPROVED'' \<and> ev_code e = ''OK'' \<and> starts_with ''approval:'' (ev_event_id e)) events)"

text \<open>The checks between the chain and the grant.\<close>

definition check_binding ::
  "(bytes \<Rightarrow> bytes) \<Rightarrow> registry \<Rightarrow> pyval \<Rightarrow> policy_capabilities \<Rightarrow> approval_pending_context \<Rightarrow> int \<Rightarrow> string option \<Rightarrow>
   spec_event list \<Rightarrow> string option \<Rightarrow> unit result" where
  "check_binding sha reg payload policy pending journal_position current_head prior_events prior_event_head =
     bind (capabilities_digest sha reg policy) (\<lambda>policy_digest.
     ensure (fld (fld payload ''profile_digests'') ''policy'' = VStr policy_digest)
       (approval_refusal ''E-APPROVAL-POLICY'' ''policy content digest differs from C'') (
     ensure (fld payload ''a_digest'' = VStr (ap_a_digest pending) \<and>
         fld payload ''subject_digest'' = VStr (ap_subject_digest pending) \<and> fld payload ''principal'' = VStr (ap_actor pending))
       (approval_refusal ''E-APPROVAL-PENDING'' ''approval-pending context does not bind C'') (
     ensure (0 \<le> journal_position) (approval_refusal ''E-APPROVAL-POSITION'' ''journal position is invalid'') (
     ensure ((journal_position = 0) = (current_head = None) \<and> fld payload ''journal_predecessor'' = opt_str current_head)
       (approval_refusal ''E-APPROVAL-PREDECESSOR'' ''C predecessor does not equal observed head/genesis'') (
     ensure (\<forall>e \<in> set prior_events. ev_seq e < journal_position)
       (approval_refusal ''E-APPROVAL-EVENT-CHAIN'' ''prior event prefix is not canonically ordered'') (
     bind (last_digest sha reg prior_events) (\<lambda>actual_prior_head.
     ensure (prior_event_head = actual_prior_head)
       (approval_refusal ''E-APPROVAL-EVENT-CHAIN'' ''supplied prior event head does not bind the prefix'') (
     let not_before = int_of (fld (fld payload ''time_window'') ''not_before'');
         not_after = int_of (fld (fld payload ''time_window'') ''not_after'') in
     ensure (not_before \<le> journal_position \<and> journal_position \<le> not_after)
       (approval_refusal ''E-APPROVAL-WINDOW'' ''journal position is outside C's inclusive window'') (
     ensure (\<not> not_after + 1 \<le> journal_position + 2)
       (approval_refusal ''E-APPROVAL-WINDOW'' ''approval lifecycle cannot fit before expiry'') (
     Inr ()))))))))))"

definition approval_grant :: "pyval \<Rightarrow> policy_capabilities \<Rightarrow> role_assignment list \<Rightarrow> string \<Rightarrow> capability_grant result" where
  "approval_grant payload policy roles c_digest =
     bind (capabilities_from_record (fld payload ''capability_request'')) (\<lambda>request.
     bind (intersect_capabilities [request, policy] False) (\<lambda>capabilities.
     bind (key_for roles ''worker'' c_digest) (\<lambda>worker.
     bind (key_for roles ''evaluator'' c_digest) (\<lambda>evaluator.
     bind (key_for roles ''publisher'' c_digest) (\<lambda>publisher.
     grant_post_init
       \<lparr>cg_grant_id = ''grant:'' @ c_digest, cg_c_digest = c_digest, cg_parent_grant_id = None, cg_capabilities = capabilities,
        cg_worker_key = worker, cg_evaluator_key = evaluator, cg_publisher_key = Some publisher,
        cg_not_before = int_of (fld (fld payload ''time_window'') ''not_before''),
        cg_not_after = int_of (fld (fld payload ''time_window'') ''not_after'')\<rparr>)))))"

definition lifecycle_event ::
  "string \<Rightarrow> string \<Rightarrow> int \<Rightarrow> string option \<Rightarrow> string \<Rightarrow> string \<Rightarrow> pyval \<Rightarrow> string option \<Rightarrow> spec_event result" where
  "lifecycle_event event_id kind seq link c_digest grant_id payload previous =
     event_post_init
       \<lparr>ev_event_id = event_id, ev_kind = kind, ev_seq = seq, ev_journal_head_link = link, ev_c_digest = c_digest,
        ev_grant_id = Some grant_id, ev_parent_grant_id = None, ev_principal_id = str_of (fld payload ''principal''),
        ev_key_id = str_of (fld payload ''key''), ev_previous_event_digest = previous, ev_code = ''OK''\<rparr>"

definition issue_approval ::
  "(bytes \<Rightarrow> bytes) \<Rightarrow> ed25519 \<Rightarrow> registry \<Rightarrow> pyval \<Rightarrow> pyval \<Rightarrow> pyval \<Rightarrow> policy_capabilities \<Rightarrow> approval_pending_context \<Rightarrow>
   role_assignment list \<Rightarrow> int \<Rightarrow> string option \<Rightarrow> spec_event list \<Rightarrow> string option \<Rightarrow> approval_outcome result" where
  "issue_approval sha ed reg spec_packet manifest envelope policy pending roles journal_position current_head prior_events prior_event_head =
     ensure (is_dict envelope \<and> is_dict (fld envelope ''payload'')) (approval_refusal ''E-APPROVAL-SHAPE'' ''approval envelope is absent'') (
     let payload = fld envelope ''payload''; who = str_of (fld payload ''principal''); key = str_of (fld payload ''key'') in
     bind (prior_prefix sha reg (-1) None prior_events) (\<lambda>_.
     bind (assert_abc_chain sha ed reg spec_packet manifest envelope (used_nonces prior_events)) (\<lambda>_.
     bind (payload_digest sha reg payload) (\<lambda>c_digest.
     bind (check_binding sha reg payload policy pending journal_position current_head prior_events prior_event_head) (\<lambda>_.
     bind (require_role roles who key ''approver'' c_digest) (\<lambda>_.
     bind (approval_grant payload policy roles c_digest) (\<lambda>g.
     bind (lifecycle_event (''approval:'' @ str_of (fld payload ''nonce'')) ''APPROVED'' journal_position current_head c_digest
       (cg_grant_id g) payload prior_event_head) (\<lambda>approved.
     bind (event_digest sha reg approved) (\<lambda>approved_digest.
     bind (lifecycle_event (''implementable:'' @ c_digest) ''IMPLEMENTABLE'' (journal_position + 1) (Some approved_digest) c_digest
       (cg_grant_id g) payload (Some approved_digest)) (\<lambda>implementable.
     bind (event_digest sha reg implementable) (\<lambda>implementable_digest.
     bind (grant_issued_event g (journal_position + 2) current_head who key (Some implementable_digest)) (\<lambda>issued.
     bind (event_digest sha reg issued) (\<lambda>issued_digest.
     bind (expiry_recorded_event g current_head who key (Some issued_digest) (Some (cg_not_after g + 1))) (\<lambda>expiry.
     Inr \<lparr>ao_c_digest = c_digest, ao_grant = g, ao_approved_event = approved, ao_implementable_event = implementable,
       ao_grant_issued_event = issued, ao_expiry_recorded_event = expiry\<rparr>))))))))))))))"

section \<open>What an outcome rests on\<close>

lemma approval_grant_Inr:
  assumes "approval_grant payload policy roles c = Inr g"
  obtains request worker evaluator publisher where "capabilities_from_record (fld payload ''capability_request'') = Inr request"
    "intersect_capabilities [request, policy] False = Inr (cg_capabilities g)"
    "key_for roles ''worker'' c = Inr worker" "key_for roles ''evaluator'' c = Inr evaluator"
    "key_for roles ''publisher'' c = Inr publisher"
    "cg_grant_id g = ''grant:'' @ c" "cg_c_digest g = c" "cg_parent_grant_id g = None" "cg_worker_key g = worker"
    "cg_evaluator_key g = evaluator" "cg_publisher_key g = Some publisher"
    "cg_not_before g = int_of (fld (fld payload ''time_window'') ''not_before'')"
    "cg_not_after g = int_of (fld (fld payload ''time_window'') ''not_after'')"
proof -
  obtain request caps worker evaluator publisher where *: "capabilities_from_record (fld payload ''capability_request'') = Inr request"
    "intersect_capabilities [request, policy] False = Inr caps" "key_for roles ''worker'' c = Inr worker"
    "key_for roles ''evaluator'' c = Inr evaluator" "key_for roles ''publisher'' c = Inr publisher"
    and g: "g = \<lparr>cg_grant_id = ''grant:'' @ c, cg_c_digest = c, cg_parent_grant_id = None, cg_capabilities = caps,
        cg_worker_key = worker, cg_evaluator_key = evaluator, cg_publisher_key = Some publisher,
        cg_not_before = int_of (fld (fld payload ''time_window'') ''not_before''),
        cg_not_after = int_of (fld (fld payload ''time_window'') ''not_after'')\<rparr>"
    using assms grant_post_init_Inr unfolding approval_grant_def bind_Inr_iff by blast
  show thesis by (rule that [OF *(1) _ *(3-5)]) (simp_all add: g *(2))
qed

lemma check_binding_Inr:
  "check_binding sha reg payload policy pending pos link prior prior_head = Inr () \<longleftrightarrow>
     (\<exists>pd. capabilities_digest sha reg policy = Inr pd \<and> fld (fld payload ''profile_digests'') ''policy'' = VStr pd) \<and>
     fld payload ''a_digest'' = VStr (ap_a_digest pending) \<and> fld payload ''subject_digest'' = VStr (ap_subject_digest pending) \<and>
     fld payload ''principal'' = VStr (ap_actor pending) \<and> 0 \<le> pos \<and> (pos = 0) = (link = None) \<and>
     fld payload ''journal_predecessor'' = opt_str link \<and> (\<forall>e \<in> set prior. ev_seq e < pos) \<and>
     last_digest sha reg prior = Inr prior_head \<and>
     int_of (fld (fld payload ''time_window'') ''not_before'') \<le> pos \<and>
     pos + 2 \<le> int_of (fld (fld payload ''time_window'') ''not_after'')"
  unfolding check_binding_def Let_def by (auto simp: bind_Inr_iff)

lemma issue_approval_Inr:
  assumes "issue_approval sha ed reg a b env policy pending roles pos link prior prior_head = Inr out"
  defines "payload \<equiv> fld env ''payload''" and "g \<equiv> ao_grant out"
  shows "prior_prefix sha reg (-1) None prior = Inr ()"
    "assert_abc_chain sha ed reg a b env (used_nonces prior) = Inr ()"
    "payload_digest sha reg payload = Inr (ao_c_digest out)"
    "check_binding sha reg payload policy pending pos link prior prior_head = Inr ()"
    "require_role roles (str_of (fld payload ''principal'')) (str_of (fld payload ''key'')) ''approver'' (ao_c_digest out) = Inr ()"
    "approval_grant payload policy roles (ao_c_digest out) = Inr g"
    "lifecycle_event (''approval:'' @ str_of (fld payload ''nonce'')) ''APPROVED'' pos link (ao_c_digest out) (cg_grant_id g) payload
       prior_head = Inr (ao_approved_event out)"
    "\<exists>x. event_digest sha reg (ao_approved_event out) = Inr x \<and>
       lifecycle_event (''implementable:'' @ ao_c_digest out) ''IMPLEMENTABLE'' (pos + 1) (Some x) (ao_c_digest out) (cg_grant_id g)
         payload (Some x) = Inr (ao_implementable_event out)"
    "\<exists>x. event_digest sha reg (ao_implementable_event out) = Inr x \<and>
       grant_issued_event g (pos + 2) link (str_of (fld payload ''principal'')) (str_of (fld payload ''key'')) (Some x) =
         Inr (ao_grant_issued_event out)"
    "\<exists>x. event_digest sha reg (ao_grant_issued_event out) = Inr x \<and>
       expiry_recorded_event g link (str_of (fld payload ''principal'')) (str_of (fld payload ''key'')) (Some x)
         (Some (cg_not_after g + 1)) = Inr (ao_expiry_recorded_event out)"
  using assms(1) unfolding issue_approval_def Let_def ensure_Inr_iff bind_Inr_iff payload_def g_def by auto

lemma approver_assigned:
  assumes "require_role roles who key role c = Inr ()"
  shows "\<exists>a \<in> set roles. ra_role a = role \<and> ra_public_key a = key"
  using assms unfolding require_role_def ensure_Inr_iff by blast

text \<open>
  C18: What an issued approval rests on. The packet, manifest and envelope form a signed A/B/C chain
  whose nonce no earlier approval used; the policy is the one whose digest the approval names; the
  grant carries the digest and the window of the approval and permits a path and an action exactly
  when the approval's request and the policy both do; and approver, worker and evaluator act with
  three different keys, the publisher with another than worker and evaluator.
\<close>

theorem issued_approval_sound:
  assumes "issue_approval sha ed reg a b env policy pending roles pos link prior prior_head = Inr out"
    and "role_assignments assigned = Inr roles"
  shows "assert_abc_chain sha ed reg a b env (used_nonces prior) = Inr () \<and>
    payload_digest sha reg (fld env ''payload'') = Inr (cg_c_digest (ao_grant out)) \<and>
    (\<exists>d. capabilities_digest sha reg policy = Inr d \<and> fld (fld (fld env ''payload'') ''profile_digests'') ''policy'' = VStr d) \<and>
    cg_not_before (ao_grant out) = int_of (fld (fld (fld env ''payload'') ''time_window'') ''not_before'') \<and>
    cg_not_after (ao_grant out) = int_of (fld (fld (fld env ''payload'') ''time_window'') ''not_after'') \<and>
    (\<exists>request. capabilities_from_record (fld (fld env ''payload'') ''capability_request'') = Inr (request :: policy_capabilities) \<and>
       (permits (cg_capabilities (ao_grant out)) path action \<longleftrightarrow> permits request path action \<and> permits policy path action)) \<and>
    distinct [str_of (fld (fld env ''payload'') ''key''), cg_worker_key (ao_grant out), cg_evaluator_key (ao_grant out)] \<and>
    the (cg_publisher_key (ao_grant out)) \<notin> {cg_worker_key (ao_grant out), cg_evaluator_key (ao_grant out)}"
proof -
  note i = issue_approval_Inr [OF assms(1)]
  obtain request worker evaluator publisher where g: "capabilities_from_record (fld (fld env ''payload'') ''capability_request'') = Inr request"
    "intersect_capabilities [request, policy] False = Inr (cg_capabilities (ao_grant out))"
    "key_for roles ''worker'' (ao_c_digest out) = Inr worker" "key_for roles ''evaluator'' (ao_c_digest out) = Inr evaluator"
    "key_for roles ''publisher'' (ao_c_digest out) = Inr publisher" "cg_c_digest (ao_grant out) = ao_c_digest out"
    "cg_worker_key (ao_grant out) = worker" "cg_evaluator_key (ao_grant out) = evaluator" "cg_publisher_key (ao_grant out) = Some publisher"
    "cg_not_before (ao_grant out) = int_of (fld (fld (fld env ''payload'') ''time_window'') ''not_before'')"
    "cg_not_after (ao_grant out) = int_of (fld (fld (fld env ''payload'') ''time_window'') ''not_after'')"
    by (rule approval_grant_Inr [OF i(6)])
  have differ: "k \<noteq> l" if "\<exists>a \<in> set roles. ra_role a = r \<and> ra_public_key a = k" "\<exists>b \<in> set roles. ra_role b = r' \<and> ra_public_key b = l"
    "incompatible r r'" for k l r r'
    using that(1,2)
  proof (elim bexE conjE)
    fix x y
    assume "x \<in> set roles" "y \<in> set roles" "ra_role x = r" "ra_role y = r'" "ra_public_key x = k" "ra_public_key y = l"
    then show ?thesis using incompatible_keys_differ [OF assms(2), of x y] that(3) by simp
  qed
  have inc: "incompatible ''approver'' ''worker''" "incompatible ''approver'' ''evaluator''" "incompatible ''worker'' ''evaluator''"
    "incompatible ''worker'' ''publisher''" "incompatible ''evaluator'' ''publisher''"
    by code_simp+
  note keys = approver_assigned [OF i(5)] key_for_member [OF g(3)] key_for_member [OF g(4)] key_for_member [OF g(5)]
  have k: "distinct [str_of (fld (fld env ''payload'') ''key''), worker, evaluator]" "publisher \<notin> {worker, evaluator}"
    using differ [OF keys(1,2) inc(1)] differ [OF keys(1,3) inc(2)] differ [OF keys(2,3) inc(3)] differ [OF keys(2,4) inc(4)]
      differ [OF keys(3,4) inc(5)] by auto
  show ?thesis
    using i(2,3) i(4) [unfolded check_binding_Inr] g(1) k intersection_common [OF g(2), of path action] unfolding g(6-11) by auto
qed

text \<open>
  C19: A nonce buys one approval: once its approved event is in the history that a later issuance
  reads, no approval with the same nonce is issued again.
\<close>

theorem approval_nonce_single_use:
  assumes "issue_approval sha ed reg a b env policy pending roles pos link prior prior_head = Inr out"
    and "ao_approved_event out \<in> set prior'"
    and "fld (fld env' ''payload'') ''nonce'' = fld (fld env ''payload'') ''nonce''"
  shows "\<not> is_ok (issue_approval sha' ed' reg' a' b' env' policy' pending' roles' pos' link' prior' prior_head')"
proof -
  have "ao_approved_event out =
      \<lparr>ev_event_id = ''approval:'' @ str_of (fld (fld env ''payload'') ''nonce''), ev_kind = ''APPROVED'', ev_seq = pos,
       ev_journal_head_link = link, ev_c_digest = ao_c_digest out, ev_grant_id = Some (cg_grant_id (ao_grant out)),
       ev_parent_grant_id = None, ev_principal_id = str_of (fld (fld env ''payload'') ''principal''),
       ev_key_id = str_of (fld (fld env ''payload'') ''key''), ev_previous_event_digest = prior_head, ev_code = ''OK''\<rparr>"
    using issue_approval_Inr(7) [OF assms(1)] event_post_init_Inr unfolding lifecycle_event_def by blast
  then have "str_of (fld (fld env ''payload'') ''nonce'') \<in> set (used_nonces prior')"
    using assms(2) by (force simp: used_nonces_def image_iff)
  moreover have "str_of (fld (fld env' ''payload'') ''nonce'') \<notin> set (used_nonces prior')"
    if "issue_approval sha' ed' reg' a' b' env' policy' pending' roles' pos' link' prior' prior_head' = Inr out'" for out'
    using issue_approval_Inr(2) [OF that] unfolding abc_chain_Inr validate_approval_envelope_Inr by blast
  ultimately show ?thesis using assms(3) by (auto simp: is_ok_iff)
qed

section \<open>When the grant can be used\<close>

lemma checked_of_prior:
  "prior_prefix sha reg n h es = Inr () \<Longrightarrow> \<forall>e \<in> set es. ev_seq e < pos \<Longrightarrow> checked_prefix sha reg pos n h es = Inr ()"
  by (induction sha reg n h es rule: prior_prefix.induct) (auto simp: bind_Inr_iff)

lemma checked_prefix_append:
  "checked_prefix sha reg pos n h (es @ fs) = Inr () \<longleftrightarrow>
     checked_prefix sha reg pos n h es = Inr () \<and>
     (if es = [] then checked_prefix sha reg pos n h fs = Inr ()
      else \<exists>d. event_digest sha reg (last es) = Inr d \<and> checked_prefix sha reg pos (ev_seq (last es)) (Some d) fs = Inr ())"
proof (induction sha reg pos n h es rule: checked_prefix.induct)
  case (2 sha reg pos n h e es)
  then show ?case by (cases es) (auto simp: bind_Inr_iff)
qed simp

lemma issuances_append: "issuances (es @ fs) acc = bind (issuances es acc) (issuances fs)"
proof (induction es acc rule: issuances.induct)
  case (2 e es acc)
  then show ?case by (auto simp: ensure_def)
qed simp

lemma approval_events:
  assumes "issue_approval sha ed reg a b env policy pending roles pos link prior prior_head = Inr out"
  defines "es \<equiv> [ao_approved_event out, ao_implementable_event out, ao_grant_issued_event out]"
  shows "map ev_kind es = [''APPROVED'', ''IMPLEMENTABLE'', ''GRANT_ISSUED'']" "map ev_seq es = [pos, pos + 1, pos + 2]"
    "ev_previous_event_digest (es ! 0) = prior_head"
    "\<exists>x. event_digest sha reg (es ! 0) = Inr x \<and> ev_previous_event_digest (es ! 1) = Some x"
    "\<exists>x. event_digest sha reg (es ! 1) = Inr x \<and> ev_previous_event_digest (es ! 2) = Some x"
    "\<exists>x. event_digest sha reg (es ! 2) = Inr x"
    "ev_grant_id (ao_grant_issued_event out) = Some (''grant:'' @ ao_c_digest out)" "ev_c_digest (ao_grant_issued_event out) = ao_c_digest out"
    "ev_parent_grant_id (ao_grant_issued_event out) = None"
proof -
  note i = issue_approval_Inr [OF assms(1)]
  have g: "cg_grant_id (ao_grant out) = ''grant:'' @ ao_c_digest out" "cg_c_digest (ao_grant out) = ao_c_digest out"
    "cg_parent_grant_id (ao_grant out) = None"
    by (rule approval_grant_Inr [OF i(6)], assumption)+
  note e = i(7-10) [unfolded lifecycle_event_def grant_issued_event_def grant_event_def]
  show "map ev_kind es = [''APPROVED'', ''IMPLEMENTABLE'', ''GRANT_ISSUED'']" "map ev_seq es = [pos, pos + 1, pos + 2]"
    "ev_previous_event_digest (es ! 0) = prior_head"
    "\<exists>x. event_digest sha reg (es ! 0) = Inr x \<and> ev_previous_event_digest (es ! 1) = Some x"
    "\<exists>x. event_digest sha reg (es ! 1) = Inr x \<and> ev_previous_event_digest (es ! 2) = Some x"
    "\<exists>x. event_digest sha reg (es ! 2) = Inr x"
    "ev_grant_id (ao_grant_issued_event out) = Some (''grant:'' @ ao_c_digest out)" "ev_c_digest (ao_grant_issued_event out) = ao_c_digest out"
    "ev_parent_grant_id (ao_grant_issued_event out) = None"
    using e g unfolding es_def by (auto dest!: event_post_init_Inr)
qed

lemma approval_prefix_checked:
  assumes "issue_approval sha ed reg a b env policy pending roles pos link prior prior_head = Inr out"
  defines "es \<equiv> [ao_approved_event out, ao_implementable_event out, ao_grant_issued_event out]"
  shows "checked_prefix sha reg q (-1) None (prior @ es) = Inr () \<longleftrightarrow> pos + 3 \<le> q"
proof -
  note i = issue_approval_Inr [OF assms(1)] and e = approval_events [OF assms(1)]
  have b: "0 \<le> pos" "\<forall>e \<in> set prior. ev_seq e < pos" "last_digest sha reg prior = Inr prior_head"
    using i(4) unfolding check_binding_Inr by blast+
  have es: "checked_prefix sha reg q n prior_head es = Inr () \<longleftrightarrow> pos + 3 \<le> q" if "n < pos" for n
    using e that unfolding es_def by (auto simp: bind_Inr_iff)
  show ?thesis
  proof (cases "prior = []")
    case True
    then show ?thesis using es [of "-1"] b(1,3) by (simp add: last_digest_def)
  next
    case False
    then obtain d where d: "event_digest sha reg (last prior) = Inr d" "prior_head = Some d"
      using b(3) by (auto simp: last_digest_def bind_Inr_iff)
    have "ev_seq (last prior) < pos" using b(2) False by simp
    moreover have "pos + 3 \<le> q \<Longrightarrow> checked_prefix sha reg q (-1) None prior = Inr ()"
      using b(2) by (intro checked_of_prior [OF i(1)]) auto
    ultimately show ?thesis using es d False unfolding checked_prefix_append by auto
  qed
qed

text \<open>
  C20: When a fresh grant can be used. After the approval's three events are appended to a history
  that does not mention it, a use is valid at exactly the positions from three past the issuance
  to the end of the window: before, its own events do not precede the position; after, it has
  expired.
\<close>

theorem fresh_grant_usable:
  assumes "issue_approval sha ed reg a b env policy pending roles pos link prior prior_head = Inr out"
    and "is_ok (issuances prior [])"
    and "\<forall>e \<in> set prior. ev_c_digest e \<noteq> ao_c_digest out \<and> ev_grant_id e \<noteq> Some (cg_grant_id (ao_grant out))"
  shows "(\<exists>f. evaluate_use sha reg (prior @ [ao_approved_event out, ao_implementable_event out, ao_grant_issued_event out])
        (ao_grant out) q = Inr f \<and> uf_valid f) \<longleftrightarrow> pos + 3 \<le> q \<and> q \<le> cg_not_after (ao_grant out)"
proof -
  let ?es = "prior @ [ao_approved_event out, ao_implementable_event out, ao_grant_issued_event out]" and ?g = "ao_grant out"
  note i = issue_approval_Inr [OF assms(1)] and e = approval_events [OF assms(1)]
  have g: "cg_grant_id ?g = ''grant:'' @ ao_c_digest out" "cg_c_digest ?g = ao_c_digest out" "cg_parent_grant_id ?g = None"
    "cg_not_before ?g = int_of (fld (fld (fld env ''payload'') ''time_window'') ''not_before'')"
    by (rule approval_grant_Inr [OF i(6)], assumption)+
  have pos: "0 \<le> pos" "cg_not_before ?g \<le> pos" using i(4) g(4) unfolding check_binding_Inr by simp_all
  obtain old where old: "issuances prior [] = Inr old" using assms(2) by (auto simp: is_ok_iff)
  have fresh: "cg_grant_id ?g \<notin> fst ` set old" using issuances_Inr [OF old] assms(3) by (force simp: is_issuance_def)
  have issued: "issuances ?es [] = Inr (old @ [(cg_grant_id ?g, ao_grant_issued_event out)])"
    using e(1,7) fresh old g(1) by (simp add: issuances_append is_issuance_def)
  have "map_of (old @ [(cg_grant_id ?g, ao_grant_issued_event out)]) (cg_grant_id ?g) = Some (ao_grant_issued_event out)"
    using fresh by (force simp: map_add_def split: option.splits dest: map_of_SomeD)
  then have chain: "check_ancestry (old @ [(cg_grant_id ?g, ao_grant_issued_event out)]) (cg_c_digest ?g) (cg_grant_id ?g)
      (cg_parent_grant_id ?g) [] = Inr ()"
    using g e(8,9) by (simp add: check_ancestry.simps)
  have "\<not> (\<exists>e \<in> set ?es. revokes [cg_grant_id ?g] (cg_c_digest ?g) e)"
    using assms(3) e(1) g(2) by (auto simp: revokes_def)
  moreover have "ancestors (parent_by_grant ?es) (cg_parent_grant_id ?g) [cg_grant_id ?g] = [cg_grant_id ?g]"
    using g(3) by (simp add: ancestors.simps)
  moreover obtain x where "last_digest sha reg ?es = Inr (Some x)" using e(6) by (auto simp: last_digest_def)
  ultimately have "evaluate_use sha reg ?es ?g q =
      ensure (0 \<le> q) (approval_refusal ''E-APPROVAL-EVENT'' ''use position is invalid'') (
      bind (checked_prefix sha reg q (-1) None ?es) (\<lambda>_.
      Inr \<lparr>uf_grant_id = cg_grant_id ?g, uf_valid = (cg_not_before ?g \<le> q \<and> q \<le> cg_not_after ?g),
        uf_code = (if cg_not_before ?g \<le> q \<and> q \<le> cg_not_after ?g then ''OK'' else ''E-APPROVAL-WINDOW''),
        uf_observed_event_head = Some x, uf_observed_position = q\<rparr>))"
    using issued chain by (cases "cg_not_before ?g \<le> q \<and> q \<le> cg_not_after ?g") (auto simp: evaluate_use_def Let_def)
  then show ?thesis using approval_prefix_checked [OF assms(1), of q] pos by (auto simp: bind_Inr_iff)
qed

section \<open>Witnesses\<close>

definition demo_policy :: policy_capabilities where
  "demo_policy = \<lparr>pc_executable = ''pytest'', pc_argv = [], pc_cwd = ''.'', pc_roots = [''src''], pc_actions = [''write''],
     pc_environment_allow = [], pc_network_allow = False, pc_network_hosts = [], pc_secret_allow = False, pc_secret_names = [],
     pc_commit_allow = False, pc_subagent_allow = False, pc_subagent_max_children = 0\<rparr>"

definition demo_duties :: "string \<Rightarrow> role_assignment list" where
  "demo_duties c = map (\<lambda>(i, who, key, role). \<lparr>ra_assignment_id = i, ra_principal_id = who, ra_public_key = key, ra_role = role,
       ra_scope_c_digest = c\<rparr>)
     [(''r1'', ''alice'', encode toy_key, ''approver''), (''r2'', ''bob'', ''w'', ''worker''), (''r3'', ''eve'', ''e'', ''evaluator''),
      (''r4'', ''pat'', ''p'', ''publisher'')]"

lemma demo_policy_request:
  "capabilities_from_record demo_request = Inr demo_policy" "intersect_capabilities [demo_policy, demo_policy] False = Inr demo_policy"
  by code_simp+

lemma demo_duties_ok:
  assumes "c \<noteq> []"
  shows "role_assignments (demo_duties c) = Inr (demo_duties c)" "require_role (demo_duties c) ''alice'' (encode toy_key) ''approver'' c = Inr ()"
    "key_for (demo_duties c) ''worker'' c = Inr ''w''" "key_for (demo_duties c) ''evaluator'' c = Inr ''e''"
    "key_for (demo_duties c) ''publisher'' c = Inr ''p''"
  using assms
  by (simp_all add: role_assignments_def demo_duties_def role_assignment_as_record_def is_text_def shape_simps ROLES_def encode_def
      ed_prefix_def require_role_def key_for_def sorted_set_def)

lemma payload_digest_is_digest: "payload_digest pad_sha reg v = Inr d \<Longrightarrow> is_digest d"
  by (auto simp: payload_digest_def bind_Inr_iff is_digest_def is_hex64_def hex_bytes_lower length_pad_sha)

lemma ascii_event_digest:
  assumes "list_all (list_all is_ascii) ([ev_event_id e, ev_kind e, ev_c_digest e, ev_principal_id e, ev_key_id e, ev_code e] @
      map (\<lambda>o'. case o' of None \<Rightarrow> [] | Some t \<Rightarrow> t) [ev_journal_head_link e, ev_grant_id e, ev_parent_grant_id e, ev_previous_event_digest e])"
    and "\<bar>ev_seq e\<bar> \<le> MAX_SAFE_INTEGER"
  shows "\<exists>d. event_digest sha reg e = Inr d"
  unfolding event_digest_def
  by (rule ascii_payload(3)) (use assms in \<open>auto simp: event_as_record_def opt_str_def is_ascii_def split: option.splits\<close>)

lemma demo_grant_issued:
  assumes "c \<noteq> []"
  shows "approval_grant (demo_approval d e p) demo_policy (demo_duties c) c =
    Inr \<lparr>cg_grant_id = ''grant:'' @ c, cg_c_digest = c, cg_parent_grant_id = None, cg_capabilities = demo_policy, cg_worker_key = ''w'',
      cg_evaluator_key = ''e'', cg_publisher_key = Some ''p'', cg_not_before = 0, cg_not_after = 9\<rparr>"
proof -
  have f: "fld (demo_approval d e p) ''capability_request'' = demo_request"
    "fld (demo_approval d e p) ''time_window'' = VDict [(''not_before'', VInt 0), (''not_after'', VInt 9)]"
    by (simp_all add: demo_approval_def shape_simps)
  show ?thesis
    using assms by (simp add: approval_grant_def f demo_policy_request demo_duties_ok grant_post_init_def ap_string_def is_text_def shape_simps)
qed

definition demo_event :: "string \<Rightarrow> string \<Rightarrow> string \<Rightarrow> int \<Rightarrow> string option \<Rightarrow> string option \<Rightarrow> spec_event" where
  "demo_event c i k n l h = \<lparr>ev_event_id = i, ev_kind = k, ev_seq = n, ev_journal_head_link = l, ev_c_digest = c,
      ev_grant_id = Some (''grant:'' @ c), ev_parent_grant_id = None, ev_principal_id = ''alice'', ev_key_id = encode toy_key,
      ev_previous_event_digest = h, ev_code = ''OK''\<rparr>"

lemma demo_event_digest:
  assumes "is_digest c" "list_all is_ascii i" "list_all is_ascii k" "0 \<le> n" "n \<le> 9"
    and "\<And>t. l = Some t \<Longrightarrow> list_all is_ascii t" "\<And>t. h = Some t \<Longrightarrow> list_all is_ascii t"
  shows "\<exists>y. event_digest pad_sha demo_registry (demo_event c i k n l h) = Inr y \<and> list_all is_ascii y"
proof -
  have "list_all is_ascii c" "list_all is_ascii (encode toy_key)"
    using digest_ascii [OF assms(1)] by (simp_all add: encode_def ed_prefix_def is_ascii_def b64encode_ascii)
  then have "\<exists>y. event_digest pad_sha demo_registry (demo_event c i k n l h) = Inr y"
    using assms by (intro ascii_event_digest) (auto simp: demo_event_def is_ascii_def MAX_SAFE_INTEGER_def split: option.splits)
  then show ?thesis using event_digest_ascii by blast
qed

lemma demo_event_chain:
  assumes "is_digest c"
  obtains x y z where "event_digest pad_sha demo_registry (demo_event c ''approval:n1'' ''APPROVED'' 0 None None) = Inr x"
    "event_digest pad_sha demo_registry (demo_event c (''implementable:'' @ c) ''IMPLEMENTABLE'' 1 (Some x) (Some x)) = Inr y"
    "event_digest pad_sha demo_registry (demo_event c (''grant-issued:grant:'' @ c) ''GRANT_ISSUED'' 2 None (Some y)) = Inr z"
proof -
  have c: "list_all is_ascii c" using digest_ascii [OF assms] .
  obtain x where x: "event_digest pad_sha demo_registry (demo_event c ''approval:n1'' ''APPROVED'' 0 None None) = Inr x" "list_all is_ascii x"
    using demo_event_digest [OF assms, of "''approval:n1''" "''APPROVED''" 0 None None] by (auto simp: is_ascii_def)
  obtain y where y: "event_digest pad_sha demo_registry (demo_event c (''implementable:'' @ c) ''IMPLEMENTABLE'' 1 (Some x) (Some x)) = Inr y"
    "list_all is_ascii y"
    using demo_event_digest [OF assms, of "''implementable:'' @ c" "''IMPLEMENTABLE''" 1 "Some x" "Some x"] x(2) c by (auto simp: is_ascii_def)
  obtain z where "event_digest pad_sha demo_registry (demo_event c (''grant-issued:grant:'' @ c) ''GRANT_ISSUED'' 2 None (Some y)) = Inr z"
    using demo_event_digest [OF assms, of "''grant-issued:grant:'' @ c" "''GRANT_ISSUED''" 2 None "Some y"] y(2) c by (auto simp: is_ascii_def)
  then show thesis by (rule that [OF x(1) y(1)])
qed

text \<open>The policy whose digest the approval names, and the chain of the documents.\<close>

lemma demo_documents:
  obtains d e p sig c where "capabilities_digest pad_sha demo_registry demo_policy = Inr p"
    "assert_abc_chain pad_sha toy_ed demo_registry demo_packet (demo_spec_manifest d) (approval_envelope (demo_approval d e p) sig) [] = Inr ()"
    "payload_digest pad_sha demo_registry (demo_approval d e p) = Inr c" "is_digest c"
proof -
  have "ascii_val (capabilities_as_record demo_policy)" "safe_integers (capabilities_as_record demo_policy)"
    by (simp_all add: capabilities_as_record_def demo_policy_def str_list_def CAPABILITY_VERSION_def is_ascii_def MAX_SAFE_INTEGER_def)
  then obtain p where p: "capabilities_digest pad_sha demo_registry demo_policy = Inr p"
    unfolding capabilities_digest_def using ascii_payload(3) by blast
  then have "is_digest p" unfolding capabilities_digest_def by (rule payload_digest_is_digest)
  then obtain d e sig where c: "is_digest d" "is_digest e"
    "assert_abc_chain pad_sha toy_ed demo_registry demo_packet (demo_spec_manifest d)
      (approval_envelope (demo_approval d e p) sig) [] = Inr ()"
    by (rule demo_chain [OF _ length_pad_sha])
  show thesis
    using ascii_payload(3) [OF demo_ascii(7) [OF c(1,2) \<open>is_digest p\<close>] demo_ascii(8)] payload_digest_is_digest that [OF p c(3)] by blast
qed

lemma demo_outcome:
  obtains d e p sig out where "issue_approval pad_sha toy_ed demo_registry demo_packet (demo_spec_manifest d)
      (approval_envelope (demo_approval d e p) sig) demo_policy \<lparr>ap_a_digest = d, ap_subject_digest = d, ap_actor = ''alice''\<rparr>
      (demo_duties (ao_c_digest out)) 0 None [] None = Inr out"
    "ao_c_digest out \<noteq> []" "cg_not_after (ao_grant out) = 9"
proof -
  obtain d e p sig c where c: "capabilities_digest pad_sha demo_registry demo_policy = Inr p"
    "assert_abc_chain pad_sha toy_ed demo_registry demo_packet (demo_spec_manifest d) (approval_envelope (demo_approval d e p) sig) [] = Inr ()"
    "payload_digest pad_sha demo_registry (demo_approval d e p) = Inr c" "is_digest c"
    by (rule demo_documents)
  obtain x y z where ev: "event_digest pad_sha demo_registry (demo_event c ''approval:n1'' ''APPROVED'' 0 None None) = Inr x"
    "event_digest pad_sha demo_registry (demo_event c (''implementable:'' @ c) ''IMPLEMENTABLE'' 1 (Some x) (Some x)) = Inr y"
    "event_digest pad_sha demo_registry (demo_event c (''grant-issued:grant:'' @ c) ''GRANT_ISSUED'' 2 None (Some y)) = Inr z"
    by (rule demo_event_chain [OF c(4)])
  let ?payload = "demo_approval d e p"
  have f: "fld ?payload ''principal'' = VStr ''alice''" "fld ?payload ''key'' = VStr (encode toy_key)" "fld ?payload ''nonce'' = VStr ''n1''"
    "is_dict ?payload" "is_dict (approval_envelope ?payload sig)"
    by (simp_all add: demo_approval_def approval_envelope_def shape_simps)
  have "check_binding pad_sha demo_registry ?payload demo_policy \<lparr>ap_a_digest = d, ap_subject_digest = d, ap_actor = ''alice''\<rparr>
      0 None [] None = Inr ()"
    unfolding check_binding_Inr using c(1) by (simp add: demo_approval_def shape_simps opt_str_def last_digest_def)
  moreover have ne: "c \<noteq> []" "encode toy_key \<noteq> []" using c(4) by (auto simp: is_digest_def encode_def ed_prefix_def)
  ultimately have "\<exists>out. issue_approval pad_sha toy_ed demo_registry demo_packet (demo_spec_manifest d)
      (approval_envelope ?payload sig) demo_policy \<lparr>ap_a_digest = d, ap_subject_digest = d, ap_actor = ''alice''\<rparr>
      (demo_duties c) 0 None [] None = Inr out \<and> ao_c_digest out = c \<and> cg_not_after (ao_grant out) = 9"
    using c(2,3) demo_duties_ok(2) [OF ne(1)] demo_grant_issued [OF ne(1), of d e p] ev [unfolded demo_event_def] f
    by (simp add: issue_approval_def Let_def used_nonces_def lifecycle_event_def grant_issued_event_def expiry_recorded_event_def grant_event_def
        event_post_init_def EVENT_KINDS_def)
  with that ne(1) show thesis by blast
qed

theorem issued_approval_sound_witness:
  "\<exists>env policy roles (out :: approval_outcome). role_assignments roles = Inr roles \<and>
    (\<exists>a b pending. issue_approval pad_sha toy_ed demo_registry a b env policy pending roles 0 None [] None = Inr out) \<and>
    cg_worker_key (ao_grant out) \<noteq> cg_evaluator_key (ao_grant out)"
proof -
  obtain d e p sig out where o: "issue_approval pad_sha toy_ed demo_registry demo_packet (demo_spec_manifest d)
      (approval_envelope (demo_approval d e p) sig) demo_policy \<lparr>ap_a_digest = d, ap_subject_digest = d, ap_actor = ''alice''\<rparr>
      (demo_duties (ao_c_digest out)) 0 None [] None = Inr out" "ao_c_digest out \<noteq> []"
    by (rule demo_outcome)
  from issued_approval_sound [OF o(1) demo_duties_ok(1) [OF o(2)]] o(1) demo_duties_ok(1) [OF o(2)] show ?thesis by fastforce
qed

theorem fresh_grant_usable_witness:
  "\<exists>(out :: approval_outcome) f. evaluate_use pad_sha demo_registry
      [ao_approved_event out, ao_implementable_event out, ao_grant_issued_event out] (ao_grant out) 3 = Inr f \<and> uf_valid f"
proof -
  obtain d e p sig out where o: "issue_approval pad_sha toy_ed demo_registry demo_packet (demo_spec_manifest d)
      (approval_envelope (demo_approval d e p) sig) demo_policy \<lparr>ap_a_digest = d, ap_subject_digest = d, ap_actor = ''alice''\<rparr>
      (demo_duties (ao_c_digest out)) 0 None [] None = Inr out" "cg_not_after (ao_grant out) = 9"
    by (rule demo_outcome)
  show ?thesis using fresh_grant_usable [OF o(1), of 3] o(2) by auto
qed

theorem approval_nonce_single_use_witness:
  "\<exists>a b env roles pending (out :: approval_outcome).
    issue_approval pad_sha toy_ed demo_registry a b env demo_policy pending roles 0 None [] None = Inr out \<and>
    \<not> is_ok (issue_approval pad_sha toy_ed demo_registry a b env demo_policy pending roles 1 None [ao_approved_event out] None)"
proof -
  obtain d e p sig out where o: "issue_approval pad_sha toy_ed demo_registry demo_packet (demo_spec_manifest d)
      (approval_envelope (demo_approval d e p) sig) demo_policy \<lparr>ap_a_digest = d, ap_subject_digest = d, ap_actor = ''alice''\<rparr>
      (demo_duties (ao_c_digest out)) 0 None [] None = Inr out"
    by (rule demo_outcome)
  have "ao_approved_event out \<in> set [ao_approved_event out]" by simp
  from approval_nonce_single_use [OF o this refl] o show ?thesis by blast
qed

end
