(* ===== verification/Verdict_Record.thy ===== *)
theory Verdict_Record
  imports Admission Observations
begin

text \<open>
  The verdict as it is published: which values may cross the wire
  (\<^verbatim>\<open>src/src/ranex/foundation/publication_validation.py\<close>), the versioned signature over the closed
  record (\<^verbatim>\<open>src/src/ranex/foundation/verdict_signing.py\<close>), the projection of evaluation and admission
  to that record (\<^verbatim>\<open>src/src/ranex/governed_execution/verdict_projection.py\<close>), its publication
  (\<^verbatim>\<open>verdict_publication.py\<close>) and its plain-text form (\<^verbatim>\<open>verdict_presentation.py\<close>). Shown: one
  signature is a signature under one version of one record; a projection names every missing claim
  exactly once, under the cause that applies; it raises when a claim was both removed and
  refused; and the sentence for honest absence is spent on no claim a record was presented for.
\<close>

section \<open>Values that may be published\<close>

definition SAFE :: int where
  "SAFE = 2 ^ 53 - 1"

text \<open>\<open>ord(char) > 0xFFFF\<close>: a code point whose UTF-8 form starts with a byte from 0xF0 on.\<close>

definition non_bmp :: "string \<Rightarrow> bool" where
  "non_bmp s \<longleftrightarrow> list_ex (\<lambda>c. 240 \<le> (of_char c :: nat)) s"

function (sequential) validate_publication_value :: "pyval \<Rightarrow> unit result"
  and validate_publication_list :: "pyval list \<Rightarrow> unit result"
  and validate_publication_items :: "(string \<times> pyval) list \<Rightarrow> unit result"
where
  "validate_publication_value (VFloat t) = Inl (ValueError ''floats cannot be published'')"
| "validate_publication_value (VInt i) =
     ensure (- SAFE \<le> i \<and> i \<le> SAFE) (ValueError ''integer is outside the TypeScript safe range'') (Inr ())"
| "validate_publication_value (VStr s) =
     ensure (\<not> non_bmp s) (ValueError ''non-BMP Unicode cannot be published'') (Inr ())"
| "validate_publication_value (VDict d) = validate_publication_items d"
| "validate_publication_value (VList xs) = validate_publication_list xs"
| "validate_publication_value v = Inr ()"
| "validate_publication_list [] = Inr ()"
| "validate_publication_list (x # xs) = bind (validate_publication_value x) (\<lambda>_. validate_publication_list xs)"
| "validate_publication_items [] = Inr ()"
| "validate_publication_items ((k, v) # d) =
     bind (ensure (\<not> non_bmp k) (ValueError ''non-BMP Unicode cannot be published'') (Inr ())) (\<lambda>_.
     bind (validate_publication_value v) (\<lambda>_. validate_publication_items d))"
  by pat_completeness auto
termination
  by (relation "measure (\<lambda>a. case a of Inl v \<Rightarrow> size v | Inr (Inl xs) \<Rightarrow> size_list size xs
        | Inr (Inr d) \<Rightarrow> size_list (size_prod (\<lambda>_. 0) size) d)") auto

section \<open>The signature over a verdict\<close>

definition VERDICT_DOMAIN_V1 :: bytes where
  "VERDICT_DOMAIN_V1 = ''ranex-verdict-v1'' @ [CHR 0x0A]"

definition VERDICT_DOMAIN_V2 :: bytes where
  "VERDICT_DOMAIN_V2 = ''ranex-verdict-v2'' @ [CHR 0x0A]"

definition VERDICT_DOMAIN :: bytes where
  "VERDICT_DOMAIN = ''ranex-verdict-v3'' @ [CHR 0x0A]"

definition VERDICT_TYPE_V1 :: string where
  "VERDICT_TYPE_V1 = ''application/vnd.ranex.verdict.v1+json''"

definition VERDICT_TYPE_V2 :: string where
  "VERDICT_TYPE_V2 = ''application/vnd.ranex.verdict.v2+json''"

definition VERDICT_TYPE :: string where
  "VERDICT_TYPE = ''application/vnd.ranex.verdict.v3+json''"

definition VERDICT_FIELDS_V1 :: "string list" where
  "VERDICT_FIELDS_V1 =
     [''verdict'', ''gate_id'', ''subject_digest'', ''subject_lane'', ''catalog_digest'', ''approver_id'', ''failing_rule'',
      ''missing_claims'', ''considered'', ''causes'', ''rejections'', ''self_approval'', ''reason'']"

definition VERDICT_FIELDS_V2 :: "string list" where
  "VERDICT_FIELDS_V2 = VERDICT_FIELDS_V1 @ [''journal_head'']"

definition VERDICT_FIELDS :: "string list" where
  "VERDICT_FIELDS = VERDICT_FIELDS_V2 @ [''observation_checkpoint'', ''history_verified'']"

definition VERSIONS :: "(string \<times> (bytes \<times> string list)) list" where
  "VERSIONS =
     [(VERDICT_TYPE, (VERDICT_DOMAIN, VERDICT_FIELDS)), (VERDICT_TYPE_V1, (VERDICT_DOMAIN_V1, VERDICT_FIELDS_V1)),
      (VERDICT_TYPE_V2, (VERDICT_DOMAIN_V2, VERDICT_FIELDS_V2))]"

definition signed_fields_for :: "pyval \<Rightarrow> string list result" where
  "signed_fields_for payload_type =
     (case (if is_str payload_type then map_of VERSIONS (str_of payload_type) else None) of
        None \<Rightarrow> Inl (ValueError (''unsupported verdict payload type: '' @ py_repr payload_type))
      | Some (domain, names) \<Rightarrow> Inr names)"

definition verdict_payload :: "pyval \<Rightarrow> string \<Rightarrow> bytes result" where
  "verdict_payload record payload_type =
     (case map_of VERSIONS payload_type of
        None \<Rightarrow> Inl (ValueError (''unsupported verdict payload type: '' @ repr_str payload_type))
      | Some (domain, names) \<Rightarrow>
          ensure (set (keys record) = set names)
            (ValueError (''verdict record must contain exactly '' @ py_repr (str_list names))) (
          bind (canonical_json_bytes record) (\<lambda>b. Inr (domain @ b))))"

definition sign_verdict :: "ed25519 \<Rightarrow> pyval \<Rightarrow> pyval \<Rightarrow> string \<Rightarrow> string result" where
  "sign_verdict ed record private_key payload_type =
     bind (decode private_key (Some 32) ''private key'') (\<lambda>key.
     bind (verdict_payload record payload_type) (\<lambda>payload. Inr (encode (ed_sign ed key payload))))"

definition verify_verdict :: "ed25519 \<Rightarrow> pyval \<Rightarrow> pyval \<Rightarrow> pyval \<Rightarrow> pyval \<Rightarrow> bool" where
  "verify_verdict ed record signature public_key payload_type \<longleftrightarrow>
     is_str payload_type \<and> str_of payload_type \<in> set (map fst VERSIONS) \<and>
     (case bind (decode signature (Some 64) ''signature'') (\<lambda>sig.
           bind (decode public_key (Some 32) ''public key'') (\<lambda>public.
           bind (verdict_payload record (str_of payload_type)) (\<lambda>payload.
           Inr (ed_key_ok ed public \<and> ed_verify ed public sig payload)))) of
        Inl _ \<Rightarrow> False | Inr b \<Rightarrow> b)"

section \<open>Projection\<close>

definition reason_text :: "rejection_reason \<Rightarrow> string" where
  "reason_text r =
     (case r of MALFORMED_RECORD \<Rightarrow> ''malformed-record'' | MISSING_SIGNATURE \<Rightarrow> ''missing-signature''
      | MALFORMED_SIGNATURE \<Rightarrow> ''malformed-signature'' | UNKNOWN_PRODUCER \<Rightarrow> ''unknown-producer''
      | BAD_SIGNATURE \<Rightarrow> ''bad-signature'' | STALE_HOST_STATE \<Rightarrow> ''stale-host-state''
      | EXECUTABLE_INSIDE_SUBJECT \<Rightarrow> ''executable-inside-subject''
      | POLICY_CONTEXT_MISMATCH \<Rightarrow> ''policy-context-mismatch'' | UNSUPPORTED_ENVELOPE \<Rightarrow> ''unsupported-envelope''
      | SETTINGS_BINDING_MISMATCH \<Rightarrow> ''settings-binding-mismatch'')"

text \<open>The loop over the causes, with the claims seen so far.\<close>

fun check_causes :: "string list \<Rightarrow> string list \<Rightarrow> pyval list \<Rightarrow> unit result" where
  "check_causes required seen [] = Inr ()"
| "check_causes required seen (cause # causes) =
     ensure (is_dict cause) (ValueError ''cause must be a mapping'') (
     ensure (has_key cause ''claim_id'') (KeyError ''claim_id'') (
     let claim_id = fld cause ''claim_id''; kind = fld cause ''cause'' in
     ensure (is_text kind) (ValueError ''cause must have a non-empty kind'') (
     ensure (\<not> (claim_id = VNone \<and> kind \<noteq> VStr ''unattributable''))
       (ValueError ''only unattributable causes may have a null claim'') (
     ensure (claim_id = VNone \<or> is_str claim_id) (ValueError ''cause claim must be a string or null'') (
     ensure (claim_id = VNone \<or> str_of claim_id \<in> set required) (ValueError ''cause names a non-required claim'') (
     ensure (claim_id = VNone \<or> str_of claim_id \<notin> set seen) (ValueError ''duplicate cause for claim'') (
     check_causes required (if claim_id = VNone then seen else str_of claim_id # seen) causes)))))))"

definition validate_projection :: "pyval \<Rightarrow> string list \<Rightarrow> unit result" where
  "validate_projection record required_claims =
     ensure (is_list (fld record ''causes'')) (ValueError ''causes must be a list'') (
     check_causes required_claims [] (items_of (fld record ''causes'')))"

text \<open>\<open>{item.claim_id: item for item in removed_observations}\<close>: the last item of a claim stays.\<close>

definition removed_by_claim :: "removed_observation list \<Rightarrow> (string \<times> removed_observation) list" where
  "removed_by_claim removed = foldl (\<lambda>d item. dict_set d (ro_claim_id item) item) [] removed"

definition refused_claims :: "evaluation \<Rightarrow> admission \<Rightarrow> string list" where
  "refused_claims evaluation admission =
     sorted_set (concat (map (\<lambda>item. case rj_claim_id item of None \<Rightarrow> []
         | Some c \<Rightarrow> if c \<in> set (ev_missing_claims evaluation) then [c] else []) (ad_rejections admission)))"

definition removed_cause :: "string \<Rightarrow> removed_observation \<Rightarrow> pyval" where
  "removed_cause claim_id removed =
     VDict [(''claim_id'', VStr claim_id), (''cause'', VStr ''removed-observation''), (''detail'', VStr (describe removed))]"

definition kernel_causes :: "evaluation \<Rightarrow> string list \<Rightarrow> (string \<times> removed_observation) list \<Rightarrow> pyval list" where
  "kernel_causes evaluation refused removed =
     map (\<lambda>item. case map_of removed (cc_claim_id item) of
         Some r \<Rightarrow> removed_cause (cc_claim_id item) r
       | None \<Rightarrow> cause_record item)
       (filter (\<lambda>item. cc_claim_id item \<notin> set refused) (ev_causes evaluation))"

definition unnamed_removals ::
  "evaluation \<Rightarrow> string list \<Rightarrow> pyval list \<Rightarrow> (string \<times> removed_observation) list \<Rightarrow> pyval list" where
  "unnamed_removals evaluation required_claims causes removed =
     (if ev_verdict evaluation = FAIL then
        map (\<lambda>p. removed_cause (fst p) (snd p))
          (filter (\<lambda>p. VStr (fst p) \<notin> set (map (\<lambda>c. fld c ''claim_id'') causes) \<and> fst p \<in> set required_claims)
             (sort_key fst removed))
      else [])"

definition plain_cause :: "pyval \<Rightarrow> string \<Rightarrow> pyval" where
  "plain_cause claim_id kind = VDict [(''claim_id'', claim_id), (''cause'', VStr kind)]"

definition project_causes :: "evaluation \<Rightarrow> admission \<Rightarrow> string list \<Rightarrow> removed_observation list \<Rightarrow> pyval list" where
  "project_causes evaluation admission required_claims removed_observations =
     (let refused = refused_claims evaluation admission; removed = removed_by_claim removed_observations;
          causes = kernel_causes evaluation refused removed
      in causes @ unnamed_removals evaluation required_claims causes removed @
         map (\<lambda>c. plain_cause (VStr c) ''refused'') refused @
         map (\<lambda>_. plain_cause VNone ''unattributable'') (filter (\<lambda>item. rj_claim_id item = None) (ad_rejections admission)))"

definition rejection_record :: "rejection \<Rightarrow> pyval" where
  "rejection_record rej = VDict
     [(''index'', VInt (int (rj_index rej))), (''reason'', VStr (reason_text (rj_reason rej))), (''detail'', VStr (rj_detail rej)),
      (''claim_id'', opt_str (rj_claim_id rej)), (''producer_id'', opt_str (rj_producer_id rej))]"

definition verdict_body :: "evaluation \<Rightarrow> admission \<Rightarrow> pyval list \<Rightarrow> string option \<Rightarrow> (string \<times> pyval) list" where
  "verdict_body evaluation admission causes journal_head =
     [(''verdict'', VStr (verdict_text (ev_verdict evaluation))), (''gate_id'', VStr (ev_gate_id evaluation)),
      (''subject_digest'', VStr (ev_subject_digest evaluation)), (''subject_lane'', VStr (ev_subject_lane evaluation)),
      (''catalog_digest'', opt_str (ev_catalog_digest evaluation)), (''approver_id'', VStr (ev_approver_id evaluation)),
      (''failing_rule'', opt_str (ev_failing_rule evaluation)), (''missing_claims'', str_list (ev_missing_claims evaluation)),
      (''considered'', str_list (ev_considered evaluation)), (''causes'', VList causes),
      (''rejections'', VList (map rejection_record (ad_rejections admission))),
      (''self_approval'', VBool (ev_self_approval evaluation)), (''reason'', opt_str (ev_reason evaluation)),
      (''journal_head'', opt_str journal_head), (''history_verified'', VBool (ad_history_verified admission)),
      (''observation_checkpoint'',
         (case ad_checkpoint admission of None \<Rightarrow> VNone
          | Some (lid, h, n) \<Rightarrow> VDict [(''log_id'', VStr lid), (''head'', VStr h), (''position'', VInt (int n))]))]"

definition project_verdict ::
  "(bytes \<Rightarrow> bytes) \<Rightarrow> evaluation \<Rightarrow> admission \<Rightarrow> string list \<Rightarrow> string option \<Rightarrow> removed_observation list \<Rightarrow> pyval result" where
  "project_verdict sha evaluation admission required_claims journal_head removed_observations =
     (let causes = project_causes evaluation admission required_claims removed_observations;
          body = verdict_body evaluation admission causes journal_head in
      bind (validate_projection (VDict body) required_claims) (\<lambda>_.
      bind (validate_publication_value (VDict body)) (\<lambda>_.
      bind (sha256_text sha (VDict body)) (\<lambda>digest.
      Inr (VDict (body @ [(''record_digest'', VStr digest)]))))))"

text \<open>The four parts of \<open>presentation_partition\<close>; sets that are only tested are lists here.\<close>

definition claims_with_cause :: "pyval \<Rightarrow> string \<Rightarrow> pyval list" where
  "claims_with_cause record kind =
     map (\<lambda>c. fld c ''claim_id'') (filter (\<lambda>c. fld c ''cause'' = VStr kind) (items_of (fld record ''causes'')))"

definition presentation_partition :: "pyval \<Rightarrow> admission \<Rightarrow> nat \<times> string list \<times> string list \<times> string list" where
  "presentation_partition record admission =
     (let missing = map str_of (items_of (fld record ''missing_claims''));
          considered = filter (\<lambda>c. c \<in> set missing) (map e_claim_id (ad_evidence admission)) in
      (length (claims_with_cause record ''unattributable''),
       sorted_set (map str_of (claims_with_cause record ''refused'')),
       sorted_set (filter (\<lambda>c. c \<notin> set considered) (map str_of (claims_with_cause record ''absent''))),
       considered))"

section \<open>Publication\<close>

text \<open>
  \<open>publish_verdict\<close> returns the bytes that \<open>write_atomic\<close> put in place of the file; when it raises,
  the file is as it was. The file is the second component.
\<close>

definition verdict_content :: "string list \<Rightarrow> pyval \<Rightarrow> pyval" where
  "verdict_content names record = VDict (map (\<lambda>f. (f, fld record f)) names)"

definition signature_entry :: "string \<Rightarrow> string \<Rightarrow> pyval" where
  "signature_entry signer_id signature = VDict [(''signer_id'', VStr signer_id), (''signature'', VStr signature)]"

definition verdict_envelope ::
  "(bytes \<Rightarrow> bytes) \<Rightarrow> ed25519 \<Rightarrow> pyval \<Rightarrow> string \<Rightarrow> pyval \<Rightarrow> (string \<times> pyval) option \<Rightarrow> pyval result" where
  "verdict_envelope sha ed record signer_id private_key approver =
     ensure (set (keys record) = set (VERDICT_FIELDS @ [''record_digest'']))
       (ValueError ''verdict publication must contain the exact Record fields'') (
     let content = verdict_content VERDICT_FIELDS record in
     bind (validate_publication_value content) (\<lambda>_.
     bind (sha256_text sha content) (\<lambda>expected.
     ensure (fld record ''record_digest'' = VStr expected)
       (ValueError ''record_digest does not bind the signed verdict fields'') (
     bind (sign_verdict ed content private_key VERDICT_TYPE) (\<lambda>signature.
     bind (case approver of None \<Rightarrow> Inr []
           | Some (approver_id, approver_key) \<Rightarrow>
               bind (sign_verdict ed content approver_key VERDICT_TYPE) (\<lambda>s. Inr [signature_entry approver_id s])) (\<lambda>second.
     Inr (VDict [(''payload_type'', VStr VERDICT_TYPE), (''record'', record),
       (''signatures'', VList (signature_entry signer_id signature # second))])))))))"

definition publish_verdict ::
  "(bytes \<Rightarrow> bytes) \<Rightarrow> ed25519 \<Rightarrow> pyval \<Rightarrow> string \<Rightarrow> pyval \<Rightarrow> (string \<times> pyval) option \<Rightarrow> bytes option \<Rightarrow>
   bytes result \<times> bytes option" where
  "publish_verdict sha ed record signer_id private_key approver file =
     (case bind (verdict_envelope sha ed record signer_id private_key approver) canonical_json_bytes of
        Inl e \<Rightarrow> (Inl e, file)
      | Inr payload \<Rightarrow> (Inr payload, Some payload))"

section \<open>Presentation\<close>

definition newline :: string where
  "newline = [CHR 0x0A]"

definition absence_text :: "string list \<Rightarrow> string" where
  "absence_text absent = ''no evidence for required claim: '' @ join '', '' absent"

text \<open>The kernel's reason without the clause that was printed already.\<close>

definition trimmed_reason :: "string \<Rightarrow> string option \<Rightarrow> string list \<Rightarrow> string" where
  "trimmed_reason reason absence missing =
     (case absence of
        None \<Rightarrow> reason
      | Some sentence \<Rightarrow>
          if list_ex (contains ''; '') missing then reason
          else if reason = sentence then []
          else if ends_with (''; '' @ sentence) reason then take (length reason - length (''; '' @ sentence)) reason
          else reason)"

definition removal_line :: "pyval \<Rightarrow> string" where
  "removal_line cause =
     ''      removed-observation: '' @ str_of (fld cause ''claim_id'') @
     (if is_text (fld cause ''detail'') then ''  '' @ str_of (fld cause ''detail'') else [])"

definition failure_lines :: "evaluation \<Rightarrow> admission \<Rightarrow> pyval \<Rightarrow> string list" where
  "failure_lines result admission projected =
     (case presentation_partition projected admission of
        (unattributable, refused, absent, observed) \<Rightarrow>
          let missing = ev_missing_claims result;
              absence = (if absent \<noteq> [] \<and> unattributable = 0 then Some (absence_text absent) else None);
              reason = (case ev_reason result of None \<Rightarrow> [] | Some r \<Rightarrow> r);
              shown = (if reason \<noteq> [] \<and> (observed \<noteq> [] \<or> missing = []) then trimmed_reason reason absence missing else [])
          in (if refused \<noteq> [] then
                [''      '' @ show_nat (length (ad_rejections admission)) @
                 '' record(s) were refused above; no verifying evidence remains for: '' @ join '', '' refused] else []) @
             (if absent \<noteq> [] \<and> unattributable \<noteq> 0 then
                [''      '' @ show_nat unattributable @
                 '' record(s) above were refused without a usable claim_id, so these required claims cannot be called work never done: '' @
                 join '', '' absent]
              else if absent \<noteq> [] then [''      '' @ absence_text absent] else []) @
             map removal_line (filter (\<lambda>c. fld c ''cause'' = VStr ''removed-observation'') (items_of (fld projected ''causes''))) @
             (if shown \<noteq> [] then [''      '' @ shown] else []) @
             [''      subject='' @ ev_subject_digest result])"

definition refusal_line :: "rejection \<Rightarrow> string" where
  "refusal_line rej =
     ''      REFUSED record '' @ show_nat (rj_index rej) @ '' ['' @ reason_text (rj_reason rej) @ ''] '' @ rj_detail rej"

definition stdout_lines :: "evaluation \<Rightarrow> admission \<Rightarrow> pyval \<Rightarrow> string list" where
  "stdout_lines result admission projected =
     (if ev_verdict result = PASS
      then ''PASS  gate='' @ ev_gate_id result @ ''  subject='' @ ev_subject_digest result
      else ''FAIL  gate='' @ ev_gate_id result @ ''  rule='' @ (case ev_failing_rule result of None \<Rightarrow> ''None'' | Some r \<Rightarrow> r)) #
     map refusal_line (ad_rejections admission) @
     (if ev_verdict result = PASS then [] else failure_lines result admission projected)"

definition render_verdict_stdout :: "evaluation \<Rightarrow> admission \<Rightarrow> pyval \<Rightarrow> string" where
  "render_verdict_stdout result admission projected =
     join newline (stdout_lines result admission projected) @ newline"

section \<open>What may be published\<close>

lemma validate_publication_no_float:
  "validate_publication_value v = Inr () \<Longrightarrow> no_float v"
  "validate_publication_list xs = Inr () \<Longrightarrow> \<forall>x \<in> set xs. no_float x"
  "validate_publication_items d = Inr () \<Longrightarrow> \<forall>p \<in> set d. no_float (snd p)"
  by (induction v and xs and d rule: validate_publication_value_validate_publication_list_validate_publication_items.induct)
    (auto simp: bind_Inr_iff)

lemma validate_publication_raises:
  "validate_publication_value v = Inl e \<Longrightarrow> e \<noteq> ValueError ''duplicate cause for claim''"
  "validate_publication_list xs = Inl e \<Longrightarrow> e \<noteq> ValueError ''duplicate cause for claim''"
  "validate_publication_items d = Inl e \<Longrightarrow> e \<noteq> ValueError ''duplicate cause for claim''"
  by (induction v and xs and d rule: validate_publication_value_validate_publication_list_validate_publication_items.induct)
    (auto simp: bind_def ensure_def split: sum.splits if_splits)

section \<open>Projected causes\<close>

definition cause_ok :: "string list \<Rightarrow> pyval \<Rightarrow> bool" where
  "cause_ok required cause \<longleftrightarrow>
     is_dict cause \<and> has_key cause ''claim_id'' \<and> is_text (fld cause ''cause'') \<and>
     (fld cause ''claim_id'' = VNone \<longrightarrow> fld cause ''cause'' = VStr ''unattributable'') \<and>
     (fld cause ''claim_id'' = VNone \<or> is_str (fld cause ''claim_id'') \<and> str_of (fld cause ''claim_id'') \<in> set required)"

definition claim_names :: "pyval list \<Rightarrow> string list" where
  "claim_names causes = map str_of (filter (\<lambda>v. v \<noteq> VNone) (map (\<lambda>c. fld c ''claim_id'') causes))"

lemma claim_names_simps [simp]:
  "claim_names [] = []" "claim_names (xs @ ys) = claim_names xs @ claim_names ys"
  "claim_names (c # cs) = (if fld c ''claim_id'' = VNone then claim_names cs else str_of (fld c ''claim_id'') # claim_names cs)"
  by (auto simp: claim_names_def)

lemma check_causes_eq:
  "\<forall>c \<in> set cs. cause_ok required c \<Longrightarrow>
   check_causes required seen cs =
     (if distinct (claim_names cs) \<and> set (claim_names cs) \<inter> set seen = {} then Inr ()
      else Inl (ValueError ''duplicate cause for claim''))"
proof (induction required seen cs rule: check_causes.induct)
  case (2 required seen c cs)
  then show ?case by (cases "fld c ''claim_id'' = VNone") (auto simp: cause_ok_def Let_def ensure_def)
qed simp

lemma only_cause:
  assumes "distinct (claim_names cs)" "x \<in> set cs" "fld x ''claim_id'' = VStr c"
  shows "filter (\<lambda>y. fld y ''claim_id'' = VStr c) cs = [x]"
  using assms
proof (induction cs)
  case (Cons y cs)
  have in_names: "c \<in> set (claim_names zs)" if "z \<in> set zs" "fld z ''claim_id'' = VStr c" for z zs
    using that unfolding claim_names_def by force
  show ?case
  proof (cases "fld y ''claim_id'' = VStr c")
    case True
    then have "c \<notin> set (claim_names cs)" using Cons.prems(1) by simp
    then have "filter (\<lambda>y. fld y ''claim_id'' = VStr c) cs = []" "x \<notin> set cs"
      using in_names Cons.prems(3) by (auto simp: filter_empty_conv)
    then show ?thesis using True Cons.prems(2) by auto
  next
    case False
    then show ?thesis using Cons by (auto split: if_splits)
  qed
qed simp

lemma removed_by_claim_keys:
  "fst ` set (removed_by_claim rs) = ro_claim_id ` set rs" "distinct (map fst (removed_by_claim rs))"
proof -
  have "fst ` set (foldl (\<lambda>d item. dict_set d (ro_claim_id item) item) d rs) = fst ` set d \<union> ro_claim_id ` set rs \<and>
    (distinct (map fst d) \<longrightarrow> distinct (map fst (foldl (\<lambda>d item. dict_set d (ro_claim_id item) item) d rs)))" for d
    by (induction rs arbitrary: d) (auto simp: set_keys_dict_set distinct_dict_set)
  from this [of "[]"] show "fst ` set (removed_by_claim rs) = ro_claim_id ` set rs" "distinct (map fst (removed_by_claim rs))"
    by (auto simp: removed_by_claim_def)
qed

lemma cause_record_fields [simp]:
  "fld (cause_record cc) ''claim_id'' = VStr (cc_claim_id cc)" "fld (cause_record cc) ''cause'' = VStr (cc_cause cc)"
  "is_dict (cause_record cc)" "has_key (cause_record cc) ''claim_id''"
  by (auto simp: cause_record_def shape_simps has_key_def keys_def)

lemma removed_cause_fields [simp]:
  "fld (removed_cause c r) ''claim_id'' = VStr c" "fld (removed_cause c r) ''cause'' = VStr ''removed-observation''"
  "is_dict (removed_cause c r)" "has_key (removed_cause c r) ''claim_id''"
  by (auto simp: removed_cause_def shape_simps has_key_def keys_def)

lemma plain_cause_fields [simp]:
  "fld (plain_cause v k) ''claim_id'' = v" "fld (plain_cause v k) ''cause'' = VStr k"
  "is_dict (plain_cause v k)" "has_key (plain_cause v k) ''claim_id''"
  by (auto simp: plain_cause_def shape_simps has_key_def keys_def)

lemma evaluate_shape:
  assumes "gate_ok g" and "evaluate g ev sd lane cat approver = Inr r"
  shows "mset (map cc_claim_id (ev_causes r)) = mset (ev_missing_claims r)" "distinct (ev_missing_claims r)"
    "set (ev_missing_claims r) \<subseteq> c_claim_id ` set (g_required_claims g)"
    "ev_missing_claims r \<noteq> [] \<Longrightarrow> ev_verdict r = FAIL"
    "cc \<in> set (ev_causes r) \<Longrightarrow> cc_cause cc \<in> {''contradicted'', ''failed'', ''mismatched'', ''stale'', ''absent''}"
proof -
  let ?m = "missing_ids g ev sd"
  let ?d = "fst (diagnosis_of g ev sd (contradicted_ids g ev sd) ?m)"
  have cases: "ev_missing_claims r = [] \<and> ev_causes r = [] \<or>
      ev_missing_claims r = ?m \<and> ev_causes r = ?d \<and> ev_verdict r = FAIL"
    using assms(2) by (auto simp: evaluate_def Let_def bind_Inr_iff split: if_splits)
  have "mset (map cc_claim_id ?d) = mset ?m"
    using filed_and_contradicted [OF gate_okD(2) [OF assms(1)], of ev sd] by (simp only: causes_ids)
  then show "mset (map cc_claim_id (ev_causes r)) = mset (ev_missing_claims r)" using cases by auto
  have "distinct ?m"
    using gate_okD(2) [OF assms(1)] by (simp add: missing_ids_def distinct_map_filter)
  then show "distinct (ev_missing_claims r)" using cases by auto
  show "set (ev_missing_claims r) \<subseteq> c_claim_id ` set (g_required_claims g)"
    using cases by (auto simp: missing_ids_def)
  show "ev_missing_claims r \<noteq> [] \<Longrightarrow> ev_verdict r = FAIL" using cases by auto
  show "cc \<in> set (ev_causes r) \<Longrightarrow> cc_cause cc \<in> {''contradicted'', ''failed'', ''mismatched'', ''stale'', ''absent''}"
    using cases by (auto simp: causes_eq Let_def plain_causes_def)
qed

lemma set_refused_claims:
  "c \<in> set (refused_claims r adm) \<longleftrightarrow> c \<in> set (ev_missing_claims r) \<and> (\<exists>j \<in> set (ad_rejections adm). rj_claim_id j = Some c)"
  by (force simp: refused_claims_def split: option.splits if_splits)

text \<open>What the four groups of causes name.\<close>

lemma names_kernel_causes:
  "claim_names (kernel_causes r refused removed) =
     map cc_claim_id (filter (\<lambda>cc. cc_claim_id cc \<notin> set refused) (ev_causes r))"
proof -
  have "claim_names (map (\<lambda>item. case map_of removed (cc_claim_id item) of Some d \<Rightarrow> removed_cause (cc_claim_id item) d
      | None \<Rightarrow> cause_record item) xs) = map cc_claim_id xs" for xs
    by (induction xs) (auto split: option.splits)
  then show ?thesis by (simp add: kernel_causes_def)
qed

lemma names_unnamed_removals:
  "claim_names (unnamed_removals r required causes removed) =
     (if ev_verdict r = FAIL
      then map fst (filter (\<lambda>p. VStr (fst p) \<notin> set (map (\<lambda>c. fld c ''claim_id'') causes) \<and> fst p \<in> set required) (sort_key fst removed))
      else [])"
proof -
  have "claim_names (map (\<lambda>p. removed_cause (fst p) (snd p)) xs) = map fst xs" for xs by (induction xs) auto
  then show ?thesis by (simp add: unnamed_removals_def)
qed

lemma names_plain_causes:
  "claim_names (map (\<lambda>c. plain_cause (VStr c) k) cs) = cs" "claim_names (map (\<lambda>_. plain_cause VNone k) xs) = []"
proof -
  show "claim_names (map (\<lambda>c. plain_cause (VStr c) k) cs) = cs" by (induction cs) simp_all
  show "claim_names (map (\<lambda>_. plain_cause VNone k) xs) = []" by (induction xs) simp_all
qed

lemma in_claim_names: "VStr c \<in> set (map (\<lambda>x. fld x ''claim_id'') xs) \<Longrightarrow> c \<in> set (claim_names xs)"
proof (induction xs)
  case (Cons x xs)
  then show ?case by (cases "fld x ''claim_id''") auto
qed simp

lemma claim_names_in:
  "c \<in> set (claim_names xs) \<Longrightarrow> \<forall>x \<in> set xs. cause_ok required x \<Longrightarrow> VStr c \<in> set (map (\<lambda>x. fld x ''claim_id'') xs)"
proof (induction xs)
  case (Cons x xs)
  then show ?case by (cases "fld x ''claim_id''") (auto simp: cause_ok_def)
qed simp

lemma projected_causes_ok:
  assumes "gate_ok g" and "evaluate g ev sd lane cat approver = Inr r"
  shows "\<forall>x \<in> set (project_causes r adm (map c_claim_id (g_required_claims g)) removed).
    cause_ok (map c_claim_id (g_required_claims g)) x"
proof -
  note shape = evaluate_shape [OF assms]
  have ids: "cc_claim_id ` set (ev_causes r) = set (ev_missing_claims r)"
    using shape(1) by (metis list.set_map set_mset_mset)
  have kernel: "cc_cause cc \<noteq> []" "cc_claim_id cc \<in> c_claim_id ` set (g_required_claims g)" if "cc \<in> set (ev_causes r)" for cc
    using shape(5) [OF that] shape(3) ids that by auto
  have refused: "set (refused_claims r adm) \<subseteq> c_claim_id ` set (g_required_claims g)"
    using shape(3) by (auto simp: set_refused_claims)
  show ?thesis
    using kernel refused
    by (auto simp: project_causes_def Let_def kernel_causes_def unnamed_removals_def cause_ok_def is_text_def
        split: option.splits if_splits)
qed

text \<open>The claims of a projection are distinct unless one was both refused and removed.\<close>

lemma distinct_projected_claims:
  assumes "gate_ok g" and "evaluate g ev sd lane cat approver = Inr r"
  defines "required \<equiv> map c_claim_id (g_required_claims g)"
  shows "distinct (claim_names (project_causes r adm required removed)) \<longleftrightarrow>
    set (refused_claims r adm) \<inter> ro_claim_id ` set removed = {}"
proof -
  note shape = evaluate_shape [OF assms(1,2)]
  let ?refused = "refused_claims r adm" and ?removed = "removed_by_claim removed"
  let ?K = "kernel_causes r ?refused ?removed"
  let ?U = "unnamed_removals r required ?K ?removed"
  have K: "claim_names ?K = map cc_claim_id (filter (\<lambda>cc. cc_claim_id cc \<notin> set ?refused) (ev_causes r))"
    by (rule names_kernel_causes)
  have "distinct (map cc_claim_id (ev_causes r))" using shape(1,2) by (metis mset_eq_imp_distinct_iff)
  then have dK: "distinct (claim_names ?K)" "set (claim_names ?K) \<inter> set ?refused = {}"
    unfolding K by (auto simp: distinct_map_filter)
  have okK: "\<forall>x \<in> set ?K. cause_ok required x"
    using projected_causes_ok [OF assms(1,2), of adm removed] by (auto simp: project_causes_def Let_def required_def)
  have inK: "VStr c \<in> set (map (\<lambda>x. fld x ''claim_id'') ?K) \<longleftrightarrow> c \<in> set (claim_names ?K)" for c
    using in_claim_names claim_names_in okK by blast
  have U: "claim_names ?U = (if ev_verdict r = FAIL
      then map fst (filter (\<lambda>p. fst p \<notin> set (claim_names ?K) \<and> fst p \<in> set required) (sort_key fst ?removed)) else [])"
    unfolding names_unnamed_removals inK ..
  have "distinct (map fst (sort_key fst ?removed))"
    using removed_by_claim_keys(2) [of removed] by (simp add: distinct_map)
  then have dU: "distinct (claim_names ?U)" "set (claim_names ?U) \<inter> set (claim_names ?K) = {}"
    unfolding U by (auto simp: distinct_map_filter)
  have sU: "set (claim_names ?U) \<inter> set ?refused = set ?refused \<inter> ro_claim_id ` set removed"
  proof (cases "?refused = []")
    case False
    then have "ev_missing_claims r \<noteq> []" using set_refused_claims [of "hd ?refused" r adm] by auto
    then have "ev_verdict r = FAIL" by (rule shape(4))
    moreover have "set ?refused \<subseteq> set required" using shape(3) by (auto simp: set_refused_claims required_def)
    ultimately have "set (claim_names ?U) = {c \<in> ro_claim_id ` set removed. c \<notin> set (claim_names ?K) \<and> c \<in> set required}"
      unfolding U removed_by_claim_keys(1) [symmetric] by auto
    then show ?thesis using \<open>set ?refused \<subseteq> set required\<close> dK(2) by blast
  qed simp
  have "claim_names (project_causes r adm required removed) = claim_names ?K @ claim_names ?U @ ?refused"
    by (simp add: project_causes_def Let_def names_plain_causes)
  then show ?thesis using dK dU sU by (auto simp: refused_claims_def)
qed

lemma project_verdict_fields:
  assumes "project_verdict sha r adm required h removed = Inr rec"
  shows "items_of (fld rec ''causes'') = project_causes r adm required removed"
    "items_of (fld rec ''missing_claims'') = map VStr (ev_missing_claims r)"
    "validate_projection (VDict (verdict_body r adm (project_causes r adm required removed) h)) required = Inr ()"
  using assms by (auto simp: project_verdict_def Let_def bind_Inr_iff verdict_body_def shape_simps)

lemma validate_body:
  "validate_projection (VDict (verdict_body r adm causes h)) required = check_causes required [] causes"
  by (simp add: validate_projection_def verdict_body_def shape_simps)

text \<open>
  C34: What the published record says of a missing claim. It is named by exactly one cause: \<open>refused\<close>
  when a rejected record named it, otherwise \<open>removed-observation\<close> when a recorded observation was
  deleted, otherwise the kernel's cause, and that one is what happened to the claim.
\<close>

theorem projected_cause:
  assumes "gate_ok g" and "evaluate g (ad_evidence adm) sd lane cat approver = Inr r"
    and "project_verdict sha r adm (map c_claim_id (g_required_claims g)) h removed = Inr rec"
    and "c \<in> set (ev_missing_claims r)"
  shows "\<exists>x. filter (\<lambda>y. fld y ''claim_id'' = VStr c) (items_of (fld rec ''causes'')) = [x] \<and>
    (if \<exists>j \<in> set (ad_rejections adm). rj_claim_id j = Some c then fld x ''cause'' = VStr ''refused''
     else if c \<in> ro_claim_id ` set removed then fld x ''cause'' = VStr ''removed-observation''
     else \<exists>cl \<in> set (g_required_claims g). c_claim_id cl = c \<and> is_str (fld x ''cause'') \<and>
       cause_holds (str_of (fld x ''cause'')) cl (ad_evidence adm) sd)"
proof -
  let ?req = "map c_claim_id (g_required_claims g)"
  let ?cs = "project_causes r adm ?req removed"
  have "distinct (claim_names ?cs)"
    using project_verdict_fields(3) [OF assms(3)] projected_causes_ok [OF assms(1,2), of adm removed]
    unfolding validate_body by (simp add: check_causes_eq split: if_splits)
  note only = only_cause [OF this]
  show ?thesis
  proof (cases "c \<in> set (refused_claims r adm)")
    case True
    then have "plain_cause (VStr c) ''refused'' \<in> set ?cs" by (auto simp: project_causes_def Let_def)
    from only [OF this] True show ?thesis
      unfolding project_verdict_fields(1) [OF assms(3)] by (auto simp: set_refused_claims)
  next
    case False
    have "c \<in> cc_claim_id ` set (ev_causes r)"
      using evaluate_shape(1) [OF assms(1,2)] assms(4) by (metis list.set_map set_mset_mset)
    then obtain cc where cc: "cc \<in> set (ev_causes r)" "cc_claim_id cc = c" by blast
    let ?x = "case map_of (removed_by_claim removed) c of Some d \<Rightarrow> removed_cause c d | None \<Rightarrow> cause_record cc"
    have "?x \<in> set ?cs" using cc False by (force simp: project_causes_def Let_def kernel_causes_def)
    moreover have "fld ?x ''claim_id'' = VStr c" using cc(2) by (simp split: option.split)
    ultimately have one: "filter (\<lambda>y. fld y ''claim_id'' = VStr c) ?cs = [?x]" by (rule only)
    have "map_of (removed_by_claim removed) c = None \<longleftrightarrow> c \<notin> ro_claim_id ` set removed"
      by (simp add: map_of_eq_None_iff removed_by_claim_keys)
    moreover have "\<not> (\<exists>j \<in> set (ad_rejections adm). rj_claim_id j = Some c)"
      using False assms(4) by (simp add: set_refused_claims)
    ultimately show ?thesis
      using one causes_sound [OF assms(1,2) cc(1)] cc(2) unfolding project_verdict_fields(1) [OF assms(3)]
      by (auto split: option.splits)
  qed
qed

text \<open>
  C35: The projection gives up on a claim that was both removed and refused. When an observation of
  a missing claim was deleted and restored, and a record naming the same claim was rejected, the
  claim is filed under \<open>removed-observation\<close> and again under \<open>refused\<close>, and the validation raises
  instead of publishing the failing verdict; without such a claim it never raises that error.
\<close>

theorem removed_and_refused_iff:
  assumes "gate_ok g" and "evaluate g (ad_evidence adm) sd lane cat approver = Inr r"
  shows "project_verdict sha r adm (map c_claim_id (g_required_claims g)) h removed =
      Inl (ValueError ''duplicate cause for claim'') \<longleftrightarrow>
    (\<exists>c \<in> set (ev_missing_claims r). c \<in> ro_claim_id ` set removed \<and> (\<exists>j \<in> set (ad_rejections adm). rj_claim_id j = Some c))"
proof -
  let ?req = "map c_claim_id (g_required_claims g)"
  let ?cs = "project_causes r adm ?req removed"
  let ?body = "VDict (verdict_body r adm ?cs h)"
  have v: "validate_projection ?body ?req = (if set (refused_claims r adm) \<inter> ro_claim_id ` set removed = {} then Inr ()
      else Inl (ValueError ''duplicate cause for claim''))"
    unfolding validate_body check_causes_eq [OF projected_causes_ok [OF assms]] distinct_projected_claims [OF assms] by simp
  have "sha256_text sha ?body = Inl e \<Longrightarrow> e \<noteq> ValueError ''duplicate cause for claim''" for e
    by (auto simp: sha256_text_def canonical_sha256_def canonical_json_bytes_def canonical_json_def bind_def
        split: if_splits)
  then have "project_verdict sha r adm ?req h removed = Inl (ValueError ''duplicate cause for claim'') \<longleftrightarrow>
      set (refused_claims r adm) \<inter> ro_claim_id ` set removed \<noteq> {}"
    using validate_publication_raises(1) [of ?body] unfolding project_verdict_def Let_def v
    by (auto simp: bind_def split: sum.splits)
  then show ?thesis by (simp only: disjoint_iff set_refused_claims) blast
qed

text \<open>
  The sentence for honest absence. A claim that the presentation lists as absent is a missing
  claim that nothing was presented for: no admitted record names it, no rejected record names it,
  and no recorded observation of it was removed.
\<close>

lemma absence_is_honest:
  assumes "gate_ok g" and "evaluate g (ad_evidence adm) sd lane cat approver = Inr r"
    and "project_verdict sha r adm (map c_claim_id (g_required_claims g)) h removed = Inr rec"
    and "presentation_partition rec adm = (unattributable, refused, absent, observed)" and "c \<in> set absent"
  shows "c \<in> set (ev_missing_claims r) \<and> (\<forall>e \<in> set (ad_evidence adm). e_claim_id e \<noteq> c) \<and>
    (\<forall>j \<in> set (ad_rejections adm). rj_claim_id j \<noteq> Some c) \<and> (\<forall>o' \<in> set removed. ro_claim_id o' \<noteq> c)"
proof -
  let ?cs = "project_causes r adm (map c_claim_id (g_required_claims g)) removed"
  obtain x where x: "x \<in> set ?cs" "fld x ''cause'' = VStr ''absent''" "c = str_of (fld x ''claim_id'')"
    using assms(4,5) unfolding presentation_partition_def Let_def claims_with_cause_def project_verdict_fields(1) [OF assms(3)]
    by auto
  then obtain cc where cc: "cc \<in> set (ev_causes r)" "cc_claim_id cc = c" "cc_cause cc = ''absent''"
    "c \<notin> set (refused_claims r adm)" "map_of (removed_by_claim removed) c = None"
    by (auto simp: project_causes_def Let_def kernel_causes_def unnamed_removals_def split: option.splits if_splits)
  have "c \<in> set (ev_missing_claims r)"
    using cc(1,2) evaluate_shape(1) [OF assms(1,2)] by (metis imageI list.set_map set_mset_mset)
  moreover have "\<forall>e \<in> set (ad_evidence adm). e_claim_id e \<noteq> c"
    using causes_sound [OF assms(1,2) cc(1)] cc(2,3) by (auto simp: cause_holds_def)
  moreover have "c \<notin> ro_claim_id ` set removed"
    using cc(5) by (simp add: map_of_eq_None_iff removed_by_claim_keys)
  ultimately show ?thesis using cc(4) set_refused_claims [of c r adm] by blast
qed

section \<open>Examples\<close>

definition demo_admission :: "rejection list \<Rightarrow> admission" where
  "demo_admission rejections =
     \<lparr>ad_evidence = [], ad_rejections = rejections, ad_indices = [], ad_checkpoint = None, ad_history_verified = False,
      ad_removed = []\<rparr>"

definition demo_rejection :: rejection where
  "demo_rejection = \<lparr>rj_index = 0, rj_reason = POLICY_CONTEXT_MISMATCH, rj_detail = ''other gate'',
     rj_producer_id = Some ''worker'', rj_claim_id = Some ''tests''\<rparr>"

definition demo_removed :: removed_observation where
  "demo_removed = \<lparr>ro_seq = 1, ro_claim_id = ''tests'', ro_producer_id = ''worker''\<rparr>"

definition demo_absent :: evaluation where
  "demo_absent =
     \<lparr>ev_verdict = FAIL, ev_gate_id = ''gate'', ev_failing_rule = Some ''rule'', ev_missing_claims = [''tests''],
      ev_reason = Some ''no evidence for required claim: tests'', ev_subject_digest = zero_digest, ev_subject_lane = ''lane'',
      ev_catalog_digest = None, ev_approver_id = ''human'', ev_considered = [],
      ev_causes = [\<lparr>cc_claim_id = ''tests'', cc_cause = ''absent'', cc_detail = None\<rparr>], ev_self_approval = False\<rparr>"

lemma demo_absent_Inr:
  "evaluate demo_gate (ad_evidence (demo_admission js)) zero_digest ''lane'' None ''human'' = Inr demo_absent"
proof -
  have "evaluate demo_gate [] zero_digest ''lane'' None ''human'' = Inr demo_absent" by code_simp
  then show ?thesis by (simp add: demo_admission_def)
qed

definition demo_projected :: "rejection list \<Rightarrow> pyval" where
  "demo_projected js =
     (case project_verdict zero_sha demo_absent (demo_admission js) (map c_claim_id (g_required_claims demo_gate)) None [] of
        Inr v \<Rightarrow> v | Inl _ \<Rightarrow> VNone)"

lemma project_verdict_ok:
  assumes "project_causes r adm required removed = cs" "check_causes required [] cs = Inr ()"
    "validate_publication_value (VDict (verdict_body r adm cs h)) = Inr ()" "plain_val (VDict (verdict_body r adm cs h))"
  shows "is_ok (project_verdict sha r adm required h removed)"
proof -
  obtain b where "canonical_json_bytes (VDict (verdict_body r adm cs h)) = Inr b"
    using canonical_json_bytes_plain [OF assms(4)] by auto
  then have "sha256_text sha (VDict (verdict_body r adm cs h)) = Inr (''sha256:'' @ hex_bytes (sha b))"
    by (simp add: sha256_text_def canonical_sha256_def)
  then show ?thesis using assms(2,3) unfolding project_verdict_def Let_def validate_body assms(1) by simp
qed

lemma demo_projected_ok:
  "is_ok (project_verdict zero_sha demo_absent (demo_admission []) (map c_claim_id (g_required_claims demo_gate)) None [])"
  "is_ok (project_verdict zero_sha demo_absent (demo_admission [demo_rejection]) (map c_claim_id (g_required_claims demo_gate)) None [])"
proof -
  have "project_causes demo_absent (demo_admission []) (map c_claim_id (g_required_claims demo_gate)) [] =
      [plain_cause (VStr ''tests'') ''absent'']" by code_simp
  then show "is_ok (project_verdict zero_sha demo_absent (demo_admission []) (map c_claim_id (g_required_claims demo_gate)) None [])"
    by (rule project_verdict_ok) code_simp+
  have "project_causes demo_absent (demo_admission [demo_rejection]) (map c_claim_id (g_required_claims demo_gate)) [] =
      [plain_cause (VStr ''tests'') ''refused'']" by code_simp
  then show "is_ok (project_verdict zero_sha demo_absent (demo_admission [demo_rejection])
      (map c_claim_id (g_required_claims demo_gate)) None [])"
    by (rule project_verdict_ok) code_simp+
qed

lemma demo_projected_Inr:
  "project_verdict zero_sha demo_absent (demo_admission []) (map c_claim_id (g_required_claims demo_gate)) None [] =
     Inr (demo_projected [])"
  "project_verdict zero_sha demo_absent (demo_admission [demo_rejection]) (map c_claim_id (g_required_claims demo_gate)) None [] =
     Inr (demo_projected [demo_rejection])"
  using demo_projected_ok unfolding demo_projected_def by (auto simp: is_ok_iff)

theorem projected_cause_witness:
  "\<exists>x. filter (\<lambda>y. fld y ''claim_id'' = VStr ''tests'') (items_of (fld (demo_projected [demo_rejection]) ''causes'')) = [x] \<and>
    fld x ''cause'' = VStr ''refused''"
  using projected_cause [OF demo_gate_ok(1) demo_absent_Inr demo_projected_Inr(2), of "''tests''"]
  by (simp add: demo_absent_def demo_admission_def demo_rejection_def)

theorem removed_and_refused_iff_witness:
  "project_verdict zero_sha demo_absent (demo_admission [demo_rejection]) (map c_claim_id (g_required_claims demo_gate)) None
     [demo_removed] = Inl (ValueError ''duplicate cause for claim'')"
  using removed_and_refused_iff [OF demo_gate_ok(1) demo_absent_Inr [of "[demo_rejection]"], where sha = zero_sha and h = None
      and removed = "[demo_removed]"]
  by (simp add: demo_absent_def demo_admission_def demo_rejection_def demo_removed_def)

end
