(* ===== verification/Json_Text.thy ===== *)
theory Json_Text
  imports Json
begin

text \<open>
  JSON documents as bytes: \<open>json.loads\<close> on the UTF-8 bytes that \<open>canonical_json_bytes\<close> wrote, and
  the \<open>parse_constant\<close> hook with which the readers refuse \<open>NaN\<close> and the infinities. Shown: a value
  whose strings are text is read back from its canonical bytes, and the hook never fires on them.
\<close>

section \<open>Refusing constants\<close>

text \<open>
  In a document that parses, the letters \<open>N\<close> and \<open>I\<close> occur outside of strings only in \<open>NaN\<close>,
  \<open>Infinity\<close> and \<open>-Infinity\<close>, the three texts for which \<open>parse_constant\<close> is called.
\<close>

fun names_constant :: "bool \<Rightarrow> string \<Rightarrow> bool" where
  "names_constant q [] = False"
| "names_constant False (c # s) =
     (if c = CHR 0x22 then names_constant True s else c = CHR ''N'' \<or> c = CHR ''I'' \<or> names_constant False s)"
| "names_constant True (c # s) =
     (if c = CHR 0x5C then (case s of [] \<Rightarrow> False | _ # r \<Rightarrow> names_constant True r)
      else if c = CHR 0x22 then names_constant False s else names_constant True s)"

definition json_loads_finite :: "bytes \<Rightarrow> pyval result" where
  "json_loads_finite raw =
     bind (json_loads_bytes raw) (\<lambda>v.
     ensure (\<not> names_constant False raw) (ValueError ''non-finite JSON number'') (Inr v))"

section \<open>UTF-8\<close>

text \<open>A value of text and integers: every string, keys included, is well-formed.\<close>

fun utf8_val :: "pyval \<Rightarrow> bool" where
  "utf8_val (VFloat t) = False"
| "utf8_val (VStr s) = utf8_ok s"
| "utf8_val (VList xs) = (\<forall>x \<in> set xs. utf8_val x)"
| "utf8_val (VDict d) = (\<forall>p \<in> set d. utf8_ok (fst p) \<and> utf8_val (snd p))"
| "utf8_val _ = True"

lemma utf8_chunk:
  assumes "utf8_ok (a # s)"
  shows "\<exists>u t. a # s = u @ t \<and> u \<noteq> [] \<and> utf8_ok t \<and> (\<forall>r. utf8_ok r \<longrightarrow> utf8_ok (u @ r)) \<and> ((\<exists>c. u = [c] \<and> is_ascii c) \<or> list_all (\<lambda>c. \<not> is_ascii c) u)"
proof (cases "is_ascii a")
  case True
  then have "utf8_ok s" "\<forall>r. utf8_ok r \<longrightarrow> utf8_ok ([a] @ r)" using assms by (simp_all add: is_ascii_def)
  then show ?thesis using True by (intro exI [of _ "[a]"] exI [of _ s]) simp
next
  case False
  let ?n = "of_char a :: nat"
  have na: "\<not> ?n < 128" "\<not> ?n < 194" using False assms by (auto simp: is_ascii_def Let_def split: list.splits if_splits)
  obtain b s1 where s: "s = b # s1" "cont_byte b" using assms na by (auto simp: Let_def split: list.splits if_splits)
  have cont: "\<not> is_ascii c" if "cont_byte c" for c using that by (simp add: cont_byte_def is_ascii_def)
  show ?thesis
  proof (cases "?n < 224")
    case True
    then have "utf8_ok s1" "\<forall>r. utf8_ok r \<longrightarrow> utf8_ok ([a, b] @ r)" using assms na s by (auto simp: Let_def)
    then show ?thesis using False cont [OF s(2)] s(1) by (intro exI [of _ "[a, b]"] exI [of _ s1]) simp
  next
    case n3: False
    then obtain c s2 where s2: "s1 = c # s2" "cont_byte c" using assms na s by (auto simp: Let_def split: list.splits if_splits)
    show ?thesis
    proof (cases "?n < 240")
      case True
      then have "utf8_ok s2" "\<forall>r. utf8_ok r \<longrightarrow> utf8_ok ([a, b, c] @ r)" using assms na s s2 n3 by (auto simp: Let_def)
      then show ?thesis using False cont [OF s(2)] cont [OF s2(2)] s(1) s2(1) by (intro exI [of _ "[a, b, c]"] exI [of _ s2]) simp
    next
      case n4: False
      then obtain d s3 where s3: "s2 = d # s3" "cont_byte d" using assms na s s2 n3 by (auto simp: Let_def split: list.splits if_splits)
      then have "utf8_ok s3" "\<forall>r. utf8_ok r \<longrightarrow> utf8_ok ([a, b, c, d] @ r)" using assms na s s2 n3 n4 by (auto simp: Let_def)
      then show ?thesis using False cont [OF s(2)] cont [OF s2(2)] cont [OF s3(2)] s(1) s2(1) s3(1)
        by (intro exI [of _ "[a, b, c, d]"] exI [of _ s3]) simp
    qed
  qed
qed

lemma utf8_ok_append: "utf8_ok s \<Longrightarrow> utf8_ok t \<Longrightarrow> utf8_ok (s @ t)"
proof (induction "length s" arbitrary: s rule: less_induct)
  case less
  show ?case
  proof (cases s)
    case (Cons a r)
    obtain u v where u: "s = u @ v" "u \<noteq> []" "utf8_ok v" "\<forall>r. utf8_ok r \<longrightarrow> utf8_ok (u @ r)"
      using utf8_chunk less.prems(1) unfolding Cons by metis
    then have "utf8_ok (v @ t)" using less.hyps [of v] less.prems(2) by simp
    then show ?thesis using u(1,4) by simp
  qed (use less.prems in simp)
qed

lemma json_escape_ascii: "is_ascii c \<Longrightarrow> list_all is_ascii (json_escape c)"
  using hex2_ascii [of c] by (simp add: json_escape_def is_ascii_def)

lemma json_escape_high:
  assumes "\<not> is_ascii c"
  shows "json_escape c = [c]"
proof -
  have "c \<noteq> d" if "is_ascii d" for d using assms that by blast
  then have "c \<notin> {CHR 0x22, CHR 0x5C, CHR 0x0A, CHR 0x0D, CHR 0x09, CHR 0x0C, CHR 0x08}" by (simp add: is_ascii_def)
  then show ?thesis using assms by (simp add: json_escape_def is_ascii_def)
qed

lemma utf8_json_str: "utf8_ok s \<Longrightarrow> utf8_ok (json_str s)"
proof -
  have "utf8_ok s \<Longrightarrow> utf8_ok (concat (map json_escape s))"
  proof (induction "length s" arbitrary: s rule: less_induct)
    case less
    show ?case
    proof (cases s)
      case (Cons a r)
      obtain u t where u: "s = u @ t" "u \<noteq> []" "utf8_ok t" "\<forall>r. utf8_ok r \<longrightarrow> utf8_ok (u @ r)"
        "(\<exists>c. u = [c] \<and> is_ascii c) \<or> list_all (\<lambda>c. \<not> is_ascii c) u"
        using utf8_chunk less.prems unfolding Cons by metis
      have "utf8_ok (concat (map json_escape u))"
        using u(5)
      proof
        assume "list_all (\<lambda>c. \<not> is_ascii c) u"
        then have "concat (map json_escape u) = u" by (induction u) (auto simp: json_escape_high)
        moreover have "utf8_ok (u @ [])" using u(4) by (metis utf8_ok.simps(1))
        ultimately show ?thesis by simp
      next
        assume "\<exists>c. u = [c] \<and> is_ascii c"
        then show ?thesis using json_escape_ascii utf8_ok_ascii by force
      qed
      moreover have "utf8_ok (concat (map json_escape t))" using less.hyps [of t] u(1-3) by simp
      ultimately show ?thesis unfolding u(1) by (simp add: utf8_ok_append)
    qed simp
  qed
  then show "utf8_ok s \<Longrightarrow> utf8_ok (json_str s)"
    using utf8_ok_append [of _ "[CHR 0x22]"] utf8_ok_append [of "[CHR 0x22]"] by (simp add: json_str_def)
qed

lemma utf8_join: "utf8_ok sep \<Longrightarrow> \<forall>x \<in> set xs. utf8_ok x \<Longrightarrow> utf8_ok (join sep xs)"
  by (induction sep xs rule: join.induct) (auto intro!: utf8_ok_append)

lemma utf8_dumps: "utf8_val v \<Longrightarrow> utf8_ok (dumps v)"
proof (induction v rule: pyval.induct)
  case (VInt i)
  have "list_all is_ascii (show_int i)" using show_nat_ascii by (simp add: show_int_def) (simp add: is_ascii_def)
  then show ?case by (simp add: utf8_ok_ascii)
next
  case (VList xs)
  then have "utf8_ok (''['' @ join '','' (map dumps xs) @ '']'')" by (intro utf8_ok_append utf8_join) auto
  then show ?case by simp
next
  case (VDict d)
  have "utf8_ok (json_str (fst p) @ '':'' @ dumps (snd p))" if "p \<in> set d" for p
    using VDict that by (intro utf8_ok_append utf8_json_str) (cases p, fastforce)+
  then have "utf8_ok (''{'' @ join '','' (map (\<lambda>p. json_str (fst p) @ '':'' @ dumps (snd p)) d) @ ''}'')"
    by (intro utf8_ok_append utf8_join) auto
  then show ?case by simp
qed (auto simp: utf8_json_str)

lemma utf8_sort_keys: "utf8_val v \<Longrightarrow> utf8_val (sort_keys v)"
  by (induction v rule: pyval.induct) (fastforce simp: prod_set_defs)+

lemma utf8_no_float: "utf8_val v \<Longrightarrow> no_float v"
  by (induction v rule: pyval.induct) (fastforce simp: prod_set_defs)+

section \<open>Reading canonical bytes\<close>

lemma names_constant_escape: "names_constant True (json_escape c @ r) = names_constant True r"
proof -
  have hex: "hex_char d \<noteq> CHR 0x22 \<and> hex_char d \<noteq> CHR 0x5C" if "d < 16" for d
    using hex_char_lower [OF that] by (auto simp: is_lower_hex_def Let_def)
  show ?thesis by (simp add: json_escape_def hex2_def Let_def hex)
qed

lemma names_constant_str: "names_constant False (json_str s @ r) = names_constant False r"
proof -
  have "names_constant True (concat (map json_escape s) @ r) = names_constant True r" for r
    by (induction s) (auto simp: names_constant_escape)
  then show ?thesis by (simp add: json_str_def)
qed

lemma names_constant_chars:
  "list_all (\<lambda>c. c \<noteq> CHR 0x22 \<and> c \<noteq> CHR ''N'' \<and> c \<noteq> CHR ''I'') s \<Longrightarrow> names_constant False (s @ r) = names_constant False r"
  by (induction s) auto

lemma names_constant_join:
  assumes "\<And>x r. x \<in> set xs \<Longrightarrow> names_constant False (x @ r) = names_constant False r"
  shows "names_constant False (join '','' xs @ r) = names_constant False r"
  using assms
proof (induction "'',''" xs rule: join.induct)
  case (3 x y xs)
  have "names_constant False (join '','' (y # xs) @ r) = names_constant False r" using 3 by simp
  then show ?case using 3(2) [of x] by (simp add: names_constant_chars)
qed auto

lemma names_constant_dumps: "no_float v \<Longrightarrow> names_constant False (dumps v @ r) = names_constant False r"
proof (induction v arbitrary: r rule: pyval.induct)
  case (VInt i)
  let ?P = "\<lambda>c. c \<noteq> CHR 0x22 \<and> c \<noteq> CHR ''N'' \<and> c \<noteq> CHR ''I''"
  have "list_all ?P (show_nat n)" for n
    using show_nat_digits [of n] by (rule list.pred_mono_strong) (auto simp: is_digit_def)
  then have "list_all ?P (show_int i)" by (simp add: show_int_def)
  then show ?case by (simp add: names_constant_chars)
next
  case (VList xs)
  have "names_constant False (join '','' (map dumps xs) @ r) = names_constant False r" for r
    using VList by (intro names_constant_join) auto
  then show ?case by simp
next
  case (VDict d)
  have item: "names_constant False (dumps (snd p) @ r) = names_constant False r" if "p \<in> set d" for p r
    using VDict that by (cases p) fastforce
  have "names_constant False (join '','' (map (\<lambda>p. json_str (fst p) @ '':'' @ dumps (snd p)) d) @ r) = names_constant False r" for r
    using item by (intro names_constant_join) (auto simp: names_constant_str)
  then show ?case by simp
qed (auto simp: names_constant_str)

lemma json_loads_bytes_canonical:
  assumes "canonical_json_bytes v = Inr b" "utf8_val v" "wf_val v"
  shows "json_loads_bytes b = Inr (sort_keys v)" "json_loads_finite b = Inr (sort_keys v)"
proof -
  have c: "canonical_json v = Inr b" using assms(1) by (simp add: canonical_json_bytes_Inr)
  then have b: "b = dumps (sort_keys v)" by (auto simp: canonical_json_def split: if_splits)
  have "utf8_ok b" unfolding b by (rule utf8_dumps [OF utf8_sort_keys [OF assms(2)]])
  then show r: "json_loads_bytes b = Inr (sort_keys v)"
    using json_loads_canonical [OF c utf8_no_float [OF assms(2)] assms(3)] by (simp add: json_loads_bytes_def)
  have "\<not> names_constant False (b @ [])"
    unfolding b using names_constant_dumps [OF no_float_sort_keys [OF utf8_no_float [OF assms(2)]], of "[]"] by simp
  then show "json_loads_finite b = Inr (sort_keys v)" using r by (simp add: json_loads_finite_def)
qed

section \<open>What is read is well formed\<close>

lemma wf_dict_set: "distinct (map fst d) \<Longrightarrow> \<forall>p \<in> set d. wf_val (snd p) \<Longrightarrow> wf_val v \<Longrightarrow>
  distinct (map fst (dict_set d k v)) \<and> (\<forall>p \<in> set (dict_set d k v). wf_val (snd p))"
proof (induction d k v rule: dict_set.induct)
  case (2 k' v' d k v)
  then show ?case using set_keys_dict_set [of d k v] by auto
qed simp

lemma scan_wf:
  "scan_value n s = Some (v, r) \<Longrightarrow> wf_val v"
  "scan_array n s = Some (vs, r) \<Longrightarrow> \<forall>x \<in> set vs. wf_val x"
  "scan_object n s acc = Some (d, r) \<Longrightarrow> wf_val (VDict acc) \<Longrightarrow> wf_val (VDict d)"
proof (induction n s and n s and n s acc arbitrary: v r and vs r and d r rule: scan_value_scan_array_scan_object.induct)
  case (2 n s)
  have number: "scan_number s = Some (v, r) \<Longrightarrow> wf_val v"
    by (auto simp: scan_number_def Let_def split: if_splits)
  show ?case
    using 2 number by (auto split: list.splits if_splits)
next
  case (4 n s)
  show ?case using 4 by (fastforce split: option.splits list.splits if_splits prod.splits)
next
  case (6 n s acc)
  show ?case using 6 wf_dict_set [of acc] by (fastforce split: option.splits list.splits if_splits prod.splits)
qed auto

lemma json_loads_wf: "json_loads s = Inr v \<Longrightarrow> wf_val v" "json_loads_bytes s = Inr v \<Longrightarrow> wf_val v"
  using scan_wf(1) by (auto simp: json_loads_def json_loads_bytes_def simp del: scan_value.simps
      split: option.splits if_splits prod.splits)

end
