(* ===== verification/Verdict_Reader.thy ===== *)
theory Verdict_Reader
  imports Verdict_Record History Json_Text
begin

text \<open>
  The closed-state reader of signed verdicts
  (\<^verbatim>\<open>src/src/ranex/governed_execution/verdict_reader.py\<close>). Shown: a verdict that reads as verified for
  a judgment context is authentic, anchored and approved for that context and of the current
  version; and a verdict that was projected and published is read back as verified, with the
  published record.
\<close>

section \<open>Reading\<close>

datatype read_state =
    RS_ABSENT | RS_MALFORMED | RS_UNSIGNED | RS_BAD_SIGNATURE | RS_UNKNOWN_SIGNER | RS_WRONG_PAYLOAD_TYPE
  | RS_MISSING_KEY | RS_CONTEXT_MISMATCH | RS_UNKNOWN_CAUSE | RS_UNAPPROVED | RS_UNANCHORED | RS_VERIFIED

definition state_presentation :: "read_state \<Rightarrow> string" where
  "state_presentation s =
     (case s of RS_ABSENT \<Rightarrow> ''No verdict publication exists.''
      | RS_MALFORMED \<Rightarrow> ''The verdict publication is malformed or unreadable.''
      | RS_UNSIGNED \<Rightarrow> ''The verdict publication is unsigned.''
      | RS_BAD_SIGNATURE \<Rightarrow> ''The verdict signature is invalid.''
      | RS_UNKNOWN_SIGNER \<Rightarrow> ''The verdict names an unknown signer.''
      | RS_WRONG_PAYLOAD_TYPE \<Rightarrow> ''The verdict payload type is unsupported.''
      | RS_MISSING_KEY \<Rightarrow> ''The verdict signer key is unavailable.''
      | RS_CONTEXT_MISMATCH \<Rightarrow> ''The verdict belongs to another judgment context.''
      | RS_UNKNOWN_CAUSE \<Rightarrow> ''The verdict contains an unclassified blocking cause.''
      | RS_UNAPPROVED \<Rightarrow> ''The verdict names a catalogued approver whose signature it does not carry.''
      | RS_UNANCHORED \<Rightarrow> ''The verdict does not certify an independently retained observation history.''
      | RS_VERIFIED \<Rightarrow> ''The verdict is verified; freshness is unestablished.'')"

record read_result =
  rr_state :: read_state
  rr_record :: "pyval option"
  rr_payload_type :: "pyval option"

definition plain_state :: "read_state \<Rightarrow> read_result" where
  "plain_state s = \<lparr>rr_state = s, rr_record = None, rr_payload_type = None\<rparr>"

definition journal_head :: "read_result \<Rightarrow> string option" where
  "journal_head r =
     (case rr_record r of None \<Rightarrow> None
      | Some record \<Rightarrow> (case fld record ''journal_head'' of VStr h \<Rightarrow> Some h | _ \<Rightarrow> None))"

definition observation_checkpoint :: "read_result \<Rightarrow> pyval option" where
  "observation_checkpoint r =
     (case rr_record r of None \<Rightarrow> None
      | Some record \<Rightarrow>
          if fld record ''history_verified'' = VBool True \<and> validate_checkpoint (fld record ''observation_checkpoint'')
          then Some (fld record ''observation_checkpoint'') else None)"

text \<open>What \<open>Path(path).read_bytes()\<close> meets: no file, a file it cannot read, or bytes.\<close>

datatype publication = Missing | Unreadable | Holds bytes

fun signers_ok :: "string list \<Rightarrow> pyval list \<Rightarrow> bool" where
  "signers_ok named [] = True"
| "signers_ok named (s # ss) =
     (closed_keys s [''signer_id'', ''signature''] \<and> is_str (fld s ''signer_id'') \<and>
      str_of (fld s ''signer_id'') \<notin> set named \<and> signers_ok (str_of (fld s ''signer_id'') # named) ss)"

text \<open>The loop over the signatures after the first; the answer is the state it returns, if any.\<close>

fun check_cosigners ::
  "ed25519 \<Rightarrow> (string \<times> string) list \<Rightarrow> (string \<times> string list) list \<Rightarrow> pyval \<Rightarrow> pyval \<Rightarrow> pyval list \<Rightarrow> read_state option" where
  "check_cosigners ed keyring catalogued content payload_type [] = None"
| "check_cosigners ed keyring catalogued content payload_type (s # ss) =
     (let co_signer = str_of (fld s ''signer_id'') in
      case map_of keyring co_signer of
        Some key \<Rightarrow>
          if verify_verdict ed content (fld s ''signature'') (VStr key) payload_type
          then check_cosigners ed keyring catalogued content payload_type ss
          else Some RS_BAD_SIGNATURE
      | None \<Rightarrow>
          (case map_of catalogued co_signer of
             None \<Rightarrow> Some (if keyring = [] \<and> catalogued = [] then RS_MISSING_KEY else RS_UNKNOWN_SIGNER)
           | Some active \<Rightarrow>
               if list_ex (\<lambda>key. verify_verdict ed content (fld s ''signature'') (VStr key) payload_type) active
               then check_cosigners ed keyring catalogued content payload_type ss
               else Some RS_BAD_SIGNATURE))"

definition known_causes :: "string list" where
  "known_causes = [''contradicted'', ''failed'', ''mismatched'', ''stale'', ''absent'', ''refused'', ''unattributable'',
     ''removed-observation'']"

text \<open>A cause that cannot be hashed raises \<open>TypeError\<close> at the set test.\<close>

fun any_unknown :: "pyval list \<Rightarrow> bool result" where
  "any_unknown [] = Inr False"
| "any_unknown (c # cs) =
     (if \<not> is_dict c then Inr True
      else if is_list (fld c ''cause'') \<or> is_dict (fld c ''cause'') then Inl (TypeError ''unhashable type'')
      else if fld c ''cause'' \<notin> VStr ` set known_causes then Inr True
      else any_unknown cs)"

type_synonym verdict_context = "(string \<times> pyval) list"

text \<open>The checks after the signatures, in order; \<open>key\<close> is the key of the first signer.\<close>

definition judge_record ::
  "(bytes \<Rightarrow> bytes) \<Rightarrow> ed25519 \<Rightarrow> verdict_context option \<Rightarrow> (string \<times> string list) list \<Rightarrow> site option \<Rightarrow> store \<Rightarrow> string \<Rightarrow>
   pyval \<Rightarrow> pyval list \<Rightarrow> pyval \<Rightarrow> read_result" where
  "judge_record sha ed context catalogued si st key record signatures payload_type =
     (let full = (\<lambda>s. \<lparr>rr_state = s, rr_record = Some record, rr_payload_type = Some payload_type\<rparr>);
          certified = fld record ''history_verified''; checkpoint = fld record ''observation_checkpoint'' in
      if (case context of None \<Rightarrow> False | Some c \<Rightarrow> list_ex (\<lambda>p. fld record (fst p) \<noteq> snd p) c)
      then plain_state RS_CONTEXT_MISMATCH
      else if \<not> is_list (fld record ''causes'') then plain_state RS_MALFORMED
      else
        (case any_unknown (items_of (fld record ''causes'')) of
           Inl _ \<Rightarrow> plain_state RS_MALFORMED
         | Inr unknown \<Rightarrow>
             if unknown then full RS_UNKNOWN_CAUSE
             else if is_str (fld record ''approver_id'') \<and> str_of (fld record ''approver_id'') \<in> fst ` set catalogued \<and>
               \<not> list_ex (\<lambda>s. fld s ''signer_id'' = fld record ''approver_id'') (tl signatures)
             then full RS_UNAPPROVED
             else if has_key record ''history_verified'' \<and>
               (\<not> is_bool certified \<or> (bool_of certified \<and> \<not> validate_checkpoint checkpoint))
             then plain_state RS_MALFORMED
             else if has_key record ''history_verified'' \<and> \<not> bool_of certified \<and> checkpoint \<noteq> VNone
             then plain_state RS_MALFORMED
             else if context \<noteq> None \<and> (certified \<noteq> VBool True \<or> \<not> validate_checkpoint checkpoint)
             then full RS_UNANCHORED
             else if context \<noteq> None \<and>
               (case si of None \<Rightarrow> True | Some si' \<Rightarrow> \<not> verify_bound_history sha ed si' checkpoint (VStr key) st)
             then full RS_UNANCHORED
             else full RS_VERIFIED))"

definition read_document ::
  "(bytes \<Rightarrow> bytes) \<Rightarrow> ed25519 \<Rightarrow> (string \<times> string) list \<Rightarrow> verdict_context option \<Rightarrow> (string \<times> string list) list option \<Rightarrow>
   site option \<Rightarrow> store \<Rightarrow> pyval \<Rightarrow> read_result" where
  "read_document sha ed keyring context approvers si st v =
     (let payload_type = fld v ''payload_type''; signatures = fld v ''signatures''; record = fld v ''record'';
          catalogued = (case approvers of None \<Rightarrow> [] | Some c \<Rightarrow> c) in
      if \<not> closed_keys v [''payload_type'', ''record'', ''signatures''] then plain_state RS_MALFORMED
      else if is_list payload_type \<or> is_dict payload_type then plain_state RS_MALFORMED
      else
        (case signed_fields_for payload_type of
           Inl _ \<Rightarrow> plain_state RS_WRONG_PAYLOAD_TYPE
         | Inr names \<Rightarrow>
             if \<not> is_list signatures then plain_state RS_MALFORMED
             else if items_of signatures = [] then plain_state RS_UNSIGNED
             else if \<not> signers_ok [] (items_of signatures) then plain_state RS_MALFORMED
             else
               (case map_of keyring (str_of (fld (hd (items_of signatures)) ''signer_id'')) of
                  None \<Rightarrow> plain_state (if keyring = [] then RS_MISSING_KEY else RS_UNKNOWN_SIGNER)
                | Some key \<Rightarrow>
                    if \<not> closed_keys record (names @ [''record_digest'']) then plain_state RS_MALFORMED
                    else
                      let content = verdict_content names record in
                      (case sha256_text sha content of
                         Inl _ \<Rightarrow> plain_state RS_MALFORMED
                       | Inr digest \<Rightarrow>
                           if fld record ''record_digest'' \<noteq> VStr digest then plain_state RS_BAD_SIGNATURE
                           else if \<not> verify_verdict ed content (fld (hd (items_of signatures)) ''signature'') (VStr key) payload_type
                           then plain_state RS_BAD_SIGNATURE
                           else
                             (case check_cosigners ed keyring catalogued content payload_type (tl (items_of signatures)) of
                                Some s \<Rightarrow> plain_state s
                              | None \<Rightarrow>
                                  judge_record sha ed context catalogued si st key record (items_of signatures) payload_type)))))"

definition read_publication ::
  "(bytes \<Rightarrow> bytes) \<Rightarrow> ed25519 \<Rightarrow> publication \<Rightarrow> (string \<times> string) list \<Rightarrow> verdict_context option \<Rightarrow>
   (string \<times> string list) list option \<Rightarrow> site option \<Rightarrow> store \<Rightarrow> read_result" where
  "read_publication sha ed file keyring context approvers si st =
     (case file of
        Missing \<Rightarrow> plain_state RS_ABSENT
      | Unreadable \<Rightarrow> plain_state RS_MALFORMED
      | Holds raw \<Rightarrow>
          (case json_loads_finite raw of
             Inl _ \<Rightarrow> plain_state RS_MALFORMED
           | Inr v \<Rightarrow> read_document sha ed keyring context approvers si st v))"

definition read_verdict_unbound ::
  "(bytes \<Rightarrow> bytes) \<Rightarrow> ed25519 \<Rightarrow> publication \<Rightarrow> (string \<times> string) list \<Rightarrow> (string \<times> string list) list option \<Rightarrow> store \<Rightarrow> read_result" where
  "read_verdict_unbound sha ed file keyring approvers st = read_publication sha ed file keyring None approvers None st"

definition read_verdict ::
  "(bytes \<Rightarrow> bytes) \<Rightarrow> ed25519 \<Rightarrow> publication \<Rightarrow> (string \<times> string) list \<Rightarrow> string \<Rightarrow> string \<Rightarrow> string option \<Rightarrow> string \<Rightarrow>
   (string \<times> string list) list option \<Rightarrow> site option \<Rightarrow> store \<Rightarrow> read_result" where
  "read_verdict sha ed file keyring subject_digest gate_id catalog_digest approver_id approvers si st =
     read_publication sha ed file keyring
       (Some [(''subject_digest'', VStr subject_digest), (''gate_id'', VStr gate_id), (''catalog_digest'', opt_str catalog_digest),
          (''approver_id'', VStr approver_id)]) approvers si st"

section \<open>What a verified verdict is\<close>

definition cosigned :: "ed25519 \<Rightarrow> (string \<times> string) list \<Rightarrow> (string \<times> string list) list \<Rightarrow> pyval \<Rightarrow> pyval \<Rightarrow> pyval \<Rightarrow> bool" where
  "cosigned ed keyring catalogued content payload_type s \<longleftrightarrow>
     (case map_of keyring (str_of (fld s ''signer_id'')) of
        Some key \<Rightarrow> verify_verdict ed content (fld s ''signature'') (VStr key) payload_type
      | None \<Rightarrow> (\<exists>active. map_of catalogued (str_of (fld s ''signer_id'')) = Some active \<and>
          (\<exists>key \<in> set active. verify_verdict ed content (fld s ''signature'') (VStr key) payload_type)))"

lemma check_cosigners_None:
  "check_cosigners ed keyring catalogued content pt ss = None \<longleftrightarrow>
     (\<forall>s \<in> set ss. cosigned ed keyring catalogued content pt s)"
  by (induction ss) (auto simp: Let_def cosigned_def list_ex_iff split: option.splits)

lemma check_cosigners_refuses: "check_cosigners ed keyring catalogued content pt ss \<noteq> Some RS_VERIFIED"
  by (induction ss) (auto simp: Let_def split: option.splits)

lemma judge_verified:
  "rr_state (judge_record sha ed (Some c) catalogued si st key record sigs pt) = RS_VERIFIED \<longleftrightarrow>
     (\<forall>p \<in> set c. fld record (fst p) = snd p) \<and> is_list (fld record ''causes'') \<and>
     any_unknown (items_of (fld record ''causes'')) = Inr False \<and>
     (is_str (fld record ''approver_id'') \<and> str_of (fld record ''approver_id'') \<in> fst ` set catalogued \<longrightarrow>
        (\<exists>s \<in> set (tl sigs). fld s ''signer_id'' = fld record ''approver_id'')) \<and>
     fld record ''history_verified'' = VBool True \<and> validate_checkpoint (fld record ''observation_checkpoint'') \<and>
     (\<exists>si'. si = Some si' \<and> verify_bound_history sha ed si' (fld record ''observation_checkpoint'') (VStr key) st)"
  by (auto simp: judge_record_def Let_def plain_state_def list_ex_iff split: sum.splits option.splits)

lemma judge_record_accepts:
  assumes "\<forall>p \<in> set c. fld record (fst p) = snd p" "is_list (fld record ''causes'')"
    "any_unknown (items_of (fld record ''causes'')) = Inr False"
    "str_of (fld record ''approver_id'') \<in> fst ` set catalogued \<Longrightarrow>
       \<exists>s \<in> set (tl sigs). fld s ''signer_id'' = fld record ''approver_id''"
    "fld record ''history_verified'' = VBool True" "validate_checkpoint (fld record ''observation_checkpoint'')"
    "verify_bound_history sha ed si' (fld record ''observation_checkpoint'') (VStr key) st"
  shows "judge_record sha ed (Some c) catalogued (Some si') st key record sigs pt =
    \<lparr>rr_state = RS_VERIFIED, rr_record = Some record, rr_payload_type = Some pt\<rparr>"
  using assms by (auto simp: judge_record_def Let_def list_ex_iff)

lemma current_version:
  assumes "signed_fields_for pt = Inr names" "''history_verified'' \<in> set names"
  shows "pt = VStr VERDICT_TYPE" "names = VERDICT_FIELDS"
  using assms
  by (cases pt; auto simp: signed_fields_for_def VERSIONS_def VERDICT_FIELDS_V1_def VERDICT_FIELDS_V2_def split: if_splits option.splits)+

lemma fld_has_key: "fld v k \<noteq> VNone \<Longrightarrow> has_key v k"
  by (force simp: fld_def has_key_def keys_def split: option.splits dest: map_of_SomeD)

lemma read_document_verified:
  assumes "rr_state (read_document sha ed keyring (Some c) approvers si st v) = RS_VERIFIED"
  defines "sigs \<equiv> items_of (fld v ''signatures'')" and "rcd \<equiv> fld v ''record''"
    and "catalogued \<equiv> (case approvers of None \<Rightarrow> [] | Some d \<Rightarrow> d)"
  shows "\<exists>names key digest. closed_keys v [''payload_type'', ''record'', ''signatures''] \<and> signed_fields_for (fld v ''payload_type'') = Inr names \<and>
    sigs \<noteq> [] \<and> signers_ok [] sigs \<and> map_of keyring (str_of (fld (hd sigs) ''signer_id'')) = Some key \<and>
    closed_keys rcd (names @ [''record_digest'']) \<and> sha256_text sha (verdict_content names rcd) = Inr digest \<and>
    fld rcd ''record_digest'' = VStr digest \<and>
    verify_verdict ed (verdict_content names rcd) (fld (hd sigs) ''signature'') (VStr key) (fld v ''payload_type'') \<and>
    (\<forall>s \<in> set (tl sigs). cosigned ed keyring catalogued (verdict_content names rcd) (fld v ''payload_type'') s) \<and>
    rr_state (judge_record sha ed (Some c) catalogued si st key rcd sigs (fld v ''payload_type'')) = RS_VERIFIED"
  using assms(1) unfolding read_document_def Let_def sigs_def [symmetric] rcd_def [symmetric] catalogued_def [symmetric]
  by (auto simp: plain_state_def check_cosigners_None [symmetric] check_cosigners_refuses
      split: if_split_asm sum.split_asm option.split_asm)

text \<open>
  C36: What a verified verdict is. When the reader answers \<open>verified\<close> for a judgment context, the file is
  a document of the current version whose record carries exactly that subject, gate, catalog and
  approver and the digest of its own fields; the first signature verifies over those fields under
  the key the keyring has for its signer; every further signature verifies; a catalogued approver
  has signed; and the record certifies a history that the retained checkpoint and the log confirm
  under the signer's key.
\<close>

theorem verified_verdict_sound:
  assumes "rr_state (read_verdict sha ed file keyring sd gate cat approver approvers si st) = RS_VERIFIED"
  shows "\<exists>raw v signer key si' digest. file = Holds raw \<and> json_loads_bytes raw = Inr v \<and>
    (let record = fld v ''record''; content = verdict_content VERDICT_FIELDS record; sigs = items_of (fld v ''signatures'');
         catalogued = (case approvers of None \<Rightarrow> [] | Some c \<Rightarrow> c) in
     fld v ''payload_type'' = VStr VERDICT_TYPE \<and> closed_keys record (VERDICT_FIELDS @ [''record_digest'']) \<and>
     fld record ''subject_digest'' = VStr sd \<and> fld record ''gate_id'' = VStr gate \<and>
     fld record ''catalog_digest'' = opt_str cat \<and> fld record ''approver_id'' = VStr approver \<and>
     sha256_text sha content = Inr digest \<and> fld record ''record_digest'' = VStr digest \<and>
     fld (hd sigs) ''signer_id'' = VStr signer \<and> map_of keyring signer = Some key \<and>
     verify_verdict ed content (fld (hd sigs) ''signature'') (VStr key) (VStr VERDICT_TYPE) \<and>
     (\<forall>s \<in> set (tl sigs). cosigned ed keyring catalogued content (VStr VERDICT_TYPE) s) \<and>
     (approver \<in> fst ` set catalogued \<longrightarrow> (\<exists>s \<in> set (tl sigs). fld s ''signer_id'' = VStr approver)) \<and>
     fld record ''history_verified'' = VBool True \<and> si = Some si' \<and>
     verify_bound_history sha ed si' (fld record ''observation_checkpoint'') (VStr key) st)"
proof -
  let ?c = "[(''subject_digest'', VStr sd), (''gate_id'', VStr gate), (''catalog_digest'', opt_str cat), (''approver_id'', VStr approver)]"
  obtain raw v where raw: "file = Holds raw" "json_loads_finite raw = Inr v"
    and doc: "rr_state (read_document sha ed keyring (Some ?c) approvers si st v) = RS_VERIFIED"
    using assms by (auto simp: read_verdict_def read_publication_def plain_state_def split: publication.splits sum.splits)
  have json: "json_loads_bytes raw = Inr v" using raw(2) by (auto simp: json_loads_finite_def bind_Inr_iff)
  define rcd where "rcd = fld v ''record''"
  define sigs where "sigs = items_of (fld v ''signatures'')"
  define catalogued where "catalogued = (case approvers of None \<Rightarrow> [] | Some d \<Rightarrow> d)"
  obtain names key digest where d: "signed_fields_for (fld v ''payload_type'') = Inr names" "sigs \<noteq> []" "signers_ok [] sigs"
    "map_of keyring (str_of (fld (hd sigs) ''signer_id'')) = Some key" "closed_keys rcd (names @ [''record_digest''])"
    "sha256_text sha (verdict_content names rcd) = Inr digest" "fld rcd ''record_digest'' = VStr digest"
    "verify_verdict ed (verdict_content names rcd) (fld (hd sigs) ''signature'') (VStr key) (fld v ''payload_type'')"
    "\<forall>s \<in> set (tl sigs). cosigned ed keyring catalogued (verdict_content names rcd) (fld v ''payload_type'') s"
    "rr_state (judge_record sha ed (Some ?c) catalogued si st key rcd sigs (fld v ''payload_type'')) = RS_VERIFIED"
    using read_document_verified [OF doc, folded rcd_def sigs_def catalogued_def] by blast
  note j = d(10) [unfolded judge_verified]
  have "has_key rcd ''history_verified''"
    using j by (intro fld_has_key) simp
  then have "''history_verified'' \<in> set names" using d(5) by (auto simp: closed_keys_def has_key_def)
  note version = current_version [OF d(1) this]
  obtain signer where "fld (hd sigs) ''signer_id'' = VStr signer"
    using d(2,3) by (cases sigs; cases "fld (hd sigs) ''signer_id''") auto
  moreover obtain si' where "si = Some si'" "verify_bound_history sha ed si' (fld rcd ''observation_checkpoint'') (VStr key) st"
    using j by blast
  moreover have "fld rcd ''subject_digest'' = VStr sd" "fld rcd ''gate_id'' = VStr gate" "fld rcd ''catalog_digest'' = opt_str cat"
    "fld rcd ''approver_id'' = VStr approver" "fld rcd ''history_verified'' = VBool True"
    using j by simp_all
  moreover from this(4) have "approver \<in> fst ` set catalogued \<longrightarrow> (\<exists>s \<in> set (tl sigs). fld s ''signer_id'' = VStr approver)"
    using j by auto
  moreover note d(4-9) [unfolded version]
  ultimately show ?thesis
    using raw(1) json version(1)
    unfolding Let_def rcd_def sigs_def catalogued_def 
    by - (rule exI [of _ raw], rule exI [of _ v], rule exI [of _ signer], rule exI [of _ key], rule exI [of _ si'], rule exI [of _ digest],
      simp only: str_of.simps simp_thms)
qed

section \<open>Publishing and reading back\<close>

lemma sign_verify_verdict:
  assumes "ed25519_laws ed" "sign_verdict ed content private_key payload_type = Inr s" "public_key_for ed private_key = Inr pub"
    "verdict_payload content' payload_type = verdict_payload content payload_type"
  shows "verify_verdict ed content' (VStr s) (VStr pub) (VStr payload_type)"
proof -
  obtain seed payload where k: "decode private_key (Some 32) ''private key'' = Inr seed"
    and p: "verdict_payload content payload_type = Inr payload" "s = encode (ed_sign ed seed payload)"
    using assms(2) by (auto simp: sign_verdict_def bind_Inr_iff)
  have "length seed = 32" using k by (simp add: decode_Inr_iff)
  have laws: "length (ed_public ed seed) = 32" "ed_key_ok ed (ed_public ed seed)"
    "length (ed_sign ed seed payload) = 64" "ed_verify ed (ed_public ed seed) (ed_sign ed seed payload) payload"
    using assms(1) \<open>length seed = 32\<close> by (auto simp: ed25519_laws_def)
  have "decode (VStr s) (Some 64) ''signature'' = Inr (ed_sign ed seed payload)"
    unfolding decode_Inr_iff p(2) using laws(3) by force
  moreover have "pub = encode (ed_public ed seed)"
    using assms(3) k by (simp add: public_key_for_def public_private_pair_def)
  then have "decode (VStr pub) (Some 32) ''public key'' = Inr (ed_public ed seed)"
    unfolding decode_Inr_iff using laws(1) by force
  moreover have "payload_type \<in> set (map fst VERSIONS)"
    using p(1) by (force simp: verdict_payload_def dest: map_of_SomeD split: option.splits)
  ultimately show ?thesis
    using p(1) assms(4) laws(2,4) by (simp add: verify_verdict_def)
qed

lemma keys_verdict_content [simp]: "keys (verdict_content names v) = names"
  by (simp add: verdict_content_def keys_def comp_def)

lemma verdict_content_sorted:
  assumes "wf_val (VDict d)"
  shows "sort_keys (verdict_content names (sort_keys (VDict d))) = sort_keys (verdict_content names (VDict d))"
  using fld_sort_keys [OF assms] by (simp add: verdict_content_def comp_def)

lemma verdict_payload_sorted:
  assumes "wf_val (VDict d)"
  shows "verdict_payload (verdict_content names (sort_keys (VDict d))) pt = verdict_payload (verdict_content names (VDict d)) pt"
  unfolding verdict_payload_def keys_verdict_content canonical_json_bytes_cong [OF verdict_content_sorted [OF assms]] ..

lemma any_unknown_known:
  "\<forall>c \<in> set cs. is_dict c \<and> fld c ''cause'' \<in> VStr ` set known_causes \<Longrightarrow> any_unknown cs = Inr False"
  by (induction cs) auto

lemma projected_known:
  assumes "gate_ok g" "evaluate g ev sd lane cat approver = Inr r"
    and "x \<in> set (project_causes r adm required removed)"
  shows "is_dict x \<and> fld x ''cause'' \<in> VStr ` set known_causes \<and> wf_val x"
proof -
  have kernel: "cc_cause cc \<in> set known_causes" if "cc \<in> set (ev_causes r)" for cc
    using evaluate_shape(5) [OF assms(1,2) that] by (auto simp: known_causes_def)
  have others: "{''removed-observation'', ''refused'', ''unattributable''} \<subseteq> set known_causes" by (simp add: known_causes_def)
  have wf: "wf_val (cause_record cc)" "wf_val (removed_cause c d)" "wf_val (plain_cause VNone k)" "wf_val (plain_cause (VStr c) k)" for cc c d k
    by (auto simp: cause_record_def removed_cause_def plain_cause_def split: option.splits)
  show ?thesis
    using assms(3) kernel others wf
    by (auto simp: project_causes_def Let_def kernel_causes_def unnamed_removals_def split: option.splits if_splits)
qed

lemma verdict_body_wf:
  assumes "\<forall>x \<in> set causes. wf_val x"
  shows "wf_val (VDict (verdict_body r adm causes h @ [(''record_digest'', VStr d)]))"
    "set (map fst (verdict_body r adm causes h)) = set VERDICT_FIELDS"
  using assms
  by (auto simp: verdict_body_def opt_str_def str_list_def rejection_record_def VERDICT_FIELDS_def VERDICT_FIELDS_V2_def
      VERDICT_FIELDS_V1_def split: option.splits)

lemma keys_sort_keys: "set (keys (sort_keys v)) = set (keys v)"
  by (cases v) (simp_all add: keys_def image_image)

text \<open>The document that \<open>publish_verdict\<close> writes, as a reader parses it.\<close>

lemma published_document:
  assumes "publish_verdict sha ed rcd signer priv second f = (Inr raw, f')"
    and "wf_val rcd" "utf8_val rcd" "utf8_ok signer" "\<forall>aid akey. second = Some (aid, akey) \<longrightarrow> utf8_ok aid"
  shows "\<exists>s entries digest. f' = Some raw \<and> set (keys rcd) = set (VERDICT_FIELDS @ [''record_digest'']) \<and>
    sha256_text sha (verdict_content VERDICT_FIELDS rcd) = Inr digest \<and> fld rcd ''record_digest'' = VStr digest \<and>
    sign_verdict ed (verdict_content VERDICT_FIELDS rcd) priv VERDICT_TYPE = Inr s \<and>
    (case second of None \<Rightarrow> entries = []
     | Some (aid, akey) \<Rightarrow> \<exists>sa. sign_verdict ed (verdict_content VERDICT_FIELDS rcd) akey VERDICT_TYPE = Inr sa \<and>
         entries = [VDict [(''signature'', VStr sa), (''signer_id'', VStr aid)]]) \<and>
    json_loads_finite raw = Inr (VDict [(''payload_type'', VStr VERDICT_TYPE), (''record'', sort_keys rcd),
      (''signatures'', VList (VDict [(''signature'', VStr s), (''signer_id'', VStr signer)] # entries))])"
proof -
  let ?content = "verdict_content VERDICT_FIELDS rcd"
  obtain digest s extra where e: "set (keys rcd) = set (VERDICT_FIELDS @ [''record_digest''])" "sha256_text sha ?content = Inr digest"
    "fld rcd ''record_digest'' = VStr digest" "sign_verdict ed ?content priv VERDICT_TYPE = Inr s"
    "(case second of None \<Rightarrow> Inr [] | Some (aid, akey) \<Rightarrow>
       bind (sign_verdict ed ?content akey VERDICT_TYPE) (\<lambda>s. Inr [signature_entry aid s])) = Inr extra"
    and b: "canonical_json_bytes (VDict [(''payload_type'', VStr VERDICT_TYPE), (''record'', rcd),
       (''signatures'', VList (signature_entry signer s # extra))]) = Inr raw" and f: "f' = Some raw"
    using assms(1) by (auto simp: publish_verdict_def verdict_envelope_def Let_def bind_Inr_iff split: sum.splits)
  have utf: "utf8_ok s'" if "sign_verdict ed c k pt = Inr s'" for c k pt s'
    using that b64encode_ascii by (auto simp: sign_verdict_def bind_Inr_iff encode_def ed_prefix_def is_ascii_def intro!: utf8_ok_ascii)
  have good: "utf8_val (signature_entry i s')" "wf_val (signature_entry i s')" if "utf8_ok s'" "utf8_ok i" for i s'
    using that by (auto simp: signature_entry_def)
  have sorted: "sort_keys (signature_entry i s') = VDict [(''signature'', VStr s'), (''signer_id'', VStr i)]" for i s'
    by (simp add: signature_entry_def list_less_def)
  have entries: "case second of None \<Rightarrow> map sort_keys extra = []
      | Some (aid, akey) \<Rightarrow> \<exists>sa. sign_verdict ed ?content akey VERDICT_TYPE = Inr sa \<and>
         map sort_keys extra = [VDict [(''signature'', VStr sa), (''signer_id'', VStr aid)]]"
    "\<forall>x \<in> set extra. utf8_val x \<and> wf_val x"
    using e(5) assms(5) good utf by (auto simp: bind_Inr_iff sorted split: option.splits)
  have "json_loads_finite raw = Inr (sort_keys (VDict [(''payload_type'', VStr VERDICT_TYPE), (''record'', rcd),
       (''signatures'', VList (signature_entry signer s # extra))]))"
    using entries(2) good [OF utf [OF e(4)] assms(4)] assms(2,3)
    by (intro json_loads_bytes_canonical(2) [OF b]) (auto simp: VERDICT_TYPE_def)
  also have "\<dots> = Inr (VDict [(''payload_type'', VStr VERDICT_TYPE), (''record'', sort_keys rcd),
      (''signatures'', VList (VDict [(''signature'', VStr s), (''signer_id'', VStr signer)] # map sort_keys extra))])"
    by (simp add: sorted list_less_def)
  finally show ?thesis using e(1-4) entries(1) f by blast
qed

lemma read_published:
  assumes "publish_verdict sha ed rcd signer priv second f = (Inr raw, f')" and "rcd = VDict d"
    and "wf_val rcd" "utf8_val rcd" "utf8_ok signer" "\<forall>aid akey. second = Some (aid, akey) \<longrightarrow> utf8_ok aid"
    and "ed25519_laws ed" "public_key_for ed priv = Inr pub" "map_of keyring signer = Some pub"
    and approver: "case second of None \<Rightarrow> True
      | Some (aid, akey) \<Rightarrow> aid \<noteq> signer \<and> map_of keyring aid = None \<and>
          (\<exists>apub active. public_key_for ed akey = Inr apub \<and> map_of catalogued aid = Some active \<and> apub \<in> set active)"
  shows "\<exists>sigs. f' = Some raw \<and> map (\<lambda>s. fld s ''signer_id'') (tl sigs) = (case second of None \<Rightarrow> [] | Some (aid, _) \<Rightarrow> [VStr aid]) \<and>
    read_publication sha ed (Holds raw) keyring context (Some catalogued) si st =
      judge_record sha ed context catalogued si st pub (sort_keys rcd) sigs (VStr VERDICT_TYPE)"
proof -
  let ?content = "verdict_content VERDICT_FIELDS rcd" and ?content' = "verdict_content VERDICT_FIELDS (sort_keys rcd)"
  obtain s entries digest where f: "f' = Some raw" and k: "set (keys rcd) = set (VERDICT_FIELDS @ [''record_digest''])"
    and dg: "sha256_text sha ?content = Inr digest" "fld rcd ''record_digest'' = VStr digest"
    and sg: "sign_verdict ed ?content priv VERDICT_TYPE = Inr s"
    and en: "case second of None \<Rightarrow> entries = []
     | Some (aid, akey) \<Rightarrow> \<exists>sa. sign_verdict ed ?content akey VERDICT_TYPE = Inr sa \<and>
         entries = [VDict [(''signature'', VStr sa), (''signer_id'', VStr aid)]]"
    and j: "json_loads_finite raw = Inr (VDict [(''payload_type'', VStr VERDICT_TYPE), (''record'', sort_keys rcd),
      (''signatures'', VList (VDict [(''signature'', VStr s), (''signer_id'', VStr signer)] # entries))])"
    using published_document [OF assms(1,3-6)] by blast
  let ?first = "VDict [(''signature'', VStr s), (''signer_id'', VStr signer)]"
  have same: "verdict_payload ?content' VERDICT_TYPE = verdict_payload ?content VERDICT_TYPE"
    using verdict_payload_sorted assms(2,3) by blast
  have "sha256_text sha ?content' = Inr digest"
    using canonical_json_bytes_cong [OF verdict_content_sorted] assms(2,3) dg(1) by (simp add: sha256_text_def canonical_sha256_def)
  moreover have "fld (sort_keys rcd) ''record_digest'' = VStr digest"
    using fld_sort_keys assms(2,3) dg(2) by simp
  moreover have "closed_keys (sort_keys rcd) (VERDICT_FIELDS @ [''record_digest''])"
    using k assms(2) keys_sort_keys [of rcd] by (simp add: closed_keys_def)
  moreover have "verify_verdict ed ?content' (VStr s) (VStr pub) (VStr VERDICT_TYPE)"
    by (rule sign_verify_verdict [OF assms(7) sg assms(8) same])
  moreover have "check_cosigners ed keyring catalogued ?content' (VStr VERDICT_TYPE) entries = None"
    using en approver sign_verify_verdict [OF assms(7) _ _ same]
    by (auto simp: check_cosigners_None cosigned_def shape_simps split: option.splits) blast
  moreover have "signers_ok [] (?first # entries)"
    using en approver by (auto simp: closed_keys_def keys_def shape_simps split: option.splits)
  moreover have "signed_fields_for (VStr VERDICT_TYPE) = Inr VERDICT_FIELDS" by (simp add: signed_fields_for_def VERSIONS_def)
  ultimately have "read_publication sha ed (Holds raw) keyring context (Some catalogued) si st =
      judge_record sha ed context catalogued si st pub (sort_keys rcd) (?first # entries) (VStr VERDICT_TYPE)"
    using j assms(9) by (simp add: read_publication_def read_document_def Let_def closed_keys_def keys_def shape_simps)
  moreover have "map (\<lambda>s. fld s ''signer_id'') entries = (case second of None \<Rightarrow> [] | Some (aid, _) \<Rightarrow> [VStr aid])"
    using en by (auto simp: shape_simps split: option.splits)
  ultimately show ?thesis using f by (intro exI [of _ "?first # entries"]) simp
qed

text \<open>The checkpoint that an anchored reconciliation read is bound to the history it reconciled.\<close>

lemma reconciled_history_bound:
  assumes "reconcile_anchored sha ed si pub st = Inr rc" "log_id si = Inr lid"
    "is_relative_to (absolute_path (si_cwd si) lid) (absolute_path (si_cwd si) (si_repository si))"
  shows "verify_bound_history sha ed si (sort_keys (checkpoint_record lid (rc_head rc) (rc_position rc))) pub st"
    "validate_checkpoint (sort_keys (checkpoint_record lid (rc_head rc) (rc_position rc)))"
proof -
  obtain path retained s where r: "checkpoint_path si = Inr path" "read_checkpoint ed (st_checkpoint st) lid pub = Inr retained"
    "anchored_snapshot sha (st_log st) retained = Inr s" "chained_projection s st = Inr rc"
    using assms(1,2) by (auto simp: reconcile_anchored_Inr read_anchor_def)
  have rc: "rc_head rc = sn_head s" "rc_position rc = sn_position s"
    using r(4) reconcile_Inr(1,2) by (auto simp: chained_projection_Inr)
  have v: "validate_checkpoint retained" "str_of (fld retained ''log_id'') = lid" "wf_val retained"
    using r(2) json_loads_wf(2)
    by (auto simp: read_checkpoint_def decode_checkpoint_def Let_def bind_Inr_iff split: sum.splits option.splits)
  then obtain d where d: "retained = VDict d" "distinct (map fst d)" "fst ` set d = {''log_id'', ''head'', ''position''}"
    by (auto simp: validate_checkpoint_def dest: closed_keysD)
  have fields: "fld retained ''log_id'' = VStr lid" "fld retained ''head'' = VStr (sn_head s)"
    "fld retained ''position'' = VInt (int (sn_position s))"
  proof -
    have "is_str (fld retained ''log_id'')" "is_str (fld retained ''head'')" "is_int (fld retained ''position'')"
      "sn_head s = str_of (fld retained ''head'')" "int (sn_position s) = int_of (fld retained ''position'')"
      using v(1) r(3) by (simp_all add: validate_checkpoint_def anchored_snapshot_Inr)
    then show "fld retained ''log_id'' = VStr lid" "fld retained ''head'' = VStr (sn_head s)"
      "fld retained ''position'' = VInt (int (sn_position s))"
      using v(2) by (metis is_str.elims(2) str_of.simps(1), metis is_str.elims(2) str_of.simps(1), metis is_int.elims(2) int_of.simps(1))
  qed
  have "card (fst ` set d) = length d" using d(2) by (metis distinct_card length_map list.set_map)
  then have len: "length d = 3" using d(3) by simp
  have valid: "validate_checkpoint (sort_keys (checkpoint_record lid (rc_head rc) (rc_position rc)))"
    using v(1,2) fields rc by (auto simp: validate_checkpoint_def closed_keys_def keys_def shape_simps)
  then show "validate_checkpoint (sort_keys (checkpoint_record lid (rc_head rc) (rc_position rc)))" .
  let ?e = "[(''head'', VStr (sn_head s)), (''log_id'', VStr lid), (''position'', VInt (int (sn_position s)))]"
  have "\<exists>w. map_of ?e (fst p) = Some w \<and> py_eq (snd p) w" if p: "p \<in> set d" for p
  proof -
    have "map_of d (fst p) = Some (snd p)" using p d(2) by simp
    then have "snd p = fld retained (fst p)" using d(1) by (simp add: fld_VDict)
    moreover have "fst p \<in> {''log_id'', ''head'', ''position''}" using p d(3) by (metis image_eqI)
    ultimately show ?thesis by (auto simp: fields)
  qed
  moreover have "py_eq_items c e" if "\<forall>p \<in> set c. \<exists>w. map_of e (fst p) = Some w \<and> py_eq (snd p) w" for c e
    using that by (induction c) auto
  ultimately have "py_eq_items d ?e" by blast
  then have "py_eq retained (sort_keys (checkpoint_record lid (rc_head rc) (rc_position rc)))"
    using d(1) len rc by simp
  then show "verify_bound_history sha ed si (sort_keys (checkpoint_record lid (rc_head rc) (rc_position rc))) pub st"
    using valid r(1-3) rc assms(3) fields unfolding verify_bound_history_def
    by (simp add: Let_def anchored_snapshot_Inr del: checkpoint_sorted)
qed

lemma evaluate_context:
  "evaluate g ev sd lane cat approver = Inr r \<Longrightarrow>
   ev_subject_digest r = sd \<and> ev_gate_id r = g_gate_id g \<and> ev_catalog_digest r = cat \<and> ev_approver_id r = approver"
  by (auto simp: evaluate_def Let_def bind_Inr_iff split: if_splits)

lemma published_reads:
  assumes "gate_ok g" and "evaluate g (ad_evidence adm) sd lane cat approver = Inr r"
    and "project_verdict sha r adm (map c_claim_id (g_required_claims g)) h removed = Inr rcd"
    and "publish_verdict sha ed rcd signer priv second f = (Inr raw, f')"
    and "reconcile_anchored sha ed si (VStr pub) st = Inr rc" and "log_id si = Inr lid"
    and "is_relative_to (absolute_path (si_cwd si) lid) (absolute_path (si_cwd si) (si_repository si))"
    and "ad_history_verified adm" and "ad_checkpoint adm = Some (lid, rc_head rc, rc_position rc)"
    and "ed25519_laws ed" and "public_key_for ed priv = Inr pub" and "map_of keyring signer = Some pub"
    and "case second of None \<Rightarrow> approver \<notin> fst ` set catalogued
      | Some (aid, akey) \<Rightarrow> aid = approver \<and> aid \<noteq> signer \<and> map_of keyring aid = None \<and>
          (\<exists>apub active. public_key_for ed akey = Inr apub \<and> map_of catalogued aid = Some active \<and> apub \<in> set active)"
    and "utf8_val rcd" and "utf8_ok signer"
  shows "f' = Some raw \<and>
    read_verdict sha ed (Holds raw) keyring sd (g_gate_id g) cat approver (Some catalogued) (Some si) st =
      \<lparr>rr_state = RS_VERIFIED, rr_record = Some (sort_keys rcd), rr_payload_type = Some (VStr VERDICT_TYPE)\<rparr>"
proof -
  let ?cs = "project_causes r adm (map c_claim_id (g_required_claims g)) removed"
  let ?check = "checkpoint_record lid (rc_head rc) (rc_position rc)"
  obtain digest where rcd: "rcd = VDict (verdict_body r adm ?cs h @ [(''record_digest'', VStr digest)])"
    using assms(3) by (auto simp: project_verdict_def Let_def bind_Inr_iff)
  have known: "\<forall>x \<in> set ?cs. is_dict x \<and> fld x ''cause'' \<in> VStr ` set known_causes \<and> wf_val x"
    using projected_known [OF assms(1,2)] by blast
  then have wf: "wf_val rcd" unfolding rcd by (intro verdict_body_wf(1)) blast
  have fields: "fld (sort_keys rcd) k = sort_keys (fld rcd k)" for k using fld_sort_keys wf rcd by metis
  have body: "fld rcd ''subject_digest'' = VStr sd" "fld rcd ''gate_id'' = VStr (g_gate_id g)" "fld rcd ''catalog_digest'' = opt_str cat"
    "fld rcd ''approver_id'' = VStr approver" "fld rcd ''causes'' = VList ?cs" "fld rcd ''history_verified'' = VBool True"
    "fld rcd ''observation_checkpoint'' = ?check"
    unfolding rcd using evaluate_context [OF assms(2)] assms(8,9)
    by (simp_all add: verdict_body_def shape_simps checkpoint_record_def)
  have approver_text: "utf8_ok approver"
    using assms(14) evaluate_context [OF assms(2)] unfolding rcd verdict_body_def by simp
  let ?c = "[(''subject_digest'', VStr sd), (''gate_id'', VStr (g_gate_id g)), (''catalog_digest'', opt_str cat),
    (''approver_id'', VStr approver)]"
  have second: "case second of None \<Rightarrow> True
      | Some (aid, akey) \<Rightarrow> aid \<noteq> signer \<and> map_of keyring aid = None \<and>
          (\<exists>apub active. public_key_for ed akey = Inr apub \<and> map_of catalogued aid = Some active \<and> apub \<in> set active)"
    "\<forall>aid akey. second = Some (aid, akey) \<longrightarrow> utf8_ok aid"
    using assms(13) approver_text by (auto split: option.splits)
  obtain sigs where f: "f' = Some raw"
    and signed: "map (\<lambda>s. fld s ''signer_id'') (tl sigs) = (case second of None \<Rightarrow> [] | Some (aid, _) \<Rightarrow> [VStr aid])"
    and read: "read_publication sha ed (Holds raw) keyring (Some ?c) (Some catalogued) (Some si) st =
      judge_record sha ed (Some ?c) catalogued (Some si) st pub (sort_keys rcd) sigs (VStr VERDICT_TYPE)"
    using read_published [OF assms(4) rcd wf assms(14,15) second(2) assms(10-12) second(1)] by blast
  have "judge_record sha ed (Some ?c) catalogued (Some si) st pub (sort_keys rcd) sigs (VStr VERDICT_TYPE) =
      \<lparr>rr_state = RS_VERIFIED, rr_record = Some (sort_keys rcd), rr_payload_type = Some (VStr VERDICT_TYPE)\<rparr>"
  proof (rule judge_record_accepts)
    show "\<forall>p \<in> set ?c. fld (sort_keys rcd) (fst p) = snd p" by (simp add: fields body opt_str_def split: option.split)
    have "any_unknown (map sort_keys ?cs) = Inr False"
    proof (rule any_unknown_known, rule ballI)
      fix x assume "x \<in> set (map sort_keys ?cs)"
      then obtain y d where y: "x = sort_keys (VDict d)" "y = VDict d" "wf_val y" "fld y ''cause'' \<in> VStr ` set known_causes"
        using known by (auto elim!: is_dict.elims)
      then show "is_dict x \<and> fld x ''cause'' \<in> VStr ` set known_causes" using fld_sort_keys [of d "''cause''"] by auto
    qed
    then show "is_list (fld (sort_keys rcd) ''causes'')" "any_unknown (items_of (fld (sort_keys rcd) ''causes'')) = Inr False"
      by (simp_all add: fields body)
    show "\<exists>s \<in> set (tl sigs). fld s ''signer_id'' = fld (sort_keys rcd) ''approver_id''"
      if "str_of (fld (sort_keys rcd) ''approver_id'') \<in> fst ` set catalogued"
    proof -
      have "VStr approver \<in> set (map (\<lambda>s. fld s ''signer_id'') (tl sigs))"
        using that assms(13) unfolding signed by (auto simp: fields body split: option.splits)
      then show ?thesis by (auto simp: fields body)
    qed
  qed (use reconciled_history_bound [OF assms(5-7)] in \<open>simp_all only: fields body sort_keys.simps\<close>)
  then show ?thesis using f read unfolding read_verdict_def by simp
qed

text \<open>A projected record without surrogates can be published with any well-formed key.\<close>

lemma sort_keys_perm:
  assumes "mset d = mset e" "distinct (map fst d)"
  shows "sort_keys (VDict d) = sort_keys (VDict e)"
proof -
  let ?f = "\<lambda>p. (fst p, sort_keys (snd p))"
  have "mset (map ?f e) = mset (map ?f d)" using assms(1) by simp
  moreover have "inj_on fst (set (map ?f d))"
    using assms(2) by (auto simp: distinct_map inj_on_def)
  ultimately have "sort_key fst (map ?f d) = sort_key fst (map ?f e)"
    by (intro sort_key_inj_key_eq) simp_all
  then show ?thesis by simp
qed

lemma validate_items_Inr:
  "validate_publication_items d = Inr () \<longleftrightarrow> (\<forall>p \<in> set d. \<not> non_bmp (fst p) \<and> validate_publication_value (snd p) = Inr ())"
  by (induction d) (auto simp: bind_Inr_iff)

lemma content_of_body:
  assumes "\<forall>x \<in> set causes. wf_val x" and d_def: "d = verdict_body r adm causes h"
  shows "mset (map (\<lambda>f. (f, fld (VDict (d @ [(''record_digest'', VStr x)])) f)) VERDICT_FIELDS) = mset d" "distinct (map fst d)"
proof -
  have wf: "wf_val (VDict (d @ [(''record_digest'', VStr x)]))" and ks: "set (map fst d) = set VERDICT_FIELDS"
    using verdict_body_wf(1) [OF assms(1), of r adm h x] verdict_body_wf(2) [OF assms(1), of r adm h] by (simp_all add: d_def)
  then show dist: "distinct (map fst d)" by simp
  have names: "distinct VERDICT_FIELDS"
    by (simp add: VERDICT_FIELDS_def VERDICT_FIELDS_V2_def VERDICT_FIELDS_V1_def)
  have "mset (map (\<lambda>f. (f, fld (VDict (d @ [(''record_digest'', VStr x)])) f)) (map fst d)) = mset d"
  proof -
    have "fld (VDict (d @ [(''record_digest'', VStr x)])) (fst p) = snd p" if p: "p \<in> set d" for p
    proof -
      have "map_of d (fst p) = Some (snd p)" using p dist by simp
      then show ?thesis by (simp add: fld_VDict map_add_def)
    qed
    then have "map (\<lambda>f. (f, fld (VDict (d @ [(''record_digest'', VStr x)])) f)) (map fst d) = d"
      by (simp add: comp_def map_idI)
    then show ?thesis by simp
  qed
  moreover have "mset VERDICT_FIELDS = mset (map fst d)"
    using names dist ks by (intro set_eq_iff_mset_eq_distinct [THEN iffD1]) simp_all
  ultimately show "mset (map (\<lambda>f. (f, fld (VDict (d @ [(''record_digest'', VStr x)])) f)) VERDICT_FIELDS) = mset d"
    by (metis mset_map)
qed

lemma projected_publishable:
  assumes "gate_ok g" "evaluate g ev sd lane cat approver = Inr r"
    "project_verdict sha r adm required h removed = Inr rcd" "plain_val rcd" "list_all (\<lambda>c. c \<noteq> CHR 0xED) signer"
    "public_key_for ed priv = Inr pub"
  shows "\<exists>raw. publish_verdict sha ed rcd signer priv None f = (Inr raw, Some raw)"
proof -
  define d where "d = verdict_body r adm (project_causes r adm required removed) h"
  obtain digest where rcd: "rcd = VDict (d @ [(''record_digest'', VStr digest)])"
    and ok: "validate_publication_value (VDict d) = Inr ()" "sha256_text sha (VDict d) = Inr digest"
    using assms(3) by (auto simp: project_verdict_def Let_def bind_Inr_iff d_def)
  let ?content = "verdict_content VERDICT_FIELDS rcd"
  have wf: "\<forall>x \<in> set (project_causes r adm required removed). wf_val x" using projected_known [OF assms(1,2)] by blast
  have m: "mset (map (\<lambda>f. (f, fld rcd f)) VERDICT_FIELDS) = mset d" "distinct (map fst d)"
    using content_of_body(1) [OF wf d_def, of digest] content_of_body(2) [OF wf d_def] by (simp_all add: rcd)
  have "sort_keys ?content = sort_keys (VDict d)"
    using sort_keys_perm [of d "map (\<lambda>f. (f, fld rcd f)) VERDICT_FIELDS"] m by (simp add: verdict_content_def)
  then have cong: "canonical_json_bytes ?content = canonical_json_bytes (VDict d)" by (rule canonical_json_bytes_cong)
  then have sha: "sha256_text sha ?content = Inr digest" using ok(2) by (simp add: sha256_text_def canonical_sha256_def)
  have "validate_publication_value ?content = Inr ()"
    using ok(1) mset_eq_setD [OF m(1)] by (simp add: validate_items_Inr verdict_content_def)
  moreover have "set (keys rcd) = set (VERDICT_FIELDS @ [''record_digest''])"
    using verdict_body_wf(2) [OF wf, of r adm h] by (auto simp: rcd keys_def d_def)
  moreover obtain b where "canonical_json_bytes ?content = Inr b" using sha by (auto simp: sha256_text_Inr)
  then obtain s where s: "sign_verdict ed ?content priv VERDICT_TYPE = Inr s"
    using assms(6) by (auto simp: sign_verdict_def verdict_payload_def VERSIONS_def public_key_for_def bind_Inr_iff)
  moreover have "plain_val (signature_entry signer s)"
  proof -
    have "list_all (\<lambda>c. c \<noteq> CHR 0xED) (b64encode x)" for x
      using b64encode_ascii [of x] by (rule list.pred_mono_strong) (auto simp: is_ascii_def)
    then show ?thesis
      using s assms(5) by (auto simp: sign_verdict_def bind_Inr_iff encode_def ed_prefix_def signature_entry_def)
  qed
  then obtain raw where "canonical_json_bytes (VDict [(''payload_type'', VStr VERDICT_TYPE), (''record'', rcd),
      (''signatures'', VList [signature_entry signer s])]) = Inr raw"
    using canonical_json_bytes_plain [of "VDict [(''payload_type'', VStr VERDICT_TYPE), (''record'', rcd),
      (''signatures'', VList [signature_entry signer s])]"] assms(4) by (auto simp: VERDICT_TYPE_def)
  moreover have "map_of d ''record_digest'' = None" unfolding d_def by (simp add: verdict_body_def)
  then have "fld rcd ''record_digest'' = VStr digest" by (simp add: rcd fld_VDict map_add_def)
  ultimately show ?thesis using sha by (simp add: publish_verdict_def verdict_envelope_def Let_def)
qed

text \<open>
  C37: Publishing and reading back. A verdict projected from an evaluation over an anchored history and
  published with the key the keyring lists for the verdict signer, and countersigned by the approver
  when the catalog lists one, is read back as verified for its own subject, gate, catalog and
  approver, and the reader hands out the published record.
\<close>

theorem published_verdict_verified:
  assumes "gate_ok g" and "evaluate g (ad_evidence adm) sd lane cat approver = Inr r"
    and "project_verdict sha r adm (map c_claim_id (g_required_claims g)) h removed = Inr rcd"
    and "publish_verdict sha ed rcd signer priv second f = (Inr raw, f')"
    and "reconcile_anchored sha ed si (VStr pub) st = Inr rc" and "log_id si = Inr lid"
    and "is_relative_to (absolute_path (si_cwd si) lid) (absolute_path (si_cwd si) (si_repository si))"
    and "ad_history_verified adm" and "ad_checkpoint adm = Some (lid, rc_head rc, rc_position rc)"
    and "ed25519_laws ed" and "public_key_for ed priv = Inr pub" and "map_of keyring signer = Some pub"
    and "case second of None \<Rightarrow> approver \<notin> fst ` set catalogued
      | Some (aid, akey) \<Rightarrow> aid = approver \<and> aid \<noteq> signer \<and> map_of keyring aid = None \<and>
          (\<exists>apub active. public_key_for ed akey = Inr apub \<and> map_of catalogued aid = Some active \<and> apub \<in> set active)"
    and "utf8_val rcd" and "utf8_ok signer"
  shows "f' = Some raw \<and>
    read_verdict sha ed (Holds raw) keyring sd (g_gate_id g) cat approver (Some catalogued) (Some si) st =
      \<lparr>rr_state = RS_VERIFIED, rr_record = Some (sort_keys rcd), rr_payload_type = Some (VStr VERDICT_TYPE)\<rparr>"
  by (rule published_reads [OF assms])

section \<open>Examples\<close>

abbreviation demo_signer :: string where
  "demo_signer \<equiv> ''kernel-verdict-signer''"

definition demo_anchored :: admission where
  "demo_anchored = (demo_admission [])\<lparr>ad_checkpoint := Some (demo_log_id, GENESIS, 0), ad_history_verified := True\<rparr>"

definition demo_published :: pyval where
  "demo_published =
     (case project_verdict pad_sha demo_absent demo_anchored (map c_claim_id (g_required_claims demo_gate)) None [] of
        Inr v \<Rightarrow> v | Inl _ \<Rightarrow> VNone)"

lemma demo_published_Inr:
  "project_verdict pad_sha demo_absent demo_anchored (map c_claim_id (g_required_claims demo_gate)) None [] = Inr demo_published"
  "plain_val demo_published" "utf8_val demo_published"
proof -
  let ?body = "verdict_body demo_absent demo_anchored [plain_cause (VStr ''tests'') ''absent''] None"
  have cs: "project_causes demo_absent demo_anchored (map c_claim_id (g_required_claims demo_gate)) [] =
      [plain_cause (VStr ''tests'') ''absent'']" by code_simp
  have ascii: "ascii_val (VDict ?body)" by code_simp
  have "check_causes (map c_claim_id (g_required_claims demo_gate)) [] [plain_cause (VStr ''tests'') ''absent''] = Inr ()"
    "validate_publication_value (VDict ?body) = Inr ()" by code_simp+
  then have "is_ok (project_verdict pad_sha demo_absent demo_anchored (map c_claim_id (g_required_claims demo_gate)) None [])"
    using cs ascii_val_plain [OF ascii] by (intro project_verdict_ok) simp_all
  then show p: "project_verdict pad_sha demo_absent demo_anchored (map c_claim_id (g_required_claims demo_gate)) None [] = Inr demo_published"
    unfolding demo_published_def by (auto simp: is_ok_iff)
  then obtain digest where d: "demo_published = VDict (?body @ [(''record_digest'', VStr digest)])" "sha256_text pad_sha (VDict ?body) = Inr digest"
    unfolding project_verdict_def cs Let_def bind_Inr_iff sum.inject by metis
  have "is_digest digest" by (rule sha256_text_digest [OF d(2)]) (simp add: length_pad_sha)
  then have a: "ascii_val demo_published" using ascii digest_ascii unfolding d(1) by (auto simp: is_ascii_def)
  then show "plain_val demo_published" by (rule ascii_val_plain)
  have "ascii_val v \<Longrightarrow> utf8_val v" for v
    by (induction v rule: pyval.induct) (fastforce simp: prod_set_defs utf8_ok_ascii)+
  then show "utf8_val demo_published" using a .
qed

lemma demo_evaluated: "evaluate demo_gate (ad_evidence demo_anchored) zero_digest ''lane'' None ''human'' = Inr demo_absent"
  using demo_absent_Inr [of "[]"] by (simp add: demo_anchored_def)

lemma demo_reading:
  obtains st raw where "publish_verdict pad_sha toy_ed demo_published demo_signer toy_text None None = (Inr raw, Some raw)"
    "reconcile_anchored pad_sha toy_ed demo_site toy_text st =
      Inr \<lparr>rc_records = [], rc_removed = [], rc_chained = [], rc_head = GENESIS, rc_position = 0\<rparr>"
proof -
  obtain raw where "publish_verdict pad_sha toy_ed demo_published demo_signer toy_text None None = (Inr raw, Some raw)"
    using projected_publishable [OF demo_gate_ok(1) demo_evaluated demo_published_Inr(1,2) _ demo_envelope_signed(2), of demo_signer None] by auto
  then show thesis using demo_bootstrap that by metis
qed

abbreviation demo_verified :: read_result where
  "demo_verified \<equiv>
     \<lparr>rr_state = RS_VERIFIED, rr_record = Some (sort_keys demo_published), rr_payload_type = Some (VStr VERDICT_TYPE)\<rparr>"

lemma demo_anchor_fields:
  "ad_history_verified demo_anchored" "ad_checkpoint demo_anchored = Some (demo_log_id, GENESIS, 0)"
  "is_relative_to (absolute_path (si_cwd demo_site) demo_log_id) (absolute_path (si_cwd demo_site) (si_repository demo_site))"
  "g_gate_id demo_gate = ''gate''"
  by (simp_all add: demo_anchored_def) code_simp+

theorem published_verdict_verified_witness:
  "\<exists>raw st. publish_verdict pad_sha toy_ed demo_published demo_signer toy_text None None = (Inr raw, Some raw) \<and>
    read_verdict pad_sha toy_ed (Holds raw) [(demo_signer, encode toy_key)] zero_digest ''gate'' None ''human'' (Some []) (Some demo_site) st =
      demo_verified"
proof -
  obtain st raw where w: "publish_verdict pad_sha toy_ed demo_published demo_signer toy_text None None = (Inr raw, Some raw)"
    "reconcile_anchored pad_sha toy_ed demo_site toy_text st =
      Inr \<lparr>rc_records = [], rc_removed = [], rc_chained = [], rc_head = GENESIS, rc_position = 0\<rparr>"
    by (rule demo_reading)
  have "Some raw = Some raw \<and>
    read_verdict pad_sha toy_ed (Holds raw) [(demo_signer, encode toy_key)] zero_digest (g_gate_id demo_gate) None ''human'' (Some [])
      (Some demo_site) st = demo_verified"
    using published_verdict_verified [OF demo_gate_ok(1) demo_evaluated demo_published_Inr(1) w demo_paths(2) demo_anchor_fields(3,1)
        _ toy_laws demo_envelope_signed(2) _ _ demo_published_Inr(3), where keyring = "[(demo_signer, encode toy_key)]" and catalogued = "[]"]
    by (simp add: demo_anchor_fields)
  then show ?thesis using w(1) demo_anchor_fields(4) by auto
qed

lemma demo_read_verified:
  "\<exists>raw st. read_verdict pad_sha toy_ed (Holds raw) [(demo_signer, encode toy_key)] zero_digest ''gate'' None ''human'' (Some [])
     (Some demo_site) st = demo_verified"
proof -
  obtain st raw where w: "publish_verdict pad_sha toy_ed demo_published demo_signer toy_text None None = (Inr raw, Some raw)"
    "reconcile_anchored pad_sha toy_ed demo_site toy_text st =
      Inr \<lparr>rc_records = [], rc_removed = [], rc_chained = [], rc_head = GENESIS, rc_position = 0\<rparr>"
    by (rule demo_reading)
  then show ?thesis
    using published_reads [OF demo_gate_ok(1) demo_evaluated demo_published_Inr(1) w demo_paths(2) demo_anchor_fields(3,1)
        _ toy_laws demo_envelope_signed(2) _ _ demo_published_Inr(3), where keyring = "[(demo_signer, encode toy_key)]" and catalogued = "[]"]
    by (auto simp: demo_anchor_fields)
qed

theorem verified_verdict_sound_witness:
  "\<exists>raw st v key digest. read_verdict pad_sha toy_ed (Holds raw) [(demo_signer, encode toy_key)] zero_digest ''gate'' None ''human'' (Some [])
     (Some demo_site) st = demo_verified \<and>
    json_loads_bytes raw = Inr v \<and> fld (fld v ''record'') ''subject_digest'' = VStr zero_digest \<and>
    fld (fld v ''record'') ''record_digest'' = VStr digest \<and>
    verify_bound_history pad_sha toy_ed demo_site (fld (fld v ''record'') ''observation_checkpoint'') (VStr key) st"
proof -
  obtain raw st where r: "read_verdict pad_sha toy_ed (Holds raw) [(demo_signer, encode toy_key)] zero_digest ''gate'' None ''human''
     (Some []) (Some demo_site) st = demo_verified"
    using demo_read_verified by blast
  then have "rr_state (read_verdict pad_sha toy_ed (Holds raw) [(demo_signer, encode toy_key)] zero_digest ''gate'' None ''human''
     (Some []) (Some demo_site) st) = RS_VERIFIED" by simp
  from verified_verdict_sound [OF this] show ?thesis using r unfolding Let_def by auto
qed

end
