(* ===== verification/Trust.thy ===== *)
theory Trust
  imports Capabilities
begin

text \<open>
  The committed trust roots: the producer keyring
  (\<^verbatim>\<open>src/src/ranex/policy/adapters/configuration/yaml/producer_keyring.py\<close>), the principal catalog
  (\<^verbatim>\<open>principal_catalog.py\<close>) and the check that the approver holds a catalogued key
  (\<open>require_catalogued_approver\<close> of \<^verbatim>\<open>src/src/ranex/cli/main.py\<close>). The YAML library is a parameter: it
  turns a text into a node tree and a value into a text. Shown: in an accepted trust root one key
  names one identity, across producers, principals and the verdict signer; a retired key resolves and
  authorises nothing; and an approver that was let in holds the role and an active key.
\<close>

section \<open>YAML documents\<close>

text \<open>
  Nodes after composition: scalars of the JSON types, other scalars (dates and the like) by their
  text, sequences, and mappings with nodes as keys.
\<close>

datatype yaml = YAtom pyval | YOther string | YSeq "yaml list" | YMap "(yaml \<times> yaml) list"

record yaml_library =
  yl_compose :: "string \<Rightarrow> yaml result"
  yl_dump :: "yaml \<Rightarrow> string"

fun yaml_repr :: "yaml \<Rightarrow> string" where
  "yaml_repr (YAtom v) = py_repr v"
| "yaml_repr (YOther s) = s"
| "yaml_repr (YSeq xs) = ''['' @ join '', '' (map yaml_repr xs) @ '']''"
| "yaml_repr (YMap m) = ''{'' @ join '', '' (map (\<lambda>p. yaml_repr (fst p) @ '': '' @ yaml_repr (snd p)) m) @ ''}''"

text \<open>Equality of keys that can be hashed; sequences and mappings cannot.\<close>

fun key_eq :: "yaml \<Rightarrow> yaml \<Rightarrow> bool" where
  "key_eq (YAtom v) (YAtom w) = py_eq v w"
| "key_eq (YOther s) (YOther t) = (s = t)"
| "key_eq _ _ = False"

fun usable_key :: "yaml \<Rightarrow> bool" where
  "usable_key (YAtom _) = True"
| "usable_key (YOther _) = True"
| "usable_key _ = False"

fun check_keys :: "yaml list \<Rightarrow> yaml list \<Rightarrow> unit result" where
  "check_keys seen [] = Inr ()"
| "check_keys seen (k # ks) =
     ensure (usable_key k) (ValueError (''keyring entry '' @ yaml_repr k @ '' is not a usable producer id: unhashable type'')) (
     ensure (\<not> list_ex (\<lambda>s. key_eq s k) seen) (ValueError (''duplicate entry for '' @ yaml_repr k @ '' in the keyring'')) (
     check_keys (k # seen) ks))"

text \<open>
  \<open>construct_mapping\<close> at every mapping of the document: the keys are checked before the values are
  built. The tag of a merge key has no constructor in the safe loader, so a document with one is a
  failure of the library.
\<close>

fun construct :: "yaml \<Rightarrow> unit result"
  and construct_items :: "yaml list \<Rightarrow> unit result"
  and construct_values :: "(yaml \<times> yaml) list \<Rightarrow> unit result"
where
  "construct (YAtom v) = Inr ()"
| "construct (YOther s) = Inr ()"
| "construct (YSeq xs) = construct_items xs"
| "construct (YMap m) = bind (check_keys [] (map fst m)) (\<lambda>_. construct_values m)"
| "construct_items [] = Inr ()"
| "construct_items (x # xs) = bind (construct x) (\<lambda>_. construct_items xs)"
| "construct_values [] = Inr ()"
| "construct_values ((k, v) # m) = bind (construct v) (\<lambda>_. construct_values m)"

text \<open>\<open>yaml.load\<close> under the handlers of a caller: for a keyring error and for any other failure.\<close>

definition yaml_load :: "yaml_library \<Rightarrow> string \<Rightarrow> (string \<Rightarrow> exn) \<Rightarrow> (string \<Rightarrow> exn) \<Rightarrow> yaml result" where
  "yaml_load yl text keyring_error invalid =
     (case yl_compose yl text of
        Inl e \<Rightarrow> Inl (invalid (exn_text e))
      | Inr node \<Rightarrow>
          (case construct node of Inl e \<Rightarrow> Inl (keyring_error (exn_text e)) | Inr _ \<Rightarrow> Inr node))"

fun is_map :: "yaml \<Rightarrow> bool" where
  "is_map (YMap _) = True" | "is_map _ = False"

fun entries_of :: "yaml \<Rightarrow> (yaml \<times> yaml) list" where
  "entries_of (YMap m) = m" | "entries_of _ = []"

fun yaml_str :: "yaml \<Rightarrow> string option" where
  "yaml_str (YAtom (VStr s)) = Some s" | "yaml_str _ = None"

fun yaml_seq :: "yaml \<Rightarrow> yaml list option" where
  "yaml_seq (YSeq xs) = Some xs" | "yaml_seq _ = None"

definition field_names :: "yaml \<Rightarrow> yaml list" where
  "field_names v = map fst (entries_of v)"

definition yget :: "yaml \<Rightarrow> string \<Rightarrow> yaml option" where
  "yget v k = map_of (entries_of v) (YAtom (VStr k))"

fun yaml_val :: "yaml \<Rightarrow> pyval" where
  "yaml_val (YAtom v) = v" | "yaml_val _ = VNone"

section \<open>Principals\<close>

definition CATALOG_ROLES :: "string list" where
  "CATALOG_ROLES = ROLES @ [''service'']"

definition ACTIVE :: string where
  "ACTIVE = ''active''"

definition RETIRED :: string where
  "RETIRED = ''retired''"

text \<open>Keys are pairs of the public key and its status.\<close>

record principal =
  pr_principal_id :: string
  pr_role :: string
  pr_keys :: "(string \<times> string) list"

definition active_keys :: "principal \<Rightarrow> string list" where
  "active_keys p = map fst (filter (\<lambda>k. snd k = ACTIVE) (pr_keys p))"

definition has_active :: "principal \<Rightarrow> string \<Rightarrow> bool" where
  "has_active p public_key \<longleftrightarrow> public_key \<in> set (active_keys p)"

record principal_catalog =
  pc_principals :: "(string \<times> principal) list"
  pc_by_key :: "(string \<times> principal) list"

definition resolve :: "principal_catalog \<Rightarrow> pyval \<Rightarrow> principal option" where
  "resolve c public_key = (case public_key of VStr k \<Rightarrow> map_of (pc_by_key c) k | _ \<Rightarrow> None)"

definition may_sign :: "principal_catalog \<Rightarrow> pyval \<Rightarrow> bool" where
  "may_sign c public_key = (case resolve c public_key of None \<Rightarrow> False | Some p \<Rightarrow> has_active p (str_of public_key))"

definition require_principal :: "principal_catalog \<Rightarrow> pyval \<Rightarrow> string \<Rightarrow> principal result" where
  "require_principal c public_key role =
     ensure (role \<in> set CATALOG_ROLES)
       (ValueError (''unknown role '' @ repr_str role @ ''; the vocabulary is '' @ py_repr (str_list (sort CATALOG_ROLES)))) (
     case resolve c public_key of
       None \<Rightarrow> Inl (ValueError (''the key presented as '' @ repr_str role @ '' is not in the catalog''))
     | Some p \<Rightarrow>
         ensure (pr_role p = role)
           (ValueError (''principal '' @ repr_str (pr_principal_id p) @ '' holds role '' @ repr_str (pr_role p) @ '', not '' @ repr_str role)) (
         ensure (has_active p (str_of public_key))
           (ValueError (''principal '' @ repr_str (pr_principal_id p) @
              '' retired that key; a retired key attributes past work and authorises none'')) (
         Inr p)))"

definition named_principal :: "principal_catalog \<Rightarrow> pyval \<Rightarrow> principal result" where
  "named_principal c public_key =
     (case resolve c public_key of
        None \<Rightarrow> Inl (ValueError (''cannot compare identities: '' @ py_repr public_key @ '' is not in the catalog''))
      | Some p \<Rightarrow> Inr p)"

definition same_principal :: "principal_catalog \<Rightarrow> pyval \<Rightarrow> pyval \<Rightarrow> bool result" where
  "same_principal c public_key other =
     bind (named_principal c public_key) (\<lambda>p. bind (named_principal c other) (\<lambda>q.
     Inr (pr_principal_id p = pr_principal_id q)))"

section \<open>Reading the catalog\<close>

definition closed_shape :: "yaml \<Rightarrow> string list \<Rightarrow> string \<Rightarrow> yaml result" where
  "closed_shape v names subject =
     ensure (is_map v) (ValueError (subject @ '' must be a mapping of '' @ join '', '' names)) (
     ensure (list_all (\<lambda>k. yaml_str k \<noteq> None) (field_names v)) (ValueError (subject @ '' field names must be strings'')) (
     let present = map (\<lambda>k. the (yaml_str k)) (field_names v);
         unexpected = key_diff present names; missing = key_diff names present in
     ensure (set present = set names)
       (ValueError (subject @ '' must have exactly '' @ join '', '' names @ '': '' @
          join ''; '' ((if unexpected \<noteq> [] then [''unexpected '' @ join '', '' unexpected] else []) @
            (if missing \<noteq> [] then [''missing '' @ join '', '' missing] else [])))) (
     Inr v)))"

text \<open>The loop over the keys of one principal, with the keys read so far.\<close>

fun read_keys :: "ed25519 \<Rightarrow> string \<Rightarrow> nat \<Rightarrow> (string \<times> string) list \<Rightarrow> yaml list \<Rightarrow> (string \<times> string) list result" where
  "read_keys ed who index slots [] = Inr slots"
| "read_keys ed who index slots (raw # raws) =
     bind (closed_shape raw [''key'', ''status''] (who @ '' key '' @ show_nat index)) (\<lambda>slot.
     let public_key = yaml_val (the (yget slot ''key'')); status = yaml_val (the (yget slot ''status'')) in
     ensure (is_public_key ed public_key)
       (ValueError (who @ '' key '' @ show_nat index @
          '' is not a well-formed public key; expected the canonical ed25519 base64 spelling'')) (
     ensure (status = VStr ACTIVE \<or> status = VStr RETIRED)
       (ValueError (who @ '' key '' @ show_nat index @ '' has status '' @ yaml_repr (the (yget slot ''status'')) @
          ''; expected one of '' @ py_repr (str_list [ACTIVE, RETIRED]))) (
     ensure (str_of public_key \<notin> fst ` set slots)
       (ValueError (who @ '' lists one key twice; its status would then depend on read order'')) (
     read_keys ed who (Suc index) (slots @ [(str_of public_key, str_of status)]) raws))))"

fun index_keys :: "principal \<Rightarrow> (string \<times> principal) list \<Rightarrow> string list \<Rightarrow> (string \<times> principal) list result" where
  "index_keys p by_key [] = Inr by_key"
| "index_keys p by_key (k # ks) =
     (case map_of by_key k of
        Some owner \<Rightarrow> Inl (ValueError (''principals '' @ repr_str (pr_principal_id owner) @ '' and '' @ repr_str (pr_principal_id p) @
          '' share a public key; one key may serve only one principal, or no-self-approval can be defeated by signing as either''))
      | None \<Rightarrow> index_keys p (by_key @ [(k, p)]) ks)"

definition read_principal :: "ed25519 \<Rightarrow> yaml \<Rightarrow> yaml \<Rightarrow> principal result" where
  "read_principal ed principal_id entry =
     ensure (case yaml_str principal_id of None \<Rightarrow> False | Some s \<Rightarrow> \<not> blank s)
       (ValueError (''principal id '' @ yaml_repr principal_id @ '' must be a non-empty string'')) (
     let pid = the (yaml_str principal_id); who = ''principal '' @ repr_str pid in
     bind (closed_shape entry [''role'', ''keys''] who) (\<lambda>body.
     let role = the (yget body ''role''); raw_keys = the (yget body ''keys'') in
     ensure (case yaml_str role of None \<Rightarrow> False | Some r \<Rightarrow> r \<in> set CATALOG_ROLES)
       (ValueError (who @ '' declares role '' @ yaml_repr role @ ''; one principal holds exactly one role from '' @
          py_repr (str_list (sort CATALOG_ROLES)))) (
     case yaml_seq raw_keys of
       Some raws \<Rightarrow>
         ensure (raws \<noteq> [])
           (ValueError (who @ '' has no keys; a principal needs at least one key or nothing can ever be attributed to it'')) (
         bind (read_keys ed who 0 [] raws) (\<lambda>slots.
         Inr \<lparr>pr_principal_id = pid, pr_role = the (yaml_str role), pr_keys = slots\<rparr>))
     | None \<Rightarrow> Inl (ValueError (who @ '' must list its keys'')))))"

fun read_principals :: "ed25519 \<Rightarrow> principal_catalog \<Rightarrow> (yaml \<times> yaml) list \<Rightarrow> principal_catalog result" where
  "read_principals ed c [] = Inr c"
| "read_principals ed c ((k, entry) # rest) =
     bind (read_principal ed k entry) (\<lambda>p.
     bind (index_keys p (pc_by_key c) (map fst (pr_keys p))) (\<lambda>by_key.
     read_principals ed \<lparr>pc_principals = dict_set (pc_principals c) (pr_principal_id p) p, pc_by_key = by_key\<rparr> rest))"

text \<open>The loop over the producers, with the keyring read so far.\<close>

fun read_producers :: "ed25519 \<Rightarrow> (string \<times> string) list \<Rightarrow> (yaml \<times> yaml) list \<Rightarrow> (string \<times> string) list result" where
  "read_producers ed keyring [] = Inr keyring"
| "read_producers ed keyring ((k, v) # rest) =
     ensure (case yaml_str k of None \<Rightarrow> False | Some s \<Rightarrow> \<not> blank s)
       (ValueError (''producer id '' @ yaml_repr k @ '' must be a non-empty string'')) (
     let producer_id = the (yaml_str k) in
     ensure (is_public_key ed (yaml_val v))
       (ValueError (''producer '' @ repr_str producer_id @ '' has a malformed public key; expected ed25519:<base64> of 32 bytes'')) (
     case find (\<lambda>p. snd p = str_of (yaml_val v)) keyring of
       Some (owner, _) \<Rightarrow> Inl (ValueError (''producers '' @ repr_str owner @ '' and '' @ repr_str producer_id @
         '' share a public key; one key may serve only one producer, or no-self-approval can be defeated by signing as either identity''))
     | None \<Rightarrow> read_producers ed (dict_set keyring producer_id (str_of (yaml_val v))) rest))"

fun blocks_agree :: "(string \<times> principal) list \<Rightarrow> string \<Rightarrow> (string \<times> string) list \<Rightarrow> unit result" where
  "blocks_agree by_key source [] = Inr ()"
| "blocks_agree by_key source ((producer_id, public_key) # rest) =
     (case map_of by_key public_key of
        None \<Rightarrow> Inl (ValueError (''producer '' @ repr_str producer_id @ '' in '' @ source @
          '' holds a key the principal catalog does not carry; evidence admitted by one trust root would be unattributable in the other''))
      | Some p \<Rightarrow>
          ensure (pr_principal_id p = producer_id)
            (ValueError (''producer '' @ repr_str producer_id @ '' and principal '' @ repr_str (pr_principal_id p) @ '' in '' @ source @
               '' claim the same key; the two blocks may not disagree about who signed'')) (
          ensure (has_active p public_key)
            (ValueError (''producer '' @ repr_str producer_id @ '' in '' @ source @
               '' is still admitted by the keyring but its catalog key is retired; the trust root would say both yes and no'')) (
          blocks_agree by_key source rest)))"

definition producers_document :: "yaml \<Rightarrow> yaml" where
  "producers_document producers = YMap [(YAtom (VStr ''producers''), producers)]"

text \<open>\<open>_require_blocks_agree\<close>, given the loader of a keyring text.\<close>

definition require_blocks_agree :: "(string \<Rightarrow> string \<Rightarrow> (string \<times> string) list result) \<Rightarrow> yaml_library \<Rightarrow> yaml \<Rightarrow>
    (string \<times> principal) list \<Rightarrow> string \<Rightarrow> unit result" where
  "require_blocks_agree load yl producers by_key source =
     (case load (yl_dump yl (producers_document producers)) source of
        Inl (ValueError message) \<Rightarrow> Inl (ValueError (''catalog at '' @ source @ '': '' @ message))
      | Inl e \<Rightarrow> Inl e
      | Inr keyring \<Rightarrow> blocks_agree by_key source keyring)"

text \<open>
  The two loaders call each other: the keyring loader reads the catalog of the same text when it has
  one, and the catalog loader reads the producers block again, dumped on its own. The first argument
  is the depth of the call stack that is left; with a YAML library that reads back what it dumps, two
  levels are enough (\<open>load_keyring_depth\<close>).
\<close>

fun load_keyring_text :: "nat \<Rightarrow> yaml_library \<Rightarrow> ed25519 \<Rightarrow> string \<Rightarrow> string \<Rightarrow> (string \<times> string) list result"
  and load_principals_text :: "nat \<Rightarrow> yaml_library \<Rightarrow> ed25519 \<Rightarrow> string \<Rightarrow> string \<Rightarrow> principal_catalog result"
where
  "load_keyring_text 0 yl ed text source = Inl (Refusal ''RecursionError'' ''maximum recursion depth exceeded'')"
| "load_keyring_text (Suc n) yl ed text source =
     bind (yaml_load yl text ValueError (\<lambda>m. ValueError (''keyring at '' @ source @ '' is not valid YAML: '' @ m))) (\<lambda>document.
     ensure (is_map document) (ValueError (''keyring at '' @ source @ '' must be a mapping'')) (
     bind (if yget document ''principals'' \<noteq> None then bind (load_principals_text n yl ed text source) (\<lambda>_. Inr ()) else Inr ()) (\<lambda>_.
     case yget document ''producers'' of
       None \<Rightarrow> Inl (ValueError (''keyring at '' @ source @ '' has no 'producers' mapping''))
     | Some producers \<Rightarrow>
         ensure (is_map producers) (ValueError (repr_str ''producers'' @ '' in '' @ source @ '' must be a mapping'')) (
         ensure (entries_of producers \<noteq> [])
           (ValueError (repr_str ''producers'' @ '' in '' @ source @ '' is empty; an empty keyring rejects every record as an unknown producer, which reads as work never done'')) (
         read_producers ed [] (entries_of producers))))))"
| "load_principals_text 0 yl ed text source = Inl (Refusal ''RecursionError'' ''maximum recursion depth exceeded'')"
| "load_principals_text (Suc n) yl ed text source =
     bind (yaml_load yl text (\<lambda>m. ValueError (''catalog at '' @ source @ '': '' @ m))
       (\<lambda>m. ValueError (''catalog at '' @ source @ '' is not valid YAML: '' @ m))) (\<lambda>document.
     ensure (is_map document) (ValueError (''catalog at '' @ source @ '' must be a mapping'')) (
     case yget document ''principals'' of
       None \<Rightarrow> Inl (ValueError (''catalog at '' @ source @ '' has no 'principals' mapping''))
     | Some entries \<Rightarrow>
         ensure (is_map entries) (ValueError (repr_str ''principals'' @ '' in '' @ source @ '' must be a mapping'')) (
         ensure (entries_of entries \<noteq> [])
           (ValueError (repr_str ''principals'' @ '' in '' @ source @ '' is empty; an empty catalog resolves no key, which reads as work never done rather than as a broken root'')) (
         bind (read_principals ed \<lparr>pc_principals = [], pc_by_key = []\<rparr> (entries_of entries)) (\<lambda>c.
         case yget document ''producers'' of
           None \<Rightarrow> Inr c
         | Some producers \<Rightarrow>
             bind (require_blocks_agree (load_keyring_text n yl ed) yl producers (pc_by_key c) source) (\<lambda>_. Inr c))))))"

declare load_keyring_text.simps [simp del] load_principals_text.simps [simp del]

lemmas loader_simps = load_keyring_text.simps load_principals_text.simps

section \<open>The trust root\<close>

record TrustKeyring =
  tk_producers :: "(string \<times> string) list"
  tk_verdict_signer_id :: string
  tk_verdict_signer_public_key :: string
  tk_approvers :: "(string \<times> string list) list"

definition approvers_of :: "principal_catalog \<Rightarrow> (string \<times> string list) list" where
  "approvers_of c =
     map (\<lambda>p. (pr_principal_id p, active_keys p)) (filter (\<lambda>p. pr_role p = ''approver'') (map snd (pc_principals c)))"

definition signer_fields :: "yaml \<Rightarrow> bool" where
  "signer_fields signer \<longleftrightarrow> is_map signer \<and> set (field_names signer) = {YAtom (VStr ''id''), YAtom (VStr ''public_key'')}"

text \<open>The key of the signer may be catalogued, as a service of the same name and with an active key.\<close>

definition check_signer :: "principal_catalog \<Rightarrow> string \<Rightarrow> string \<Rightarrow> unit result" where
  "check_signer c signer_id signer_key =
     (case resolve c (VStr signer_key) of
        None \<Rightarrow> Inr ()
      | Some p \<Rightarrow>
          bind (require_principal c (VStr signer_key) ''service'') (\<lambda>_.
          ensure (pr_principal_id p = signer_id)
            (ValueError ''verdict_signer and principal disagree about identity'') (Inr ())))"

definition read_signer :: "ed25519 \<Rightarrow> (string \<times> string) list \<Rightarrow> yaml \<Rightarrow> (string \<times> string) result" where
  "read_signer ed producers signer =
     ensure (signer_fields signer) (ValueError ''verdict_signer must contain exactly id and public_key'') (
     let signer_id = yaml_val (the (yget signer ''id'')); signer_key = yaml_val (the (yget signer ''public_key'')) in
     ensure (signer_id = VStr ''kernel-verdict-signer'' \<and> is_public_key ed signer_key)
       (ValueError ''verdict_signer is malformed'') (
     ensure (str_of signer_id \<notin> fst ` set producers \<and> str_of signer_key \<notin> snd ` set producers)
       (ValueError ''verdict_signer may not alias a producer'') (
     Inr (str_of signer_id, str_of signer_key))))"

definition trust_blocks :: "yaml \<Rightarrow> bool" where
  "trust_blocks document \<longleftrightarrow> is_map document \<and>
     set (field_names document) - {YAtom (VStr ''principals'')} = {YAtom (VStr ''producers''), YAtom (VStr ''verdict_signer'')}"

text \<open>The approvers of the optional catalog, after the signer was checked against it.\<close>

definition read_approvers :: "nat \<Rightarrow> yaml_library \<Rightarrow> ed25519 \<Rightarrow> string \<Rightarrow> string \<Rightarrow> yaml \<Rightarrow> string \<Rightarrow> string \<Rightarrow>
    (string \<times> string list) list result" where
  "read_approvers n yl ed text source document signer_id signer_key =
     (if yget document ''principals'' = None then Inr []
      else bind (load_principals_text n yl ed text source) (\<lambda>c.
        bind (check_signer c signer_id signer_key) (\<lambda>_. Inr (approvers_of c))))"

definition load_trust_keyring_text :: "nat \<Rightarrow> yaml_library \<Rightarrow> ed25519 \<Rightarrow> string \<Rightarrow> string \<Rightarrow> TrustKeyring result" where
  "load_trust_keyring_text n yl ed text source =
     (let refuse = (\<lambda>m. ValueError (''cannot load keyring at '' @ source @ '': '' @ m)) in
     bind (yaml_load yl text refuse refuse) (\<lambda>document.
     ensure (trust_blocks document) (ValueError ''keyring must contain producers and verdict_signer'') (
     bind (load_keyring_text n yl ed (yl_dump yl (producers_document (the (yget document ''producers'')))) source) (\<lambda>producers.
     bind (read_signer ed producers (the (yget document ''verdict_signer''))) (\<lambda>(signer_id, signer_key).
     bind (read_approvers n yl ed text source document signer_id signer_key) (\<lambda>approvers.
     Inr \<lparr>tk_producers = producers, tk_verdict_signer_id = signer_id, tk_verdict_signer_public_key = signer_key,
       tk_approvers = approvers\<rparr>))))))"

section \<open>The approver\<close>

definition APPROVER_SIGNING_KEY_VARIABLE :: string where
  "APPROVER_SIGNING_KEY_VARIABLE = ''RANEX_APPROVER_SIGNING_KEY''"

text \<open>
  \<open>raw_path\<close> is the value of the environment variable, \<open>private_signing_key\<close> the text of the key file
  it names, or the refusal to use that file.
\<close>

definition require_catalogued_approver :: "nat \<Rightarrow> yaml_library \<Rightarrow> ed25519 \<Rightarrow> string option \<Rightarrow> string result \<Rightarrow>
    string \<Rightarrow> string \<Rightarrow> string \<Rightarrow> (string \<times> string) result" where
  "require_catalogued_approver n yl ed raw_path private_signing_key keyring_source keyring_path approver_id =
     ensure (raw_path \<noteq> None \<and> raw_path \<noteq> Some [])
       (ValueError (''E-APPROVER-KEY-ABSENT: '' @ APPROVER_SIGNING_KEY_VARIABLE @
          '' is not set; refusing to judge without proving the approver holds their key'')) (
     case load_principals_text n yl ed keyring_source keyring_path of
       Inl e \<Rightarrow> Inl (ValueError (''E-APPROVER-UNKNOWN: the committed catalog at '' @ keyring_path @
         '' declares no principals ('' @ exn_text e @ '')''))
     | Inr principals \<Rightarrow>
         (case map_of (pc_principals principals) approver_id of
            None \<Rightarrow> Inl (ValueError (''E-APPROVER-UNKNOWN: approver '' @ repr_str approver_id @
              '' is not a principal in the committed catalog at '' @ keyring_path))
          | Some p \<Rightarrow>
              ensure (pr_role p = ''approver'')
                (ValueError (''E-APPROVER-ROLE: principal '' @ repr_str approver_id @ '' holds role '' @ repr_str (pr_role p) @
                   '', not 'approver'; the identity producing evidence cannot approve it'')) (
              bind private_signing_key (\<lambda>private_key.
              bind (public_key_for ed (VStr private_key)) (\<lambda>public_key.
              ensure (public_key \<in> set (active_keys p))
                (ValueError (''E-APPROVER-KEY-MISMATCH: the key at '' @ the raw_path @ '' is not one of principal '' @
                   repr_str approver_id @ [CHR 0x27] @ ''s active keys in the committed catalog'')) (
              Inr (approver_id, private_key)))))))"

section \<open>What an accepted document has\<close>

text \<open>The string keys of a mapping that was built are distinct.\<close>

abbreviation text_keys :: "(yaml \<times> yaml) list \<Rightarrow> string list" where
  "text_keys m \<equiv> List.map_filter yaml_str (map fst m)"

lemma yaml_str_Some [simp]: "yaml_str k = Some s \<longleftrightarrow> k = YAtom (VStr s)"
  by (cases k rule: yaml_str.cases) auto

lemma check_keys_distinct:
  "check_keys seen ks = Inr u \<Longrightarrow> distinct (List.map_filter yaml_str ks)
     \<and> (\<forall>s \<in> set (List.map_filter yaml_str ks). YAtom (VStr s) \<notin> set seen)"
proof (induction seen ks rule: check_keys.induct)
  case (2 seen k ks)
  then have "distinct (List.map_filter yaml_str ks)"
    and "\<forall>s \<in> set (List.map_filter yaml_str ks). YAtom (VStr s) \<notin> set (k # seen)"
    and "\<not> list_ex (\<lambda>s. key_eq s k) seen" by auto
  then show ?case
    by (cases "yaml_str k") (auto simp: List.map_filter_def list_ex_iff image_iff)
qed (simp add: map_filter_simps)

lemma construct_values_each: "construct_values m = Inr u \<Longrightarrow> (k, v) \<in> set m \<Longrightarrow> construct v = Inr ()"
  by (induction m) (auto simp: bind_Inr_iff)

lemma yget_entries: "yget v k = Some w \<Longrightarrow> (YAtom (VStr k), w) \<in> set (entries_of v)"
  by (simp add: yget_def map_of_SomeD)

lemma construct_entries:
  assumes "construct v = Inr u"
  shows "distinct (text_keys (entries_of v))" and "yget v k = Some w \<Longrightarrow> construct w = Inr ()"
proof -
  show "distinct (text_keys (entries_of v))"
    using assms check_keys_distinct by (cases v) (auto simp: bind_Inr_iff map_filter_simps)
  assume "yget v k = Some w"
  then show "construct w = Inr ()"
    using assms construct_values_each [OF _ yget_entries [of v k w]]
    by (cases v) (auto simp: bind_Inr_iff yget_def)
qed

lemma yaml_load_built:
  "yaml_load yl text f g = Inr v \<Longrightarrow> construct v = Inr ()"
  by (auto simp: yaml_load_def split: sum.splits)

section \<open>What an accepted keyring has\<close>

lemma distinct_values_dict_set:
  "distinct (map snd d) \<Longrightarrow> v \<notin> snd ` set d \<Longrightarrow> distinct (map snd (dict_set d k v))"
proof (induction d k v rule: dict_set.induct)
  case (2 k' v' d k v)
  have "snd ` set (dict_set d k v) \<subseteq> insert v (snd ` set d)"
    by (induction d k v rule: dict_set.induct) auto
  then show ?case using 2 by auto
qed simp

definition keyring_ok :: "ed25519 \<Rightarrow> (string \<times> string) list \<Rightarrow> bool" where
  "keyring_ok ed kr \<longleftrightarrow> distinct (map fst kr) \<and> distinct (map snd kr) \<and>
     (\<forall>(i, k) \<in> set kr. \<not> blank i \<and> is_public_key ed (VStr k))"

lemma set_dict_set: "set (dict_set d k v) \<subseteq> insert (k, v) (set d)"
  by (induction d k v rule: dict_set.induct) auto

lemma is_public_key_text: "is_public_key ed v \<Longrightarrow> v = VStr (str_of v)"
  by (auto simp: is_public_key_iff)

lemma keyring_ok_extend:
  assumes "keyring_ok ed kr" "\<not> blank i" "is_public_key ed (VStr k)" "k \<notin> snd ` set kr"
  shows "keyring_ok ed (dict_set kr i k)"
  using assms set_dict_set [of kr i k] distinct_dict_set [of kr i k] distinct_values_dict_set [of kr k i]
  unfolding keyring_ok_def by blast

lemma dict_set_nonempty [simp]: "dict_set d k v \<noteq> []"
  by (cases d) (auto split: prod.splits if_splits)

lemma read_producers_ok:
  "read_producers ed kr es = Inr kr' \<Longrightarrow> keyring_ok ed kr \<Longrightarrow>
     keyring_ok ed kr' \<and> (kr \<noteq> [] \<or> es \<noteq> [] \<longrightarrow> kr' \<noteq> [])"
proof (induction ed kr es rule: read_producers.induct)
  case (2 ed kr k v rest)
  let ?i = "the (yaml_str k)" and ?k = "str_of (yaml_val v)"
  from "2.prems"(1) have i: "yaml_str k \<noteq> None" "\<not> blank ?i" and pub: "is_public_key ed (yaml_val v)"
    and none: "find (\<lambda>p. snd p = ?k) kr = None" and rest: "read_producers ed (dict_set kr ?i ?k) rest = Inr kr'"
    by (auto split: option.splits)
  have "keyring_ok ed (dict_set kr ?i ?k)"
    using keyring_ok_extend [OF "2.prems"(2) i(2)] pub none is_public_key_text [OF pub] by (force simp: find_None_iff)
  then show ?case using "2.IH" [OF refl none rest] by simp
qed auto

section \<open>What an accepted catalog has\<close>

lemma read_keys_ok:
  "read_keys ed who i slots raws = Inr slots' \<Longrightarrow> distinct (map fst slots) \<Longrightarrow> distinct (map fst slots')"
proof (induction ed who i slots raws rule: read_keys.induct)
  case (2 ed who i slots raw raws)
  from "2.prems" show ?case
    by (auto simp: bind_Inr_iff Let_def intro!: "2.IH")
qed simp

lemma index_keys_Inr:
  "index_keys p bk ks = Inr bk' \<Longrightarrow>
     bk' = bk @ map (\<lambda>k. (k, p)) ks \<and> (distinct (map fst bk) \<longrightarrow> distinct (map fst bk'))"
proof (induction p bk ks rule: index_keys.induct)
  case (2 p bk k ks)
  then show ?case by (force simp: map_of_eq_None_iff split: option.splits)
qed simp

lemma read_principal_Inr:
  assumes "read_principal ed k entry = Inr p"
  shows "yaml_str k = Some (pr_principal_id p)" and "distinct (map fst (pr_keys p))"
    and "pr_role p \<in> set CATALOG_ROLES"
proof -
  from assms obtain who raws where "yaml_str k = Some (pr_principal_id p)" "pr_role p \<in> set CATALOG_ROLES"
    and slots: "read_keys ed who 0 [] raws = Inr (pr_keys p)"
    unfolding read_principal_def Let_def bind_Inr_iff ensure_Inr_iff
    by (auto simp: bind_Inr_iff split: option.split_asm)
  then show "yaml_str k = Some (pr_principal_id p)" "pr_role p \<in> set CATALOG_ROLES" by blast+
  show "distinct (map fst (pr_keys p))" using read_keys_ok [OF slots] by simp
qed

definition catalog_ok :: "principal_catalog \<Rightarrow> bool" where
  "catalog_ok c \<longleftrightarrow> distinct (map fst (pc_principals c)) \<and> (\<forall>(i, p) \<in> set (pc_principals c). i = pr_principal_id p) \<and>
     distinct (map fst (pc_by_key c)) \<and>
     (\<forall>(i, p) \<in> set (pc_principals c). distinct (map fst (pr_keys p)) \<and> pr_role p \<in> set CATALOG_ROLES) \<and>
     set (pc_by_key c) = {(k, p). p \<in> snd ` set (pc_principals c) \<and> k \<in> fst ` set (pr_keys p)}"

lemma catalog_ok_extend:
  assumes ok: "catalog_ok c" and fresh: "pr_principal_id p \<notin> fst ` set (pc_principals c)"
    and bk: "index_keys p (pc_by_key c) (map fst (pr_keys p)) = Inr by_key"
    and p: "distinct (map fst (pr_keys p))" "pr_role p \<in> set CATALOG_ROLES"
  shows "catalog_ok \<lparr>pc_principals = dict_set (pc_principals c) (pr_principal_id p) p, pc_by_key = by_key\<rparr>"
proof -
  note c = ok [unfolded catalog_ok_def]
  have bk': "by_key = pc_by_key c @ map (\<lambda>k. (k, p)) (map fst (pr_keys p))" "distinct (map fst by_key)"
    using index_keys_Inr [OF bk] c by blast+
  then have "set by_key = set (pc_by_key c) \<union> {(k, p) |k. k \<in> fst ` set (pr_keys p)}" by auto
  then show ?thesis unfolding catalog_ok_def using c fresh p bk'(2) by (auto simp: dict_set_fresh)
qed

lemma read_principals_ok:
  "read_principals ed c es = Inr c' \<Longrightarrow> catalog_ok c \<Longrightarrow> distinct (text_keys es) \<Longrightarrow>
   set (text_keys es) \<inter> fst ` set (pc_principals c) = {} \<Longrightarrow> catalog_ok c'"
proof (induction ed c es rule: read_principals.induct)
  case (2 ed c k entry rest)
  from "2.prems"(1) obtain p by_key where p: "read_principal ed k entry = Inr p"
    and bk: "index_keys p (pc_by_key c) (map fst (pr_keys p)) = Inr by_key"
    and rest: "read_principals ed \<lparr>pc_principals = dict_set (pc_principals c) (pr_principal_id p) p, pc_by_key = by_key\<rparr> rest
      = Inr c'"
    by (auto simp: bind_Inr_iff)
  note p_ok = read_principal_Inr [OF p]
  have fresh: "pr_principal_id p \<notin> fst ` set (pc_principals c)" and "pr_principal_id p \<notin> set (text_keys rest)"
    using "2.prems"(3,4) p_ok(1) by (auto simp: map_filter_simps)
  moreover have "catalog_ok \<lparr>pc_principals = dict_set (pc_principals c) (pr_principal_id p) p, pc_by_key = by_key\<rparr>"
    by (rule catalog_ok_extend [OF "2.prems"(2) fresh bk p_ok(2,3)])
  ultimately show ?case
    using "2.IH" [OF rest] "2.prems"(3,4) p_ok(1) by (auto simp: map_filter_simps dict_set_fresh)
qed simp

section \<open>The loaders\<close>

lemma load_keyring_ok:
  assumes "load_keyring_text n yl ed text source = Inr kr"
  shows "keyring_ok ed kr \<and> kr \<noteq> []"
proof -
  from assms obtain es where "read_producers ed [] es = Inr kr" "es \<noteq> []"
    by (cases n) (auto simp: loader_simps bind_Inr_iff split: option.split_asm)
  then show ?thesis using read_producers_ok [of ed "[]" es kr] by (simp add: keyring_ok_def)
qed

lemma blocks_agree_iff:
  "blocks_agree by_key source kr = Inr u \<longleftrightarrow>
     (\<forall>(i, k) \<in> set kr. \<exists>p. map_of by_key k = Some p \<and> pr_principal_id p = i \<and> has_active p k)"
  by (induction by_key source kr rule: blocks_agree.induct) (auto split: option.splits)

lemma load_principals_Inr:
  assumes "load_principals_text (Suc n) yl ed text source = Inr c" and "yl_compose yl text = Inr document"
  shows "catalog_ok c"
    and "yget document ''producers'' = Some producers \<Longrightarrow>
      \<exists>kr. load_keyring_text n yl ed (yl_dump yl (producers_document producers)) source = Inr kr \<and>
        blocks_agree (pc_by_key c) source kr = Inr ()"
proof -
  from assms obtain entries where built: "construct document = Inr ()"
    and entries: "yget document ''principals'' = Some entries"
    and read: "read_principals ed \<lparr>pc_principals = [], pc_by_key = []\<rparr> (entries_of entries) = Inr c"
    and rest: "yget document ''producers'' = Some producers \<Longrightarrow> require_blocks_agree (load_keyring_text n yl ed) yl producers (pc_by_key c) source = Inr ()"
    by (auto simp: loader_simps yaml_load_def bind_Inr_iff split: option.split_asm sum.split_asm)
  have "distinct (text_keys (entries_of entries))"
    using construct_entries [OF construct_entries(2) [OF built entries]] by blast
  then show "catalog_ok c" using read_principals_ok [OF read] by (simp add: catalog_ok_def)
  show "yget document ''producers'' = Some producers \<Longrightarrow>
      \<exists>kr. load_keyring_text n yl ed (yl_dump yl (producers_document producers)) source = Inr kr \<and>
        blocks_agree (pc_by_key c) source kr = Inr ()"
    using rest by (auto simp: require_blocks_agree_def split: sum.split_asm exn.split_asm)
qed

lemma require_blocks_agree_mono:
  assumes "require_blocks_agree f yl producers by_key source = Inr u"
    and "\<And>t kr. f t source = Inr kr \<Longrightarrow> g t source = Inr kr"
  shows "require_blocks_agree g yl producers by_key source = Inr u"
  using assms by (auto simp: require_blocks_agree_def split: sum.split_asm exn.split_asm)

lemma load_deeper:
  "(load_keyring_text n yl ed t source = Inr kr \<longrightarrow> load_keyring_text (Suc n) yl ed t source = Inr kr) \<and>
   (load_principals_text n yl ed t source = Inr c \<longrightarrow> load_principals_text (Suc n) yl ed t source = Inr c)"
proof (induction n arbitrary: t kr c)
  case (Suc n)
  note K = Suc.IH [THEN conjunct1, THEN mp] and P = Suc.IH [THEN conjunct2, THEN mp]
  have "load_keyring_text (Suc (Suc n)) yl ed t source = Inr kr" if "load_keyring_text (Suc n) yl ed t source = Inr kr"
    using that P unfolding load_keyring_text.simps(2) bind_Inr_iff [of "yaml_load _ _ _ _"]
    by (elim exE, intro exI) (auto simp: bind_Inr_iff split: option.split_asm if_split_asm)
  moreover have "load_principals_text (Suc (Suc n)) yl ed t source = Inr c"
    if "load_principals_text (Suc n) yl ed t source = Inr c"
    using that require_blocks_agree_mono [of "load_keyring_text n yl ed" yl _ _ source _ "load_keyring_text (Suc n) yl ed", OF _ K]
    unfolding load_principals_text.simps(2) bind_Inr_iff [of "yaml_load _ _ _ _"]
    by (elim exE, intro exI) (auto simp: bind_Inr_iff split: option.splits)
  ultimately show ?case by blast
qed (simp add: loader_simps)

lemma load_keyring_same:
  assumes "load_keyring_text n yl ed text source = Inr kr" "load_keyring_text m yl ed text source = Inr kr'"
  shows "kr = kr'"
proof -
  have up: "load_keyring_text (n + k) yl ed text source = Inr kr"
    if "load_keyring_text n yl ed text source = Inr kr" for n k kr
    using that load_deeper by (induction k) (simp, metis add_Suc_right)
  show ?thesis using up [OF assms(1), of m] up [OF assms(2), of n] by (simp add: add.commute)
qed

text \<open>
  C40: The two loaders call each other, and the calls end. With a YAML library that reads the dump of a
  mapping with the one key producers back as such a mapping, no result depends on how many more than
  three levels of calls are available: the keyring loader, the catalog loader and the loader of the
  whole trust root give at every greater depth what they give at three.
\<close>

theorem loaders_end:
  assumes dump: "\<forall>producers w. yl_compose yl (yl_dump yl (producers_document producers)) = Inr w \<longrightarrow>
      yget w ''principals'' = None"
  shows "load_keyring_text (3 + n) yl ed text source = load_keyring_text 3 yl ed text source \<and>
    load_principals_text (3 + n) yl ed text source = load_principals_text 3 yl ed text source \<and>
    load_trust_keyring_text (3 + n) yl ed text source = load_trust_keyring_text 3 yl ed text source"
proof -
  have leaf: "load_keyring_text (Suc k) yl ed (yl_dump yl (producers_document p)) source =
      load_keyring_text (Suc 0) yl ed (yl_dump yl (producers_document p)) source" for k p
    using dump by (auto simp: loader_simps yaml_load_def split: sum.split)
  have principals: "load_principals_text (Suc (Suc k)) yl ed text source = load_principals_text (Suc (Suc 0)) yl ed text source" for k
    unfolding load_principals_text.simps(2) [of "Suc _"] require_blocks_agree_def leaf [of k] ..
  have keyring: "load_keyring_text (Suc (Suc (Suc k))) yl ed text source = load_keyring_text (Suc (Suc (Suc 0))) yl ed text source" for k
    unfolding load_keyring_text.simps(2) [of "Suc (Suc _)"] principals [of k] ..
  have trust: "load_trust_keyring_text (3 + n) yl ed text source = load_trust_keyring_text 3 yl ed text source"
    unfolding load_trust_keyring_text_def read_approvers_def numeral_3_eq_3 add_Suc add_0 leaf [of "Suc (Suc n)"] leaf [of "Suc (Suc 0)"]
      principals [of "Suc n"] principals [of "Suc 0"] ..
  show ?thesis
    using keyring [of n] principals [of "Suc n"] principals [of 1] trust
    by (simp add: numeral_3_eq_3)
qed

section \<open>Identities\<close>

lemma catalog_resolve:
  assumes "catalog_ok c"
  shows "resolve c (VStr k) = Some p \<longleftrightarrow> p \<in> snd ` set (pc_principals c) \<and> k \<in> fst ` set (pr_keys p)"
  using assms by (simp add: resolve_def catalog_ok_def map_of_eq_Some_iff)

lemma catalog_principal:
  assumes "catalog_ok c"
  shows "map_of (pc_principals c) i = Some p \<longleftrightarrow> p \<in> snd ` set (pc_principals c) \<and> pr_principal_id p = i"
proof -
  have "map_of (pc_principals c) i = Some p \<longleftrightarrow> (i, p) \<in> set (pc_principals c)"
    using assms by (simp add: catalog_ok_def map_of_eq_Some_iff)
  moreover have "\<forall>(i, p) \<in> set (pc_principals c). i = pr_principal_id p" using assms by (simp add: catalog_ok_def)
  ultimately show ?thesis by (auto intro: rev_image_eqI)
qed

lemma active_key: "k \<in> set (active_keys p) \<Longrightarrow> k \<in> fst ` set (pr_keys p)"
  by (auto simp: active_keys_def)

lemma approvers_iff:
  "(a, ks) \<in> set (approvers_of c) \<longleftrightarrow> (\<exists>p \<in> snd ` set (pc_principals c). pr_role p = ''approver'' \<and>
     a = pr_principal_id p \<and> ks = active_keys p)"
  by (auto simp: approvers_of_def)

lemma approvers_distinct:
  assumes "catalog_ok c"
  shows "distinct (map fst (approvers_of c))"
proof -
  have "map pr_principal_id (map snd (pc_principals c)) = map fst (pc_principals c)"
    using assms by (auto simp: catalog_ok_def)
  then have "distinct (map pr_principal_id (map snd (pc_principals c)))"
    using assms by (simp only: catalog_ok_def)
  from distinct_map_filter [OF this] show ?thesis by (simp add: approvers_of_def comp_def)
qed

text \<open>Of one catalog: the keys of two approvers are apart, and a key active for an approver resolves to it.\<close>

lemma approver_resolves:
  assumes "catalog_ok c" "(a, ks) \<in> set (approvers_of c)" "k \<in> set ks"
  shows "\<exists>p. resolve c (VStr k) = Some p \<and> pr_principal_id p = a \<and> pr_role p = ''approver'' \<and> has_active p k"
proof -
  from assms(2) obtain p where p: "p \<in> snd ` set (pc_principals c)" "pr_role p = ''approver''" "a = pr_principal_id p"
    "ks = active_keys p" by (auto simp: approvers_iff)
  then show ?thesis
    using assms(3) active_key by (intro exI [of _ p]) (simp add: catalog_resolve [OF assms(1)] has_active_def)
qed

lemma load_principals_document:
  assumes "load_principals_text n yl ed text source = Inr c"
  shows "\<exists>m document. n = Suc m \<and> yl_compose yl text = Inr document"
  using assms by (cases n) (auto simp: loader_simps yaml_load_def bind_Inr_iff split: sum.split_asm)

lemma trust_producers: "trust_blocks document \<Longrightarrow> \<exists>producers. yget document ''producers'' = Some producers"
proof -
  assume "trust_blocks document"
  then have "YAtom (VStr ''producers'') \<in> fst ` set (entries_of document)" by (auto simp: trust_blocks_def field_names_def)
  then show ?thesis by (metis yget_def map_of_eq_None_iff option.exhaust)
qed

lemma read_signer_Inr:
  "read_signer ed producers signer = Inr (i, k) \<Longrightarrow> i \<notin> fst ` set producers \<and> k \<notin> snd ` set producers"
  by (auto simp: read_signer_def Let_def)

lemma load_trust_Inr:
  assumes "load_trust_keyring_text n yl ed text source = Inr tk"
  obtains document producers where "yl_compose yl text = Inr document" and "yget document ''producers'' = Some producers"
    and "load_keyring_text n yl ed (yl_dump yl (producers_document producers)) source = Inr (tk_producers tk)"
    and "tk_verdict_signer_id tk \<notin> fst ` set (tk_producers tk)"
    and "tk_verdict_signer_public_key tk \<notin> snd ` set (tk_producers tk)"
    and "yget document ''principals'' = None \<and> tk_approvers tk = [] \<or>
      (\<exists>c. load_principals_text n yl ed text source = Inr c \<and> tk_approvers tk = approvers_of c \<and>
        check_signer c (tk_verdict_signer_id tk) (tk_verdict_signer_public_key tk) = Inr ())"
proof -
  from assms obtain document where "yl_compose yl text = Inr document" and blocks: "trust_blocks document"
    and "load_keyring_text n yl ed (yl_dump yl (producers_document (the (yget document ''producers'')))) source
      = Inr (tk_producers tk)"
    and signer: "read_signer ed (tk_producers tk) (the (yget document ''verdict_signer''))
      = Inr (tk_verdict_signer_id tk, tk_verdict_signer_public_key tk)"
    and "read_approvers n yl ed text source document (tk_verdict_signer_id tk) (tk_verdict_signer_public_key tk)
      = Inr (tk_approvers tk)"
    by (auto simp: load_trust_keyring_text_def Let_def yaml_load_def bind_Inr_iff split: sum.split_asm)
  then show thesis
    using that [of document] trust_producers [OF blocks] read_signer_Inr [OF signer]
    by (auto simp: read_approvers_def bind_Inr_iff split: if_split_asm)
qed

lemma trust_identities:
  assumes "load_trust_keyring_text n yl ed text source = Inr tk"
  shows "keyring_ok ed (tk_producers tk) \<and> tk_producers tk \<noteq> [] \<and>
    tk_verdict_signer_id tk \<notin> fst ` set (tk_producers tk) \<and>
    tk_verdict_signer_public_key tk \<notin> snd ` set (tk_producers tk) \<and>
    distinct (map fst (tk_approvers tk)) \<and>
    (\<forall>a ks b ks' k. (a, ks) \<in> set (tk_approvers tk) \<and> (b, ks') \<in> set (tk_approvers tk) \<and>
       k \<in> set ks \<and> k \<in> set ks' \<longrightarrow> a = b) \<and>
    (\<forall>a ks. (a, ks) \<in> set (tk_approvers tk) \<longrightarrow> tk_verdict_signer_public_key tk \<notin> set ks) \<and>
    (\<forall>a ks i k. (a, ks) \<in> set (tk_approvers tk) \<and> (i, k) \<in> set (tk_producers tk) \<and> k \<in> set ks \<longrightarrow> i = a)"
proof -
  let ?key = "tk_verdict_signer_public_key tk"
  obtain document producers where doc: "yl_compose yl text = Inr document"
    and p: "yget document ''producers'' = Some producers"
    and kr: "load_keyring_text n yl ed (yl_dump yl (producers_document producers)) source = Inr (tk_producers tk)"
    and signer: "tk_verdict_signer_id tk \<notin> fst ` set (tk_producers tk)" "?key \<notin> snd ` set (tk_producers tk)"
    and approvers: "yget document ''principals'' = None \<and> tk_approvers tk = [] \<or>
      (\<exists>c. load_principals_text n yl ed text source = Inr c \<and> tk_approvers tk = approvers_of c \<and>
        check_signer c (tk_verdict_signer_id tk) ?key = Inr ())"
    by (rule load_trust_Inr [OF assms])
  note producers = load_keyring_ok [OF kr]
  show ?thesis
  proof (cases "tk_approvers tk = []")
    case True
    then show ?thesis using producers signer by simp
  next
    case False
    with approvers obtain c where c: "load_principals_text n yl ed text source = Inr c"
      and check: "check_signer c (tk_verdict_signer_id tk) ?key = Inr ()" and a: "tk_approvers tk = approvers_of c" by auto
    obtain m where m: "n = Suc m" using load_principals_document [OF c] by blast
    note ok = load_principals_Inr(1) [OF c [unfolded m] doc]
    obtain kr' where "load_keyring_text m yl ed (yl_dump yl (producers_document producers)) source = Inr kr'"
      and "blocks_agree (pc_by_key c) source kr' = Inr ()"
      using load_principals_Inr(2) [OF c [unfolded m] doc p] by blast
    then have agree: "\<forall>(i, k) \<in> set (tk_producers tk). \<exists>p. resolve c (VStr k) = Some p \<and> pr_principal_id p = i"
      using load_keyring_same [OF kr] by (fastforce simp: blocks_agree_iff resolve_def)
    have "?key \<notin> set ks" if "(a, ks) \<in> set (approvers_of c)" for a ks
      using check approver_resolves [OF ok that, of ?key]
      by (auto simp: check_signer_def require_principal_def bind_Inr_iff)
    moreover have "a = b"
      if "(a, ks) \<in> set (approvers_of c)" "(b, ks') \<in> set (approvers_of c)" "k \<in> set ks" "k \<in> set ks'" for a b k ks ks'
      using approver_resolves [OF ok that(1,3)] approver_resolves [OF ok that(2,4)] by auto
    moreover have "i = a" if "(a, ks) \<in> set (approvers_of c)" "(i, k) \<in> set (tk_producers tk)" "k \<in> set ks" for a ks i k
      using approver_resolves [OF ok that(1,3)] agree that(2) by auto
    ultimately show ?thesis using producers signer approvers_distinct [OF ok] unfolding a by blast
  qed
qed

text \<open>
  C38: In a trust root that is accepted one key stands for one identity. Producers have distinct names
  and distinct keys, at least one, and every key is a canonical Ed25519 key; the verdict signer has
  neither the name nor the key of a producer; no two approvers share a key; the key of the verdict
  signer is no approver's; and a producer key that is active for an approver is the key of the
  producer of the same name, so no-self-approval compares what it means to.
\<close>

theorem one_key_one_identity:
  assumes "load_trust_keyring_text n yl ed text source = Inr tk"
  shows "keyring_ok ed (tk_producers tk) \<and> tk_producers tk \<noteq> [] \<and>
    tk_verdict_signer_id tk \<notin> fst ` set (tk_producers tk) \<and>
    tk_verdict_signer_public_key tk \<notin> snd ` set (tk_producers tk) \<and>
    distinct (map fst (tk_approvers tk)) \<and>
    (\<forall>a ks b ks' k. (a, ks) \<in> set (tk_approvers tk) \<and> (b, ks') \<in> set (tk_approvers tk) \<and>
       k \<in> set ks \<and> k \<in> set ks' \<longrightarrow> a = b) \<and>
    (\<forall>a ks. (a, ks) \<in> set (tk_approvers tk) \<longrightarrow> tk_verdict_signer_public_key tk \<notin> set ks) \<and>
    (\<forall>a ks i k. (a, ks) \<in> set (tk_approvers tk) \<and> (i, k) \<in> set (tk_producers tk) \<and> k \<in> set ks \<longrightarrow> i = a)"
  by (rule trust_identities [OF assms])

text \<open>
  A key speaks for the principal that lists it, and its status decides what it may do. In a
  catalog that was read every listed key resolves to its principal. An active key may sign and is
  accepted in the role of its principal and in no other; a retired key still resolves, and is refused
  in every role.
\<close>

lemma key_status_decides:
  assumes "load_principals_text n yl ed text source = Inr c"
    and "p \<in> snd ` set (pc_principals c)" and "(k, status) \<in> set (pr_keys p)"
  shows "resolve c (VStr k) = Some p \<and> may_sign c (VStr k) = (status = ACTIVE) \<and>
    (require_principal c (VStr k) role = Inr q \<longleftrightarrow> status = ACTIVE \<and> role = pr_role p \<and> q = p)"
proof -
  obtain m document where "n = Suc m" "yl_compose yl text = Inr document"
    using load_principals_document [OF assms(1)] by blast
  then have ok: "catalog_ok c" using load_principals_Inr(1) assms(1) by blast
  have r: "resolve c (VStr k) = Some p" using assms(2,3) by (force simp: catalog_resolve [OF ok])
  from ok assms(2) have p: "distinct (map fst (pr_keys p))" "pr_role p \<in> set CATALOG_ROLES"
    by (auto simp: catalog_ok_def)
  have active: "has_active p k \<longleftrightarrow> status = ACTIVE"
    using assms(3) p(1) eq_key_imp_eq_value [OF p(1)] by (force simp: has_active_def active_keys_def)
  show ?thesis using r p(2) active by (auto simp: may_sign_def require_principal_def)
qed

text \<open>
  C39: An approver that is let in has proved its role and its key. When the check of the approver
  returns, it returns the name that was asked for and a private key whose public half is active for
  the principal of that name, which holds the role approver; and in the trust root read from the same
  text that key is one of the approver's keys, is not the verdict signer's, and is the key of no
  producer of another name.
\<close>

theorem approver_holds_key:
  assumes "require_catalogued_approver n yl ed raw_path private_signing_key text source approver = Inr (name, private_key)"
    and "load_trust_keyring_text n yl ed text source = Inr tk"
  shows "name = approver \<and> private_signing_key = Inr private_key \<and>
    (\<exists>public_key ks. public_key_for ed (VStr private_key) = Inr public_key \<and>
       map_of (tk_approvers tk) approver = Some ks \<and> public_key \<in> set ks \<and>
       public_key \<noteq> tk_verdict_signer_public_key tk \<and>
       (\<forall>i. (i, public_key) \<in> set (tk_producers tk) \<longrightarrow> i = approver))"
proof -
  from assms(1) obtain c p public_key where c: "load_principals_text n yl ed text source = Inr c"
    and p: "map_of (pc_principals c) approver = Some p" "pr_role p = ''approver''"
    and pub: "public_key_for ed (VStr private_key) = Inr public_key" "public_key \<in> set (active_keys p)"
    and name: "name = approver" "private_signing_key = Inr private_key"
    by (auto simp: require_catalogued_approver_def bind_Inr_iff split: option.split_asm sum.split_asm)
  obtain m document where m: "n = Suc m" and doc: "yl_compose yl text = Inr document"
    using load_principals_document [OF c] by blast
  note ok = load_principals_Inr(1) [OF c [unfolded m] doc]
  have "yget document ''principals'' \<noteq> None"
    using c doc by (auto simp: m loader_simps yaml_load_def bind_Inr_iff split: option.split_asm sum.split_asm)
  then have "tk_approvers tk = approvers_of c" using load_trust_Inr [OF assms(2)] doc c by (metis Inr_inject)
  moreover have "(approver, active_keys p) \<in> set (approvers_of c)"
    using p catalog_principal [OF ok] by (auto simp: approvers_iff)
  ultimately have a: "(approver, active_keys p) \<in> set (tk_approvers tk)" by simp
  note ids = trust_identities [OF assms(2)]
  have "map_of (tk_approvers tk) approver = Some (active_keys p)" using a ids by (simp add: map_of_eq_Some_iff)
  moreover have "public_key \<noteq> tk_verdict_signer_public_key tk" using a pub(2) ids by metis
  moreover have "\<forall>i. (i, public_key) \<in> set (tk_producers tk) \<longrightarrow> i = approver" using a pub(2) ids by metis
  ultimately show ?thesis using name pub by blast
qed

section \<open>An example\<close>

text \<open>A root with one producer, an approver whose old key was retired, and the verdict signer.\<close>

definition example_key :: "char \<Rightarrow> string" where
  "example_key c = encode (replicate 32 c)"

definition yaml_text :: "string \<Rightarrow> yaml" where
  "yaml_text s = YAtom (VStr s)"

definition example_slot :: "char \<Rightarrow> string \<Rightarrow> yaml" where
  "example_slot c status = YMap [(yaml_text ''key'', yaml_text (example_key c)), (yaml_text ''status'', yaml_text status)]"

definition example_principal :: "string \<Rightarrow> yaml list \<Rightarrow> yaml" where
  "example_principal role slots = YMap [(yaml_text ''role'', yaml_text role), (yaml_text ''keys'', YSeq slots)]"

definition example_producers :: yaml where
  "example_producers = YMap [(yaml_text ''worker'', yaml_text (example_key CHR ''w''))]"

definition example_root :: yaml where
  "example_root = YMap [(yaml_text ''producers'', example_producers),
     (yaml_text ''verdict_signer'', YMap [(yaml_text ''id'', yaml_text ''kernel-verdict-signer''),
        (yaml_text ''public_key'', yaml_text (example_key CHR ''k''))]),
     (yaml_text ''principals'', YMap [(yaml_text ''worker'', example_principal ''worker'' [example_slot CHR ''w'' ACTIVE]),
        (yaml_text ''amy'', example_principal ''approver'' [example_slot CHR ''a'' ACTIVE, example_slot CHR ''o'' RETIRED])])]"

text \<open>A library that knows this root, and other texts besides.\<close>

definition example_library :: "(string \<Rightarrow> yaml result) \<Rightarrow> yaml_library" where
  "example_library other = \<lparr>yl_compose = (\<lambda>text. if text = ''root'' then Inr example_root
       else if text = ''dump'' then Inr (producers_document example_producers) else other text), yl_dump = (\<lambda>v. ''dump'')\<rparr>"

abbreviation lone_library :: yaml_library where
  "lone_library \<equiv> example_library (\<lambda>_. Inl (ValueError ''no such text''))"

definition example_amy :: principal where
  "example_amy = \<lparr>pr_principal_id = ''amy'', pr_role = ''approver'',
     pr_keys = [(example_key CHR ''a'', ACTIVE), (example_key CHR ''o'', RETIRED)]\<rparr>"

definition example_worker :: principal where
  "example_worker = \<lparr>pr_principal_id = ''worker'', pr_role = ''worker'', pr_keys = [(example_key CHR ''w'', ACTIVE)]\<rparr>"

definition example_catalog :: principal_catalog where
  "example_catalog = \<lparr>pc_principals = [(''worker'', example_worker), (''amy'', example_amy)],
     pc_by_key = [(example_key CHR ''w'', example_worker), (example_key CHR ''a'', example_amy), (example_key CHR ''o'', example_amy)]\<rparr>"

lemma example_key_public: "is_public_key toy_ed (VStr (example_key c))"
  by (auto simp: is_public_key_iff example_key_def toy_ed_def intro!: exI [of _ "replicate 32 c"])

lemma example_key_inject [simp]: "example_key c = example_key d \<longleftrightarrow> c = d"
proof -
  have "example_key c = example_key d \<longleftrightarrow> replicate 32 c = replicate 32 d"
    unfolding example_key_def using public_keys.enc_inject by (metis length_replicate)
  also have "\<dots> \<longleftrightarrow> c = d" by (auto dest: arg_cong [of _ _ hd])
  finally show ?thesis .
qed

lemmas example_defs = example_root_def example_producers_def example_principal_def example_slot_def yaml_text_def
  example_amy_def example_worker_def example_catalog_def ACTIVE_def RETIRED_def CATALOG_ROLES_def ROLES_def

lemmas document_simps = yget_def field_names_def closed_shape_def key_diff_def producers_document_def Let_def example_key_public ascii_space_def

lemma example_load:
  "yaml_load (example_library other) ''root'' f g = Inr example_root"
  "yaml_load (example_library other) ''dump'' f g = Inr (producers_document example_producers)"
proof -
  have "construct example_root = Inr ()" "construct (producers_document example_producers) = Inr ()"
    by (simp_all add: example_defs producers_document_def)
  then show "yaml_load (example_library other) ''root'' f g = Inr example_root"
    "yaml_load (example_library other) ''dump'' f g = Inr (producers_document example_producers)"
    by (simp_all add: yaml_load_def example_library_def)
qed

lemma example_producers_read: "load_keyring_text (Suc n) (example_library other) toy_ed ''dump'' source = Inr [(''worker'', example_key CHR ''w'')]"
  by (simp add: loader_simps example_load) (simp add: example_defs document_simps)

lemma example_principals:
  "read_principal toy_ed (yaml_text ''worker'') (example_principal ''worker'' [example_slot CHR ''w'' ACTIVE]) = Inr example_worker"
  "read_principal toy_ed (yaml_text ''amy'')
     (example_principal ''approver'' [example_slot CHR ''a'' ACTIVE, example_slot CHR ''o'' RETIRED]) = Inr example_amy"
  by (simp_all add: read_principal_def example_defs document_simps)

lemma example_entries:
  "yget example_root ''principals'' = Some (YMap [(yaml_text ''worker'', example_principal ''worker'' [example_slot CHR ''w'' ACTIVE]),
     (yaml_text ''amy'', example_principal ''approver'' [example_slot CHR ''a'' ACTIVE, example_slot CHR ''o'' RETIRED])])"
  "yget example_root ''producers'' = Some example_producers" "is_map example_root"
  by (simp_all add: yget_def example_root_def yaml_text_def)

lemma example_dump: "yl_dump (example_library other) v = ''dump''"
  by (simp add: example_library_def)

lemma example_catalog_read: "load_principals_text (Suc (Suc n)) (example_library other) toy_ed ''root'' source = Inr example_catalog"
  by (simp add: load_principals_text.simps(2) [of "Suc n"] example_load example_entries example_principals
      require_blocks_agree_def example_dump example_producers_read)
    (simp add: example_amy_def example_worker_def example_catalog_def has_active_def active_keys_def)

definition example_trust :: TrustKeyring where
  "example_trust = \<lparr>tk_producers = [(''worker'', example_key CHR ''w'')], tk_verdict_signer_id = ''kernel-verdict-signer'',
     tk_verdict_signer_public_key = example_key CHR ''k'', tk_approvers = [(''amy'', [example_key CHR ''a''])]\<rparr>"

lemma example_trust_read: "load_trust_keyring_text 3 (example_library other) toy_ed ''root'' source = Inr example_trust"
proof -
  have "trust_blocks example_root" by (auto simp: trust_blocks_def field_names_def example_root_def yaml_text_def)
  moreover have "read_signer toy_ed [(''worker'', example_key CHR ''w'')] (the (yget example_root ''verdict_signer'')) =
      Inr (''kernel-verdict-signer'', example_key CHR ''k'')"
    by (simp add: read_signer_def signer_fields_def example_root_def document_simps yaml_text_def)
  moreover have "check_signer example_catalog ''kernel-verdict-signer'' (example_key CHR ''k'') = Inr ()"
    by (simp add: check_signer_def resolve_def example_catalog_def)
  moreover have "approvers_of example_catalog = [(''amy'', [example_key CHR ''a''])]"
    by (simp add: approvers_of_def active_keys_def example_defs)
  ultimately show ?thesis
    by (simp add: load_trust_keyring_text_def example_load example_dump numeral_3_eq_3 example_producers_read
        read_approvers_def example_entries example_catalog_read example_trust_def)
qed

lemma example_public: "public_key_for toy_ed (VStr (example_key c)) = Inr (example_key c)"
proof -
  have "decode (VStr (example_key c)) (Some 32) ''private key'' = Inr (replicate 32 c)"
    by (simp add: decode_Inr_iff example_key_def)
  then show ?thesis by (simp add: public_key_for_def public_private_pair_def toy_ed_def example_key_def)
qed

theorem loaders_end_witness:
  "load_trust_keyring_text (3 + 7) lone_library toy_ed ''root'' ''keyring.yaml'' = Inr example_trust"
proof -
  have "\<forall>producers w. yl_compose lone_library (yl_dump lone_library (producers_document producers)) = Inr w \<longrightarrow>
      yget w ''principals'' = None"
    by (auto simp: example_library_def producers_document_def yget_def)
  from loaders_end [OF this, of 7 toy_ed "''root''" "''keyring.yaml''"] show ?thesis
    using example_trust_read by simp
qed

theorem one_key_one_identity_witness:
  "keyring_ok toy_ed (tk_producers example_trust) \<and> tk_verdict_signer_public_key example_trust \<notin> set [example_key CHR ''a'']"
  using one_key_one_identity [OF example_trust_read] by (simp add: example_trust_def)

theorem approver_holds_key_witness:
  "map_of (tk_approvers example_trust) ''amy'' = Some [example_key CHR ''a''] \<and>
   (\<exists>public_key ks. public_key_for toy_ed (VStr (example_key CHR ''a'')) = Inr public_key \<and>
      map_of (tk_approvers example_trust) ''amy'' = Some ks \<and> public_key \<in> set ks)"
proof -
  have "map_of (pc_principals example_catalog) ''amy'' = Some example_amy" by (simp add: example_catalog_def)
  then have "require_catalogued_approver 3 lone_library toy_ed (Some ''amy.key'') (Inr (example_key CHR ''a'')) ''root''
      ''keyring.yaml'' ''amy'' = Inr (''amy'', example_key CHR ''a'')"
    by (simp add: require_catalogued_approver_def numeral_3_eq_3 example_catalog_read example_public)
      (simp add: example_amy_def active_keys_def)
  from approver_holds_key [OF this example_trust_read] show ?thesis by (auto simp: example_trust_def)
qed

end
