(* ===== verification/Scan_Results.thy ===== *)
theory Scan_Results
  imports Gate_Verdict Json_Text Path_Text
begin

text \<open>
  Scan artifacts reduced to the summary of a suite (\<^verbatim>\<open>src/src/ranex/foundation/scan_results.py\<close>):
  scan manifests, the SARIF profile that is interpreted, findings bound to the bytes of the subject,
  and the reduction. The files of the subject and the splitting of URIs are parameters. Shown: a
  scan claim is satisfied exactly when every path of the frozen scope is present, was witnessed by the
  run and carries no blocking finding that review has not accepted; and a finding ID determines
  rule, path, lines and bytes of its region.
\<close>

section \<open>Manifests\<close>

definition REVIEW_REPORTER :: string where
  "REVIEW_REPORTER = ''delegated-review-sarif-2.1.0''"

definition SCAN_REPORTERS :: "string list" where
  "SCAN_REPORTERS = [''sarif-2.1.0'', REVIEW_REPORTER]"

definition SARIF_LEVELS :: "string list" where
  "SARIF_LEVELS = [''error'', ''warning'', ''note'', ''none'']"

definition SARIF_VERSION :: string where
  "SARIF_VERSION = ''2.1.0''"

definition scan_manifest_keys :: "string list" where
  "scan_manifest_keys = [''scope'', ''rules'', ''blocking_levels'', ''accepted'']"

definition is_confined_relative :: "pyval \<Rightarrow> bool" where
  "is_confined_relative candidate \<longleftrightarrow>
     is_text candidate \<and> trimmed (str_of candidate) \<and> stays_below (str_of candidate)"

text \<open>The path and the rule of a finding ID, \<open>_FINDING_ID.fullmatch\<close>.\<close>

definition finding_parts :: "string \<Rightarrow> (string \<times> string) option" where
  "finding_parts s =
     (let n = length s; print = drop (n - 64) s; head = take (n - 64) s;
          body = take (length head - 2) head; rule = rev (takeWhile (\<lambda>c. c \<noteq> CHR '':'') (rev body));
          front = take (length body - length rule) body; path = take (length front - 2) front in
      if is_hex64 print \<and> ends_with ''::'' head \<and> rule \<noteq> [] \<and> CHR 0x0A \<notin> set rule \<and> ends_with ''::'' front \<and>
         path \<noteq> [] \<and> CHR 0x0A \<notin> set path
      then Some (path, rule) else None)"

definition string_items :: "pyval \<Rightarrow> string list" where
  "string_items v = map str_of (items_of v)"

text \<open>One entry of \<open>accepted\<close>, with the frozen scope and the reviewed rules.\<close>

definition check_accepted :: "string list \<Rightarrow> string list \<Rightarrow> string \<times> pyval \<Rightarrow> unit result" where
  "check_accepted scope rules p =
     (case finding_parts (fst p) of
        None \<Rightarrow> Inl (ValueError (''accepted ID '' @ repr_str (fst p) @ '' must be <path>::<ruleId>::<64-hex fingerprint>''))
      | Some (path, rule) \<Rightarrow>
          ensure (path \<in> set scope)
            (ValueError (''accepted ID '' @ repr_str (fst p) @ '' names a path outside the frozen scope'')) (
          ensure (rule \<in> set rules)
            (ValueError (''accepted ID '' @ repr_str (fst p) @ '' names a rule outside the reviewed rule universe; '' @
               ''a finding may block under an unreviewed rule but may never be accepted under one'')) (
          ensure (is_str (snd p) \<and> \<not> blank (str_of (snd p))) (ValueError ''accepted reasons must be non-empty strings'') (
          Inr ()))))"

text \<open>A level that cannot be hashed raises \<open>TypeError\<close> at the test against the known levels.\<close>

definition level_known :: "pyval \<Rightarrow> exn \<Rightarrow> unit result" where
  "level_known level e =
     ensure (\<not> is_list level \<and> \<not> is_dict level) (TypeError ''unhashable type'') (
     ensure (is_str level \<and> str_of level \<in> set SARIF_LEVELS) e (Inr ()))"

definition validate_scan_manifest :: "pyval \<Rightarrow> pyval result" where
  "validate_scan_manifest v =
     ensure (closed_keys v scan_manifest_keys)
       (ValueError (''scan manifest must contain exactly '' @ py_repr (str_list (sort scan_manifest_keys)))) (
     let scope = fld v ''scope''; rules = fld v ''rules''; levels = fld v ''blocking_levels''; accepted = fld v ''accepted'' in
     ensure (is_list scope \<and> items_of scope \<noteq> [] \<and> list_all is_confined_relative (items_of scope))
       (ValueError ''scan manifest scope must be a non-empty list of relative paths confined below the subject; an empty scope is a claim about nothing'') (
     ensure (strictly_sorted (string_items scope)) (ValueError ''scan manifest scope paths must be sorted and unique'') (
     ensure (is_list rules \<and> list_all (\<lambda>r. is_text r \<and> trimmed (str_of r)) (items_of rules))
       (ValueError ''scan manifest rules must be a list of non-empty rule IDs'') (
     ensure (strictly_sorted (string_items rules)) (ValueError ''scan manifest rule IDs must be sorted and unique'') (
     let bad_levels = ValueError (''scan manifest blocking_levels must be a non-empty subset of '' @
       py_repr (str_list (sort SARIF_LEVELS)) @ ''; a manifest that blocks on no level is a gate that cannot block'') in
     ensure (is_list levels \<and> items_of levels \<noteq> []) bad_levels (
     bind (for_each (\<lambda>level. level_known level bad_levels) (items_of levels)) (\<lambda>_.
     ensure (strictly_sorted (string_items levels)) (ValueError ''scan manifest blocking_levels must be sorted and unique'') (
     ensure (is_dict accepted) (ValueError ''scan manifest accepted must be an object'') (
     bind (for_each (check_accepted (string_items scope) (string_items rules)) (dict_of accepted)) (\<lambda>_.
     Inr v))))))))))"

definition load_scan_manifest_bytes :: "bytes \<Rightarrow> pyval result" where
  "load_scan_manifest_bytes raw =
     (case json_loads_bytes raw of
        Inl e \<Rightarrow> Inl (ValueError (''cannot parse scan manifest: '' @ exn_text e))
      | Inr value \<Rightarrow>
          bind (validate_scan_manifest value) (\<lambda>manifest.
          bind (canonical_json_bytes manifest) (\<lambda>canon.
          ensure (raw = canon) (ValueError ''scan manifest must contain exact canonical JSON bytes'') (Inr manifest))))"

definition scan_binding :: "bool \<Rightarrow> pyval \<Rightarrow> pyval" where
  "scan_binding require_review validated = VDict
     [(''schema'', VStr ''ranex-scan-expectations-binding-v2''),
      (''semantics'', VDict
         [(''review_identity'', VStr ''excerpt-category-occurrence-v1''),
          (''review_severity'', VStr ''explicit-then-driver-default-v1''),
          (''review_category'', VStr ''rule-id-then-properties-category-v1''),
          (''review_packet'', VStr ''trusted-required-dispatch-v2''),
          (''review_required'', VBool require_review),
          (''ingestion_core'', VStr ''strict-interpreted-structure-v3-confined-subject-reads''),
          (''coverage'', VStr ''explicit-scope-witness-required-v2''),
          (''generic_identity'', VStr ''subject-region-v1'')]),
      (''manifest'', validated)]"

definition scan_manifest_digest :: "(bytes \<Rightarrow> bytes) \<Rightarrow> pyval \<Rightarrow> bool \<Rightarrow> string result" where
  "scan_manifest_digest sha manifest require_review =
     bind (validate_scan_manifest manifest) (\<lambda>validated. sha256_text sha (scan_binding require_review validated))"

definition scan_expected_ids :: "pyval \<Rightarrow> string list result" where
  "scan_expected_ids manifest =
     bind (validate_scan_manifest manifest) (\<lambda>validated.
     Inr (sorted_set (string_items (fld validated ''scope'') @ keys (fld validated ''accepted''))))"

definition scan_expected_skips :: "pyval \<Rightarrow> (string \<times> string) list result" where
  "scan_expected_skips manifest =
     bind (validate_scan_manifest manifest) (\<lambda>validated.
     Inr (map (\<lambda>p. (fst p, str_of (snd p))) (dict_of (fld validated ''accepted''))))"

section \<open>Findings\<close>

definition fingerprint :: "(bytes \<Rightarrow> bytes) \<Rightarrow> string \<Rightarrow> string \<Rightarrow> int \<Rightarrow> int \<Rightarrow> bytes \<Rightarrow> string result" where
  "fingerprint sha rule_id path start_line end_line region =
     bind (canonical_json_bytes (VList [VStr rule_id, VStr path, VInt start_line, VInt end_line])) (\<lambda>material.
     Inr (hex_bytes (sha (material @ [CHR 0x0A] @ region))))"

definition finding_id :: "(bytes \<Rightarrow> bytes) \<Rightarrow> string \<Rightarrow> string \<Rightarrow> int \<Rightarrow> int \<Rightarrow> bytes \<Rightarrow> string result" where
  "finding_id sha rule_id path start_line end_line region =
     bind (fingerprint sha rule_id path start_line end_line region) (\<lambda>print.
     Inr (path @ ''::'' @ rule_id @ ''::'' @ print))"

section \<open>The interpreted part of SARIF\<close>

definition check_rule :: "string list \<Rightarrow> pyval \<Rightarrow> unit result" where
  "check_rule seen rule =
     ensure (is_dict rule) (ValueError ''SARIF rule descriptors must be objects'') (
     ensure (is_text (fld rule ''id'')) (ValueError ''SARIF rule descriptors require a non-empty id'') (
     ensure (str_of (fld rule ''id'') \<notin> set seen)
       (ValueError (''SARIF rule descriptors carry duplicate id: '' @ py_repr (fld rule ''id''))) (
     let configuration = fld rule ''defaultConfiguration'' in
     ensure (\<not> has_key rule ''defaultConfiguration'' \<or> is_dict configuration)
       (ValueError ''SARIF rule defaultConfiguration must be an object'') (
     ensure (\<not> has_key rule ''defaultConfiguration'' \<or> \<not> has_key configuration ''level'' \<or>
         is_str (fld configuration ''level'') \<and> str_of (fld configuration ''level'') \<in> set SARIF_LEVELS)
       (ValueError ''SARIF rule defaultConfiguration carries an unknown level'') (
     Inr ())))))"

fun check_rules :: "string list \<Rightarrow> pyval list \<Rightarrow> unit result" where
  "check_rules seen [] = Inr ()"
| "check_rules seen (rule # rules) =
     bind (check_rule seen rule) (\<lambda>_. check_rules (str_of (fld rule ''id'') # seen) rules)"

definition validated_driver :: "pyval \<Rightarrow> pyval result" where
  "validated_driver run =
     (let driver = (if is_dict (fld run ''tool'') then fld (fld run ''tool'') ''driver'' else VNone) in
     ensure (is_dict driver) (ValueError ''SARIF run requires tool.driver object'') (
     ensure (is_text (fld driver ''name'')) (ValueError ''SARIF tool.driver requires a non-empty name'') (
     ensure (\<not> has_key driver ''rules'' \<or> is_list (fld driver ''rules''))
       (ValueError ''SARIF tool.driver.rules must be a list'') (
     bind (check_rules [] (items_of (fld driver ''rules''))) (\<lambda>_. Inr driver)))))"

definition check_message :: "pyval \<Rightarrow> unit result" where
  "check_message entry =
     (let message = fld entry ''message'' in
     ensure (is_dict message \<and> (has_key message ''text'' \<or> has_key message ''id''))
       (ValueError ''SARIF result requires a message with text or id'') (
     bind (for_each (\<lambda>field. ensure (\<not> has_key message field \<or> is_str (fld message field))
         (ValueError (''SARIF message '' @ field @ '' must be a string'')) (Inr ())) [''text'', ''id'', ''markdown'']) (\<lambda>_.
     ensure (\<not> has_key message ''arguments'' \<or>
         is_list (fld message ''arguments'') \<and> list_all is_str (items_of (fld message ''arguments'')))
       (ValueError ''SARIF message arguments must be a list of strings'') (Inr ()))))"

text \<open>\<open>run.get("results", [])\<close>.\<close>

definition run_results :: "pyval \<Rightarrow> pyval" where
  "run_results run = (if has_key run ''results'' then fld run ''results'' else VList [])"

definition check_run :: "pyval \<Rightarrow> unit result" where
  "check_run run =
     ensure (is_dict run) (ValueError ''SARIF runs entries must be objects'') (
     bind (validated_driver run) (\<lambda>_.
     ensure (\<not> has_key run ''invocations'' \<or> is_list (fld run ''invocations''))
       (ValueError ''SARIF invocations must be a list when present'') (
     ensure (\<not> has_key run ''invocations'' \<or> list_all is_dict (items_of (fld run ''invocations'')))
       (ValueError ''SARIF invocations entries must be objects'') (
     ensure (is_list (run_results run)) (ValueError ''SARIF runs[].results must be a list when present'') (
     for_each (\<lambda>entry. ensure (is_dict entry) (ValueError ''SARIF results entries must be objects'') (check_message entry))
       (items_of (run_results run)))))))"

definition validate_sarif_core :: "pyval \<Rightarrow> unit result" where
  "validate_sarif_core document =
     ensure (fld document ''version'' = VStr SARIF_VERSION)
       (ValueError (''SARIF artifact must declare version '' @ SARIF_VERSION)) (
     ensure (is_list (fld document ''runs'') \<and> items_of (fld document ''runs'') \<noteq> [])
       (ValueError ''SARIF artifact carries no runs'') (
     for_each check_run (items_of (fld document ''runs''))))"

definition driver_levels :: "pyval \<Rightarrow> (string \<times> pyval) list result" where
  "driver_levels run =
     bind (validated_driver run) (\<lambda>driver.
     Inr (foldl (\<lambda>levels rule.
         let configuration = fld rule ''defaultConfiguration'' in
         if has_key configuration ''level''
         then dict_set levels (str_of (fld rule ''id'')) (fld configuration ''level'') else levels)
       [] (items_of (fld driver ''rules''))))"

section \<open>The subject\<close>

text \<open>
  What a file of the subject answers to the confined open: its bytes, that it is not there, or a
  refusal (a link, not a regular file, too large); the last two carry the text of the refusal.
\<close>

datatype subject_file = Present bytes | NotThere string | Unsafe string

text \<open>\<open>urlparse(uri)\<close> as its scheme and its percent-decoded path.\<close>

record subject =
  sb_root :: "string list"
  sb_file :: "string \<Rightarrow> subject_file"
  sb_uri :: "string \<Rightarrow> (string \<times> string) result"

definition subject_relative :: "subject \<Rightarrow> pyval \<Rightarrow> string result" where
  "subject_relative sb uri =
     ensure (is_text uri) (ValueError ''SARIF location carries no artifactLocation uri'') (
     bind (sb_uri sb (str_of uri)) (\<lambda>(scheme, decoded).
     ensure (scheme = [] \<or> scheme = ''file'')
       (ValueError (''SARIF artifactLocation uri must be a file path or file: URI: '' @ py_repr uri)) (
     let raw = (if scheme = ''file'' then decoded else str_of uri) in
     if absolute_text raw then
       ensure (take (length (sb_root sb)) (relative_parts raw) = sb_root sb)
         (ValueError (''SARIF result names '' @ py_repr uri @ '', which is outside the materialised subject'')) (
       Inr (as_posix (drop (length (sb_root sb)) (relative_parts raw))))
     else
       ensure (list_all (\<lambda>p. p \<noteq> ''..'') (pure_parts raw))
         (ValueError (''SARIF result names an escaping path: '' @ py_repr uri)) (
       Inr (as_posix (pure_parts raw))))))"

definition subject_file_bytes :: "subject \<Rightarrow> string \<Rightarrow> bytes result" where
  "subject_file_bytes sb path =
     (case sb_file sb path of Present b \<Rightarrow> Inr b | NotThere m \<Rightarrow> Inl (ValueError m) | Unsafe m \<Rightarrow> Inl (ValueError m))"

definition subject_file_present :: "subject \<Rightarrow> string \<Rightarrow> bool result" where
  "subject_file_present sb path =
     (case sb_file sb path of Present b \<Rightarrow> Inr True | NotThere m \<Rightarrow> Inr False | Unsafe m \<Rightarrow> Inl (ValueError m))"

text \<open>\<open>bytes.splitlines(keepends=True)\<close>: a line ends with a newline, a carriage return or both.\<close>

fun split_lines :: "bytes \<Rightarrow> bytes \<Rightarrow> bytes list" where
  "split_lines line [] = (if line = [] then [] else [line])"
| "split_lines line (c # s) =
     (if c = CHR 0x0A then (line @ [c]) # split_lines [] s
      else if c = CHR 0x0D then
        (case s of d # s' \<Rightarrow> if d = CHR 0x0A then (line @ [c, d]) # split_lines [] s' else (line @ [c]) # split_lines [] s
         | [] \<Rightarrow> [line @ [c]])
      else split_lines (line @ [c]) s)"

text \<open>
  \<open>decode("utf-8", errors="replace")\<close>: each maximal part that is no code point is replaced. The second
  byte of a code point has a range of its own after some first bytes.
\<close>

definition second_ok :: "char \<Rightarrow> char \<Rightarrow> bool" where
  "second_ok a b \<longleftrightarrow> cont_byte b \<and> (a = CHR 0xE0 \<longrightarrow> 160 \<le> (of_char b :: nat)) \<and> (a = CHR 0xED \<longrightarrow> (of_char b :: nat) < 160) \<and>
     (a = CHR 0xF0 \<longrightarrow> 144 \<le> (of_char b :: nat)) \<and> (a = CHR 0xF4 \<longrightarrow> (of_char b :: nat) < 144)"

definition code_point_length :: "char \<Rightarrow> nat" where
  "code_point_length a =
     (let n = (of_char a :: nat) in if n < 128 then 1 else if n < 194 then 0 else if n < 224 then 2
      else if n < 240 then 3 else if n < 245 then 4 else 0)"

definition replacement :: bytes where
  "replacement = [CHR 0xEF, CHR 0xBF, CHR 0xBD]"

function decode_replace :: "bytes \<Rightarrow> string" where
  "decode_replace [] = []"
| "decode_replace (a # s) =
     (let n = code_point_length a;
          tail = (case s of [] \<Rightarrow> [] | b # r \<Rightarrow> if second_ok a b then b # takeWhile cont_byte r else []);
          got = take (n - 1) tail in
      if n = 0 then replacement @ decode_replace s
      else if length got = n - 1 then (a # got) @ decode_replace (drop (n - 1) s)
      else replacement @ decode_replace (drop (length got) s))"
  by pat_completeness auto
termination by (relation "measure length") auto

definition rstrip_newline :: "string \<Rightarrow> string" where
  "rstrip_newline s = rev (dropWhile (\<lambda>c. c = CHR 0x0A) (rev s))"

definition region_bytes :: "subject \<Rightarrow> string \<Rightarrow> int \<Rightarrow> int \<Rightarrow> pyval \<Rightarrow> bytes result" where
  "region_bytes sb path start_line end_line snippet =
     bind (subject_file_bytes sb path) (\<lambda>raw.
     let lines = split_lines [] raw in
     ensure (1 \<le> start_line \<and> start_line \<le> end_line \<and> end_line \<le> int (length lines))
       (ValueError (''SARIF region '' @ show_int start_line @ ''-'' @ show_int end_line @ '' lies outside '' @ repr_str path @
          '' ('' @ show_nat (length lines) @ '' lines); no relocation is attempted'')) (
     let region = concat (drop (nat (start_line - 1)) (take (nat end_line) lines)) in
     ensure (snippet = VNone \<or> is_str snippet) (ValueError (''SARIF region snippet for '' @ repr_str path @ '' must be text'')) (
     ensure (snippet = VNone \<or> rstrip_newline (str_of snippet) = rstrip_newline (decode_replace region))
       (ValueError (''SARIF region snippet for '' @ repr_str path @ '' lines '' @ show_int start_line @ ''-'' @ show_int end_line @
          '' does not match the subject at that region'')) (
     Inr region))))"

section \<open>Findings of a run\<close>

type_synonym finding = "string \<times> string \<times> string"

text \<open>A result as its finding ID, path and level; \<open>levels\<close> are the defaults of the driver.\<close>

definition result_level :: "(string \<times> pyval) list \<Rightarrow> pyval \<Rightarrow> pyval" where
  "result_level levels entry =
     (if has_key entry ''level'' then fld entry ''level''
      else case map_of levels (str_of (fld entry ''ruleId'')) of None \<Rightarrow> VStr ''warning'' | Some l \<Rightarrow> l)"

definition physical_location :: "pyval \<Rightarrow> pyval" where
  "physical_location entry =
     (let location = hd (items_of (fld entry ''locations'')) in
      if is_dict location then fld location ''physicalLocation'' else VNone)"

definition end_line_of :: "pyval \<Rightarrow> pyval" where
  "end_line_of region = (if has_key region ''endLine'' then fld region ''endLine'' else fld region ''startLine'')"

text \<open>The place a result names: its path, its lines and the bytes of the subject there.\<close>

definition result_region :: "subject \<Rightarrow> pyval \<Rightarrow> (string \<times> int \<times> int \<times> bytes) result" where
  "result_region sb entry =
     ensure (is_list (fld entry ''locations'') \<and> length (items_of (fld entry ''locations'')) = 1)
       (ValueError ''SARIF result must carry exactly one location; a finding with none cannot be bound to the subject and one with several is ambiguous'') (
     let physical = physical_location entry in
     ensure (is_dict physical) (ValueError ''SARIF result location carries no physicalLocation'') (
     let place = fld physical ''artifactLocation''; region = fld physical ''region'' in
     bind (subject_relative sb (if is_dict place then fld place ''uri'' else VNone)) (\<lambda>path.
     ensure (is_dict region) (ValueError (''SARIF result for '' @ repr_str path @ '' carries no region'')) (
     ensure (is_int (fld region ''startLine''))
       (ValueError (''SARIF region for '' @ repr_str path @ '' carries no integer startLine'')) (
     ensure (is_int (end_line_of region))
       (ValueError (''SARIF region for '' @ repr_str path @ '' carries a non-integer endLine'')) (
     let snippet = (if is_dict (fld region ''snippet'') then fld (fld region ''snippet'') ''text'' else VNone);
         first = int_of (fld region ''startLine''); final = int_of (end_line_of region) in
     bind (region_bytes sb path first final snippet) (\<lambda>material. Inr (path, first, final, material))))))))"

definition result_finding :: "(bytes \<Rightarrow> bytes) \<Rightarrow> subject \<Rightarrow> (string \<times> pyval) list \<Rightarrow> pyval \<Rightarrow> finding result" where
  "result_finding sha sb levels entry =
     ensure (is_dict entry) (ValueError ''SARIF results entries must be objects'') (
     ensure (is_text (fld entry ''ruleId'')) (ValueError ''SARIF result carries no ruleId'') (
     let level = result_level levels entry in
     bind (level_known level (ValueError (''SARIF result carries an unknown level: '' @ py_repr level))) (\<lambda>_.
     bind (result_region sb entry) (\<lambda>(path, first, final, material).
     bind (finding_id sha (str_of (fld entry ''ruleId'')) path first final material) (\<lambda>identifier.
     Inr (identifier, path, str_of level))))))"

definition check_invocations :: "pyval \<Rightarrow> unit result" where
  "check_invocations run =
     (let invocations = fld run ''invocations'' in
     ensure (invocations = VNone \<or> is_list invocations \<and> items_of invocations \<noteq> [])
       (ValueError ''SARIF invocations must be a non-empty list when present'') (
     for_each (\<lambda>i. ensure (is_dict i \<and> fld i ''executionSuccessful'' = VBool True)
         (ValueError ''SARIF invocation did not report executionSuccessful; a scan that declares its own failure is refused, and absence blocks'')
         (Inr ())) (items_of invocations)))"

definition witnessed_path :: "subject \<Rightarrow> pyval \<Rightarrow> string result" where
  "witnessed_path sb artifact =
     ensure (is_dict artifact) (ValueError ''SARIF artifacts entries must be objects'') (
     ensure (is_dict (fld artifact ''location'')) (ValueError ''SARIF artifact coverage requires a location object'') (
     bind (subject_relative sb (fld (fld artifact ''location'') ''uri'')) (\<lambda>path.
     bind (subject_file_present sb path) (\<lambda>_. Inr path))))"

text \<open>The paths witnessed so far are None until a run declares artifacts.\<close>

definition add_witnessed :: "subject \<Rightarrow> pyval \<Rightarrow> string list option \<Rightarrow> string list option result" where
  "add_witnessed sb run witnessed =
     (if \<not> has_key run ''artifacts'' then Inr witnessed
      else
        ensure (is_list (fld run ''artifacts'')) (ValueError ''SARIF artifacts must be a list when present'') (
        bind (map_result (witnessed_path sb) (items_of (fld run ''artifacts''))) (\<lambda>paths.
        Inr (Some ((case witnessed of None \<Rightarrow> [] | Some w \<Rightarrow> w) @ paths)))))"

fun run_findings :: "(bytes \<Rightarrow> bytes) \<Rightarrow> subject \<Rightarrow> pyval list \<Rightarrow> finding list \<Rightarrow> string list option \<Rightarrow>
    (finding list \<times> string list option) result" where
  "run_findings sha sb [] found witnessed = Inr (found, witnessed)"
| "run_findings sha sb (run # runs) found witnessed =
     ensure (is_dict run) (ValueError ''SARIF runs entries must be objects'') (
     bind (check_invocations run) (\<lambda>_.
     bind (add_witnessed sb run witnessed) (\<lambda>witnessed'.
     bind (driver_levels run) (\<lambda>levels.
     ensure (is_list (run_results run)) (ValueError ''SARIF runs[].results must be a list when present'') (
     bind (map_result (result_finding sha sb levels) (items_of (run_results run))) (\<lambda>more.
     run_findings sha sb runs (found @ more) witnessed'))))))"

definition sarif_findings :: "(bytes \<Rightarrow> bytes) \<Rightarrow> subject \<Rightarrow> pyval \<Rightarrow> (finding list \<times> string list option) result" where
  "sarif_findings sha sb sarif =
     bind (validate_sarif_core sarif) (\<lambda>_. run_findings sha sb (items_of (fld sarif ''runs'')) [] None)"

section \<open>The packet of a delegated review\<close>

definition packet_declaration :: "pyval \<Rightarrow> string list result" where
  "packet_declaration container =
     (let props = fld container ''properties''; digest = fld props ''packet_digest'' in
      if \<not> is_dict props \<or> \<not> has_key props ''packet_digest'' then Inr []
      else ensure (is_str digest \<and> is_digest (str_of digest))
        (ValueError ''SARIF properties.packet_digest must be sha256:<64-hex>'') (Inr [str_of digest]))"

definition sarif_packet_digest :: "pyval \<Rightarrow> string option result" where
  "sarif_packet_digest document =
     bind (map_result packet_declaration (document # filter is_dict (items_of (fld document ''runs'')))) (\<lambda>found.
     let declarations = concat found in
     ensure (length (remdups declarations) \<le> 1)
       (ValueError ''SARIF properties.packet_digest declarations conflict; substitution refused'') (
     Inr (case declarations of [] \<Rightarrow> None | d # _ \<Rightarrow> Some d)))"

text \<open>
  The delegated review module: the digest of the packet that the subject carries, if it carries one,
  and the findings of a review against an expected packet.
\<close>

record review_module =
  rm_packet :: "subject \<Rightarrow> string option result"
  rm_findings :: "subject \<Rightarrow> pyval \<Rightarrow> string \<Rightarrow> (finding list \<times> string list option) result"

section \<open>The reduction\<close>

definition scan_step :: "string list \<Rightarrow> string list \<Rightarrow> (string \<times> string) list \<Rightarrow> finding \<Rightarrow> (string \<times> string) list" where
  "scan_step blocking accepted os f =
     (case f of (identifier, path, level) \<Rightarrow>
        if level \<notin> set blocking then os
        else if identifier \<in> set accepted then dict_set os identifier ''skipped''
        else let failed = dict_set os identifier ''failed'' in
          if path \<in> fst ` set failed then dict_set failed path ''failed'' else failed)"

definition scan_outcomes :: "string list \<Rightarrow> string list \<Rightarrow> string list \<Rightarrow> finding list \<Rightarrow> (string \<times> string) list" where
  "scan_outcomes scope blocking accepted found =
     foldl (scan_step blocking accepted) (map (\<lambda>path. (path, ''passed'')) scope) found"

text \<open>The scope paths that are not there or were not witnessed; an unsafe file refuses.\<close>

fun unwitnessed :: "subject \<Rightarrow> string list option \<Rightarrow> string list \<Rightarrow> string list result" where
  "unwitnessed sb witnessed [] = Inr []"
| "unwitnessed sb witnessed (path # paths) =
     bind (subject_file_present sb path) (\<lambda>present.
     bind (unwitnessed sb witnessed paths) (\<lambda>rest.
     Inr (if \<not> present \<or> (case witnessed of None \<Rightarrow> True | Some w \<Rightarrow> path \<notin> set w) then path # rest else rest)))"

text \<open>The summary of sorted outcomes, in the shape of a suite summary.\<close>

definition outcome_summary ::
  "(bytes \<Rightarrow> bytes) \<Rightarrow> string \<Rightarrow> (string \<times> string) list \<Rightarrow> string list \<Rightarrow> nat \<Rightarrow> pyval result" where
  "outcome_summary sha mdigest os missing extra =
     bind (sha256_text sha (VDict (map (\<lambda>p. (fst p, VStr (snd p))) os))) (\<lambda>odigest.
     validate_suite_results (VDict
       [(''manifest_digest'', VStr mdigest),
        (''counts'', VDict
           [(''passed'', count_kind ''passed'' os), (''skipped'', count_kind ''skipped'' os),
            (''failed'', count_kind ''failed'' os), (''errors'', VInt 0), (''xfailed'', VInt 0), (''xpassed'', VInt 0)]),
        (''non_passed'', VList (map (\<lambda>p. str_list [fst p, snd p]) (filter (\<lambda>p. snd p \<noteq> ''passed'') os))),
        (''missing'', str_list missing),
        (''extra_count'', VInt (int extra)),
        (''outcome_digest'', VStr odigest)]))"

definition reduce_scan_findings ::
  "(bytes \<Rightarrow> bytes) \<Rightarrow> subject \<Rightarrow> finding list \<Rightarrow> string list option \<Rightarrow> pyval \<Rightarrow> bool \<Rightarrow> pyval result" where
  "reduce_scan_findings sha sb found witnessed validated require_review =
     (let scope = string_items (fld validated ''scope''); accepted = keys (fld validated ''accepted'');
          blocking = string_items (fld validated ''blocking_levels'');
          os = scan_outcomes scope blocking accepted found in
      bind (unwitnessed sb witnessed scope) (\<lambda>missing.
      bind (scan_expected_ids validated) (\<lambda>expected.
      bind (scan_manifest_digest sha validated require_review) (\<lambda>mdigest.
      outcome_summary sha mdigest (sort_key fst os) (sort missing)
        (length (filter (\<lambda>i. i \<notin> set expected) (map fst os)))))))"

text \<open>The document of an artifact, parsed as UTF-8 text.\<close>

definition sarif_document :: "bytes \<Rightarrow> pyval result" where
  "sarif_document raw =
     ensure (utf8_ok raw) (ValueError ''SARIF artifact must use UTF-8 encoding'') (
     case json_loads raw of
       Inl e \<Rightarrow> Inl (ValueError (''cannot parse SARIF artifact: '' @ exn_text e))
     | Inr document \<Rightarrow> ensure (is_dict document) (ValueError ''SARIF artifact must be a JSON object'') (Inr document))"

definition scan_results_from_sarif ::
  "(bytes \<Rightarrow> bytes) \<Rightarrow> review_module \<Rightarrow> subject \<Rightarrow> bytes \<Rightarrow> pyval \<Rightarrow> string option \<Rightarrow> bool \<Rightarrow> pyval result" where
  "scan_results_from_sarif sha rm sb sarif_bytes manifest expected_packet_digest require_review =
     bind (validate_scan_manifest manifest) (\<lambda>validated.
     bind (sarif_document sarif_bytes) (\<lambda>document.
     bind (sarif_packet_digest document) (\<lambda>claimed_packet.
     let required = (require_review \<or> expected_packet_digest \<noteq> None) in
     ensure (\<not> required \<or> claimed_packet \<noteq> None)
       (ValueError ''required delegated-review SARIF must carry properties.packet_digest'') (
     if claimed_packet \<noteq> None then
       bind (rm_packet rm sb) (\<lambda>materialised.
       ensure (\<not> required \<or> materialised \<noteq> None)
         (ValueError ''required delegated-review SARIF needs a materialised review packet'') (
       ensure (materialised = None \<or> expected_packet_digest = None \<or> materialised = expected_packet_digest)
         (ValueError ''expected_packet_digest does not match materialised review packet'') (
       case (if expected_packet_digest \<noteq> None \<and> expected_packet_digest \<noteq> Some [] then expected_packet_digest else materialised) of
         None \<Rightarrow> Inl (ValueError ''delegated-review SARIF carries properties.packet_digest but the subject has no governance/review-packet.json to re-derive against'')
       | Some expected \<Rightarrow>
           bind (rm_findings rm sb document expected) (\<lambda>(found, witnessed).
           reduce_scan_findings sha sb found witnessed validated required))))
     else
       bind (sarif_findings sha sb document) (\<lambda>(found, witnessed).
       reduce_scan_findings sha sb found witnessed validated False)))))"

definition observed_findings ::
  "(bytes \<Rightarrow> bytes) \<Rightarrow> review_module \<Rightarrow> subject \<Rightarrow> bytes \<Rightarrow> bool \<Rightarrow> string list option \<Rightarrow> finding list result" where
  "observed_findings sha rm sb sarif_bytes require_review required_scope =
     bind (sarif_document sarif_bytes) (\<lambda>document.
     bind (sarif_packet_digest document) (\<lambda>claimed_packet.
     ensure (\<not> require_review \<or> claimed_packet \<noteq> None)
       (ValueError ''required delegated-review SARIF must carry properties.packet_digest'') (
     bind (if claimed_packet \<noteq> None then
             bind (rm_packet rm sb) (\<lambda>expected.
             case expected of
               None \<Rightarrow> Inl (ValueError ''delegated-review findings require a materialised packet'')
             | Some d \<Rightarrow> rm_findings rm sb document d)
           else sarif_findings sha sb document) (\<lambda>(found, witnessed).
     bind (unwitnessed sb witnessed (case required_scope of None \<Rightarrow> [] | Some scope \<Rightarrow> scope)) (\<lambda>missing.
     ensure (missing = [])
       (ValueError (''scan coverage missing frozen scope path(s): '' @ join '', '' (sort missing))) (
     Inr found))))))"

definition freeze_scan_manifest ::
  "finding list \<Rightarrow> string list \<Rightarrow> string list \<Rightarrow> string list \<Rightarrow> (string \<times> string) list \<Rightarrow> pyval result" where
  "freeze_scan_manifest found scope rules blocking_levels accepted =
     (let unknown = sorted_set (filter (\<lambda>i. i \<notin> fst ` set found) (map fst accepted)) in
      ensure (unknown = [])
        (ValueError (''accepted IDs must name findings the frozen run observed: '' @ join '', '' unknown)) (
      validate_scan_manifest (VDict
        [(''scope'', str_list (sorted_set scope)), (''rules'', str_list (sorted_set rules)),
         (''blocking_levels'', str_list (sorted_set blocking_levels)),
         (''accepted'', VDict (map (\<lambda>p. (fst p, VStr (snd p))) (sort_key fst accepted)))])))"

section \<open>A finding is bound to the bytes under it\<close>

lemma dumps_line_determines:
  assumes "dumps v @ CHR 0x0A # r = dumps w @ CHR 0x0A # s" "no_float v" "wf_val v" "no_float w" "wf_val w"
  shows "v = w \<and> r = s"
proof -
  let ?x = "dumps v @ CHR 0x0A # r"
  have "scan_value (Suc (length ?x)) (dumps v @ CHR 0x0A # r) = Some (v, CHR 0x0A # r)"
    using assms(2,3) by (intro scan_dumps) (simp_all add: delim_def)
  moreover have "scan_value (Suc (length ?x)) (dumps w @ CHR 0x0A # s) = Some (w, CHR 0x0A # s)"
    using assms by (intro scan_dumps) (simp_all add: delim_def)
  ultimately show ?thesis using assms(1) by (simp del: scan_value.simps)
qed

text \<open>The text that is hashed for a finding.\<close>

definition finding_message :: "string \<Rightarrow> string \<Rightarrow> int \<Rightarrow> int \<Rightarrow> bytes \<Rightarrow> bytes" where
  "finding_message rule_id path start_line end_line region =
     dumps (VList [VStr rule_id, VStr path, VInt start_line, VInt end_line]) @ CHR 0x0A # region"

lemma finding_message_inject:
  "finding_message r p a b x = finding_message r' p' a' b' y \<longleftrightarrow> r = r' \<and> p = p' \<and> a = a' \<and> b = b' \<and> x = y"
  using dumps_line_determines [of "VList [VStr r, VStr p, VInt a, VInt b]" x "VList [VStr r', VStr p', VInt a', VInt b']" y]
  by (auto simp: finding_message_def)

lemma fingerprint_Inr:
  "fingerprint sha r p a b x = Inr f \<Longrightarrow> f = hex_bytes (sha (finding_message r p a b x))"
  by (auto simp: fingerprint_def finding_message_def canonical_json_bytes_def canonical_json_def bind_Inr_iff split: if_splits)

lemma append_suffix: "xs @ us = ys @ vs \<Longrightarrow> length us = length vs \<Longrightarrow> us = vs"
  by simp

lemma finding_id_Inr:
  "finding_id sha r p a b x = Inr i \<Longrightarrow> i = (p @ ''::'' @ r @ ''::'') @ hex_bytes (sha (finding_message r p a b x))"
  using fingerprint_Inr by (auto simp: finding_id_def bind_Inr_iff)

text \<open>
  C11: An accepted finding stops applying the moment the code under it changes. A finding ID determines
  the rule, the path, the lines and the bytes of the subject at those lines, as long as the hash has no
  collision on the two texts: no other region, and no other content of the same region, has it.
\<close>

theorem finding_id_binds_region:
  assumes "finding_id sha rule path first final region = Inr i" and "finding_id sha rule' path' first' final' region' = Inr i"
    and "inj_on sha {finding_message rule path first final region, finding_message rule' path' first' final' region'}"
    and "\<And>b. length (sha b) = 32"
  shows "rule = rule' \<and> path = path' \<and> first = first' \<and> final = final' \<and> region = region'"
proof -
  let ?m = "finding_message rule path first final region" and ?m' = "finding_message rule' path' first' final' region'"
  have "(path @ ''::'' @ rule @ ''::'') @ hex_bytes (sha ?m) = (path' @ ''::'' @ rule' @ ''::'') @ hex_bytes (sha ?m')"
    using finding_id_Inr [OF assms(1)] finding_id_Inr [OF assms(2)] by simp
  moreover have "length (hex_bytes (sha ?m)) = length (hex_bytes (sha ?m'))" by (simp only: length_hex_bytes assms(4))
  ultimately have "hex_bytes (sha ?m) = hex_bytes (sha ?m')" by (rule append_suffix)
  then have "sha ?m = sha ?m'" by (simp only: hex_bytes_inject)
  then have "?m = ?m'" by (rule inj_onD [OF assms(3)]) (rule insertI1, rule insertI2, rule singletonI)
  then show ?thesis by (simp only: finding_message_inject)
qed

section \<open>The reduction decides the claim\<close>

lemma validate_scan_manifest_Inr:
  assumes "validate_scan_manifest v = Inr w"
  shows "w = v" and "is_list (fld v ''scope'')" and "items_of (fld v ''scope'') \<noteq> []"
    and "\<forall>p \<in> set (items_of (fld v ''scope'')). is_confined_relative p"
    and "strictly_sorted (string_items (fld v ''scope''))" and "is_dict (fld v ''accepted'')"
    and "string_items (fld v ''blocking_levels'') \<noteq> []"
  using assms by (auto simp: validate_scan_manifest_def Let_def bind_Inr_iff list_all_iff string_items_def)

lemma outcome_summary_Inr:
  assumes "outcome_summary sha md os missing extra = Inr s"
  shows "sr_manifest_digest s = md" and "sr_missing s = missing"
    and "sr_non_passed s = filter (\<lambda>p. snd p \<noteq> ''passed'') os"
  using assms
  by (auto simp: outcome_summary_def bind_Inr_iff validate_suite_results_Inr sr_manifest_digest_def sr_missing_def
      sr_non_passed_def shape_simps str_list_def entry_pair_def comp_def)

lemma outcome_summary_ok:
  assumes "sorted (map fst os)" "distinct (map fst os)"
    and "\<forall>p \<in> set os. fst p \<noteq> [] \<and> snd p \<in> {''passed'', ''skipped'', ''failed''}"
    and "strictly_sorted missing" "[] \<notin> set missing" "is_digest md"
    and od: "sha256_text sha (VDict (map (\<lambda>p. (fst p, VStr (snd p))) os)) = Inr od" and sha: "\<And>b. length (sha b) = 32"
  shows "\<exists>s. outcome_summary sha md os missing extra = Inr s"
proof -
  define np where "np = filter (\<lambda>p. snd p \<noteq> ''passed'') os"
  have "sorted (map fst np)" "distinct (map fst np)" using assms(1,2) by (auto simp: np_def sorted_filter distinct_map_filter)
  moreover from sorted_by_fst [OF this] have "sorted np" .
  moreover have "\<forall>p \<in> set np. fst p \<noteq> [] \<and> snd p \<in> set non_passing_kinds"
    using assms(3) by (auto simp: np_def non_passing_kinds_def)
  moreover have "is_digest od" by (rule sha256_text_digest [OF od sha])
  ultimately show ?thesis
    using assms(4-6)
    by (simp add: outcome_summary_def od np_def [symmetric] validate_suite_results_Inr sr_manifest_digest_def sr_missing_def
        sr_non_passed_def shape_simps str_list_def entry_pair_def comp_def closed_keys_def keys_def result_keys_def count_keys_def
        is_non_negative_integer_def count_kind_def list_all_iff is_text_def sorted_sort_id distinct_remdups_id
        check_non_passed_entry_Inr) (metis)
qed

text \<open>A finding that decides against a path: blocking, not accepted, and on the path or named like it.\<close>

definition blocks :: "string list \<Rightarrow> string list \<Rightarrow> string \<Rightarrow> finding \<Rightarrow> bool" where
  "blocks blocking accepted p f \<longleftrightarrow>
     (case f of (i, q, l) \<Rightarrow> l \<in> set blocking \<and> i \<notin> set accepted \<and> (q = p \<or> i = p))"

lemma scan_outcomes_snoc: "scan_outcomes scope blocking accepted (fs @ [f]) =
   scan_step blocking accepted (scan_outcomes scope blocking accepted fs) f"
  by (simp add: scan_outcomes_def)

lemma scan_outcomes_keys:
  assumes "distinct scope"
  shows "distinct (map fst (scan_outcomes scope blocking accepted fs))"
    and "set scope \<subseteq> fst ` set (scan_outcomes scope blocking accepted fs)"
proof -
  have "distinct (map fst (scan_outcomes scope blocking accepted fs)) \<and>
      set scope \<subseteq> fst ` set (scan_outcomes scope blocking accepted fs)"
  proof (induction fs rule: rev_induct)
    case Nil
    then show ?case using assms by (auto simp: scan_outcomes_def comp_def image_image)
  next
    case (snoc f fs)
    then show ?case
      by (cases f) (auto simp: scan_outcomes_snoc scan_step_def Let_def set_keys_dict_set distinct_dict_set)
  qed
  then show "distinct (map fst (scan_outcomes scope blocking accepted fs))"
    and "set scope \<subseteq> fst ` set (scan_outcomes scope blocking accepted fs)" by blast+
qed

text \<open>
  The last word on an ID, in general. A blocking finding that review has not accepted fails its own ID, and
  its path when that is in the scope or was named before; an accepted finding of the same ID that
  comes later takes it back.
\<close>

definition fails_id :: "string list \<Rightarrow> string list \<Rightarrow> string list \<Rightarrow> finding list \<Rightarrow> finding \<Rightarrow> string \<Rightarrow> bool" where
  "fails_id scope blocking accepted earlier f x \<longleftrightarrow>
     (case f of (i, q, l) \<Rightarrow> l \<in> set blocking \<and> i \<notin> set accepted \<and>
        (i = x \<or> q = x \<and> (x \<in> set scope \<or> (\<exists>(j, _, m) \<in> set earlier. j = x \<and> m \<in> set blocking))))"

definition takes_back :: "string list \<Rightarrow> string list \<Rightarrow> finding \<Rightarrow> string \<Rightarrow> bool" where
  "takes_back blocking accepted f x \<longleftrightarrow> (case f of (i, _, l) \<Rightarrow> i = x \<and> l \<in> set blocking \<and> i \<in> set accepted)"

definition stays_failed :: "string list \<Rightarrow> string list \<Rightarrow> string list \<Rightarrow> finding list \<Rightarrow> string \<Rightarrow> bool" where
  "stays_failed scope blocking accepted found x \<longleftrightarrow>
     (\<exists>earlier f later. found = earlier @ f # later \<and> fails_id scope blocking accepted earlier f x \<and>
        (\<forall>g \<in> set later. \<not> takes_back blocking accepted g x))"

lemma stays_failed_snoc:
  "stays_failed scope bl acc (fs @ [f]) x \<longleftrightarrow>
     fails_id scope bl acc fs f x \<or> \<not> takes_back bl acc f x \<and> stays_failed scope bl acc fs x"
proof
  assume "stays_failed scope bl acc (fs @ [f]) x"
  then obtain earlier g later where *: "fs @ [f] = earlier @ g # later" "fails_id scope bl acc earlier g x"
    "\<forall>h \<in> set later. \<not> takes_back bl acc h x" unfolding stays_failed_def by blast
  then show "fails_id scope bl acc fs f x \<or> \<not> takes_back bl acc f x \<and> stays_failed scope bl acc fs x"
  proof (cases later rule: rev_cases)
    case Nil
    then show ?thesis using * by simp
  next
    case (snoc ys y)
    then have "fs = earlier @ g # ys" "y = f" using *(1) by simp_all
    moreover from this have "stays_failed scope bl acc fs x"
      unfolding stays_failed_def using *(2,3) snoc by (intro exI [of _ earlier] exI [of _ g] exI [of _ ys]) simp
    ultimately show ?thesis using *(3) snoc by simp
  qed
next
  have "stays_failed scope bl acc (fs @ [f]) x" if "fs = earlier @ g # later" "fails_id scope bl acc earlier g x"
    "\<forall>h \<in> set later. \<not> takes_back bl acc h x" "\<not> takes_back bl acc f x" for earlier g later
    unfolding stays_failed_def using that by (intro exI [of _ earlier] exI [of _ g] exI [of _ "later @ [f]"]) auto
  moreover have "stays_failed scope bl acc (fs @ [f]) x" if "fails_id scope bl acc fs f x"
    unfolding stays_failed_def using that by (intro exI [of _ fs] exI [of _ f] exI [of _ "[]"]) auto
  moreover assume "fails_id scope bl acc fs f x \<or> \<not> takes_back bl acc f x \<and> stays_failed scope bl acc fs x"
  ultimately show "stays_failed scope bl acc (fs @ [f]) x" unfolding stays_failed_def [of scope bl acc fs] by blast
qed

lemma fails_takes_back: "fails_id scope bl acc fs f x \<Longrightarrow> \<not> takes_back bl acc f x"
  by (auto simp: fails_id_def takes_back_def)

lemma scan_outcomes_named:
  "fst ` set (scan_outcomes scope bl acc fs) = set scope \<union> {i. \<exists>q l. (i, q, l) \<in> set fs \<and> l \<in> set bl}"
proof (induction fs rule: rev_induct)
  case Nil
  then show ?case by (auto simp: scan_outcomes_def image_image)
next
  case (snoc f fs)
  then show ?case by (cases f) (auto simp: scan_outcomes_snoc scan_step_def Let_def set_keys_dict_set)
qed

lemma scan_outcome_last:
  "map_of (scan_outcomes scope bl acc fs) x =
     (if stays_failed scope bl acc fs x then Some ''failed''
      else if \<exists>f \<in> set fs. takes_back bl acc f x then Some ''skipped''
      else if x \<in> set scope then Some ''passed'' else None)"
proof (induction fs rule: rev_induct)
  case Nil
  have "map_of (map (\<lambda>path. (path, ''passed'')) scope) x = (if x \<in> set scope then Some ''passed'' else None)"
    by (induction scope) auto
  then show ?case by (simp add: scan_outcomes_def stays_failed_def)
next
  case (snoc f fs)
  obtain i q l where f: "f = (i, q, l)" by (cases f)
  let ?os = "scan_outcomes scope bl acc fs"
  have named: "x \<in> fst ` set ?os \<longleftrightarrow> x \<in> set scope \<or> (\<exists>(j, _, m) \<in> set fs. j = x \<and> m \<in> set bl)"
    unfolding scan_outcomes_named by auto
  have "map_of (scan_step bl acc ?os f) x =
      (if fails_id scope bl acc fs f x then Some ''failed'' else if takes_back bl acc f x then Some ''skipped'' else map_of ?os x)"
    using named by (auto simp: f scan_step_def Let_def map_of_dict_set set_keys_dict_set fails_id_def takes_back_def)
  then show ?case unfolding scan_outcomes_snoc snoc stays_failed_snoc by (auto dest: fails_takes_back)
qed

text \<open>When no accepted ID is also a path, a path fails exactly when a finding blocks it.\<close>

lemma stays_failed_apart:
  assumes "x \<notin> set acc" "x \<in> set scope"
  shows "stays_failed scope bl acc fs x \<longleftrightarrow> (\<exists>f \<in> set fs. blocks bl acc x f)"
proof -
  have "\<not> takes_back bl acc f x" for f using assms(1) by (auto simp: takes_back_def)
  moreover have "fails_id scope bl acc earlier f x \<longleftrightarrow> blocks bl acc x f" for earlier f
    using assms(2) by (auto simp: fails_id_def blocks_def)
  ultimately show ?thesis unfolding stays_failed_def by (auto simp: in_set_conv_decomp) blast
qed

lemma accepted_apart:
  assumes "x \<in> set acc" "x \<notin> set scope" "\<forall>f \<in> set fs. x \<noteq> fst (snd f)"
  shows "\<not> stays_failed scope bl acc fs x"
  using assms by (auto simp: stays_failed_def fails_id_def)

lemma unwitnessed_Inr:
  "unwitnessed sb witnessed paths = Inr ms \<Longrightarrow> set ms =
     {p \<in> set paths. subject_file_present sb p \<noteq> Inr True \<or> (\<forall>w. witnessed = Some w \<longrightarrow> p \<notin> set w)}"
  by (induction paths arbitrary: ms) (auto simp: bind_Inr_iff subject_file_present_def split: option.splits subject_file.splits if_splits)

lemma satisfies_summary:
  assumes "sr_manifest_digest s = md" "sr_non_passed s = filter (\<lambda>p. snd p \<noteq> ''passed'') (sort_key fst os)"
    and "distinct (map fst os)"
    and c: "c_results_required c" "c_manifest_digest c = Some md" "c_expected_ids c = Some ids" "c_expected_skips c = Some skips"
    and e: "addresses e c sd" "e_suite_results e = Some s"
  shows "satisfies e c sd \<longleftrightarrow> e_exit_code e = 0 \<and>
    (\<forall>i \<in> set ids. i \<notin> set (sr_missing s) \<and>
       map_of os i \<in> {None, Some ''passed''} \<union> (if i \<in> fst ` set skips then {Some ''skipped''} else {}))"
proof -
  have "offenders c s = [] \<longleftrightarrow> (\<forall>(i, k) \<in> set os. i \<in> set ids \<longrightarrow> k = ''passed'' \<or> k = ''skipped'' \<and> i \<in> fst ` set skips)"
    unfolding offenders_def claim_ids_def claim_skips_def filter_empty_conv assms(2) c(3,4)
      option.case list.set_map set_filter case_prod_unfold set_sort by blast
  also have "\<dots> \<longleftrightarrow> (\<forall>i \<in> set ids. \<forall>k. map_of os i = Some k \<longrightarrow> k = ''passed'' \<or> k = ''skipped'' \<and> i \<in> fst ` set skips)"
    using map_of_eq_Some_iff [OF assms(3)] by blast
  also have "\<dots> \<longleftrightarrow> (\<forall>i \<in> set ids. map_of os i \<in> {None, Some ''passed''} \<union> (if i \<in> fst ` set skips then {Some ''skipped''} else {}))"
    by (intro ball_cong refl) (auto split: if_splits)
  finally show ?thesis using c e assms(1) by (auto simp: satisfies_def list_all_iff claim_ids_def)
qed

text \<open>
  C7: A scan claim is satisfied by the summary of an ordinary scanner's report exactly when the command
  exited 0, every path of the frozen scope is a file of the subject and was named by the run as
  covered, and no path of the scope and no accepted ID ends up failed. When no accepted ID is also a path
  of the scope or of a finding, this says that no path of the scope carries a finding of a blocking level
  that review has not accepted, even under a rule nobody reviewed. When an accepted ID is such a path,
  a later accepted finding of that ID takes a failure of the path back.
\<close>

theorem scan_claim_satisfied_iff:
  assumes sum: "scan_results_from_sarif sha rm sb raw m None False = Inr s"
    and doc: "sarif_document raw = Inr document" "sarif_packet_digest document = Inr None"
    and found: "sarif_findings sha sb document = Inr (found, witnessed)"
    and md: "scan_manifest_digest sha m False = Inr md" and ids: "scan_expected_ids m = Inr ids"
    and skips: "scan_expected_skips m = Inr skips"
    and c: "c_results_required c" "c_manifest_digest c = Some md" "c_expected_ids c = Some ids" "c_expected_skips c = Some skips"
    and e: "addresses e c sd" "e_suite_results e = Some s"
  shows "(satisfies e c sd \<longleftrightarrow> e_exit_code e = 0 \<and>
      (\<forall>p \<in> set (string_items (fld m ''scope'')). (\<exists>b. sb_file sb p = Present b) \<and> (\<exists>w. witnessed = Some w \<and> p \<in> set w)) \<and>
      (\<forall>x \<in> set (string_items (fld m ''scope'')) \<union> set (keys (fld m ''accepted'')).
         \<not> stays_failed (string_items (fld m ''scope'')) (string_items (fld m ''blocking_levels'')) (keys (fld m ''accepted'')) found x)) \<and>
    (set (keys (fld m ''accepted'')) \<inter> (set (string_items (fld m ''scope'')) \<union> (\<lambda>f. fst (snd f)) ` set found) = {} \<longrightarrow>
     (satisfies e c sd \<longleftrightarrow> e_exit_code e = 0 \<and>
      (\<forall>p \<in> set (string_items (fld m ''scope'')). (\<exists>b. sb_file sb p = Present b) \<and> (\<exists>w. witnessed = Some w \<and> p \<in> set w) \<and>
         (\<forall>(i, q, l) \<in> set found. l \<in> set (string_items (fld m ''blocking_levels'')) \<and> i \<notin> set (keys (fld m ''accepted'')) \<longrightarrow>
            q \<noteq> p \<and> i \<noteq> p))))"
proof -
  let ?scope = "string_items (fld m ''scope'')" and ?acc = "keys (fld m ''accepted'')"
    and ?bl = "string_items (fld m ''blocking_levels'')"
  let ?os = "scan_outcomes ?scope ?bl ?acc found" and ?failed = "stays_failed ?scope ?bl ?acc found"
  obtain v where v: "validate_scan_manifest m = Inr v" using ids by (auto simp: scan_expected_ids_def bind_Inr_iff)
  note man = validate_scan_manifest_Inr [OF v]
  have red: "reduce_scan_findings sha sb found witnessed m False = Inr s"
    using sum v man(1) doc found by (simp add: scan_results_from_sarif_def)
  obtain ms where ms: "unwitnessed sb witnessed ?scope = Inr ms"
    and out: "outcome_summary sha md (sort_key fst ?os) (sort ms) (length (filter (\<lambda>i. i \<notin> set ids) (map fst ?os))) = Inr s"
    using red ids md by (auto simp: reduce_scan_findings_def Let_def bind_Inr_iff)
  note s = outcome_summary_Inr [OF out]
  have d: "distinct ?scope" using man(5) by (simp add: strictly_sorted_iff)
  have setids: "set ids = set ?scope \<union> set ?acc" using ids v man(1) by (auto simp: scan_expected_ids_def)
  have sk: "fst ` set skips = set ?acc"
    using skips v man(1) by (force simp: scan_expected_skips_def keys_def image_image)
  have miss: "x \<in> set (sr_missing s) \<longleftrightarrow> x \<in> set ?scope \<and> \<not> ((\<exists>b. sb_file sb x = Present b) \<and> (\<exists>w. witnessed = Some w \<and> x \<in> set w))" for x
    using unwitnessed_Inr [OF ms] by (auto simp: s(2) subject_file_present_def split: subject_file.splits)
  have kind: "map_of ?os x \<in> {None, Some ''passed''} \<union> (if x \<in> fst ` set skips then {Some ''skipped''} else {}) \<longleftrightarrow> \<not> ?failed x" for x
    unfolding scan_outcome_last sk by (auto simp: takes_back_def)
  have general: "satisfies e c sd \<longleftrightarrow> e_exit_code e = 0 \<and>
      (\<forall>p \<in> set ?scope. (\<exists>b. sb_file sb p = Present b) \<and> (\<exists>w. witnessed = Some w \<and> p \<in> set w)) \<and>
      (\<forall>x \<in> set ?scope \<union> set ?acc. \<not> ?failed x)"
    unfolding satisfies_summary [OF s(1,3) scan_outcomes_keys(1) [OF d] c e] kind setids miss by auto
  have simple: "(\<forall>x \<in> set ?scope \<union> set ?acc. \<not> ?failed x) \<longleftrightarrow>
      (\<forall>p \<in> set ?scope. \<forall>(i, q, l) \<in> set found. l \<in> set ?bl \<and> i \<notin> set ?acc \<longrightarrow> q \<noteq> p \<and> i \<noteq> p)"
    if "set ?acc \<inter> (set ?scope \<union> (\<lambda>f. fst (snd f)) ` set found) = {}"
  proof -
    have "?failed p \<longleftrightarrow> (\<exists>f \<in> set found. blocks ?bl ?acc p f)" if "p \<in> set ?scope" for p
      using that \<open>set ?acc \<inter> _ = {}\<close> by (intro stays_failed_apart) auto
    moreover have "\<not> ?failed x" if "x \<in> set ?acc" for x
      using that \<open>set ?acc \<inter> _ = {}\<close> by (intro accepted_apart) auto
    moreover have "\<not> (\<exists>f \<in> set found. blocks ?bl ?acc p f) \<longleftrightarrow>
        (\<forall>(i, q, l) \<in> set found. l \<in> set ?bl \<and> i \<notin> set ?acc \<longrightarrow> q \<noteq> p \<and> i \<noteq> p)" for p
      by (auto simp: blocks_def)
    ultimately show ?thesis by blast
  qed
  show ?thesis using general simple by (simp add: ball_conj_distrib)
qed

section \<open>Examples\<close>

definition scan_subject :: subject where
  "scan_subject = \<lparr>sb_root = [''repo''], sb_file = (\<lambda>p. if p = ''src/a.py'' then Present (''x = 1'' @ [CHR 0x0A]) else NotThere ''absent''),
     sb_uri = (\<lambda>u. Inr ([], u))\<rparr>"

definition scan_document :: pyval where
  "scan_document = VDict
     [(''runs'', VList [VDict
        [(''artifacts'', VList [VDict [(''location'', VDict [(''uri'', VStr ''src/a.py'')])]]),
         (''results'', VList [VDict
            [(''level'', VStr ''note''),
             (''locations'', VList [VDict [(''physicalLocation'', VDict
                [(''artifactLocation'', VDict [(''uri'', VStr ''src/a.py'')]), (''region'', VDict [(''startLine'', VInt 1)])])]]),
             (''message'', VDict [(''text'', VStr ''name'')]), (''ruleId'', VStr ''N1'')]]),
         (''tool'', VDict [(''driver'', VDict [(''name'', VStr ''ruff'')])])]]),
      (''version'', VStr ''2.1.0'')]"

definition scan_manifest :: pyval where
  "scan_manifest = VDict [(''accepted'', VDict []), (''blocking_levels'', str_list [''error'']), (''rules'', str_list [''N1'']),
     (''scope'', str_list [''src/a.py''])]"

definition scan_found :: "finding list" where
  "scan_found = (case sarif_findings pad_sha scan_subject scan_document of Inr (f, _) \<Rightarrow> f | Inl _ \<Rightarrow> [])"

lemma scan_found_Inr: "sarif_findings pad_sha scan_subject scan_document = Inr (scan_found, Some [''src/a.py''])"
  by code_simp

definition scan_bytes :: bytes where
  "scan_bytes = dumps scan_document"

lemma scan_document_ok: "no_float scan_document" "wf_val scan_document" "utf8_val scan_document" "is_dict scan_document"
  by code_simp+

lemma scan_bytes_document: "sarif_document scan_bytes = Inr scan_document"
  using scan_document_ok utf8_dumps json_loads_dumps by (simp add: sarif_document_def scan_bytes_def)

lemma scan_manifest_valid: "validate_scan_manifest scan_manifest = Inr scan_manifest"
  by code_simp

lemma scan_packet: "sarif_packet_digest scan_document = Inr None"
  by code_simp

lemma scan_parts:
  "keys (fld scan_manifest ''accepted'') = []" "string_items (fld scan_manifest ''scope'') = [''src/a.py'']"
  "string_items (fld scan_manifest ''blocking_levels'') = [''error'']" "dict_of (fld scan_manifest ''accepted'') = []"
  by code_simp+

lemma scan_notes: "list_all (\<lambda>f. snd (snd f) = ''note'') scan_found"
  by code_simp

lemma plain_digest: "plain_val v \<Longrightarrow> \<exists>d. sha256_text sha v = Inr d"
  using canonical_json_bytes_plain by (fastforce simp: sha256_text_def canonical_sha256_def)

lemma quiet_outcomes: "\<forall>f \<in> set fs. snd (snd f) \<notin> set blocking \<Longrightarrow>
   scan_outcomes scope blocking accepted fs = map (\<lambda>path. (path, ''passed'')) scope"
  by (induction fs rule: rev_induct) (auto simp: scan_outcomes_def scan_step_def split: prod.splits)

definition scan_digest :: string where
  "scan_digest = (case scan_manifest_digest pad_sha scan_manifest False of Inr d \<Rightarrow> d | Inl _ \<Rightarrow> [])"

lemma scan_digest_Inr: "scan_manifest_digest pad_sha scan_manifest False = Inr scan_digest" "is_digest scan_digest"
proof -
  have "plain_val (scan_binding False scan_manifest)" by code_simp
  then obtain d where d: "sha256_text pad_sha (scan_binding False scan_manifest) = Inr d" using plain_digest by blast
  then show "scan_manifest_digest pad_sha scan_manifest False = Inr scan_digest"
    by (simp add: scan_digest_def scan_manifest_digest_def scan_manifest_valid)
  with d show "is_digest scan_digest"
    using sha256_text_digest [OF d length_pad_sha] by (simp add: scan_manifest_digest_def scan_manifest_valid)
qed

definition scan_summary :: pyval where
  "scan_summary = (case reduce_scan_findings pad_sha scan_subject scan_found (Some [''src/a.py'']) scan_manifest False of
     Inr s \<Rightarrow> s | Inl _ \<Rightarrow> VNone)"

lemma scan_summary_Inr: "reduce_scan_findings pad_sha scan_subject scan_found (Some [''src/a.py'']) scan_manifest False = Inr scan_summary"
proof -
  let ?os = "[(''src/a.py'', ''passed'')]"
  have os: "scan_outcomes [''src/a.py''] [''error''] [] scan_found = ?os"
    using scan_notes by (subst quiet_outcomes) (auto simp: list_all_iff)
  have "plain_val (VDict [(''src/a.py'', VStr ''passed'')])" by code_simp
  from plain_digest [OF this, of pad_sha] obtain od where "sha256_text pad_sha (VDict (map (\<lambda>p. (fst p, VStr (snd p))) ?os)) = Inr od"
    by auto
  then obtain s where s: "outcome_summary pad_sha scan_digest ?os [] 0 = Inr s"
    using outcome_summary_ok [of ?os "[]" scan_digest pad_sha od 0] scan_digest_Inr(2) length_pad_sha
    by (auto simp: strictly_sorted_def)
  have "scan_expected_ids scan_manifest = Inr [''src/a.py'']"
    by (simp add: scan_expected_ids_def scan_manifest_valid scan_parts sorted_set_def)
  moreover have "unwitnessed scan_subject (Some [''src/a.py'']) [''src/a.py''] = Inr []"
    by (simp add: scan_subject_def subject_file_present_def)
  ultimately show ?thesis
    using s os by (simp add: scan_summary_def reduce_scan_findings_def scan_parts scan_digest_Inr(1))
qed

definition scan_claim :: claim where
  "scan_claim = \<lparr>c_claim_id = ''lint'', c_command_digest = zero_digest, c_results_required = True,
     c_manifest_digest = Some scan_digest, c_expected_ids = Some [''src/a.py''], c_expected_skips = Some []\<rparr>"

definition scan_evidence :: evidence where
  "scan_evidence = (demo_evidence ''worker'' 0)\<lparr>e_claim_id := ''lint'', e_suite_results := Some scan_summary\<rparr>"

theorem scan_claim_satisfied_iff_witness: "satisfies scan_evidence scan_claim zero_digest"
proof -
  have "scan_results_from_sarif pad_sha rm scan_subject scan_bytes scan_manifest None False = Inr scan_summary" for rm
    using scan_manifest_valid scan_packet scan_found_Inr scan_bytes_document scan_summary_Inr
    by (simp add: scan_results_from_sarif_def)
  moreover have "scan_expected_ids scan_manifest = Inr [''src/a.py'']" "scan_expected_skips scan_manifest = Inr []"
    by (simp_all add: scan_expected_ids_def scan_expected_skips_def scan_manifest_valid scan_parts sorted_set_def)
  moreover have "addresses scan_evidence scan_claim zero_digest"
    by (simp add: addresses_def scan_evidence_def scan_claim_def demo_evidence_def)
  ultimately have "keys (fld scan_manifest ''accepted'') = [] \<longrightarrow> satisfies scan_evidence scan_claim zero_digest"
    using scan_claim_satisfied_iff [where rm = undefined, OF _ scan_bytes_document scan_packet scan_found_Inr scan_digest_Inr(1),
        THEN conjunct2] scan_notes
    by (auto simp: scan_claim_def scan_evidence_def scan_subject_def demo_evidence_def list_all_iff scan_parts)
  then show ?thesis by (simp add: scan_parts)
qed

text \<open>
  A path of the scope may be spelled like an accepted ID, and then a finding that review has not accepted
  does not block it: the manifest is valid, and the outcome of the path is \<open>skipped\<close>.
\<close>

definition shadow_id :: string where
  "shadow_id = ''a::N1::0000000000000000000000000000000000000000000000000000000000000000''"

definition shadow_manifest :: pyval where
  "shadow_manifest = VDict [(''accepted'', VDict [(shadow_id, VStr ''reviewed'')]), (''blocking_levels'', str_list [''error'']),
     (''rules'', str_list [''N1'']), (''scope'', str_list [''a'', shadow_id])]"

lemma accepted_id_shadows_path:
  "is_ok (validate_scan_manifest shadow_manifest)"
  "map_of (scan_outcomes [''a'', shadow_id] [''error''] [shadow_id] [(''x'', shadow_id, ''error''), (shadow_id, ''a'', ''error'')]) shadow_id =
     Some ''skipped''"
  "blocks [''error''] [shadow_id] shadow_id (''x'', shadow_id, ''error'')"
  by code_simp+

theorem finding_id_binds_region_witness:
  "finding_id pad_sha ''N1'' ''a'' 1 1 ''x'' \<noteq> finding_id pad_sha ''N1'' ''a'' 1 1 ''y''"
proof
  let ?m = "finding_message ''N1'' ''a'' 1 1 ''x''" and ?m' = "finding_message ''N1'' ''a'' 1 1 ''y''"
  assume same: "finding_id pad_sha ''N1'' ''a'' 1 1 ''x'' = finding_id pad_sha ''N1'' ''a'' 1 1 ''y''"
  have "is_ok (finding_id pad_sha ''N1'' ''a'' 1 1 ''x'')" by code_simp
  then obtain i where i: "finding_id pad_sha ''N1'' ''a'' 1 1 ''x'' = Inr i" by (auto simp: is_ok_iff)
  have "pad_sha ?m \<noteq> pad_sha ?m'" by code_simp
  then have "inj_on pad_sha {?m, ?m'}" by (auto simp: inj_on_def)
  from finding_id_binds_region [OF i i [unfolded same] this length_pad_sha] show False by simp
qed

end
