(* ===== verification/Antislop_Results.thy ===== *)
theory Antislop_Results
  imports Scan_Results
begin

text \<open>
  Frozen antislop expectations and the reduction of the census
  (\<^verbatim>\<open>src/src/ranex/foundation/antislop_results.py\<close>), and \<open>claim_expectations\<close> of
  \<^verbatim>\<open>src/src/ranex/foundation/scan_results.py\<close>, which dispatches on the reporter. Shown: an antislop claim is
  satisfied exactly when no structural finding was reported, every file of the scope is present and, if
  the run declared its coverage at all, covered, and every frozen test was counted with at least its
  frozen number of effective asserts.
\<close>

section \<open>Expectations\<close>

definition ANTISLOP_REPORTERS :: "string list" where
  "ANTISLOP_REPORTERS = [''antislop-sarif-2.1.0'']"

definition ANTISLOP_STRUCTURAL_ID :: string where
  "ANTISLOP_STRUCTURAL_ID = ''ranex/antislop-structural-integrity''"

definition RULE_CENSUS :: string where
  "RULE_CENSUS = ''ranex/antislop-census''"

definition expectation_keys :: "string list" where
  "expectation_keys = [''scope'', ''tests'']"

text \<open>White space anywhere in a text: some code point of one to three bytes is white space.\<close>

definition has_space :: "string \<Rightarrow> bool" where
  "has_space s \<longleftrightarrow> list_ex (\<lambda>n. list_ex (\<lambda>k. blank (take k (drop n s))) [1, 2, 3]) [0..<length s]"

definition is_identifier :: "string \<Rightarrow> bool" where
  "is_identifier s \<longleftrightarrow>
     (let letter = (\<lambda>c. let n = (of_char c :: nat) in 65 \<le> n \<and> n \<le> 90 \<or> 97 \<le> n \<and> n \<le> 122 \<or> n = 95) in
      s \<noteq> [] \<and> letter (hd s) \<and> list_all (\<lambda>c. letter c \<or> is_digit c) s)"

text \<open>\<open>_TEST_ID.fullmatch\<close>.\<close>

definition is_test_id :: "string \<Rightarrow> bool" where
  "is_test_id s \<longleftrightarrow>
     (case split_colons s of
        path # name # names \<Rightarrow> path \<noteq> [] \<and> \<not> has_space path \<and> CHR '':'' \<notin> set path \<and> list_all is_identifier (name # names)
      | _ \<Rightarrow> False)"

definition check_expected_test :: "string list \<Rightarrow> string \<times> pyval \<Rightarrow> unit result" where
  "check_expected_test scope p =
     ensure (is_test_id (fst p) \<and> hd (split_colons (fst p)) \<in> set scope)
       (ValueError (''antislop expectations test ID '' @ repr_str (fst p) @
          '' must be <file>::[<class>::]<test> naming a file inside the frozen scope'')) (
     ensure (is_non_negative_integer (snd p))
       (ValueError (''antislop expectations count for '' @ repr_str (fst p) @ '' must be a non-negative integer'')) (
     Inr ()))"

definition validate_antislop_expectations :: "pyval \<Rightarrow> pyval result" where
  "validate_antislop_expectations v =
     ensure (closed_keys v expectation_keys)
       (ValueError (''antislop expectations must contain exactly '' @ py_repr (str_list (sort expectation_keys)))) (
     let scope = fld v ''scope''; tests = fld v ''tests'' in
     ensure (is_list scope \<and> items_of scope \<noteq> [] \<and> list_all is_confined_relative (items_of scope))
       (ValueError ''antislop expectations scope must be a non-empty list of relative paths confined below the subject; an empty scope is a claim about nothing'') (
     ensure (strictly_sorted (string_items scope)) (ValueError ''antislop expectations scope paths must be sorted and unique'') (
     ensure (is_dict tests \<and> dict_of tests \<noteq> []) (ValueError ''antislop expectations tests must be a non-empty object'') (
     bind (for_each (check_expected_test (string_items scope)) (dict_of tests)) (\<lambda>_.
     ensure (keys tests = sort (keys tests)) (ValueError ''antislop expectations test IDs must be sorted'') (
     Inr v))))))"

definition load_antislop_expectations_bytes :: "bytes \<Rightarrow> pyval result" where
  "load_antislop_expectations_bytes raw =
     (case json_loads_bytes raw of
        Inl e \<Rightarrow> Inl (ValueError (''cannot parse antislop expectations: '' @ exn_text e))
      | Inr value \<Rightarrow>
          bind (validate_antislop_expectations value) (\<lambda>manifest.
          bind (canonical_json_bytes manifest) (\<lambda>canon.
          ensure (raw = canon) (ValueError ''antislop expectations must contain exact canonical JSON bytes'') (Inr manifest))))"

definition antislop_binding :: "pyval \<Rightarrow> pyval" where
  "antislop_binding validated = VDict
     [(''schema'', VStr ''ranex-antislop-expectations-binding-v3''),
      (''ingestion_core'', VStr ''strict-interpreted-structure-v3-confined-subject-reads''),
      (''expectations'', validated), (''required_structural_id'', VStr ANTISLOP_STRUCTURAL_ID)]"

definition antislop_expectations_digest :: "(bytes \<Rightarrow> bytes) \<Rightarrow> pyval \<Rightarrow> string result" where
  "antislop_expectations_digest sha manifest =
     bind (validate_antislop_expectations manifest) (\<lambda>validated. sha256_text sha (antislop_binding validated))"

definition antislop_expected_ids :: "pyval \<Rightarrow> string list result" where
  "antislop_expected_ids manifest =
     bind (validate_antislop_expectations manifest) (\<lambda>validated.
     Inr (sorted_set (ANTISLOP_STRUCTURAL_ID # string_items (fld validated ''scope'') @ keys (fld validated ''tests''))))"

definition antislop_expected_skips :: "pyval \<Rightarrow> (string \<times> string) list result" where
  "antislop_expected_skips manifest = bind (validate_antislop_expectations manifest) (\<lambda>_. Inr [])"

section \<open>The census\<close>

text \<open>
  \<open>decimal\<close> is what the pattern of decimal digits and \<open>int\<close> make of a text: the number, or None when
  some character is no decimal digit.
\<close>

definition census_parts :: "(string \<Rightarrow> int option) \<Rightarrow> string \<Rightarrow> (string \<times> int) option" where
  "census_parts decimal text =
     (let mark = '' effective_asserts='';
          ends = filter (\<lambda>n. 0 < n \<and> starts_with mark (drop n text) \<and> CHR 0x0A \<notin> set (take n text) \<and>
            decimal (drop (n + length mark) text) \<noteq> None) (rev [0..<length text]) in
      case ends of [] \<Rightarrow> None | n # _ \<Rightarrow> Some (take n text, the (decimal (drop (n + length mark) text))))"

type_synonym census = "(string \<times> int) list"

definition antislop_entry :: "(bytes \<Rightarrow> bytes) \<Rightarrow> (string \<Rightarrow> int option) \<Rightarrow> subject \<Rightarrow> census \<times> finding list \<Rightarrow> pyval \<Rightarrow>
    (census \<times> finding list) result" where
  "antislop_entry sha decimal sb acc entry =
     ensure (is_dict entry) (ValueError ''SARIF results entries must be objects'') (
     ensure (is_text (fld entry ''ruleId'')) (ValueError ''SARIF result carries no ruleId'') (
     let rule_id = str_of (fld entry ''ruleId''); level = fld entry ''level'';
         message = (if is_dict (fld entry ''message'') then fld (fld entry ''message'') ''text'' else VNone) in
     bind (level_known level (ValueError (''SARIF result carries an unknown level: '' @ py_repr level))) (\<lambda>_.
     ensure (is_text message) (ValueError ''SARIF result carries no message text'') (
     bind (result_region sb entry) (\<lambda>(path, first, final, material).
     bind (fingerprint sha rule_id path first final material) (\<lambda>identifier.
     if rule_id = RULE_CENSUS then
       ensure (level = VStr ''none'')
         (ValueError (''a census entry is an observation and never decides; its level must be '' @ repr_str ''none'')) (
       case census_parts decimal (str_of message) of
         None \<Rightarrow> Inl (ValueError (''a census entry must read '<test_id> effective_asserts=<n>'; got '' @ py_repr message))
       | Some (test, number) \<Rightarrow>
           ensure (test \<notin> fst ` set (fst acc)) (ValueError (''duplicate census entry for '' @ repr_str test)) (
           Inr (fst acc @ [(test, number)], snd acc)))
     else Inr (fst acc, snd acc @ [(path @ ''::'' @ rule_id @ ''::'' @ identifier, path, str_of message)])))))))"

fun fold_result :: "('b \<Rightarrow> 'a \<Rightarrow> 'b result) \<Rightarrow> 'b \<Rightarrow> 'a list \<Rightarrow> 'b result" where
  "fold_result f b [] = Inr b"
| "fold_result f b (x # xs) = (case f b x of Inl e \<Rightarrow> Inl e | Inr b' \<Rightarrow> fold_result f b' xs)"

definition antislop_witnessed_path :: "subject \<Rightarrow> pyval \<Rightarrow> string result" where
  "antislop_witnessed_path sb artifact =
     ensure (is_dict artifact \<and> is_dict (fld artifact ''location''))
       (ValueError ''SARIF artifacts entries must carry a location'') (
     bind (subject_relative sb (fld (fld artifact ''location'') ''uri'')) (\<lambda>path.
     bind (subject_file_present sb path) (\<lambda>_. Inr path)))"

definition antislop_add_witnessed :: "subject \<Rightarrow> pyval \<Rightarrow> string list option \<Rightarrow> string list option result" where
  "antislop_add_witnessed sb run witnessed =
     (if \<not> has_key run ''artifacts'' then Inr witnessed
      else
        ensure (is_list (fld run ''artifacts'')) (ValueError ''SARIF runs[].artifacts must be a list when present'') (
        bind (map_result (antislop_witnessed_path sb) (items_of (fld run ''artifacts''))) (\<lambda>paths.
        Inr (Some ((case witnessed of None \<Rightarrow> [] | Some w \<Rightarrow> w) @ paths)))))"

fun antislop_runs :: "(bytes \<Rightarrow> bytes) \<Rightarrow> (string \<Rightarrow> int option) \<Rightarrow> subject \<Rightarrow> pyval list \<Rightarrow> census \<times> finding list \<Rightarrow>
    string list option \<Rightarrow> (census \<times> finding list \<times> string list option) result" where
  "antislop_runs sha decimal sb [] acc witnessed = Inr (fst acc, snd acc, witnessed)"
| "antislop_runs sha decimal sb (run # runs) acc witnessed =
     ensure (is_dict run) (ValueError ''SARIF runs entries must be objects'') (
     bind (check_invocations run) (\<lambda>_.
     bind (antislop_add_witnessed sb run witnessed) (\<lambda>witnessed'.
     ensure (is_list (run_results run)) (ValueError ''SARIF runs[].results must be a list when present'') (
     bind (fold_result (antislop_entry sha decimal sb) acc (items_of (run_results run))) (\<lambda>acc'.
     antislop_runs sha decimal sb runs acc' witnessed')))))"

definition antislop_parse :: "(bytes \<Rightarrow> bytes) \<Rightarrow> (string \<Rightarrow> int option) \<Rightarrow> subject \<Rightarrow> bytes \<Rightarrow>
    (census \<times> finding list \<times> string list option) result" where
  "antislop_parse sha decimal sb sarif_bytes =
     bind (sarif_document sarif_bytes) (\<lambda>document.
     bind (validate_sarif_core document) (\<lambda>_.
     antislop_runs sha decimal sb (items_of (fld document ''runs'')) ([], []) None))"

section \<open>The reduction\<close>

definition frozen_tests :: "pyval \<Rightarrow> census" where
  "frozen_tests validated = map (\<lambda>p. (fst p, int_of (snd p))) (dict_of (fld validated ''tests''))"

definition census_step :: "census \<Rightarrow> (string \<times> string) list \<Rightarrow> string \<times> int \<Rightarrow> (string \<times> string) list" where
  "census_step census os t =
     (case map_of census (fst t) of
        None \<Rightarrow> os
      | Some observed \<Rightarrow> if observed < snd t then dict_set os (fst t) ''failed'' else os)"

definition structural_step :: "(string \<times> string) list \<Rightarrow> finding \<Rightarrow> (string \<times> string) list" where
  "structural_step os f =
     (case f of (identifier, path, named) \<Rightarrow>
        let os' = dict_set (dict_set os identifier ''failed'') named ''failed'' in
        if path \<in> fst ` set os' then dict_set os' path ''failed'' else os')"

definition antislop_outcomes :: "string list \<Rightarrow> census \<Rightarrow> census \<Rightarrow> finding list \<Rightarrow> (string \<times> string) list" where
  "antislop_outcomes scope tests census found =
     foldl structural_step
       (foldl (census_step census)
         (dict_set (map (\<lambda>path. (path, ''passed'')) scope) ANTISLOP_STRUCTURAL_ID (if found \<noteq> [] then ''failed'' else ''passed''))
         tests)
       found"

text \<open>The scope paths that are missing: here an artifact without coverage misses none of them.\<close>

fun antislop_missing :: "subject \<Rightarrow> string list option \<Rightarrow> string list \<Rightarrow> string list result" where
  "antislop_missing sb witnessed [] = Inr []"
| "antislop_missing sb witnessed (path # paths) =
     bind (subject_file_present sb path) (\<lambda>present.
     bind (antislop_missing sb witnessed paths) (\<lambda>rest.
     Inr (if \<not> present \<or> (case witnessed of None \<Rightarrow> False | Some w \<Rightarrow> path \<notin> set w) then path # rest else rest)))"

definition antislop_results_from_sarif ::
  "(bytes \<Rightarrow> bytes) \<Rightarrow> (string \<Rightarrow> int option) \<Rightarrow> subject \<Rightarrow> bytes \<Rightarrow> pyval \<Rightarrow> pyval result" where
  "antislop_results_from_sarif sha decimal sb sarif_bytes manifest =
     bind (validate_antislop_expectations manifest) (\<lambda>validated.
     bind (antislop_parse sha decimal sb sarif_bytes) (\<lambda>(census, found, witnessed).
     let scope = string_items (fld validated ''scope''); tests = frozen_tests validated;
         os = antislop_outcomes scope tests census found in
     bind (antislop_missing sb witnessed scope) (\<lambda>unseen.
     bind (antislop_expected_ids validated) (\<lambda>expected.
     bind (antislop_expectations_digest sha validated) (\<lambda>mdigest.
     outcome_summary sha mdigest (sort_key fst os)
       (sorted_set (unseen @ filter (\<lambda>t. t \<notin> fst ` set census) (map fst tests)))
       (length (remdups (filter (\<lambda>i. i \<notin> set expected) (map fst census @ map fst found)))))))))"

definition freeze_antislop_expectations_observed :: "census \<Rightarrow> finding list \<Rightarrow> string list \<Rightarrow> pyval result" where
  "freeze_antislop_expectations_observed census found witnessed =
     ensure (found = [])
       (ValueError (''refusing to freeze antislop expectations around a tree that already carries antislop violations: '' @
          join '', '' (sort (map fst found)))) (
     validate_antislop_expectations (VDict
       [(''scope'', str_list (sorted_set witnessed)),
        (''tests'', VDict (map (\<lambda>p. (fst p, VInt (snd p))) (sort_key fst census)))]))"

definition freeze_antislop_expectations ::
  "(bytes \<Rightarrow> bytes) \<Rightarrow> (string \<Rightarrow> int option) \<Rightarrow> subject \<Rightarrow> bytes \<Rightarrow> pyval result" where
  "freeze_antislop_expectations sha decimal sb sarif_bytes =
     bind (antislop_parse sha decimal sb sarif_bytes) (\<lambda>(census, found, witnessed).
     case witnessed of
       None \<Rightarrow> Inl (ValueError ''antislop freeze requires an explicit artifacts inventory'')
     | Some w \<Rightarrow> freeze_antislop_expectations_observed census found w)"

section \<open>What a claim freezes\<close>

definition claim_expectations :: "(bytes \<Rightarrow> bytes) \<Rightarrow> bytes \<Rightarrow> string \<Rightarrow> (string \<times> string list \<times> (string \<times> string) list) result" where
  "claim_expectations sha raw reporter =
     (if reporter \<in> set SCAN_REPORTERS then
        bind (load_scan_manifest_bytes raw) (\<lambda>loaded.
        bind (validate_scan_manifest loaded) (\<lambda>manifest.
        bind (scan_manifest_digest sha manifest (reporter = REVIEW_REPORTER)) (\<lambda>digest.
        bind (scan_expected_ids manifest) (\<lambda>ids.
        bind (scan_expected_skips manifest) (\<lambda>skips. Inr (digest, ids, skips))))))
      else if reporter = ''antislop-sarif-2.1.0'' then
        bind (load_antislop_expectations_bytes raw) (\<lambda>manifest.
        bind (antislop_expectations_digest sha manifest) (\<lambda>digest.
        bind (antislop_expected_ids manifest) (\<lambda>ids.
        bind (antislop_expected_skips manifest) (\<lambda>skips. Inr (digest, ids, skips)))))
      else
        bind (load_manifest_bytes raw) (\<lambda>suite.
        bind (manifest_digest sha suite) (\<lambda>digest.
        Inr (digest, string_items (fld suite ''suite''),
          map (\<lambda>p. (fst p, str_of (snd p))) (dict_of (fld suite ''expected_skips''))))))"

section \<open>The reduction decides the claim\<close>

lemma validate_antislop_Inr:
  assumes "validate_antislop_expectations v = Inr w"
  shows "w = v" and "strictly_sorted (string_items (fld v ''scope''))" and "is_dict (fld v ''tests'')"
    and "\<forall>p \<in> set (dict_of (fld v ''tests'')). is_test_id (fst p) \<and> is_non_negative_integer (snd p)"
  using assms by (auto simp: validate_antislop_expectations_def check_expected_test_def Let_def bind_Inr_iff for_each_Inr_iff)

lemma antislop_missing_Inr:
  "antislop_missing sb witnessed paths = Inr ms \<Longrightarrow> set ms =
     {p \<in> set paths. subject_file_present sb p \<noteq> Inr True \<or> (\<exists>w. witnessed = Some w \<and> p \<notin> set w)}"
  by (induction paths arbitrary: ms) (auto simp: bind_Inr_iff subject_file_present_def split: option.splits subject_file.splits if_splits)

lemma file_present_iff: "subject_file_present sb p = Inr True \<longleftrightarrow> (\<exists>b. sb_file sb p = Present b)"
  by (auto simp: subject_file_present_def split: subject_file.splits)

lemma passed_scope: "map_of (map (\<lambda>path. (path, ''passed'')) scope) i \<in> {None, Some ''passed''}"
  by (induction scope) auto

lemma fold_dict_distinct:
  assumes "\<And>os x. distinct (map fst os) \<Longrightarrow> distinct (map fst (step os x))" and "distinct (map fst os)"
  shows "distinct (map fst (foldl step os xs))"
  using assms(2) by (induction xs arbitrary: os) (auto simp: assms(1))

lemma antislop_outcomes_distinct:
  assumes "distinct scope"
  shows "distinct (map fst (antislop_outcomes scope tests census found))"
  unfolding antislop_outcomes_def
proof (intro fold_dict_distinct)
  show "distinct (map fst (structural_step os f))" if "distinct (map fst os)" for os f
    using that by (auto simp: structural_step_def Let_def distinct_dict_set split: prod.splits)
  show "distinct (map fst (census_step census os t))" if "distinct (map fst os)" for os t
    using that by (auto simp: census_step_def distinct_dict_set split: option.splits)
qed (use assms in \<open>simp add: distinct_dict_set comp_def\<close>)

text \<open>The structural outcome: a finding sets it to failed and nothing sets it back.\<close>

lemma structural_failed:
  "map_of os i = Some ''failed'' \<Longrightarrow> map_of (foldl structural_step os found) i = Some ''failed''"
  by (induction found arbitrary: os) (auto simp: structural_step_def Let_def map_of_dict_set split: prod.splits)

lemma census_failed:
  "map_of os i = Some ''failed'' \<Longrightarrow> map_of (foldl (census_step census) os tests) i = Some ''failed''"
  by (induction tests arbitrary: os) (auto simp: census_step_def map_of_dict_set split: option.splits)

lemma census_outcome:
  assumes "map_of os i \<in> {None, Some ''passed''}"
  shows "map_of (foldl (census_step census) os tests) i \<in> {None, Some ''passed''} \<longleftrightarrow>
    (\<forall>n. (i, n) \<in> set tests \<longrightarrow> (\<forall>k. map_of census i = Some k \<longrightarrow> n \<le> k))"
  using assms
proof (induction tests arbitrary: os)
  case (Cons t tests)
  show ?case
  proof (cases "fst t = i \<and> (\<exists>k. map_of census i = Some k \<and> k < snd t)")
    case True
    then have "map_of (census_step census os t) i = Some ''failed''" by (auto simp: census_step_def map_of_dict_set)
    then have "map_of (foldl (census_step census) os (t # tests)) i = Some ''failed''" by (simp add: census_failed)
    then show ?thesis using True by (cases t) auto
  next
    case False
    then have "map_of (census_step census os t) i = map_of os i"
      by (auto simp: census_step_def map_of_dict_set split: option.splits)
    then show ?thesis using Cons False by (cases t) force
  qed
qed simp

lemma antislop_base:
  "map_of (dict_set (map (\<lambda>path. (path, ''passed'')) scope) ANTISLOP_STRUCTURAL_ID ''passed'') i \<in> {None, Some ''passed''}"
  using passed_scope [of scope i] by (auto simp: map_of_dict_set)

lemma antislop_outcomes_ok_iff:
  "(\<forall>i \<in> insert ANTISLOP_STRUCTURAL_ID I. map_of (antislop_outcomes scope tests census found) i \<in> {None, Some ''passed''}) \<longleftrightarrow>
     found = [] \<and> (\<forall>(i, n) \<in> set tests. i \<in> insert ANTISLOP_STRUCTURAL_ID I \<longrightarrow> (\<forall>k. map_of census i = Some k \<longrightarrow> n \<le> k))"
proof (cases found)
  case Nil
  have "map_of (antislop_outcomes scope tests census []) i \<in> {None, Some ''passed''} \<longleftrightarrow>
      (\<forall>n. (i, n) \<in> set tests \<longrightarrow> (\<forall>k. map_of census i = Some k \<longrightarrow> n \<le> k))" for i
    using census_outcome [OF antislop_base] by (simp only: antislop_outcomes_def list.size foldl_Nil simp_thms if_False)
  then show ?thesis by (simp only: Nil) (auto simp only: Ball_def)
next
  case (Cons f fs)
  then have "map_of (antislop_outcomes scope tests census found) ANTISLOP_STRUCTURAL_ID = Some ''failed''"
    unfolding antislop_outcomes_def by (intro structural_failed census_failed) (simp add: map_of_dict_set)
  then show ?thesis using Cons by simp
qed

text \<open>
  C8: An antislop claim is satisfied exactly when the command exited 0, no structural finding was
  reported, every file of the frozen scope is a file of the subject (and covered, when some run
  declares what it covered), and every frozen test was counted with at least its frozen number of
  effective asserts. A dropped test, a deleted assertion and a finding in a file nobody froze all block.
\<close>

theorem antislop_claim_satisfied_iff:
  assumes sum: "antislop_results_from_sarif sha decimal sb raw m = Inr s"
    and parsed: "antislop_parse sha decimal sb raw = Inr (census, found, witnessed)"
    and md: "antislop_expectations_digest sha m = Inr md" and ids: "antislop_expected_ids m = Inr ids"
    and skips: "antislop_expected_skips m = Inr skips"
    and c: "c_results_required c" "c_manifest_digest c = Some md" "c_expected_ids c = Some ids" "c_expected_skips c = Some skips"
    and e: "addresses e c sd" "e_suite_results e = Some s"
  shows "satisfies e c sd \<longleftrightarrow> e_exit_code e = 0 \<and> found = [] \<and>
    (\<forall>p \<in> set (string_items (fld m ''scope'')).
       (\<exists>b. sb_file sb p = Present b) \<and> (\<forall>w. witnessed = Some w \<longrightarrow> p \<in> set w)) \<and>
    (\<forall>(t, n) \<in> set (frozen_tests m). \<exists>k. map_of census t = Some k \<and> n \<le> k)"
proof -
  let ?scope = "string_items (fld m ''scope'')" and ?tests = "frozen_tests m"
  let ?os = "antislop_outcomes ?scope ?tests census found"
  obtain v where v: "validate_antislop_expectations m = Inr v" using ids by (auto simp: antislop_expected_ids_def bind_Inr_iff)
  note man = validate_antislop_Inr [OF v]
  obtain ms extra where ms: "antislop_missing sb witnessed ?scope = Inr ms"
    and out: "outcome_summary sha md (sort_key fst ?os)
      (sorted_set (ms @ filter (\<lambda>t. t \<notin> fst ` set census) (map fst ?tests))) extra = Inr s"
    using sum v man(1) parsed ids md by (auto simp: antislop_results_from_sarif_def Let_def bind_Inr_iff)
  note s = outcome_summary_Inr [OF out]
  have d: "distinct ?scope" using man(2) by (simp add: strictly_sorted_iff)
  let ?I = "set ?scope \<union> fst ` set ?tests"
  have "ids = sorted_set (ANTISLOP_STRUCTURAL_ID # ?scope @ keys (fld m ''tests''))"
    using ids v man(1) by (simp add: antislop_expected_ids_def)
  then have setids: "set ids = insert ANTISLOP_STRUCTURAL_ID ?I" by (simp add: frozen_tests_def keys_def image_image)
  have sk: "skips = []" using skips v by (simp add: antislop_expected_skips_def)
  have missing: "set (sr_missing s) = {p \<in> set ?scope. \<not> ((\<exists>b. sb_file sb p = Present b) \<and> (\<forall>w. witnessed = Some w \<longrightarrow> p \<in> set w))} \<union>
      {t \<in> fst ` set ?tests. map_of census t = None}"
    using antislop_missing_Inr [OF ms] by (auto simp: s(2) file_present_iff map_of_eq_None_iff)
  have "satisfies e c sd \<longleftrightarrow> e_exit_code e = 0 \<and> (\<forall>i \<in> set ids. i \<notin> set (sr_missing s)) \<and>
      (\<forall>i \<in> set ids. map_of ?os i \<in> {None, Some ''passed''})"
    unfolding satisfies_summary [OF s(1,3) antislop_outcomes_distinct [OF d] c e] sk by auto
  also have "\<dots> \<longleftrightarrow> e_exit_code e = 0 \<and> found = [] \<and> (\<forall>i \<in> set ids. i \<notin> set (sr_missing s)) \<and>
      (\<forall>(i, n) \<in> set ?tests. \<forall>k. map_of census i = Some k \<longrightarrow> n \<le> k)"
    unfolding setids antislop_outcomes_ok_iff by force
  also have "(\<forall>i \<in> set ids. i \<notin> set (sr_missing s)) \<longleftrightarrow>
      (\<forall>p \<in> set ?scope. (\<exists>b. sb_file sb p = Present b) \<and> (\<forall>w. witnessed = Some w \<longrightarrow> p \<in> set w)) \<and>
      (\<forall>(t, n) \<in> set ?tests. map_of census t \<noteq> None)"
    unfolding setids missing by force
  finally show ?thesis by fastforce
qed

section \<open>Examples\<close>

definition ascii_decimal :: "string \<Rightarrow> int option" where
  "ascii_decimal s = (if s \<noteq> [] \<and> list_all is_digit s then Some (foldl (\<lambda>n c. 10 * n + (of_char c - 48)) 0 s) else None)"

definition slop_test :: string where
  "slop_test = ''src/a.py::test_x''"

definition slop_document :: pyval where
  "slop_document = VDict
     [(''runs'', VList [VDict
        [(''results'', VList [VDict
            [(''level'', VStr ''none''),
             (''locations'', VList [VDict [(''physicalLocation'', VDict
                [(''artifactLocation'', VDict [(''uri'', VStr ''src/a.py'')]), (''region'', VDict [(''startLine'', VInt 1)])])]]),
             (''message'', VDict [(''text'', VStr (slop_test @ '' effective_asserts=3''))]), (''ruleId'', VStr RULE_CENSUS)]]),
         (''tool'', VDict [(''driver'', VDict [(''name'', VStr ''antislop'')])])]]),
      (''version'', VStr ''2.1.0'')]"

definition slop_manifest :: pyval where
  "slop_manifest = VDict [(''scope'', str_list [''src/a.py'']), (''tests'', VDict [(slop_test, VInt 2)])]"

definition slop_bytes :: bytes where
  "slop_bytes = dumps slop_document"

lemma slop_parsed: "antislop_parse pad_sha ascii_decimal scan_subject slop_bytes = Inr ([(slop_test, 3)], [], None)"
proof -
  have "no_float slop_document" "wf_val slop_document" "utf8_val slop_document" "is_dict slop_document" by code_simp+
  then have "sarif_document slop_bytes = Inr slop_document"
    using utf8_dumps json_loads_dumps by (simp add: sarif_document_def slop_bytes_def)
  moreover have "is_ok (validate_sarif_core slop_document)" by code_simp
  moreover have "antislop_runs pad_sha ascii_decimal scan_subject (items_of (fld slop_document ''runs'')) ([], []) None =
      Inr ([(slop_test, 3)], [], None)" by code_simp
  ultimately show ?thesis by (auto simp: antislop_parse_def is_ok_iff)
qed

lemma slop_manifest_valid: "validate_antislop_expectations slop_manifest = Inr slop_manifest"
  by code_simp

lemma slop_parts: "string_items (fld slop_manifest ''scope'') = [''src/a.py'']" "frozen_tests slop_manifest = [(slop_test, 2)]"
  "keys (fld slop_manifest ''tests'') = [slop_test]"
  by code_simp+

definition slop_digest :: string where
  "slop_digest = (case antislop_expectations_digest pad_sha slop_manifest of Inr d \<Rightarrow> d | Inl _ \<Rightarrow> [])"

lemma slop_digest_Inr: "antislop_expectations_digest pad_sha slop_manifest = Inr slop_digest" "is_digest slop_digest"
proof -
  have "plain_val (antislop_binding slop_manifest)" by code_simp
  then obtain d where d: "sha256_text pad_sha (antislop_binding slop_manifest) = Inr d" using plain_digest by blast
  then show "antislop_expectations_digest pad_sha slop_manifest = Inr slop_digest"
    by (simp add: slop_digest_def antislop_expectations_digest_def slop_manifest_valid)
  with d show "is_digest slop_digest"
    using sha256_text_digest [OF d length_pad_sha] by (simp add: antislop_expectations_digest_def slop_manifest_valid)
qed

definition slop_ids :: "string list" where
  "slop_ids = [ANTISLOP_STRUCTURAL_ID, ''src/a.py'', slop_test]"

lemma slop_ids_Inr: "antislop_expected_ids slop_manifest = Inr slop_ids" "antislop_expected_skips slop_manifest = Inr []"
  by code_simp+

definition slop_summary :: pyval where
  "slop_summary = (case antislop_results_from_sarif pad_sha ascii_decimal scan_subject slop_bytes slop_manifest of
     Inr s \<Rightarrow> s | Inl _ \<Rightarrow> VNone)"

lemma slop_summary_Inr: "antislop_results_from_sarif pad_sha ascii_decimal scan_subject slop_bytes slop_manifest = Inr slop_summary"
proof -
  let ?os = "[(ANTISLOP_STRUCTURAL_ID, ''passed''), (''src/a.py'', ''passed'')]"
  have os: "sort_key fst (antislop_outcomes [''src/a.py''] [(slop_test, 2)] [(slop_test, 3)] []) = ?os" by code_simp
  have "plain_val (VDict [(ANTISLOP_STRUCTURAL_ID, VStr ''passed''), (''src/a.py'', VStr ''passed'')])" by code_simp
  from plain_digest [OF this, of pad_sha] obtain od where od: "sha256_text pad_sha (VDict (map (\<lambda>p. (fst p, VStr (snd p))) ?os)) = Inr od"
    by auto
  have "sorted (map fst ?os)" "distinct (map fst ?os)" by code_simp+
  then obtain s where s: "outcome_summary pad_sha slop_digest ?os [] 0 = Inr s"
    using outcome_summary_ok [OF _ _ _ _ _ slop_digest_Inr(2) od length_pad_sha, of "[]" 0]
    by (auto simp: strictly_sorted_def ANTISLOP_STRUCTURAL_ID_def)
  have "antislop_missing scan_subject None [''src/a.py''] = Inr []" by (simp add: scan_subject_def subject_file_present_def)
  then show ?thesis
    using s os by (simp add: slop_summary_def antislop_results_from_sarif_def slop_manifest_valid slop_parsed slop_parts
        slop_ids_Inr slop_digest_Inr(1) sorted_set_def slop_ids_def Let_def)
qed

definition slop_claim :: claim where
  "slop_claim = \<lparr>c_claim_id = ''slop'', c_command_digest = zero_digest, c_results_required = True,
     c_manifest_digest = Some slop_digest, c_expected_ids = Some slop_ids, c_expected_skips = Some []\<rparr>"

definition slop_evidence :: evidence where
  "slop_evidence = (demo_evidence ''worker'' 0)\<lparr>e_claim_id := ''slop'', e_suite_results := Some slop_summary\<rparr>"

theorem antislop_claim_satisfied_iff_witness: "satisfies slop_evidence slop_claim zero_digest"
proof -
  have "addresses slop_evidence slop_claim zero_digest"
    by (simp add: addresses_def slop_evidence_def slop_claim_def demo_evidence_def)
  then show ?thesis
    using antislop_claim_satisfied_iff [OF slop_summary_Inr slop_parsed slop_digest_Inr(1) slop_ids_Inr]
    by (simp add: slop_claim_def slop_evidence_def scan_subject_def demo_evidence_def slop_parts)
qed

end
