(* ===== verification/Gate_Catalog.thy ===== *)
theory Gate_Catalog
  imports Trust Antislop_Results
begin

text \<open>
  The gate catalog (\<^verbatim>\<open>src/src/ranex/policy/adapters/configuration/yaml/slice_gate_loader.py\<close>): the
  claims a gate requires, the argv that satisfies each, and the artifact that argv must write. The YAML
  library is the parameter of \<open>Trust\<close>. Shown: what a loaded gate promises about its claims, the
  operand an interpreter would run as its script, and exactly which pytest argvs can report an
  unexpected pass.
\<close>

section \<open>Definitions of a gate\<close>

record slice_claim =
  sc_claim_id :: string
  sc_command :: "string list"
  sc_results_artifact :: "string option"
  sc_qualification_report :: "string option"
  sc_results_reporter :: string
  sc_results_manifest :: "string option"

record slice_gate =
  sg_gate_id :: string
  sg_rule_id :: string
  sg_required_claims :: "slice_claim list"
  sg_blocking :: bool
  sg_requires_settings_binding :: bool

definition JUNIT_REPORTERS :: "string list" where
  "JUNIT_REPORTERS = [''pytest-junit'', ''vitest-junit'']"

definition SARIF_ARGV_REPORTERS :: "string list" where
  "SARIF_ARGV_REPORTERS = SCAN_REPORTERS @ ANTISLOP_REPORTERS"

definition known_reporters :: "string list" where
  "known_reporters = JUNIT_REPORTERS @ SCAN_REPORTERS @ ANTISLOP_REPORTERS"

definition slice_claim_digest :: "(bytes \<Rightarrow> bytes) \<Rightarrow> slice_claim \<Rightarrow> string result" where
  "slice_claim_digest sha c = command_digest sha (sc_command c)"

section \<open>Reading the document\<close>

text \<open>
  \<open>_no_duplicates\<close> at every mapping. A sequence or a mapping cannot be a key of a dictionary. A
  document with several faults is refused for the first of them in document order; the library
  builds the items of a sequence later than the mapping around it.
\<close>

function gate_construct :: "yaml \<Rightarrow> unit result"
  and gate_items :: "yaml list \<Rightarrow> unit result"
  and gate_entries :: "yaml list \<Rightarrow> (yaml \<times> yaml) list \<Rightarrow> unit result"
where
  "gate_construct (YAtom v) = Inr ()"
| "gate_construct (YOther s) = Inr ()"
| "gate_construct (YSeq xs) = gate_items xs"
| "gate_construct (YMap m) = gate_entries [] m"
| "gate_items [] = Inr ()"
| "gate_items (x # xs) = bind (gate_construct x) (\<lambda>_. gate_items xs)"
| "gate_entries seen [] = Inr ()"
| "gate_entries seen ((k, v) # m) =
     bind (gate_construct k) (\<lambda>_.
     ensure (usable_key k) (TypeError ''unhashable type'') (
     ensure (\<not> list_ex (\<lambda>s. key_eq s k) seen) (ValueError (''duplicate key in gate catalog: '' @ yaml_repr k)) (
     bind (gate_construct v) (\<lambda>_. gate_entries (k # seen) m))))"
  by pat_completeness auto
termination
  by (relation "measure (\<lambda>a. case a of Inl y \<Rightarrow> size y | Inr (Inl ys) \<Rightarrow> size_list size ys
        | Inr (Inr (_, m)) \<Rightarrow> size_list (size_prod size size) m)") auto

definition gate_yaml_load :: "yaml_library \<Rightarrow> string \<Rightarrow> yaml result" where
  "gate_yaml_load yl text =
     (case yl_compose yl text of
        Inl e \<Rightarrow> Inl (ValueError (''gate catalog is not valid YAML: '' @ exn_text e))
      | Inr node \<Rightarrow> bind (gate_construct node) (\<lambda>_. Inr node))"

text \<open>
  The refusal of unknown keys sorts them, which fails on keys that have no order with each other. Two
  unknown keys that are floats or dates count as incomparable here; the catalog is refused either way.
\<close>

fun integer_key :: "yaml \<Rightarrow> int option" where
  "integer_key (YAtom (VInt i)) = Some i"
| "integer_key (YAtom (VBool b)) = Some (if b then 1 else 0)"
| "integer_key _ = None"

definition sorted_keys :: "yaml list \<Rightarrow> yaml list option" where
  "sorted_keys ks =
     (if list_all (\<lambda>k. yaml_str k \<noteq> None) ks then Some (sort_key (\<lambda>k. the (yaml_str k)) ks)
      else if list_all (\<lambda>k. integer_key k \<noteq> None) ks then Some (sort_key (\<lambda>k. the (integer_key k)) ks)
      else if length ks = 1 then Some ks
      else None)"

definition unknown_keys :: "yaml \<Rightarrow> string list \<Rightarrow> yaml list" where
  "unknown_keys v names = filter (\<lambda>k. case yaml_str k of None \<Rightarrow> True | Some s \<Rightarrow> s \<notin> set names) (field_names v)"

definition refuse_unknown :: "yaml \<Rightarrow> string list \<Rightarrow> string \<Rightarrow> unit result" where
  "refuse_unknown v names message =
     (if unknown_keys v names = [] then Inr ()
      else case sorted_keys (unknown_keys v names) of
        None \<Rightarrow> Inl (TypeError ''unorderable keys'')
      | Some ks \<Rightarrow> Inl (ValueError (message @ yaml_repr (YSeq ks))))"

section \<open>Argvs\<close>

text \<open>Per family, the options that supply the program and the options that take a value.\<close>

definition SCRIPTED_INTERPRETERS :: "(string \<times> string list \<times> string list) list" where
  "SCRIPTED_INTERPRETERS =
     [(''python'', [''-m'', ''-c''], [''-W'', ''-X'', ''--check'']),
      (''pypy'', [''-m'', ''-c''], [''-W'', ''-X'']),
      (''node'', [''-e'', ''--eval'', ''-p'', ''--print''],
        [''-r'', ''--require'', ''--import'', ''--experimental-loader'', ''--max-old-space-size'']),
      (''ruby'', [''-e''], [''-r'', ''-I'', ''-C'']),
      (''perl'', [''-e''], [''-I'', ''-M'']),
      (''php'', [''-f'', ''-r''], [''-c'', ''-d'']),
      (''lua'', [''-e''], [''-l'']),
      (''sh'', [''-c'', ''--command''], []),
      (''bash'', [''-c''], [''--init-file'', ''--rcfile'']),
      (''dash'', [''-c''], []),
      (''zsh'', [''-c'', ''--command''], []),
      (''ksh'', [''-c''], []),
      (''fish'', [''-c'', ''--command''], [])]"

text \<open>\<open>Path(s).name\<close> without its trailing version.\<close>

definition final_part :: "string \<Rightarrow> string" where
  "final_part s = (case rev (relative_parts s) of [] \<Rightarrow> [] | p # _ \<Rightarrow> p)"

definition interpreter_family :: "string \<Rightarrow> string" where
  "interpreter_family s = rev (dropWhile (\<lambda>c. is_digit c \<or> c = CHR ''.'') (rev (final_part s)))"

fun script_operand :: "string list \<Rightarrow> string list \<Rightarrow> string list \<Rightarrow> string option" where
  "script_operand programs settings [] = None"
| "script_operand programs settings (element # rest) =
     (if element \<in> set settings then script_operand programs settings (drop 1 rest)
      else if element \<in> set programs then
        (case rest of
           [] \<Rightarrow> None
         | value # _ \<Rightarrow>
             if element = ''-m'' then (if slash \<in> set value then Some value else None)
             else if element = ''-f'' then Some value
             else None)
      else if \<not> starts_with ''-'' element then Some element
      else script_operand programs settings rest)"

definition scripted_interpreter_operand :: "string list \<Rightarrow> string option" where
  "scripted_interpreter_operand command =
     (case command of
        [] \<Rightarrow> None
      | argv0 # arguments \<Rightarrow>
          (case map_of SCRIPTED_INTERPRETERS (interpreter_family argv0) of
             None \<Rightarrow> None
           | Some (programs, settings) \<Rightarrow> script_operand programs settings arguments))"

definition STRICT_XFAIL_OVERRIDE :: "string list" where
  "STRICT_XFAIL_OVERRIDE = [''-o'', ''xfail_strict=true'']"

definition blinds_pytest :: "string \<Rightarrow> bool" where
  "blinds_pytest part \<longleftrightarrow> part = ''--runxfail'' \<or> contains ''no:skipping'' part"

text \<open>The positions of the exact pair among the options, which end before the first \<open>--\<close>.\<close>

definition strict_pairs :: "string list \<Rightarrow> nat list" where
  "strict_pairs command =
     (let options = takeWhile (\<lambda>part. part \<noteq> ''--'') command in
      filter (\<lambda>index. take 2 (drop index options) = STRICT_XFAIL_OVERRIDE) [0..<length options - 1])"

definition strict_mentions :: "string list \<Rightarrow> string list" where
  "strict_mentions command = filter (contains ''xfail_strict'') command"

definition reject_pytest_xfail_blindness :: "string \<Rightarrow> string \<Rightarrow> string list \<Rightarrow> unit result" where
  "reject_pytest_xfail_blindness gate_id claim_id command =
     (let refuse = (\<lambda>detail. ValueError (''gate '' @ repr_str gate_id @ '': claim '' @ repr_str claim_id @
            '' pytest JUnit requires the exact adjacent tokens '' @ py_repr (str_list STRICT_XFAIL_OVERRIDE) @
            '' so an XPASS is reported instead of being written as an ordinary pass: '' @ detail));
          mentions = strict_mentions command in
      bind (for_each (\<lambda>part. ensure (\<not> blinds_pytest part)
          (refuse (repr_str part @ '' makes pytest blind to the outcome'')) (Inr ())) command) (\<lambda>_.
      ensure (list_all (\<lambda>part. part = ''xfail_strict=true'') mentions)
        (refuse (''conflicting xfail_strict overrides '' @ py_repr (str_list mentions))) (
      ensure (length (strict_pairs command) = length mentions \<and> strict_pairs command \<noteq> [])
        (refuse (''argv '' @ py_repr (str_list command) @ '' does not carry it as an option pair'')) (
      Inr ()))))"

section \<open>Loading a gate\<close>

definition claim_keys :: "string list" where
  "claim_keys = [''claim_id'', ''command'', ''results_artifact'', ''results_reporter'', ''results_manifest'', ''qualification_report'']"

definition claim_shape :: string where
  "claim_shape = ''{claim_id: <id>, command: [<argv>, ...]}''"

definition opt_repr :: "yaml option \<Rightarrow> string" where
  "opt_repr v = (case v of None \<Rightarrow> ''None'' | Some y \<Rightarrow> yaml_repr y)"

text \<open>A declared path: a text, not empty, relative, and without a component that leads upwards.\<close>

definition declared_path :: "string \<Rightarrow> string \<Rightarrow> string \<Rightarrow> yaml \<Rightarrow> string result" where
  "declared_path gate_id claim_id name v =
     ensure (case yaml_str v of None \<Rightarrow> False | Some s \<Rightarrow> s \<noteq> [] \<and> stays_below s)
       (ValueError (''gate '' @ repr_str gate_id @ '': claim '' @ repr_str claim_id @ '' '' @ name @
          '' must be a non-empty relative path confined below the repository'')) (
     Inr (the (yaml_str v)))"

definition options_under :: "string list \<Rightarrow> string list \<Rightarrow> string list" where
  "options_under prefixes command = filter (\<lambda>part. list_ex (\<lambda>p. starts_with p part) prefixes) command"

text \<open>Exactly the two given options under the given prefixes, and nothing after a \<open>--\<close>.\<close>

definition exact_options :: "string list \<Rightarrow> string list \<Rightarrow> string list \<Rightarrow> bool" where
  "exact_options prefixes expected command \<longleftrightarrow>
     ''--'' \<notin> set command \<and> length (options_under prefixes command) = 2 \<and> set (options_under prefixes command) = set expected"

definition bind_sarif :: "string \<Rightarrow> string \<Rightarrow> string list \<Rightarrow> string \<Rightarrow> unit result" where
  "bind_sarif gate_id claim_id command candidate =
     ensure (exact_options [''--output-format'', ''--output-file''] [''--output-format=sarif'', ''--output-file='' @ candidate] command)
       (ValueError (''gate '' @ repr_str gate_id @ '': claim '' @ repr_str claim_id @
          '' SARIF requires exactly --output-format=sarif and --output-file='' @ candidate @ '', without overrides or --'')) (
     case scripted_interpreter_operand command of
       None \<Rightarrow> Inr ()
     | Some script \<Rightarrow> Inl (ValueError (''gate '' @ repr_str gate_id @ '': claim '' @ repr_str claim_id @
         '' binds a scripted interpreter to '' @ repr_str script @
         '', a script operand. A script the observed tree carries chooses what the claim means, and the catalog cannot see any '' @
         ''script's bytes; bind the scanner binary as argv[0] or a `-m` module of a pinned interpreter'')))"

definition bind_artifact :: "string \<Rightarrow> string \<Rightarrow> string \<Rightarrow> string list \<Rightarrow> string \<Rightarrow> unit result" where
  "bind_artifact gate_id claim_id reporter command candidate =
     (if reporter \<in> set SARIF_ARGV_REPORTERS then bind_sarif gate_id claim_id command candidate
      else if reporter = ''vitest-junit'' then
        ensure (exact_options [''--reporter'', ''--outputFile'', ''--output-file''] [''--reporter=junit'', ''--outputFile='' @ candidate] command)
          (ValueError (''gate '' @ repr_str gate_id @ '': claim '' @ repr_str claim_id @
             '' Vitest JUnit requires exactly --reporter=junit and --outputFile='' @ candidate @ '', without overrides or --'')) (
        Inr ())
      else
        ensure (''--junitxml='' @ candidate \<in> set command)
          (ValueError (''gate '' @ repr_str gate_id @ '': claim '' @ repr_str claim_id @
             '' must bind results_artifact with the exact argv token '' @ repr_str (''--junitxml='' @ candidate))) (
        Inr ()))"

definition claim_command :: "string \<Rightarrow> string \<Rightarrow> yaml \<Rightarrow> string list result" where
  "claim_command gate_id claim_id entry =
     (case yget entry ''command'' of
        None \<Rightarrow> Inl (ValueError (''gate '' @ repr_str gate_id @ '': claim '' @ repr_str claim_id @
          '' declares no command, so what would satisfy it is undefined; write it as '' @ claim_shape))
      | Some command \<Rightarrow>
          ensure (case yaml_seq command of None \<Rightarrow> False | Some parts \<Rightarrow> parts \<noteq> [])
            (ValueError (''gate '' @ repr_str gate_id @ '': claim '' @ repr_str claim_id @
               '' must declare command as a non-empty list of argv strings, got '' @ yaml_repr command @
               ''. A string would need shell parsing and an empty list binds nothing'')) (
          let parts = the (yaml_seq command) in
          ensure (list_all (\<lambda>part. case yaml_str part of None \<Rightarrow> False | Some s \<Rightarrow> s \<noteq> []) parts)
            (ValueError (''gate '' @ repr_str gate_id @ '': claim '' @ repr_str claim_id @
               '' declares a command that is not an argv '' @ em_dash @
               '' every element must be a non-empty string, got '' @ yaml_repr command)) (
          Inr (map (\<lambda>part. the (yaml_str part)) parts))))"

definition claim_reporter :: "yaml \<Rightarrow> string result" where
  "claim_reporter entry =
     (let reporter = (case yget entry ''results_reporter'' of None \<Rightarrow> YAtom (VStr ''pytest-junit'') | Some y \<Rightarrow> y) in
      ensure (case yaml_str reporter of None \<Rightarrow> False | Some s \<Rightarrow> s \<in> set known_reporters)
        (ValueError (''results_reporter must be one of '' @ py_repr (str_list (sort known_reporters)))) (
      ensure (yget entry ''results_reporter'' = None \<or> yget entry ''results_artifact'' \<noteq> None)
        (ValueError ''results_reporter requires results_artifact'') (
      Inr (the (yaml_str reporter)))))"

definition claim_artifact :: "string \<Rightarrow> string \<Rightarrow> string \<Rightarrow> string list \<Rightarrow> yaml \<Rightarrow> string option result" where
  "claim_artifact gate_id claim_id reporter command entry =
     (case yget entry ''results_artifact'' of
        None \<Rightarrow> Inr None
      | Some v \<Rightarrow>
          bind (declared_path gate_id claim_id ''results_artifact'' v) (\<lambda>candidate.
          bind (bind_artifact gate_id claim_id reporter command candidate) (\<lambda>_. Inr (Some candidate))))"

definition claim_manifest :: "string \<Rightarrow> string \<Rightarrow> string \<Rightarrow> yaml \<Rightarrow> string option result" where
  "claim_manifest gate_id claim_id reporter entry =
     (case yget entry ''results_manifest'' of
        Some v \<Rightarrow>
          ensure (reporter \<in> set SARIF_ARGV_REPORTERS)
            (ValueError (''gate '' @ repr_str gate_id @ '': claim '' @ repr_str claim_id @ '' declares results_manifest under '' @
               repr_str reporter @ ''; JUnit claims are reduced against the repository's one committed suite manifest, '' @
               ''and a second name for it would be a second thing to keep in step'')) (
          bind (declared_path gate_id claim_id ''results_manifest'' v) (\<lambda>candidate. Inr (Some candidate)))
      | None \<Rightarrow>
          ensure (reporter \<notin> set SARIF_ARGV_REPORTERS)
            (ValueError (''gate '' @ repr_str gate_id @ '': claim '' @ repr_str claim_id @ '' declares '' @ repr_str reporter @
               '' without a results_manifest; a scan with no frozen scope decides nothing, so the claim is refused where it is '' @
               ''written rather than passing on an empty universe'')) (
          Inr None))"

definition claim_report :: "string \<Rightarrow> string \<Rightarrow> string list \<Rightarrow> string option \<Rightarrow> yaml \<Rightarrow> string option result" where
  "claim_report gate_id claim_id command artifact entry =
     (case yget entry ''qualification_report'' of
        None \<Rightarrow> Inr None
      | Some v \<Rightarrow>
          ensure (artifact = None)
            (ValueError (''gate '' @ repr_str gate_id @ '': claim '' @ repr_str claim_id @
               '' results_artifact and qualification_report are mutually exclusive'')) (
          bind (declared_path gate_id claim_id ''qualification_report'' v) (\<lambda>candidate.
          ensure (''--report='' @ candidate \<in> set command)
            (ValueError (''gate '' @ repr_str gate_id @ '': claim '' @ repr_str claim_id @
               '' must bind qualification_report with the exact argv token '' @ repr_str (''--report='' @ candidate))) (
          Inr (Some candidate)))))"

definition claim_definition :: "string \<Rightarrow> yaml \<Rightarrow> slice_claim result" where
  "claim_definition gate_id entry =
     ensure (is_map entry)
       (ValueError (''gate '' @ repr_str gate_id @ '': required_claims entry '' @ yaml_repr entry @
          '' must be a mapping of the form '' @ claim_shape @
          ''; a claim that names no command has no defined way to be satisfied'')) (
     bind (refuse_unknown entry claim_keys (''gate '' @ repr_str gate_id @ '': unknown keys in required_claims entry: '')) (\<lambda>_.
     ensure (case yget entry ''claim_id'' of None \<Rightarrow> False | Some y \<Rightarrow> (case yaml_str y of None \<Rightarrow> False | Some s \<Rightarrow> \<not> blank s))
       (ValueError (''gate '' @ repr_str gate_id @
          '': required_claims entry must carry a non-empty string claim_id, got '' @ opt_repr (yget entry ''claim_id''))) (
     let claim_id = the (yaml_str (the (yget entry ''claim_id''))) in
     bind (claim_command gate_id claim_id entry) (\<lambda>command.
     bind (claim_reporter entry) (\<lambda>reporter.
     bind (claim_artifact gate_id claim_id reporter command entry) (\<lambda>artifact.
     bind (claim_manifest gate_id claim_id reporter entry) (\<lambda>manifest.
     bind (claim_report gate_id claim_id command artifact entry) (\<lambda>report.
     Inr \<lparr>sc_claim_id = claim_id, sc_command = command, sc_results_artifact = artifact, sc_qualification_report = report,
       sc_results_reporter = reporter, sc_results_manifest = manifest\<rparr>))))))))"

definition gate_keys :: "string list" where
  "gate_keys = [''gate_id'', ''rule_id'', ''required_claims'', ''blocking'', ''requires_settings_binding'']"

text \<open>\<open>str(value)\<close>.\<close>

definition yaml_display :: "yaml \<Rightarrow> string" where
  "yaml_display v = (case yaml_str v of None \<Rightarrow> yaml_repr v | Some s \<Rightarrow> s)"

definition gate_claims :: "string \<Rightarrow> yaml list \<Rightarrow> slice_claim list result" where
  "gate_claims gate_id claims =
     bind (map_result (claim_definition gate_id) claims) (\<lambda>required.
     let seen = map sc_claim_id required; duplicates = filter (\<lambda>name. 1 < count_list seen name) seen in
     ensure (duplicates = [])
       (ValueError (''gate '' @ repr_str gate_id @ '' declares required_claims more than once: '' @
          join '', '' (sorted_set duplicates) @ ''; one claim names one command'')) (
     Inr required))"

definition gate_definition :: "string \<Rightarrow> yaml \<Rightarrow> slice_gate result" where
  "gate_definition gate_id entry =
     bind (refuse_unknown entry gate_keys (''unknown keys in gate '' @ repr_str gate_id @ '': '')) (\<lambda>_.
     let claims = (case yget entry ''required_claims'' of None \<Rightarrow> None | Some y \<Rightarrow> yaml_seq y);
         settings = (case yget entry ''requires_settings_binding'' of None \<Rightarrow> VBool False | Some y \<Rightarrow> yaml_val y) in
     ensure (claims \<noteq> None \<and> claims \<noteq> Some []) (ValueError (''gate '' @ repr_str gate_id @ '' must declare required_claims'')) (
     ensure (case yget entry ''blocking'' of None \<Rightarrow> True | Some y \<Rightarrow> y = YAtom (VBool True))
       (ValueError (''gate '' @ repr_str gate_id @ '' must be blocking'')) (
     ensure (case settings of VBool _ \<Rightarrow> True | _ \<Rightarrow> False)
       (ValueError (''gate '' @ repr_str gate_id @ '' requires_settings_binding must be a boolean'')) (
     bind (gate_claims gate_id (the claims)) (\<lambda>required.
     case yget entry ''rule_id'' of
       None \<Rightarrow> Inl (KeyError ''rule_id'')
     | Some rule \<Rightarrow>
         Inr \<lparr>sg_gate_id = gate_id, sg_rule_id = yaml_display rule,
           sg_required_claims = required, sg_blocking = True, sg_requires_settings_binding = (settings = VBool True)\<rparr>)))))"

definition one_gate :: "string \<Rightarrow> yaml list \<Rightarrow> yaml result" where
  "one_gate gate_id gates =
     (let matches = filter (\<lambda>g. is_map g \<and> yget g ''gate_id'' = Some (YAtom (VStr gate_id))) gates in
      ensure (length matches = 1)
        (ValueError (''expected exactly one gate '' @ repr_str gate_id @ '', found '' @ show_nat (length matches))) (
      Inr (hd matches)))"

definition load_gate_text :: "yaml_library \<Rightarrow> string \<Rightarrow> string \<Rightarrow> slice_gate result" where
  "load_gate_text yl text gate_id =
     bind (gate_yaml_load yl text) (\<lambda>document.
     ensure (is_map document) (ValueError ''gate catalog must be a mapping'') (
     let gates = (case yget document ''gates'' of None \<Rightarrow> None | Some y \<Rightarrow> yaml_seq y) in
     ensure (gates \<noteq> None \<and> gates \<noteq> Some []) (ValueError ''gate catalog must declare a non-empty 'gates' list'') (
     bind (one_gate gate_id (the gates)) (\<lambda>entry. gate_definition gate_id entry))))"

section \<open>Argvs that can report an unexpected pass\<close>

lemma take_2_drop: "take 2 (drop i xs) = [a, b] \<longleftrightarrow> Suc i < length xs \<and> xs ! i = a \<and> xs ! Suc i = b"
proof (cases "Suc i < length xs")
  case True
  then have "drop i xs = xs ! i # xs ! Suc i # drop (Suc (Suc i)) xs" by (simp add: Cons_nth_drop_Suc)
  then show ?thesis using True by simp
next
  case False
  then have "length (take 2 (drop i xs)) \<noteq> length [a, b]" by simp
  then have "take 2 (drop i xs) \<noteq> [a, b]" by metis
  then show ?thesis using False by blast
qed

lemma less_takeWhile_iff: "n < length (takeWhile P xs) \<longleftrightarrow> n < length xs \<and> (\<forall>x \<in> set (take (Suc n) xs). P x)"
proof (induction xs arbitrary: n)
  case (Cons x xs)
  then show ?case by (cases n) auto
qed simp

text \<open>The pair stands at a position of the argv, before any \<open>--\<close>.\<close>

definition strict_at :: "string list \<Rightarrow> nat \<Rightarrow> bool" where
  "strict_at command i \<longleftrightarrow> Suc i < length command \<and> command ! i = ''-o'' \<and> command ! Suc i = ''xfail_strict=true'' \<and>
     ''--'' \<notin> set (take (Suc (Suc i)) command)"

lemma set_strict_pairs: "set (strict_pairs command) = {i. strict_at command i}"
proof -
  let ?options = "takeWhile (\<lambda>part. part \<noteq> ''--'') command"
  have "i \<in> set (strict_pairs command) \<longleftrightarrow> Suc i < length ?options \<and> ?options ! i = ''-o'' \<and> ?options ! Suc i = ''xfail_strict=true''" for i
    by (auto simp: strict_pairs_def Let_def STRICT_XFAIL_OVERRIDE_def take_2_drop)
  moreover have "Suc i < length ?options \<Longrightarrow> ?options ! i = command ! i \<and> ?options ! Suc i = command ! Suc i" for i
    by (simp add: takeWhile_nth)
  ultimately have "i \<in> set (strict_pairs command) \<longleftrightarrow> Suc i < length ?options \<and> command ! i = ''-o'' \<and> command ! Suc i = ''xfail_strict=true''" for i
    by metis
  then show ?thesis by (auto simp: strict_at_def less_takeWhile_iff)
qed

lemma strict_pairs_counted:
  assumes "list_all (\<lambda>part. part = ''xfail_strict=true'') (strict_mentions command)"
  shows "length (strict_pairs command) = length (strict_mentions command) \<longleftrightarrow>
    (\<forall>j < length command. contains ''xfail_strict'' (command ! j) \<longrightarrow> (\<exists>i. j = Suc i \<and> strict_at command i))"
proof -
  define M where "M = {j. j < length command \<and> contains ''xfail_strict'' (command ! j)}"
  have M: "finite M" "length (strict_mentions command) = card M"
    by (auto simp: M_def strict_mentions_def length_filter_conv_card)
  have "contains ''xfail_strict'' ''xfail_strict=true''" by code_simp
  then have sub: "Suc ` {i. strict_at command i} \<subseteq> M" by (auto simp: strict_at_def M_def)
  have "distinct (strict_pairs command)" by (simp add: strict_pairs_def Let_def)
  then have "length (strict_pairs command) = card (Suc ` {i. strict_at command i})"
    by (simp add: distinct_card [symmetric] set_strict_pairs card_image)
  then have "length (strict_pairs command) = length (strict_mentions command) \<longleftrightarrow> M = Suc ` {i. strict_at command i}"
    using M sub card_subset_eq by metis
  also have "\<dots> \<longleftrightarrow> M \<subseteq> Suc ` {i. strict_at command i}" using sub by blast
  finally show ?thesis by (auto simp: M_def)
qed

lemma accepted_strict: "reject_pytest_xfail_blindness gate_id claim_id command = Inr u \<Longrightarrow> \<exists>i. strict_at command i"
  using set_strict_pairs [of command]
  by (cases "strict_pairs command") (auto simp: reject_pytest_xfail_blindness_def Let_def bind_Inr_iff)

text \<open>
  C10: Exactly the argvs that can report an unexpected pass are accepted for a pytest claim: no part
  switches the outcome off, the pair \<open>-o xfail_strict=true\<close> stands among the options, before any
  \<open>--\<close>, and every part of the argv that speaks of \<open>xfail_strict\<close> is the second token of such a pair.
\<close>

theorem xfail_argv_accepted_iff:
  "reject_pytest_xfail_blindness gate_id claim_id command = Inr () \<longleftrightarrow>
     (\<forall>part \<in> set command. \<not> blinds_pytest part) \<and> (\<exists>i. strict_at command i) \<and>
     (\<forall>j < length command. contains ''xfail_strict'' (command ! j) \<longrightarrow> (\<exists>i. j = Suc i \<and> strict_at command i))"
proof -
  have all: "list_all (\<lambda>part. part = ''xfail_strict=true'') (strict_mentions command)"
    if "\<forall>j < length command. contains ''xfail_strict'' (command ! j) \<longrightarrow> (\<exists>i. j = Suc i \<and> strict_at command i)"
    using that by (auto simp: list_all_iff strict_mentions_def in_set_conv_nth strict_at_def)
  have "strict_pairs command \<noteq> [] \<longleftrightarrow> (\<exists>i. strict_at command i)"
    using set_strict_pairs [of command] by (metis empty_Collect_eq set_empty)
  then show ?thesis
    using all strict_pairs_counted [of command]
    by (auto simp: reject_pytest_xfail_blindness_def Let_def bind_Inr_iff for_each_Inr_iff)
qed

section \<open>What a loaded gate promises\<close>

lemma declared_path_Inr [simp]:
  "declared_path g c n v = Inr s \<longleftrightarrow> v = YAtom (VStr s) \<and> s \<noteq> [] \<and> stays_below s"
  by (auto simp: declared_path_def split: option.splits)

lemma count_list_distinct: "filter (\<lambda>x. 1 < count_list xs x) xs = [] \<Longrightarrow> distinct xs"
proof (induction xs)
  case (Cons x xs)
  then show ?case by (auto simp: filter_empty_conv count_list_0_iff split: if_splits)
qed simp

lemma gate_claims_Inr:
  assumes "gate_claims g claims = Inr required" and "claims \<noteq> []"
  shows "required \<noteq> []" and "distinct (map sc_claim_id required)" and "\<exists>es. list_all2 (\<lambda>e c. claim_definition g e = Inr c) es required"
  using assms count_list_distinct by (auto simp: gate_claims_def Let_def bind_Inr_iff map_result_Inr_iff)

text \<open>
  Of the options under some prefixes the argv has exactly the wanted ones, each once, and no \<open>--\<close> after
  which an option would be an operand.
\<close>

definition only_named :: "string list \<Rightarrow> string list \<Rightarrow> string list \<Rightarrow> bool" where
  "only_named prefixes wanted command \<longleftrightarrow>
     ''--'' \<notin> set command \<and> (\<forall>w \<in> set wanted. count_list command w = 1) \<and>
     (\<forall>part \<in> set command. (\<exists>p \<in> set prefixes. starts_with p part) \<longrightarrow> part \<in> set wanted)"

lemma two_options:
  assumes "length xs = 2" "set xs = {a, b}" "a \<noteq> b"
  shows "count_list xs a = 1 \<and> count_list xs b = 1"
proof -
  obtain x y where "xs = [x, y]" using assms(1) by (auto simp: length_Suc_conv numeral_2_eq_2)
  then show ?thesis using assms(2,3) by auto
qed

lemma count_list_filter: "P x \<Longrightarrow> count_list (filter P xs) x = count_list xs x"
  by (induction xs) auto

lemma exact_options_named:
  assumes "exact_options prefixes [a, b] command" "a \<noteq> b"
  shows "only_named prefixes [a, b] command"
proof -
  let ?P = "\<lambda>part. list_ex (\<lambda>p. starts_with p part) prefixes"
  have o: "''--'' \<notin> set command" "length (filter ?P command) = 2" "set (filter ?P command) = {a, b}"
    using assms(1) by (simp_all add: exact_options_def options_under_def)
  then have "a \<in> set (filter ?P command)" "b \<in> set (filter ?P command)" by blast+
  then have p: "?P a" "?P b" by simp_all
  have "count_list command a = 1 \<and> count_list command b = 1"
    using two_options [OF o(2,3) assms(2)] count_list_filter [of ?P a command, OF p(1)] count_list_filter [of ?P b command, OF p(2)]
    by simp
  moreover have "part \<in> {a, b}" if "part \<in> set command" "\<exists>p \<in> set prefixes. starts_with p part" for part
    using that o(3) by (auto simp: list_ex_iff)
  ultimately show ?thesis using o(1) by (simp add: only_named_def)
qed

text \<open>The argv names the artifact it writes, in the spelling of the reporter.\<close>

definition names_artifact :: "string \<Rightarrow> string list \<Rightarrow> string \<Rightarrow> bool" where
  "names_artifact reporter command a \<longleftrightarrow>
     (if reporter = ''pytest-junit'' then ''--junitxml='' @ a \<in> set command
      else if reporter = ''vitest-junit''
      then only_named [''--reporter'', ''--outputFile'', ''--output-file''] [''--reporter=junit'', ''--outputFile='' @ a] command
      else only_named [''--output-format'', ''--output-file''] [''--output-format=sarif'', ''--output-file='' @ a] command)"

text \<open>
  An interpreter of the table is not handed a script. After options only (flags, and options with
  their value) comes no bare operand, no \<open>-m\<close> with a path for its module, and no \<open>-f\<close> with a file.
\<close>

fun only_options :: "string list \<Rightarrow> string list \<Rightarrow> string list \<Rightarrow> bool" where
  "only_options programs settings [] = True"
| "only_options programs settings [x] = (x \<notin> set settings \<and> x \<notin> set programs \<and> starts_with ''-'' x)"
| "only_options programs settings (x # y # r) =
     (if x \<in> set settings then only_options programs settings r
      else x \<notin> set programs \<and> starts_with ''-'' x \<and> only_options programs settings (y # r))"

definition runs_no_script :: "string list \<Rightarrow> bool" where
  "runs_no_script command \<longleftrightarrow>
     (\<forall>argv0 arguments programs settings before x after.
        command = argv0 # arguments \<longrightarrow> map_of SCRIPTED_INTERPRETERS (interpreter_family argv0) = Some (programs, settings) \<longrightarrow>
        arguments = before @ x # after \<longrightarrow> only_options programs settings before \<longrightarrow> x \<notin> set settings \<longrightarrow>
        (if x \<in> set programs then after = [] \<or> (x = ''-m'' \<longrightarrow> slash \<notin> set (hd after)) \<and> x \<noteq> ''-f''
         else starts_with ''-'' x))"

lemma script_operand_skips:
  "only_options programs settings before \<Longrightarrow> script_operand programs settings (before @ rest) = script_operand programs settings rest"
  by (induction programs settings before rule: only_options.induct) auto

lemma no_script_operand:
  assumes "scripted_interpreter_operand command = None"
  shows "runs_no_script command"
  unfolding runs_no_script_def
proof (intro allI impI)
  fix argv0 arguments programs settings before x after
  assume c: "command = argv0 # arguments" "map_of SCRIPTED_INTERPRETERS (interpreter_family argv0) = Some (programs, settings)"
    "arguments = before @ x # after" "only_options programs settings before" "x \<notin> set settings"
  then have "script_operand programs settings (x # after) = None"
    using assms script_operand_skips [OF c(4), of "x # after"] by (simp add: scripted_interpreter_operand_def)
  then show "if x \<in> set programs then after = [] \<or> (x = ''-m'' \<longrightarrow> slash \<notin> set (hd after)) \<and> x \<noteq> ''-f'' else starts_with ''-'' x"
    using c(5) by (auto split: if_split_asm list.split_asm)
qed

lemma bind_artifact_Inr:
  assumes "bind_artifact g c reporter command a = Inr u" "reporter \<in> set known_reporters"
  shows "names_artifact reporter command a" and "reporter \<in> set SARIF_ARGV_REPORTERS \<Longrightarrow> runs_no_script command"
proof -
  have kinds: "''pytest-junit'' \<notin> set SARIF_ARGV_REPORTERS" "''vitest-junit'' \<notin> set SARIF_ARGV_REPORTERS"
    "reporter \<in> {''pytest-junit'', ''vitest-junit''} \<union> set SARIF_ARGV_REPORTERS"
    using assms(2) by (auto simp: SARIF_ARGV_REPORTERS_def SCAN_REPORTERS_def REVIEW_REPORTER_def ANTISLOP_REPORTERS_def
        known_reporters_def JUNIT_REPORTERS_def)
  then show "names_artifact reporter command a"
    using assms(1) by (auto simp: bind_artifact_def bind_sarif_def names_artifact_def intro!: exact_options_named split: if_splits)
  show "reporter \<in> set SARIF_ARGV_REPORTERS \<Longrightarrow> runs_no_script command"
    using assms(1) by (auto simp: bind_artifact_def bind_sarif_def split: option.split_asm intro: no_script_operand)
qed

text \<open>What the loader promises about one claim.\<close>

definition claim_bound :: "slice_claim \<Rightarrow> bool" where
  "claim_bound c \<longleftrightarrow> \<not> blank (sc_claim_id c) \<and> sc_command c \<noteq> [] \<and> [] \<notin> set (sc_command c) \<and>
     sc_results_reporter c \<in> set known_reporters \<and>
     (case sc_results_artifact c of None \<Rightarrow> True
      | Some a \<Rightarrow> a \<noteq> [] \<and> stays_below a \<and> names_artifact (sc_results_reporter c) (sc_command c) a) \<and>
     (case sc_qualification_report c of None \<Rightarrow> True
      | Some r \<Rightarrow> sc_results_artifact c = None \<and> stays_below r \<and> ''--report='' @ r \<in> set (sc_command c)) \<and>
     (if sc_results_reporter c \<in> set JUNIT_REPORTERS then sc_results_manifest c = None
      else sc_results_artifact c \<noteq> None \<and> sc_results_manifest c \<noteq> None \<and> runs_no_script (sc_command c))"

lemma claim_command_Inr: "claim_command g c entry = Inr command \<Longrightarrow> command \<noteq> [] \<and> [] \<notin> set command"
  by (auto simp: claim_command_def Let_def list_all_iff split: option.split_asm) fastforce

lemma claim_reporter_Inr:
  assumes "claim_reporter entry = Inr r"
  shows "r \<in> set known_reporters" and "r \<noteq> ''pytest-junit'' \<Longrightarrow> yget entry ''results_artifact'' \<noteq> None"
  using assms by (auto simp: claim_reporter_def Let_def split: option.split_asm)

lemma claim_artifact_Inr:
  assumes "claim_artifact g c reporter command entry = Inr (Some a)" "reporter \<in> set known_reporters"
  shows "a \<noteq> [] \<and> stays_below a \<and> names_artifact reporter command a \<and>
    (reporter \<in> set SARIF_ARGV_REPORTERS \<longrightarrow> runs_no_script command)"
  using assms bind_artifact_Inr by (auto simp: claim_artifact_def bind_Inr_iff split: option.split_asm)

lemma claim_artifact_None: "claim_artifact g c reporter command entry = Inr None \<Longrightarrow> yget entry ''results_artifact'' = None"
  by (auto simp: claim_artifact_def bind_Inr_iff split: option.split_asm)

lemma claim_manifest_Inr:
  "claim_manifest g c reporter entry = Inr m \<Longrightarrow> (m \<noteq> None \<longleftrightarrow> reporter \<in> set SARIF_ARGV_REPORTERS)"
  by (auto simp: claim_manifest_def bind_Inr_iff split: option.split_asm)

lemma claim_report_Inr:
  "claim_report g c command artifact entry = Inr (Some r) \<Longrightarrow> artifact = None \<and> stays_below r \<and> ''--report='' @ r \<in> set command"
  by (auto simp: claim_report_def bind_Inr_iff split: option.split_asm)

lemma claim_definition_bound:
  assumes "claim_definition g entry = Inr c"
  shows "claim_bound c"
proof -
  obtain command reporter artifact manifest report where
    parts: "claim_command g (sc_claim_id c) entry = Inr command" "claim_reporter entry = Inr reporter"
      "claim_artifact g (sc_claim_id c) reporter command entry = Inr artifact"
      "claim_manifest g (sc_claim_id c) reporter entry = Inr manifest"
      "claim_report g (sc_claim_id c) command artifact entry = Inr report"
    and id: "\<not> blank (sc_claim_id c)"
    and c: "sc_command c = command" "sc_results_reporter c = reporter" "sc_results_artifact c = artifact"
      "sc_results_manifest c = manifest" "sc_qualification_report c = report"
    using assms by (auto simp: claim_definition_def Let_def bind_Inr_iff split: option.split_asm)
  have "reporter \<in> set SARIF_ARGV_REPORTERS \<Longrightarrow> reporter \<noteq> ''pytest-junit''"
    by (auto simp: SARIF_ARGV_REPORTERS_def SCAN_REPORTERS_def REVIEW_REPORTER_def ANTISLOP_REPORTERS_def)
  then have "reporter \<in> set SARIF_ARGV_REPORTERS \<Longrightarrow> artifact \<noteq> None"
    using claim_reporter_Inr(2) [OF parts(2)] claim_artifact_None [of g "sc_claim_id c" reporter command entry] parts(3) by (cases artifact) auto
  moreover have "a \<noteq> [] \<and> stays_below a \<and> names_artifact reporter command a \<and>
      (reporter \<in> set SARIF_ARGV_REPORTERS \<longrightarrow> runs_no_script command)" if "artifact = Some a" for a
    using claim_artifact_Inr claim_reporter_Inr(1) [OF parts(2)] parts(3) that by blast
  moreover have "reporter \<in> set JUNIT_REPORTERS \<longleftrightarrow> reporter \<notin> set SARIF_ARGV_REPORTERS"
    using claim_reporter_Inr(1) [OF parts(2)]
    by (auto simp: SARIF_ARGV_REPORTERS_def SCAN_REPORTERS_def REVIEW_REPORTER_def ANTISLOP_REPORTERS_def
        known_reporters_def JUNIT_REPORTERS_def)
  moreover have "artifact = None \<and> stays_below r \<and> ''--report='' @ r \<in> set command" if "report = Some r" for r
    using claim_report_Inr parts(5) that by blast
  ultimately show ?thesis
    using id claim_command_Inr [OF parts(1)] claim_reporter_Inr(1) [OF parts(2)] claim_manifest_Inr [OF parts(4)]
    by (auto simp: claim_bound_def c split: option.split)
qed

lemma load_gate_Inr:
  assumes "load_gate_text yl text gate_id = Inr d"
  obtains claims where "gate_claims gate_id claims = Inr (sg_required_claims d)" "claims \<noteq> []"
    "sg_gate_id d = gate_id" "sg_blocking d"
proof -
  obtain entry where "gate_definition gate_id entry = Inr d"
    using assms by (auto simp: load_gate_text_def Let_def bind_Inr_iff)
  then obtain claims where "gate_claims gate_id claims = Inr (sg_required_claims d)" "claims \<noteq> []"
    and "sg_gate_id d = gate_id" "sg_blocking d"
    by (auto simp: gate_definition_def Let_def bind_Inr_iff split: option.split_asm)
  then show ?thesis by (rule that)
qed

lemma loaded_distinct: "load_gate_text yl text gate_id = Inr d \<Longrightarrow> distinct (map sc_claim_id (sg_required_claims d))"
  by (erule load_gate_Inr) (rule gate_claims_Inr(2))

text \<open>
  C9: A catalog that loads names one gate with the asked identity, blocking, with at least one claim
  and no claim twice. Every claim has a non-empty argv; an artifact it declares stays below the
  repository and is named by the argv in the spelling of the claim's reporter, for Vitest and for
  scanners with no other option that could override it; and a scanner's claim has an artifact and a
  frozen manifest, and its argv hands no script operand to an interpreter.
\<close>

theorem loaded_gate_bound:
  assumes "load_gate_text yl text gate_id = Inr d"
  shows "sg_gate_id d = gate_id \<and> sg_blocking d \<and> sg_required_claims d \<noteq> [] \<and>
    distinct (map sc_claim_id (sg_required_claims d)) \<and> list_all claim_bound (sg_required_claims d)"
proof -
  obtain claims where claims: "gate_claims gate_id claims = Inr (sg_required_claims d)" "claims \<noteq> []"
    and d: "sg_gate_id d = gate_id" "sg_blocking d"
    using load_gate_Inr [OF assms] .
  note required = gate_claims_Inr [OF claims]
  have "list_all claim_bound (sg_required_claims d)"
    using required(3) claim_definition_bound by (auto simp: list_all_iff list_all2_conv_all_nth in_set_conv_nth) blast
  then show ?thesis using d required by blast
qed

section \<open>Examples\<close>

definition demo_catalog :: yaml where
  "demo_catalog = YMap [(YAtom (VStr ''gates''), YSeq [YMap
     [(YAtom (VStr ''gate_id''), YAtom (VStr ''merge'')), (YAtom (VStr ''rule_id''), YAtom (VStr ''R1'')),
      (YAtom (VStr ''required_claims''), YSeq [YMap
         [(YAtom (VStr ''claim_id''), YAtom (VStr ''tests'')),
          (YAtom (VStr ''command''), YSeq (map (\<lambda>s. YAtom (VStr s)) [''make'', ''check'']))]])]])]"

definition demo_yaml :: yaml_library where
  "demo_yaml = \<lparr>yl_compose = (\<lambda>t. if t = ''gates'' then Inr demo_catalog else Inl (ValueError ''bad'')), yl_dump = yaml_repr\<rparr>"

definition demo_slice_claim :: slice_claim where
  "demo_slice_claim = \<lparr>sc_claim_id = ''tests'', sc_command = [''make'', ''check''], sc_results_artifact = None,
     sc_qualification_report = None, sc_results_reporter = ''pytest-junit'', sc_results_manifest = None\<rparr>"

definition demo_slice_gate :: slice_gate where
  "demo_slice_gate = \<lparr>sg_gate_id = ''merge'', sg_rule_id = ''R1'', sg_required_claims = [demo_slice_claim], sg_blocking = True,
     sg_requires_settings_binding = False\<rparr>"

lemma demo_gate_loads: "load_gate_text demo_yaml ''gates'' ''merge'' = Inr demo_slice_gate"
  by code_simp

text \<open>A gate with a pytest suite, a Vitest suite and a scanner run as a module.\<close>

definition claim_entry :: "string \<Rightarrow> string list \<Rightarrow> (string \<times> string) list \<Rightarrow> yaml" where
  "claim_entry name argv others =
     YMap ((YAtom (VStr ''claim_id''), YAtom (VStr name)) # (YAtom (VStr ''command''), YSeq (map (\<lambda>s. YAtom (VStr s)) argv)) #
       map (\<lambda>p. (YAtom (VStr (fst p)), YAtom (VStr (snd p)))) others)"

definition bound_catalog :: yaml where
  "bound_catalog = YMap [(YAtom (VStr ''gates''), YSeq [YMap
     [(YAtom (VStr ''gate_id''), YAtom (VStr ''merge'')), (YAtom (VStr ''rule_id''), YAtom (VStr ''R1'')),
      (YAtom (VStr ''required_claims''), YSeq [
         claim_entry ''tests'' [''pytest'', ''--junitxml=out/t.xml''] [(''results_artifact'', ''out/t.xml'')],
         claim_entry ''web'' [''vitest'', ''--reporter=junit'', ''--outputFile=out/w.xml'']
           [(''results_artifact'', ''out/w.xml''), (''results_reporter'', ''vitest-junit'')],
         claim_entry ''lint'' [''python3'', ''-W'', ''error'', ''-m'', ''ruff'', ''--output-format=sarif'', ''--output-file=out/l.sarif'']
           [(''results_artifact'', ''out/l.sarif''), (''results_reporter'', ''sarif-2.1.0''), (''results_manifest'', ''lint.json'')]])]])]"

definition bound_yaml :: yaml_library where
  "bound_yaml = \<lparr>yl_compose = (\<lambda>_. Inr bound_catalog), yl_dump = yaml_repr\<rparr>"

definition bound_lint :: slice_claim where
  "bound_lint = \<lparr>sc_claim_id = ''lint'', sc_command = [''python3'', ''-W'', ''error'', ''-m'', ''ruff'', ''--output-format=sarif'', ''--output-file=out/l.sarif''],
     sc_results_artifact = Some ''out/l.sarif'', sc_qualification_report = None, sc_results_reporter = ''sarif-2.1.0'',
     sc_results_manifest = Some ''lint.json''\<rparr>"

lemma bound_gate_loads:
  obtains d where "load_gate_text bound_yaml [] ''merge'' = Inr d" "map sc_claim_id (sg_required_claims d) = [''tests'', ''web'', ''lint'']"
    "sg_required_claims d ! 2 = bound_lint" "sc_results_artifact (sg_required_claims d ! 1) = Some ''out/w.xml''"
proof -
  have "case load_gate_text bound_yaml [] ''merge'' of Inl _ \<Rightarrow> False
    | Inr d \<Rightarrow> map sc_claim_id (sg_required_claims d) = [''tests'', ''web'', ''lint''] \<and>
        sg_required_claims d ! 2 = bound_lint \<and> sc_results_artifact (sg_required_claims d ! 1) = Some ''out/w.xml''"
    by code_simp
  then show thesis by (cases "load_gate_text bound_yaml [] ''merge''") (simp_all only: sum.case, elim conjE, rule that)
qed

theorem loaded_gate_bound_witness:
  "\<exists>d. load_gate_text bound_yaml [] ''merge'' = Inr d \<and> map sc_claim_id (sg_required_claims d) = [''tests'', ''web'', ''lint''] \<and>
     claim_bound (sg_required_claims d ! 1) \<and> sc_results_artifact (sg_required_claims d ! 1) = Some ''out/w.xml'' \<and>
     claim_bound bound_lint \<and> runs_no_script (sc_command bound_lint)"
proof -
  obtain d where d: "load_gate_text bound_yaml [] ''merge'' = Inr d" "map sc_claim_id (sg_required_claims d) = [''tests'', ''web'', ''lint'']"
    "sg_required_claims d ! 2 = bound_lint" "sc_results_artifact (sg_required_claims d ! 1) = Some ''out/w.xml''"
    by (rule bound_gate_loads)
  have "length (sg_required_claims d) = length [''tests'', ''web'', ''lint'']" using arg_cong [OF d(2), of length] by (simp only: length_map)
  then have n: "length (sg_required_claims d) = 3" by simp
  have b: "claim_bound (sg_required_claims d ! i)" if "i < 3" for i
    using loaded_gate_bound [OF d(1)] that n by (auto simp: list_all_length)
  have "claim_bound (sg_required_claims d ! 1)" by (rule b) simp
  moreover have "claim_bound bound_lint" unfolding d(3) [symmetric] by (rule b) simp
  moreover then have "runs_no_script (sc_command bound_lint)" by (simp add: claim_bound_def bound_lint_def JUNIT_REPORTERS_def)
  ultimately show ?thesis by (intro exI [of _ d] conjI d)
qed

theorem xfail_argv_accepted_iff_witness: "\<exists>i. strict_at [''pytest'', ''-o'', ''xfail_strict=true'', ''--'', ''tests''] i"
proof -
  have "reject_pytest_xfail_blindness ''merge'' ''tests'' [''pytest'', ''-o'', ''xfail_strict=true'', ''--'', ''tests''] = Inr ()"
    by code_simp
  then show ?thesis using xfail_argv_accepted_iff by blast
qed

end
