(* ===== verification/Composition.thy ===== *)
theory Composition
  imports Gate_Catalog Journal
begin

text \<open>
  The composition root (\<^verbatim>\<open>src/src/ranex/bootstrap/composition.py\<close>): from the committed bytes of the
  gate catalog and of the manifests to the gate of the kernel, its verdict, and the row of the journal.
  The journal at the configured path is part of the evaluator's state. Shown: a PASS stands on the
  claims of the catalog bytes, each with a satisfying record for exactly the argv the catalog names, and
  every verdict, passing or failing, is the last record of the journal whose head is returned.
\<close>

section \<open>Building the gate\<close>

record gate_evaluator =
  ge_gate_catalog :: bytes
  ge_journal :: "journal option"
  ge_suite_manifest :: "bytes option"
  ge_scan_manifests :: "(string \<times> bytes) list"

definition build_gate_evaluator :: "bytes \<Rightarrow> journal option \<Rightarrow> bytes option \<Rightarrow> (string \<times> bytes) list option \<Rightarrow> gate_evaluator" where
  "build_gate_evaluator gate_catalog journal_at suite_manifest scan_manifests =
     \<lparr>ge_gate_catalog = gate_catalog, ge_journal = journal_at, ge_suite_manifest = suite_manifest,
      ge_scan_manifests = (case scan_manifests of None \<Rightarrow> [] | Some m \<Rightarrow> m)\<rparr>"

definition catalog_digest_for :: "(bytes \<Rightarrow> bytes) \<Rightarrow> bytes \<Rightarrow> string" where
  "catalog_digest_for sha gate_catalog = tagged sha gate_catalog"

definition load_gate_bytes :: "yaml_library \<Rightarrow> bytes \<Rightarrow> string \<Rightarrow> slice_gate result" where
  "load_gate_bytes yl gate_catalog gate_id =
     ensure (utf8_ok gate_catalog) (ValueError ''codec can't decode bytes'') (load_gate_text yl gate_catalog gate_id)"

definition claim_definition_for :: "yaml_library \<Rightarrow> bytes \<Rightarrow> string \<Rightarrow> string \<Rightarrow> slice_claim option result" where
  "claim_definition_for yl gate_catalog gate_id claim_id =
     bind (load_gate_bytes yl gate_catalog gate_id) (\<lambda>d.
     Inr (find (\<lambda>c. sc_claim_id c = claim_id) (sg_required_claims d)))"

text \<open>The committed bytes a claim's artifact is reduced against.\<close>

definition manifest_bytes :: "gate_evaluator \<Rightarrow> slice_claim \<Rightarrow> bytes result" where
  "manifest_bytes ge c =
     (case sc_results_manifest c of
        Some name \<Rightarrow>
          (case map_of (ge_scan_manifests ge) name of
             None \<Rightarrow> Inl (ValueError (''claim '' @ repr_str (sc_claim_id c) @ '' requires the committed bytes of '' @ name))
           | Some raw \<Rightarrow> Inr raw)
      | None \<Rightarrow>
          (case ge_suite_manifest ge of
             None \<Rightarrow> Inl (ValueError ''suite-results claim requires a committed suite manifest'')
           | Some raw \<Rightarrow> Inr raw))"

type_synonym expectation = "string \<times> string list \<times> (string \<times> string) list"

text \<open>The entry of the table of expectations, keyed by the claims' distinct identities.\<close>

definition claim_expectation :: "(bytes \<Rightarrow> bytes) \<Rightarrow> gate_evaluator \<Rightarrow> slice_claim \<Rightarrow> (string \<times> expectation) result" where
  "claim_expectation sha ge c =
     bind (manifest_bytes ge c) (\<lambda>raw.
     bind (claim_expectations sha raw (sc_results_reporter c)) (\<lambda>frozen. Inr (sc_claim_id c, frozen)))"

definition claims_expectations :: "(bytes \<Rightarrow> bytes) \<Rightarrow> gate_evaluator \<Rightarrow> slice_gate \<Rightarrow> (string \<times> expectation) list result" where
  "claims_expectations sha ge d =
     map_result (claim_expectation sha ge) (filter (\<lambda>c. sc_results_artifact c \<noteq> None) (sg_required_claims d))"

definition reject_blind_claims :: "slice_gate \<Rightarrow> unit result" where
  "reject_blind_claims d =
     for_each (\<lambda>c. reject_pytest_xfail_blindness (sg_gate_id d) (sc_claim_id c) (sc_command c))
       (filter (\<lambda>c. sc_results_artifact c \<noteq> None \<and> sc_results_reporter c = ''pytest-junit'') (sg_required_claims d))"

definition kernel_claim :: "(bytes \<Rightarrow> bytes) \<Rightarrow> (string \<times> expectation) list \<Rightarrow> slice_claim \<Rightarrow> claim result" where
  "kernel_claim sha expectations c =
     bind (slice_claim_digest sha c) (\<lambda>digest.
     let frozen = map_of expectations (sc_claim_id c);
         built = \<lparr>c_claim_id = sc_claim_id c, c_command_digest = digest, c_results_required = (sc_results_artifact c \<noteq> None),
           c_manifest_digest = map_option fst frozen, c_expected_ids = map_option (\<lambda>f. fst (snd f)) frozen,
           c_expected_skips = map_option (\<lambda>f. snd (snd f)) frozen\<rparr> in
     bind (claim_post_init built) (\<lambda>_. Inr built))"

definition kernel_gate :: "(bytes \<Rightarrow> bytes) \<Rightarrow> gate_evaluator \<Rightarrow> slice_gate \<Rightarrow> gate result" where
  "kernel_gate sha ge d =
     bind (claims_expectations sha ge d) (\<lambda>expectations.
     bind (reject_blind_claims d) (\<lambda>_.
     bind (map_result (kernel_claim sha expectations) (sg_required_claims d)) (\<lambda>claims.
     let built = \<lparr>g_gate_id = sg_gate_id d, g_rule_id = sg_rule_id d, g_required_claims = claims, g_blocking = sg_blocking d\<rparr> in
     bind (gate_post_init built) (\<lambda>_. Inr built))))"

section \<open>Evaluating it\<close>

definition SUBJECT_LANE :: string where
  "SUBJECT_LANE = ''PRE_READINESS_PRODUCT_SLICE''"

definition record_evaluation :: "(bytes \<Rightarrow> bytes) \<Rightarrow> journal option \<Rightarrow> evaluation \<Rightarrow> (string option \<times> journal option) result" where
  "record_evaluation sha journal_at r =
     (case journal_at of
        None \<Rightarrow> Inr (None, None)
      | Some j \<Rightarrow> bind (journal_append_evaluation sha j r) (\<lambda>(link, j'). Inr (Some link, Some j')))"

definition evaluate_anchored :: "(bytes \<Rightarrow> bytes) \<Rightarrow> yaml_library \<Rightarrow> gate_evaluator \<Rightarrow> string \<Rightarrow> evidence list \<Rightarrow> string \<Rightarrow> string \<Rightarrow>
    bool \<Rightarrow> (evaluation \<times> string option \<times> gate_evaluator) result" where
  "evaluate_anchored sha yl ge gate_id evidence subject_digest approver_id settings_binding_verified =
     (let catalog_digest = catalog_digest_for sha (ge_gate_catalog ge) in
      bind (load_gate_bytes yl (ge_gate_catalog ge) gate_id) (\<lambda>d.
      ensure (sg_requires_settings_binding d \<longrightarrow> settings_binding_verified)
        (ValueError (''gate '' @ repr_str gate_id @ '': settings binding requires the CLI admission path'')) (
      bind (kernel_gate sha ge d) (\<lambda>g.
      bind (evaluate g evidence subject_digest SUBJECT_LANE (Some catalog_digest) approver_id) (\<lambda>r.
      bind (record_evaluation sha (ge_journal ge) r) (\<lambda>(head_link, journal_at).
      Inr (r, head_link, ge\<lparr>ge_journal := journal_at\<rparr>)))))))"

definition evaluator_evaluate :: "(bytes \<Rightarrow> bytes) \<Rightarrow> yaml_library \<Rightarrow> gate_evaluator \<Rightarrow> string \<Rightarrow> evidence list \<Rightarrow> string \<Rightarrow> string \<Rightarrow>
    bool \<Rightarrow> (evaluation \<times> gate_evaluator) result" where
  "evaluator_evaluate sha yl ge gate_id evidence subject_digest approver_id settings_binding_verified =
     bind (evaluate_anchored sha yl ge gate_id evidence subject_digest approver_id settings_binding_verified)
       (\<lambda>(r, head_link, ge'). Inr (r, ge'))"

section \<open>What a verdict stands on\<close>

lemma list_all2_left: "list_all2 P xs ys \<Longrightarrow> x \<in> set xs \<Longrightarrow> \<exists>y \<in> set ys. P x y"
  by (induction rule: list_all2_induct) auto

lemma list_all2_right: "list_all2 P xs ys \<Longrightarrow> y \<in> set ys \<Longrightarrow> \<exists>x \<in> set xs. P x y"
  by (induction rule: list_all2_induct) auto

lemma kernel_claim_Inr:
  assumes "kernel_claim sha expectations c = Inr k"
  shows "c_claim_id k = sc_claim_id c" and "command_digest sha (sc_command c) = Inr (c_command_digest k)"
    and "c_results_required k \<longleftrightarrow> sc_results_artifact c \<noteq> None" and "claim_post_init k = Inr ()"
    and "map_of expectations (sc_claim_id c) = Some (md, ids, skips) \<Longrightarrow>
      c_manifest_digest k = Some md \<and> c_expected_ids k = Some ids \<and> c_expected_skips k = Some skips"
  using assms by (auto simp: kernel_claim_def slice_claim_digest_def Let_def bind_Inr_iff)

lemma kernel_gate_Inr:
  assumes "kernel_gate sha ge d = Inr g"
  obtains expectations where "claims_expectations sha ge d = Inr expectations" "reject_blind_claims d = Inr ()"
    "list_all2 (\<lambda>c k. kernel_claim sha expectations c = Inr k) (sg_required_claims d) (g_required_claims g)"
    "g_gate_id g = sg_gate_id d" "gate_post_init g = Inr ()"
  using assms by (auto simp: kernel_gate_def Let_def bind_Inr_iff map_result_Inr_iff)

lemma kernel_gate_ok: "kernel_gate sha ge d = Inr g \<Longrightarrow> gate_ok g"
  by (elim kernel_gate_Inr) (auto simp: gate_ok_def list_all_iff dest: list_all2_right kernel_claim_Inr(4))

lemma claims_expectations_lookup:
  assumes "claims_expectations sha ge d = Inr expectations" and "distinct (map sc_claim_id (sg_required_claims d))"
    and "c \<in> set (sg_required_claims d)" "sc_results_artifact c \<noteq> None"
  shows "\<exists>raw frozen. manifest_bytes ge c = Inr raw \<and> claim_expectations sha raw (sc_results_reporter c) = Inr frozen \<and>
    map_of expectations (sc_claim_id c) = Some frozen"
proof -
  let ?cs = "filter (\<lambda>c. sc_results_artifact c \<noteq> None) (sg_required_claims d)"
  have all: "list_all2 (\<lambda>c p. claim_expectation sha ge c = Inr p) ?cs expectations"
    using assms(1) by (simp add: claims_expectations_def map_result_Inr_iff)
  then have "map fst expectations = map sc_claim_id ?cs"
    by (induction rule: list_all2_induct) (auto simp: claim_expectation_def bind_Inr_iff)
  then have "distinct (map fst expectations)" using assms(2) by (simp add: distinct_map_filter)
  moreover obtain p where "p \<in> set expectations" "claim_expectation sha ge c = Inr p"
    using list_all2_left [OF all, of c] assms(3,4) by auto
  ultimately show ?thesis by (auto simp: claim_expectation_def bind_Inr_iff intro: map_of_is_SomeI)
qed

lemma evaluate_anchored_Inr:
  assumes "evaluate_anchored sha yl ge gate_id ev sd approver settings = Inr (r, h, ge')"
  obtains d g where "load_gate_text yl (ge_gate_catalog ge) gate_id = Inr d"
    "sg_requires_settings_binding d \<longrightarrow> settings" "kernel_gate sha ge d = Inr g"
    "evaluate g ev sd SUBJECT_LANE (Some (catalog_digest_for sha (ge_gate_catalog ge))) approver = Inr r"
    "record_evaluation sha (ge_journal ge) r = Inr (h, ge_journal ge')"
  using assms by (auto simp: evaluate_anchored_def load_gate_bytes_def Let_def bind_Inr_iff)

lemma evaluate_verdict:
  assumes "evaluate g ev sd lane cat approver = Inr r"
  shows "ev_verdict r = PASS \<longleftrightarrow> (\<forall>e \<in> set ev. e_producer_id e \<noteq> approver) \<and> (\<forall>c \<in> set (g_required_claims g). cleared c ev sd)"
  using assms by (auto simp: evaluate_def Let_def self_approved_Nil missing_ids_Nil bind_Inr_iff simp del: sorted_set_Nil_iff split: if_splits)

lemma evaluate_base:
  assumes "evaluate g ev sd lane cat approver = Inr r"
  shows "ev_catalog_digest r = cat \<and> ev_gate_id r = g_gate_id g \<and> ev_subject_digest r = sd \<and> ev_approver_id r = approver"
  using assms by (auto simp: evaluate_def Let_def bind_Inr_iff split: if_splits)

text \<open>A record that carries out a claim of the catalog: its argv, its subject, exit 0, and for a claim
  with an artifact a summary against the committed manifest in which no frozen ID is missing or offends.\<close>

definition carries_out :: "(bytes \<Rightarrow> bytes) \<Rightarrow> gate_evaluator \<Rightarrow> string \<Rightarrow> slice_claim \<Rightarrow> evidence \<Rightarrow> bool" where
  "carries_out sha ge sd c e \<longleftrightarrow>
     e_claim_id e = sc_claim_id c \<and> e_subject_digest e = sd \<and> command_digest sha (sc_command c) = Inr (e_command_digest e) \<and>
     e_exit_code e = 0 \<and>
     (sc_results_artifact c = None \<or>
      (case bind (manifest_bytes ge c) (\<lambda>raw. claim_expectations sha raw (sc_results_reporter c)) of
         Inl _ \<Rightarrow> False
       | Inr (md, ids, skips) \<Rightarrow>
           (case e_suite_results e of
              None \<Rightarrow> False
            | Some s \<Rightarrow>
                sr_manifest_digest s = md \<and> list_all (\<lambda>i. i \<notin> set ids) (sr_missing s) \<and>
                list_all (\<lambda>p. fst p \<notin> set ids \<or> snd p = ''skipped'' \<and> fst p \<in> fst ` set skips) (sr_non_passed s))))"

lemma satisfies_carries_out:
  assumes k: "kernel_claim sha expectations c = Inr k"
    and look: "sc_results_artifact c \<noteq> None \<Longrightarrow> \<exists>raw frozen. manifest_bytes ge c = Inr raw \<and>
      claim_expectations sha raw (sc_results_reporter c) = Inr frozen \<and> map_of expectations (sc_claim_id c) = Some frozen"
  shows "satisfies e k sd \<longleftrightarrow> carries_out sha ge sd c e"
proof (cases "sc_results_artifact c")
  case None
  then show ?thesis
    using kernel_claim_Inr(1-3) [OF k] by (auto simp: satisfies_def carries_out_def addresses_def)
next
  case (Some a)
  then obtain raw md ids skips where e: "manifest_bytes ge c = Inr raw"
    "claim_expectations sha raw (sc_results_reporter c) = Inr (md, ids, skips)" "map_of expectations (sc_claim_id c) = Some (md, ids, skips)"
    using look by (metis option.distinct(1) prod_cases3)
  then show ?thesis
    using kernel_claim_Inr(1-3) [OF k] kernel_claim_Inr(5) [OF k e(3)] Some
    by (cases "e_suite_results e")
      (auto simp: satisfies_def carries_out_def addresses_def offenders_def claim_ids_def claim_skips_def filter_empty_conv list_all_iff)
qed

text \<open>A claim of the catalog is carried out by some record and by every record that speaks of it.\<close>

definition claim_carried_out :: "(bytes \<Rightarrow> bytes) \<Rightarrow> gate_evaluator \<Rightarrow> string \<Rightarrow> evidence list \<Rightarrow> slice_claim \<Rightarrow> bool" where
  "claim_carried_out sha ge sd ev c \<longleftrightarrow>
     (\<exists>e \<in> set ev. carries_out sha ge sd c e) \<and>
     (\<forall>e \<in> set ev. e_claim_id e = sc_claim_id c \<and> e_subject_digest e = sd \<and>
        command_digest sha (sc_command c) = Inr (e_command_digest e) \<longrightarrow> carries_out sha ge sd c e)"

lemma kernel_claim_cleared:
  assumes "claims_expectations sha ge d = Inr expectations" and "distinct (map sc_claim_id (sg_required_claims d))"
    and "c \<in> set (sg_required_claims d)" and k: "kernel_claim sha expectations c = Inr k"
  shows "cleared k ev sd \<longleftrightarrow> claim_carried_out sha ge sd ev c"
proof -
  have "satisfies e k sd \<longleftrightarrow> carries_out sha ge sd c e" for e
    using satisfies_carries_out [OF k] claims_expectations_lookup [OF assms(1-3)] by blast
  then show ?thesis
    using kernel_claim_Inr(1,2) [OF k] by (auto simp: cleared_def claim_carried_out_def addresses_def)
qed

text \<open>
  A verdict of the wired evaluator stands on the catalog bytes it was given: it is PASS exactly when
  no evidence is by the approver and every claim that the bytes define is carried out: the argv of the
  catalog, the judged subject, exit 0, and no missing or offending ID of the committed manifest. An
  argv of pytest that could hide an unexpected pass never gets that far.
\<close>

lemma anchored_verdict:
  assumes "evaluate_anchored sha yl ge gate_id ev sd approver settings = Inr (r, h, ge')"
    and d: "load_gate_text yl (ge_gate_catalog ge) gate_id = Inr d"
  shows "ev_verdict r = PASS \<longleftrightarrow> (\<forall>e \<in> set ev. e_producer_id e \<noteq> approver) \<and>
      (\<forall>c \<in> set (sg_required_claims d). claim_carried_out sha ge sd ev c)"
    and "\<forall>c \<in> set (sg_required_claims d). sc_results_artifact c \<noteq> None \<and> sc_results_reporter c = ''pytest-junit'' \<longrightarrow>
      (\<exists>i. strict_at (sc_command c) i)"
proof -
  obtain g where g: "kernel_gate sha ge d = Inr g"
    and r: "evaluate g ev sd SUBJECT_LANE (Some (catalog_digest_for sha (ge_gate_catalog ge))) approver = Inr r"
    using evaluate_anchored_Inr [OF assms(1)] d by (metis Inr_inject)
  obtain expectations where ex: "claims_expectations sha ge d = Inr expectations" "reject_blind_claims d = Inr ()"
    "list_all2 (\<lambda>c k. kernel_claim sha expectations c = Inr k) (sg_required_claims d) (g_required_claims g)"
    using kernel_gate_Inr [OF g] by metis
  note clears = kernel_claim_cleared [OF ex(1) loaded_distinct [OF d], of _ _ ev sd]
  have "(\<forall>k \<in> set (g_required_claims g). cleared k ev sd) \<longleftrightarrow> (\<forall>c \<in> set (sg_required_claims d). claim_carried_out sha ge sd ev c)"
    using list_all2_left [OF ex(3)] list_all2_right [OF ex(3)] clears by metis
  then show "ev_verdict r = PASS \<longleftrightarrow> (\<forall>e \<in> set ev. e_producer_id e \<noteq> approver) \<and>
      (\<forall>c \<in> set (sg_required_claims d). claim_carried_out sha ge sd ev c)"
    using evaluate_verdict [OF r] by simp
  show "\<forall>c \<in> set (sg_required_claims d). sc_results_artifact c \<noteq> None \<and> sc_results_reporter c = ''pytest-junit'' \<longrightarrow>
      (\<exists>i. strict_at (sc_command c) i)"
    using ex(2) accepted_strict by (auto simp: reject_blind_claims_def for_each_Inr_iff)
qed

lemma as_record_plain: "plain_record (as_record r)"
proof -
  have "no_float (opt_str v)" "wf_val (opt_str v)" "no_float (str_list xs)" "wf_val (str_list xs)"
    "no_float (cause_record c)" "wf_val (cause_record c)" for v xs c
    by (auto simp: opt_str_def str_list_def cause_record_def split: option.split)
  then show ?thesis by (auto simp: plain_record_def as_record_def)
qed

text \<open>
  No verdict escapes the journal. With a journal that verifies, every evaluation that returns, PASS
  or FAIL, has appended itself as the last record and nothing else; the journal still verifies, its
  head is the link that is returned for the published record to sign, and the recorded evaluation names
  the gate, the subject and the digest of the very catalog bytes that were parsed.
\<close>

lemma anchored_recorded:
  assumes "evaluate_anchored sha yl ge gate_id ev sd approver settings = Inr (r, h, ge')"
    and "ge_journal ge = Some j" and "verify sha j None" and "entries j = Inr rs"
  shows "\<exists>link j'. h = Some link \<and> ge_journal ge' = Some j' \<and> verify sha j' (Some link) \<and>
    entries j' = Inr (rs @ [sort_keys (as_record r)]) \<and>
    ev_gate_id r = gate_id \<and> ev_subject_digest r = sd \<and> ev_approver_id r = approver \<and>
    ev_catalog_digest r = Some (catalog_digest_for sha (ge_gate_catalog ge))"
  using assms(1)
proof (rule evaluate_anchored_Inr)
  fix d g
  assume d: "load_gate_text yl (ge_gate_catalog ge) gate_id = Inr d" and g: "kernel_gate sha ge d = Inr g"
    and r: "evaluate g ev sd SUBJECT_LANE (Some (catalog_digest_for sha (ge_gate_catalog ge))) approver = Inr r"
    and rec: "record_evaluation sha (ge_journal ge) r = Inr (h, ge_journal ge')"
  obtain link j' where j': "append_record sha j (as_record r) = Inr (link, j')" "h = Some link" "ge_journal ge' = Some j'"
    using rec assms(2) by (auto simp: record_evaluation_def journal_append_evaluation_def bind_Inr_iff)
  have "g_gate_id g = gate_id" using kernel_gate_Inr [OF g] load_gate_Inr [OF d] by metis
  then show ?thesis
    using j' evaluate_base [OF r] append_extends_verified_journal [OF assms(3) as_record_plain j'(1)] assms(4) by auto
qed

section \<open>Examples\<close>

definition demo_argv_digest :: string where
  "demo_argv_digest = (case command_digest pad_sha [''make'', ''check''] of Inr d \<Rightarrow> d | Inl _ \<Rightarrow> [])"

definition demo_evaluator :: gate_evaluator where
  "demo_evaluator = build_gate_evaluator ''gates'' (Some empty_journal) None None"

definition demo_kernel_gate :: gate where
  "demo_kernel_gate = \<lparr>g_gate_id = ''merge'', g_rule_id = ''R1'', g_required_claims =
     [\<lparr>c_claim_id = ''tests'', c_command_digest = demo_argv_digest, c_results_required = False, c_manifest_digest = None,
       c_expected_ids = None, c_expected_skips = None\<rparr>], g_blocking = True\<rparr>"

lemma demo_kernel_gate_Inr: "kernel_gate pad_sha demo_evaluator demo_slice_gate = Inr demo_kernel_gate"
  by code_simp

end
