(* ===== verification/Gate_Command.thy ===== *)
theory Gate_Command
  imports Composition Admission_Filters History Verdict_Record
begin

text \<open>
  The command \<^verbatim>\<open>ranex gate evaluate\<close> (\<open>cmd_gate_evaluate\<close> of \<^verbatim>\<open>src/src/ranex/cli/main.py\<close>) from its
  arguments to its exit code: the trust root out of the commit, the approver's key, admission of the
  anchored history, the wired evaluator, the journal, the projected verdict and its publication. The
  repository, the environment and the clock-like inputs (live host state, settings, key files) are
  arguments. Shown: what an exit code of 0 or 1 stands on, end to end, and that no other exit is
  reported as a judgement.
\<close>

section \<open>The trust root\<close>





section \<open>Admission\<close>






section \<open>The command\<close>






















section \<open>What an exit code stands on\<close>










section \<open>Example\<close>



















end
